(* ===== verification/Xuper_Base.thy ===== *)
theory Xuper_Base
  imports Main "HOL-Library.Char_ord" "HOL-Library.List_Lexorder" "HOL-Library.Signed_Division"
    "HOL-Library.Multiset"
begin

text \<open>
  The prelude of the development: the Go values every component uses (byte slices with
  \<open>nil\<close>, wrapping 64-bit integers, truncating division, results that may be an error or a
  panic), the hexadecimal printing of ids that the code uses as map keys, and the generic
  list and map lemmas that the component theories share.
\<close>

section \<open>Go values\<close>

subsection \<open>Byte slices and strings\<close>

text \<open>
  A Go \<open>string\<close> and a non-nil \<open>[]byte\<close> are lists of bytes; a HOL \<open>char\<close> is exactly one
  byte. A \<open>[]byte\<close> that may be \<open>nil\<close> is an \<open>option\<close>: \<open>bytes.Equal\<close> and the printing of ids
  identify \<open>nil\<close> with the empty slice, the comparison with \<open>nil\<close> does not.
\<close>

type_synonym bytes = string
type_synonym slice = "bytes option"

named_theorems go_simps \<open>unfolding rules of the Go primitives\<close>

definition contents :: "slice \<Rightarrow> bytes" where
  "contents s = (case s of None \<Rightarrow> [] | Some b \<Rightarrow> b)"

text \<open>The elements a \<open>range\<close> loop sees of a slice that may be nil.\<close>

definition contents_list :: "'a list option \<Rightarrow> 'a list" where
  "contents_list s = (case s of None \<Rightarrow> [] | Some xs \<Rightarrow> xs)"

lemma contents_list_simps [simp]: "contents_list None = []" "contents_list (Some xs) = xs"
  by (simp_all add: contents_list_def)

definition bytes_equal :: "slice \<Rightarrow> slice \<Rightarrow> bool" where
  "bytes_equal a b \<longleftrightarrow> contents a = contents b"

lemma contents_simps [simp]: "contents None = []" "contents (Some b) = b"
  by (simp_all add: contents_def)

lemma bytes_equal_refl [simp]: "bytes_equal a a"
  by (simp add: bytes_equal_def)

lemma bytes_equal_sym: "bytes_equal a b \<Longrightarrow> bytes_equal b a"
  by (simp add: bytes_equal_def)

lemma bytes_equal_trans [trans]: "bytes_equal a b \<Longrightarrow> bytes_equal b c \<Longrightarrow> bytes_equal a c"
  by (simp add: bytes_equal_def)

subsection \<open>64-bit integers\<close>

text \<open>
  An \<open>int64\<close> is an integer in \<open>[-2^63, 2^63)\<close>; \<open>i64\<close> is the wrap-around of an arithmetic
  result into that range.
\<close>

definition i64 :: "int \<Rightarrow> int" where
  "i64 x = (x + 2 ^ 63) mod 2 ^ 64 - 2 ^ 63"

definition is_i64 :: "int \<Rightarrow> bool" where
  "is_i64 x \<longleftrightarrow> - (2 ^ 63) \<le> x \<and> x < 2 ^ 63"

lemma i64_id: "is_i64 x \<Longrightarrow> i64 x = x"
  by (simp add: i64_def is_i64_def)

lemma is_i64_i64 [simp]: "is_i64 (i64 x)"
proof -
  have "0 \<le> (x + 2 ^ 63) mod 2 ^ 64" and "(x + 2 ^ 63) mod 2 ^ 64 < 2 ^ 64"
    by simp_all
  then show ?thesis unfolding i64_def is_i64_def by auto
qed

lemma i64_small [simp]: "\<bar>x\<bar> < 2 ^ 62 \<Longrightarrow> i64 x = x"
  by (rule i64_id) (auto simp: is_i64_def abs_less_iff)

lemma i64_numeral: "i64 0 = 0" "i64 1 = 1"
  by (simp_all add: i64_def)

text \<open>Go's \<open>/\<close> truncates towards zero; on non-negative operands it is \<open>div\<close>.\<close>

definition go_div :: "int \<Rightarrow> int \<Rightarrow> int" where
  "go_div a b = a sdiv b"

lemma go_div_nonneg: "0 \<le> a \<Longrightarrow> 0 \<le> b \<Longrightarrow> go_div a b = a div b"
  by (cases "a = 0 \<or> b = 0") (auto simp: go_div_def signed_divide_int_def sgn_if)

subsection \<open>Results\<close>

text \<open>
  A Go call that returns \<open>(value, error)\<close> or may panic: \<open>Ok\<close>, \<open>Err\<close> or \<open>Panic\<close> (a nil
  dereference, an index out of range, a division by zero).
\<close>

datatype ('e, 'a) result = Ok 'a | Err 'e | Panic

fun is_ok :: "('e, 'a) result \<Rightarrow> bool" where
  "is_ok (Ok _) = True"
| "is_ok _ = False"

fun bind_result :: "('e, 'a) result \<Rightarrow> ('a \<Rightarrow> ('e, 'b) result) \<Rightarrow> ('e, 'b) result" where
  "bind_result (Ok a) f = f a"
| "bind_result (Err e) f = Err e"
| "bind_result Panic f = Panic"

lemma bind_result_cong:
  "r = r' \<Longrightarrow> (\<And>a. r' = Ok a \<Longrightarrow> f a = g a) \<Longrightarrow> bind_result r f = bind_result r' g"
  by (cases r') auto

text \<open>A result that is no panic.\<close>

definition safe :: "('e, 'a) result \<Rightarrow> bool" where
  "safe r \<longleftrightarrow> r \<noteq> Panic"

lemma safe_simps [simp]: "safe (Ok a)" "safe (Err e)" "\<not> safe Panic"
  by (simp_all add: safe_def)

lemma safe_bind: "safe r \<Longrightarrow> (\<And>a. r = Ok a \<Longrightarrow> safe (f a)) \<Longrightarrow> safe (bind_result r f)"
  by (cases r) auto

lemma bind_result_Ok_iff:
  "bind_result r f = Ok b \<longleftrightarrow> (\<exists>a. r = Ok a \<and> f a = Ok b)"
  by (cases r) auto

subsection \<open>Hexadecimal printing of ids\<close>

text \<open>
  \<open>utils.F\<close> prints a byte slice with \<open>%x\<close>: two lower-case digits per byte. The consensus
  code keys its maps by this string.
\<close>

definition hex_digit :: "nat \<Rightarrow> char" where
  "hex_digit n = (if n < 10 then char_of (48 + n) else char_of (87 + n))"

definition hex_byte :: "char \<Rightarrow> string" where
  "hex_byte c = [hex_digit (of_char c div 16), hex_digit (of_char c mod 16)]"

definition utils_F :: "slice \<Rightarrow> string" where
  "utils_F b = concat (map hex_byte (contents b))"

lemma hex_digit_inj: "m < 16 \<Longrightarrow> n < 16 \<Longrightarrow> hex_digit m = hex_digit n \<Longrightarrow> m = n"
proof -
  assume "m < 16" and "n < 16" and "hex_digit m = hex_digit n"
  then have "(of_char (hex_digit m) :: nat) = of_char (hex_digit n)" by simp
  with \<open>m < 16\<close> \<open>n < 16\<close> show "m = n"
    by (auto simp: hex_digit_def split: if_splits)
qed

lemma hex_byte_inj: "hex_byte c = hex_byte d \<Longrightarrow> c = d"
proof -
  assume eq: "hex_byte c = hex_byte d"
  have lt: "(of_char x :: nat) < 256" for x :: char
    by (metis of_char_mod_256 mod_less_divisor zero_less_numeral)
  have "(of_char c :: nat) div 16 = of_char d div 16"
    using eq lt [of c] lt [of d]
    by (intro hex_digit_inj) (simp_all add: hex_byte_def less_mult_imp_div_less)
  moreover have "(of_char c :: nat) mod 16 = of_char d mod 16"
    using eq by (intro hex_digit_inj) (auto simp: hex_byte_def)
  ultimately have "(of_char c :: nat) = of_char d"
    by (metis div_mod_decomp)
  then show "c = d" by simp
qed

lemma hex_byte_length: "length (hex_byte c) = 2"
  by (simp add: hex_byte_def)

lemma concat_hex_inj: "concat (map hex_byte xs) = concat (map hex_byte ys) \<Longrightarrow> xs = ys"
proof (induction xs arbitrary: ys)
  case Nil
  then show ?case by (cases ys) (auto simp: hex_byte_def)
next
  case (Cons x xs)
  then obtain y ys' where ys: "ys = y # ys'"
    by (cases ys) (auto simp: hex_byte_def)
  with Cons.prems have "hex_byte x = hex_byte y"
    and "concat (map hex_byte xs) = concat (map hex_byte ys')"
    using hex_byte_length [of x] hex_byte_length [of y] by auto
  with Cons.IH ys show ?case by (auto dest: hex_byte_inj)
qed

lemma utils_F_eq_iff: "utils_F a = utils_F b \<longleftrightarrow> bytes_equal a b"
  by (auto simp: utils_F_def bytes_equal_def dest: concat_hex_inj)

subsection \<open>Decimal printing\<close>

fun show_nat :: "nat \<Rightarrow> string" where
  "show_nat n = (if n < 10 then [char_of (48 + n)] else show_nat (n div 10) @ [char_of (48 + n mod 10)])"

declare show_nat.simps [simp del]

definition digits_val :: "string \<Rightarrow> nat" where
  "digits_val ds = fold (\<lambda>d n. 10 * n + (of_char d - 48)) ds 0"

lemma digit_char: "d < 10 \<Longrightarrow> of_char (char_of (48 + d)) = 48 + (d :: nat)"
  by simp

lemma digits_val_show: "digits_val (show_nat n) = n"
proof (induction n rule: show_nat.induct)
  case (1 n)
  then show ?case
    by (subst show_nat.simps) (auto simp: digits_val_def)
qed

lemma show_nat_chars: "c \<in> set (show_nat n) \<Longrightarrow> 48 \<le> (of_char c :: nat)"
proof (induction n rule: show_nat.induct)
  case (1 n)
  then show ?case by (subst (asm) show_nat.simps) (auto split: if_splits)
qed

text \<open>
  \<open>strconv.Itoa\<close>, \<open>%d\<close> and \<open>big.Int.String\<close>, and the parsing that undoes them: an optional sign
  and at least one digit. \<open>ParseInt\<close> with 64 bits also refuses values out of range.
\<close>

definition itoa :: "int \<Rightarrow> string" where
  "itoa i = (if i < 0 then ''-'' @ show_nat (nat (- i)) else show_nat (nat i))"

definition parse_digits :: "string \<Rightarrow> nat option" where
  "parse_digits ds =
     (if ds \<noteq> [] \<and> list_all (\<lambda>d. 48 \<le> (of_char d :: nat) \<and> (of_char d :: nat) < 58) ds
      then Some (digits_val ds) else None)"

definition parse_int :: "string \<Rightarrow> int option" where
  "parse_int s =
     (case s of
        [] \<Rightarrow> None
      | c # cs \<Rightarrow>
          if c = CHR ''-'' then map_option (\<lambda>n. - int n) (parse_digits cs)
          else if c = CHR ''+'' then map_option int (parse_digits cs)
          else map_option int (parse_digits s))"

definition parse_i64 :: "string \<Rightarrow> int option" where
  "parse_i64 s = (case parse_int s of Some n \<Rightarrow> if is_i64 n then Some n else None | None \<Rightarrow> None)"

lemma show_nat_digits: "c \<in> set (show_nat n) \<Longrightarrow> 48 \<le> (of_char c :: nat) \<and> (of_char c :: nat) < 58"
proof (induction n rule: show_nat.induct)
  case (1 n)
  then show ?case by (subst (asm) show_nat.simps) (auto split: if_splits)
qed

lemma show_nat_nonempty: "show_nat n \<noteq> []"
  by (subst show_nat.simps) simp

lemma parse_digits_show: "parse_digits (show_nat n) = Some n"
  using show_nat_digits by (auto simp: parse_digits_def show_nat_nonempty list_all_iff digits_val_show)

lemma parse_int_itoa: "parse_int (itoa i) = Some i"
proof (cases "i < 0")
  case True
  then show ?thesis by (simp add: itoa_def parse_int_def parse_digits_show)
next
  case False
  obtain c cs where c: "show_nat (nat i) = c # cs"
    using show_nat_nonempty by (cases "show_nat (nat i)") auto
  then have "48 \<le> (of_char c :: nat)" using show_nat_digits [of c "nat i"] by simp
  then have "c \<noteq> CHR ''-''" "c \<noteq> CHR ''+''" by auto
  with False c show ?thesis
    using parse_digits_show [of "nat i"] by (simp add: itoa_def parse_int_def)
qed

lemma parse_i64_itoa: "is_i64 i \<Longrightarrow> parse_i64 (itoa i) = Some i"
  by (simp add: parse_i64_def parse_int_itoa)

lemma itoa_inj: "itoa i = itoa j \<longleftrightarrow> i = j"
  by (metis option.inject parse_int_itoa)

section \<open>Shared lemmas on lists and maps\<close>

lemma map_le_upd: "m k = None \<Longrightarrow> m \<subseteq>\<^sub>m m(k \<mapsto> v)"
  by (auto simp: map_le_def)

lemma find_append:
  "find P (xs @ ys) = (case find P xs of Some x \<Rightarrow> Some x | None \<Rightarrow> find P ys)"
  by (induction xs) auto

lemma find_Some_iff_in: "find P xs = Some x \<Longrightarrow> x \<in> set xs \<and> P x"
  by (auto simp: find_Some_iff)

end
