(* ===== verification/Qc_Tree.thy ===== *)
theory Qc_Tree
  imports Xuper_Base
begin

text \<open>
  The quorum certificates and the pending tree of the chained BFT driver:
  \<open>storage/quorum_cert.go\<close>, \<open>quorum_cert_impl.go\<close> and \<open>qc_tree.go\<close>. The tree holds the
  proposals that may still be rolled back; four pointers (high, generic, locked and commit
  QC) follow the chain that ends at the highest certified proposal, and an orphan list keeps
  the proposals whose parent has not arrived.

  A \<open>*ProposalNode\<close> reached from the root or from the orphan list is a value of the tree
  datatype; the code mutates a node only through a pointer that \<open>dfsQuery\<close> returned, which is
  the first node in depth-first order with the wanted id, so a mutation is an update of the
  first match. The pointers \<open>highQC\<close>, \<open>genericQC\<close>, \<open>lockedQC\<close>, \<open>commitQC\<close> and \<open>genesis\<close>
  are only read through their immutable field \<open>In\<close>, so they are certificates here.
\<close>

section \<open>Data\<close>

text \<open>The block interface of \<open>kernel/ledger\<close>, as far as consensus reads it.\<close>

record BlockInfo =
  blkBlockid :: slice
  blkHeight :: int
  blkPreHash :: slice
  blkTimestamp :: int
  blkProposer :: slice
  blkStorage :: slice

record VoteInfo =
  ProposalId :: slice
  ProposalView :: int
  ParentId :: slice
  ParentView :: int

record LedgerCommitInfo =
  CommitStateId :: slice
  VoteInfoHash :: slice

record QuorumCertSign =
  signAddress :: string
  signPublicKey :: string
  signSign :: slice

record QuorumCert =
  qcVoteInfo :: VoteInfo
  qcLedgerCommitInfo :: "LedgerCommitInfo option"
  qcSignInfos :: "QuorumCertSign list option"

definition NewQuorumCert ::
  "VoteInfo \<Rightarrow> LedgerCommitInfo option \<Rightarrow> QuorumCertSign list option \<Rightarrow> QuorumCert" where
  "NewQuorumCert v l s = \<lparr>qcVoteInfo = v, qcLedgerCommitInfo = l, qcSignInfos = s\<rparr>"

definition GetProposalView :: "QuorumCert \<Rightarrow> int" where
  "GetProposalView qc = ProposalView (qcVoteInfo qc)"

definition GetProposalId :: "QuorumCert \<Rightarrow> slice" where
  "GetProposalId qc = ProposalId (qcVoteInfo qc)"

definition GetParentProposalId :: "QuorumCert \<Rightarrow> slice" where
  "GetParentProposalId qc = ParentId (qcVoteInfo qc)"

definition GetParentView :: "QuorumCert \<Rightarrow> int" where
  "GetParentView qc = ParentView (qcVoteInfo qc)"

definition GetSignsInfo :: "QuorumCert \<Rightarrow> QuorumCertSign list option" where
  "GetSignsInfo qc = qcSignInfos qc"

lemmas qc_getters = NewQuorumCert_def GetProposalView_def GetProposalId_def
  GetParentProposalId_def GetParentView_def GetSignsInfo_def

datatype ProposalNode = ProposalNode (In: QuorumCert) (Sons: "ProposalNode list")

datatype bft_error =
    ErrNoValidQC | ErrNoValidParentId
  | ErrTooLowNewView | ErrP2PInternalErr | ErrTooLowNewProposal | ErrEmptyHighQC
  | ErrSameProposalNotify | ErrJustifyVotesEmpty | ErrEmptyTarget | ErrRegisterErr
  | EmptyVoteSignErr | InvalidVoteAddr | InvalidVoteSign | TooLowVoteView | TooLowVParentView
  | TooLowProposalView | EmptyParentQC | NoEnoughVotes | EmptyParentNode | EmptyValidators
  | ErrNilQC | ErrCrypto string | ErrUnmarshal

record QCPendingTree =
  genesis :: QuorumCert
  root :: ProposalNode
  highQC :: QuorumCert
  genericQC :: "QuorumCert option"
  lockedQC :: "QuorumCert option"
  commitQC :: "QuorumCert option"
  orphanList :: "ProposalNode list"
  orphanMap :: "string set"

section \<open>Depth-first search and mutation of the node it finds\<close>

text \<open>
  \<open>dfsQuery\<close> with its loop over the sons. The caller's check \<open>target == nil\<close> is made once
  in \<open>dfsQuery\<close>: the recursive calls have the same target.
\<close>

fun dfsNode :: "slice \<Rightarrow> ProposalNode \<Rightarrow> ProposalNode option"
  and dfsSons :: "slice \<Rightarrow> ProposalNode list \<Rightarrow> ProposalNode option" where
  "dfsNode target (ProposalNode qc sons) =
     (if bytes_equal (GetProposalId qc) target then Some (ProposalNode qc sons)
      else dfsSons target sons)"
| "dfsSons target [] = None"
| "dfsSons target (n # ns) =
     (case dfsNode target n of Some m \<Rightarrow> Some m | None \<Rightarrow> dfsSons target ns)"

definition dfsQuery :: "ProposalNode \<Rightarrow> slice \<Rightarrow> ProposalNode option" where
  "dfsQuery node target = (if target = None then None else dfsNode target node)"

definition DFSQueryNode :: "QCPendingTree \<Rightarrow> slice \<Rightarrow> ProposalNode option" where
  "DFSQueryNode t id' = dfsQuery (root t) id'"

text \<open>The mutation, through the pointer that \<open>dfsQuery\<close> returned, of the node it points to.\<close>

fun updNode :: "(ProposalNode \<Rightarrow> ProposalNode) \<Rightarrow> slice \<Rightarrow> ProposalNode \<Rightarrow> ProposalNode"
  and updSons :: "(ProposalNode \<Rightarrow> ProposalNode) \<Rightarrow> slice \<Rightarrow> ProposalNode list \<Rightarrow> ProposalNode list" where
  "updNode f target (ProposalNode qc sons) =
     (if bytes_equal (GetProposalId qc) target then f (ProposalNode qc sons)
      else ProposalNode qc (updSons f target sons))"
| "updSons f target [] = []"
| "updSons f target (n # ns) =
     (case dfsNode target n of Some _ \<Rightarrow> updNode f target n # ns
      | None \<Rightarrow> n # updSons f target ns)"

definition appendSon :: "ProposalNode \<Rightarrow> ProposalNode \<Rightarrow> ProposalNode" where
  "appendSon s n = ProposalNode (In n) (Sons n @ [s])"

definition clearSons :: "ProposalNode \<Rightarrow> ProposalNode" where
  "clearSons n = ProposalNode (In n) []"

section \<open>The operations of the pending tree\<close>

subsection \<open>Construction\<close>

text \<open>\<open>query\<close> is the ledger's \<open>QueryBlockHeaderByHeight\<close>, \<open>None\<close> its error.\<close>

definition NewTreeNode :: "(int \<Rightarrow> BlockInfo option) \<Rightarrow> int \<Rightarrow> ProposalNode option" where
  "NewTreeNode query height =
     (case query height of
        None \<Rightarrow> None
      | Some b \<Rightarrow>
          let vote = \<lparr>ProposalId = blkBlockid b, ProposalView = blkHeight b,
                      ParentId = None, ParentView = 0\<rparr>;
              ledgerInfo = \<lparr>CommitStateId = blkBlockid b, VoteInfoHash = None\<rparr>
          in case query (i64 (height - 1)) of
               None \<Rightarrow> Some (ProposalNode (NewQuorumCert vote (Some ledgerInfo) None) [])
             | Some pre \<Rightarrow>
                 Some (ProposalNode
                   (NewQuorumCert
                     (vote\<lparr>ParentId := blkBlockid pre, ParentView := blkHeight pre\<rparr>)
                     (Some ledgerInfo) None) []))"

text \<open>
  \<open>InitQCTree\<close> returns \<open>nil\<close> (\<open>Ok None\<close>) when the start block is missing and panics when a
  node it links is missing. A missing tip node is appended as a \<open>nil\<close> son, which every search
  skips, so it is left out. With \<open>tip = 0\<close> and no block 0 the code keeps a \<open>nil\<close> root, and
  with a negative tip height a \<open>nil\<close> highQC, and panics at the first use of it; here the
  constructor panics.
\<close>

definition InitQCTree ::
  "int \<Rightarrow> (int \<Rightarrow> BlockInfo option) \<Rightarrow> BlockInfo \<Rightarrow> (bft_error, QCPendingTree option) result" where
  "InitQCTree startHeight query tip =
     (case query (i64 (startHeight - 1)) of
        None \<Rightarrow> Ok None
      | Some g \<Rightarrow>
          let gQC = NewQuorumCert
                \<lparr>ProposalId = blkBlockid g, ProposalView = blkHeight g, ParentId = None,
                 ParentView = 0\<rparr>
                (Some \<lparr>CommitStateId = blkBlockid g, VoteInfoHash = None\<rparr>) None;
              gNode = ProposalNode gQC [];
              mk = (\<lambda>r h gen. \<lparr>genesis = gQC, root = r, highQC = h, genericQC = gen,
                     lockedQC = None, commitQC = None, orphanList = [], orphanMap = {}\<rparr>);
              H = blkHeight tip
          in if H \<le> startHeight then Ok (Some (mk gNode gQC None))
             else let tipNode = NewTreeNode query H;
                      tipSons = (case tipNode of None \<Rightarrow> [] | Some n \<Rightarrow> [n])
             in if H < 3 then
               (case NewTreeNode query 0 of
                  None \<Rightarrow> Panic
                | Some r \<Rightarrow>
                    if H = 0 then Ok (Some (mk r (In r) None))
                    else if H = 1 then Ok (Some (mk (ProposalNode (In r) tipSons) (In r) None))
                    else if H = 2 then
                      (case NewTreeNode query 1 of
                         None \<Rightarrow> Panic
                       | Some h \<Rightarrow>
                           Ok (Some (mk (ProposalNode (In r) [ProposalNode (In h) tipSons])
                                        (In h) None)))
                    else Panic)
             else
               (case (NewTreeNode query (i64 (H - 3)), NewTreeNode query (i64 (H - 2)),
                      NewTreeNode query (i64 (H - 1))) of
                  (Some r, Some gen, Some h) \<Rightarrow>
                    Ok (Some (mk (ProposalNode (In r)
                                    [ProposalNode (In gen) [ProposalNode (In h) tipSons]])
                                 (In h) (Some (In gen))))
                | _ \<Rightarrow> Panic))"

subsection \<open>Moving the certificate pointers\<close>

definition updateQCs :: "QCPendingTree \<Rightarrow> QuorumCert \<Rightarrow> QCPendingTree" where
  "updateQCs t highQCNode =
     (let t1 = t\<lparr>highQC := highQCNode, genericQC := None, lockedQC := None, commitQC := None\<rparr>
      in case dfsQuery (root t) (GetParentProposalId highQCNode) of
           None \<Rightarrow> t1
         | Some parent \<Rightarrow>
             let t2 = t1\<lparr>genericQC := Some (In parent)\<rparr>
             in case dfsQuery (root t) (GetParentProposalId (In parent)) of
                  None \<Rightarrow> t2
                | Some parentParent \<Rightarrow>
                    let t3 = t2\<lparr>lockedQC := Some (In parentParent)\<rparr>
                    in case dfsQuery (root t) (GetParentProposalId (In parentParent)) of
                         None \<Rightarrow> t3
                       | Some parentParentParent \<Rightarrow> t3\<lparr>commitQC := Some (In parentParentParent)\<rparr>)"

definition UpdateHighQC :: "QCPendingTree \<Rightarrow> slice \<Rightarrow> QCPendingTree" where
  "UpdateHighQC t inProposalId =
     (case dfsQuery (root t) inProposalId of
        None \<Rightarrow> t
      | Some node \<Rightarrow>
          if GetProposalView (In node) < GetProposalView (highQC t) then t
          else updateQCs t (In node))"

definition EnforceUpdateHighQC :: "QCPendingTree \<Rightarrow> slice \<Rightarrow> QCPendingTree \<times> bft_error option" where
  "EnforceUpdateHighQC t inProposalId =
     (case dfsQuery (root t) inProposalId of
        None \<Rightarrow> (t, Some ErrNoValidQC)
      | Some node \<Rightarrow> (updateQCs t (In node), None))"

subsection \<open>Insertion\<close>

text \<open>
  \<open>insertOrphan\<close>: the loop over the linked list, with the elements already kept. An element
  at or below the root's view is dropped; the first element that is a son of the new node is
  hung under it and the node goes to the end of the list; the first element whose tree holds
  the parent takes the node; otherwise the node is appended.
\<close>

fun insertOrphanLoop ::
  "int \<Rightarrow> ProposalNode \<Rightarrow> ProposalNode list \<Rightarrow> ProposalNode list \<Rightarrow> ProposalNode list" where
  "insertOrphanLoop rootView node kept [] = kept @ [node]"
| "insertOrphanLoop rootView node kept (n # ns) =
     (if GetProposalView (In n) \<le> rootView then insertOrphanLoop rootView node kept ns
      else if bytes_equal (GetParentProposalId (In n)) (GetProposalId (In node))
      then kept @ ns @ [appendSon n node]
      else case dfsQuery n (GetParentProposalId (In node)) of
             Some _ \<Rightarrow> kept @ updNode (appendSon node) (GetParentProposalId (In node)) n # ns
           | None \<Rightarrow> insertOrphanLoop rootView node (kept @ [n]) ns)"

definition insertOrphan :: "QCPendingTree \<Rightarrow> ProposalNode \<Rightarrow> QCPendingTree" where
  "insertOrphan t node =
     (let key = utils_F (GetProposalId (In node)) in
      if key \<in> orphanMap t then t
      else t\<lparr>orphanMap := insert key (orphanMap t),
             orphanList := (if orphanList t = [] then [node]
               else insertOrphanLoop (GetProposalView (In (root t))) node [] (orphanList t))\<rparr>)"

text \<open>\<open>adoptOrphans\<close> returns the node with its adopted sons and the orphans that are left.\<close>

fun adoptOrphans ::
  "ProposalNode \<Rightarrow> ProposalNode list \<Rightarrow> ProposalNode \<times> ProposalNode list" where
  "adoptOrphans node [] = (node, [])"
| "adoptOrphans node (n # ns) =
     (if bytes_equal (GetParentProposalId (In n)) (GetProposalId (In node))
      then adoptOrphans (appendSon n node) ns
      else let (node', rest) = adoptOrphans node ns in (node', n # rest))"

definition insertNode :: "QCPendingTree \<Rightarrow> ProposalNode \<Rightarrow> QCPendingTree \<times> bft_error option" where
  "insertNode t node =
     (let parentId = GetParentProposalId (In node) in
      if parentId = None then (t, Some ErrNoValidParentId)
      else case dfsQuery (root t) parentId of
             Some _ \<Rightarrow>
               let (node', rest) = adoptOrphans node (orphanList t)
               in (t\<lparr>root := updNode (appendSon node') parentId (root t), orphanList := rest\<rparr>, None)
           | None \<Rightarrow> (insertOrphan t node, None))"

definition UpdateQcStatus :: "QCPendingTree \<Rightarrow> ProposalNode \<Rightarrow> QCPendingTree \<times> bft_error option" where
  "UpdateQcStatus t node =
     (if dfsQuery (root t) (GetProposalId (In node)) \<noteq> None then (t, None)
      else case insertNode t node of
             (t', Some e) \<Rightarrow> (t', Some e)
           | (t', None) \<Rightarrow>
               (case dfsQuery (root t') (GetParentProposalId (In node)) of
                  None \<Rightarrow> (t', None)
                | Some parent \<Rightarrow>
                    if GetProposalView (In parent) < GetProposalView (highQC t') then (t', None)
                    else (updateQCs t' (In parent), None)))"

subsection \<open>Commit\<close>

text \<open>
  \<open>UpdateCommit\<close> walks four generations up from \<open>id\<close>, empties the sons of the last one and
  makes the third one the root. \<open>cutAbove\<close> is what the pointer to the third ancestor sees after
  the fourth one has lost its sons: the third ancestor itself when it lay below the fourth (the
  only case in a tree whose sons name their parents), otherwise the same node of the changed
  tree.
\<close>

primrec nodes :: "ProposalNode \<Rightarrow> ProposalNode list" where
  "nodes (ProposalNode qc sons) = ProposalNode qc sons # concat (map nodes sons)"

definition cutAbove :: "ProposalNode \<Rightarrow> ProposalNode \<Rightarrow> ProposalNode \<Rightarrow> ProposalNode" where
  "cutAbove r p3 p4 =
     (let id3 = GetProposalId (In p3); id4 = GetProposalId (In p4);
          before = takeWhile (\<lambda>n. \<not> bytes_equal (GetProposalId (In n)) id4) (nodes r)
      in if (\<forall>n \<in> set before. \<not> bytes_equal (GetProposalId (In n)) id3)
            \<and> \<not> bytes_equal id3 id4 \<and> dfsSons id3 (Sons p4) \<noteq> None
         then p3
         else case dfsNode id3 (updNode clearSons id4 r) of Some n \<Rightarrow> n | None \<Rightarrow> p3)"

definition UpdateCommit :: "QCPendingTree \<Rightarrow> slice \<Rightarrow> QCPendingTree" where
  "UpdateCommit t id' =
     (case dfsQuery (root t) id' of
        None \<Rightarrow> t
      | Some node \<Rightarrow>
     (case dfsQuery (root t) (GetParentProposalId (In node)) of
        None \<Rightarrow> t
      | Some parent \<Rightarrow>
     (case dfsQuery (root t) (GetParentProposalId (In parent)) of
        None \<Rightarrow> t
      | Some parentParent \<Rightarrow>
     (case dfsQuery (root t) (GetParentProposalId (In parentParent)) of
        None \<Rightarrow> t
      | Some parentParentParent \<Rightarrow>
     (case dfsQuery (root t) (GetParentProposalId (In parentParentParent)) of
        None \<Rightarrow> t
      | Some parentParentParentParent \<Rightarrow>
          t\<lparr>root := cutAbove (root t) parentParentParent parentParentParentParent\<rparr>)))))"

section \<open>The tree as a set of linked certificates\<close>

text \<open>
  \<open>link q p\<close>: the certificate \<open>q\<close> names \<open>p\<close> as its parent. A tree is \<open>linked\<close> when every son
  names the node it hangs under.
\<close>

definition link :: "QuorumCert \<Rightarrow> QuorumCert \<Rightarrow> bool" where
  "link q p \<longleftrightarrow> GetParentProposalId q \<noteq> None
     \<and> bytes_equal (GetParentProposalId q) (GetProposalId p)"

definition linked :: "ProposalNode \<Rightarrow> bool" where
  "linked n \<longleftrightarrow> (\<forall>m \<in> set (nodes n). \<forall>s \<in> set (Sons m). link (In s) (In m))"

definition qcs :: "ProposalNode \<Rightarrow> QuorumCert list" where
  "qcs n = map In (nodes n)"

definition ids :: "ProposalNode \<Rightarrow> bytes list" where
  "ids n = map (\<lambda>m. contents (GetProposalId (In m))) (nodes n)"

lemma self_in_nodes [simp]: "n \<in> set (nodes n)"
  by (cases n) simp

lemma linked_simp [simp]:
  "linked (ProposalNode q ss) \<longleftrightarrow> (\<forall>s \<in> set ss. link (In s) q \<and> linked s)"
  by (auto simp: linked_def)

lemma qcs_simp [simp]: "qcs (ProposalNode q ss) = q # concat (map qcs ss)"
  by (simp add: qcs_def [abs_def] map_concat comp_def)

lemma linked_alt: "linked n \<longleftrightarrow> (\<forall>s \<in> set (Sons n). link (In s) (In n) \<and> linked s)"
  by (cases n) simp

lemma qcs_alt: "qcs n = In n # concat (map qcs (Sons n))"
  by (cases n) simp

lemma ids_qcs: "ids n = map (contents \<circ> GetProposalId) (qcs n)"
  by (simp add: ids_def qcs_def)

lemma dfs_eq_find:
  "dfsNode target n = find (\<lambda>m. bytes_equal (GetProposalId (In m)) target) (nodes n)"
  "dfsSons target ns =
     find (\<lambda>m. bytes_equal (GetProposalId (In m)) target) (concat (map nodes ns))"
  by (induction target n and target ns rule: dfsNode_dfsSons.induct)
    (auto simp: find_append split: option.splits)

lemma dfsQuery_SomeD:
  "dfsQuery n target = Some m \<Longrightarrow>
     m \<in> set (nodes n) \<and> bytes_equal (GetProposalId (In m)) target \<and> target \<noteq> None"
  by (auto simp: dfsQuery_def dfs_eq_find find_Some_iff split: if_splits)

lemma dfsQuery_None_iff:
  "dfsQuery n target = None \<longleftrightarrow>
     target = None \<or> (\<forall>q \<in> set (qcs n). \<not> bytes_equal (GetProposalId q) target)"
  by (auto simp: dfsQuery_def dfs_eq_find find_None_iff qcs_def)

lemma dfsQuery_same_id:
  "dfsQuery n target = Some m \<Longrightarrow> GetProposalId (In m) \<noteq> None \<Longrightarrow> dfsQuery n (GetProposalId (In m)) \<noteq> None"
  using dfsQuery_SomeD [of n target m] dfsQuery_None_iff [of n "GetProposalId (In m)"]
  by (fastforce simp: qcs_def)

lemma nodes_trans: "m \<in> set (nodes n) \<Longrightarrow> set (nodes m) \<subseteq> set (nodes n)"
  by (induction n) auto

lemma linked_sub: "linked n \<Longrightarrow> m \<in> set (nodes n) \<Longrightarrow> linked m"
  using nodes_trans by (fastforce simp: linked_def)

lemma qcs_sub: "m \<in> set (nodes n) \<Longrightarrow> set (qcs m) \<subseteq> set (qcs n)"
  using nodes_trans by (fastforce simp: qcs_def)

lemma in_qcs_nodes: "m \<in> set (nodes n) \<Longrightarrow> In m \<in> set (qcs n)"
  by (simp add: qcs_def)

subsection \<open>Mutation of the first match\<close>

lemma In_appendSon [simp]: "In (appendSon s n) = In n"
  and In_clearSons [simp]: "In (clearSons n) = In n"
  by (simp_all add: appendSon_def clearSons_def)

lemma In_updNode [simp]: "(\<And>m. In (f m) = In m) \<Longrightarrow> In (updNode f target n) = In n"
  by (cases n) (simp split: if_splits)

lemma mset_qcs_appendSon [simp]: "mset (qcs (appendSon s n)) = mset (qcs n) + mset (qcs s)"
  by (cases n) (simp add: appendSon_def)

lemma mset_qcs_updNode:
  "dfsNode target n \<noteq> None \<Longrightarrow>
     mset (qcs (updNode (appendSon s) target n)) = mset (qcs n) + mset (qcs s)"
  "dfsSons target ns \<noteq> None \<Longrightarrow>
     mset (concat (map qcs (updSons (appendSon s) target ns))) =
       mset (concat (map qcs ns)) + mset (qcs s)"
  by (induction target n and target ns rule: dfsNode_dfsSons.induct)
    (auto split: option.splits if_splits simp del: qcs_simp simp: qcs_alt [of "ProposalNode _ _"])

lemma set_qcs_updNode_clear:
  "set (qcs (updNode clearSons target n)) \<subseteq> set (qcs n)"
  "\<Union> (set ` qcs ` set (updSons clearSons target ns)) \<subseteq> \<Union> (set ` qcs ` set ns)"
  by (induction target n and target ns rule: dfsNode_dfsSons.induct)
    (auto simp: clearSons_def split: option.splits if_splits)

lemma In_updSons:
  "(\<And>m. In (f m) = In m) \<Longrightarrow> map In (updSons f target ns) = map In ns"
  by (induction ns) (auto split: option.splits)

lemma linked_In_set:
  "linked (ProposalNode q ss) \<longleftrightarrow> (\<forall>i \<in> set (map In ss). link i q) \<and> (\<forall>s \<in> set ss. linked s)"
  by auto

lemma linked_updNode:
  assumes fIn: "\<And>m. In (f m) = In m"
    and step: "\<And>m. bytes_equal (GetProposalId (In m)) target \<Longrightarrow> linked m \<Longrightarrow> linked (f m)"
  shows "linked n \<Longrightarrow> linked (updNode f target n)"
    and "\<forall>m \<in> set ns. linked m \<Longrightarrow> \<forall>m \<in> set (updSons f target ns). linked m"
  using step
proof (induction target n and target ns rule: dfsNode_dfsSons.induct)
  case (1 target qc sons)
  show ?case
  proof (cases "bytes_equal (GetProposalId qc) target")
    case True
    with "1.prems" show ?thesis by simp
  next
    case False
    with 1 have "\<forall>m \<in> set (updSons f target sons). linked m" by simp
    with False "1.prems" show ?thesis
      by (simp add: linked_In_set In_updSons [OF fIn] del: linked_simp set_map)
  qed
qed (auto split: option.splits)

lemma link_found:
  "GetParentProposalId q \<noteq> None \<Longrightarrow> bytes_equal (GetProposalId p) (GetParentProposalId q) \<Longrightarrow> link q p"
  by (simp add: link_def bytes_equal_sym)

lemma linked_appendSon:
  "linked n \<Longrightarrow> linked s \<Longrightarrow> link (In s) (In n) \<Longrightarrow> linked (appendSon s n)"
  by (cases n) (auto simp: appendSon_def)

lemma linked_append_found:
  assumes "linked n" and "linked s" and "GetParentProposalId (In s) \<noteq> None"
  shows "linked (updNode (appendSon s) (GetParentProposalId (In s)) n)"
  using assms by (intro linked_updNode) (auto intro!: linked_appendSon intro: link_found)

lemma linked_clear: "linked n \<Longrightarrow> linked (updNode clearSons target n)"
  by (rule linked_updNode) (auto simp: clearSons_def)

lemma dfsQuery_link:
  "dfsQuery n (GetParentProposalId q) = Some p \<Longrightarrow> link q (In p)"
  by (auto dest!: dfsQuery_SomeD intro: link_found)

subsection \<open>Orphans\<close>

definition orphan_ok :: "ProposalNode \<Rightarrow> bool" where
  "orphan_ok n \<longleftrightarrow> linked n \<and> GetParentProposalId (In n) \<noteq> None"

lemma adoptOrphans_In: "In (fst (adoptOrphans node ns)) = In node"
  by (induction node ns rule: adoptOrphans.induct) (auto split: prod.splits)

lemma adoptOrphans_rest:
  "snd (adoptOrphans node ns) =
     filter (\<lambda>n. \<not> bytes_equal (GetParentProposalId (In n)) (GetProposalId (In node))) ns"
  by (induction node ns rule: adoptOrphans.induct) (auto split: prod.splits)

lemma adoptOrphans_mset:
  "mset (qcs (fst (adoptOrphans node ns))) + (\<Sum>n\<leftarrow>snd (adoptOrphans node ns). mset (qcs n)) =
     mset (qcs node) + (\<Sum>n\<leftarrow>ns. mset (qcs n))"
  by (induction node ns rule: adoptOrphans.induct)
    (auto simp: ac_simps case_prod_beta)

lemma adoptOrphans_linked:
  "linked node \<Longrightarrow> \<forall>n \<in> set ns. orphan_ok n \<Longrightarrow> linked (fst (adoptOrphans node ns))"
proof (induction node ns rule: adoptOrphans.induct)
  case (2 node n ns)
  show ?case
  proof (cases "bytes_equal (GetParentProposalId (In n)) (GetProposalId (In node))")
    case True
    then have "linked (appendSon n node)"
      using "2.prems" by (intro linked_appendSon) (auto simp: link_def orphan_ok_def)
    with True 2 show ?thesis by simp
  next
    case False
    with 2 show ?thesis by (simp add: case_prod_beta)
  qed
qed simp

lemma orphan_step_cases [case_names expired son parent none]:
  obtains "GetProposalView (In n) \<le> rv"
  | "\<not> GetProposalView (In n) \<le> rv"
    "bytes_equal (GetParentProposalId (In n)) (GetProposalId (In node))"
  | m where "\<not> GetProposalView (In n) \<le> rv"
    "\<not> bytes_equal (GetParentProposalId (In n)) (GetProposalId (In node))"
    "dfsQuery n (GetParentProposalId (In node)) = Some m"
  | "\<not> GetProposalView (In n) \<le> rv"
    "\<not> bytes_equal (GetParentProposalId (In n)) (GetProposalId (In node))"
    "dfsQuery n (GetParentProposalId (In node)) = None"
  by (cases "dfsQuery n (GetParentProposalId (In node))") auto

lemma insertOrphanLoop_ok:
  assumes "\<forall>n \<in> set (kept @ ns). orphan_ok n" and "orphan_ok node"
  shows "\<forall>n \<in> set (insertOrphanLoop rv node kept ns). orphan_ok n"
  using assms
proof (induction rv node kept ns rule: insertOrphanLoop.induct)
  case (1 rv node kept)
  then show ?case by simp
next
  case (2 rv node kept n ns)
  let ?tgt = "GetParentProposalId (In node)"
  have n: "orphan_ok n" and rest: "\<forall>n \<in> set (kept @ ns). orphan_ok n"
    using "2.prems" by simp_all
  show ?case
  proof (cases rule: orphan_step_cases [where n = n and rv = rv and node = node])
    case expired
    with "2.IH"(1) rest "2.prems"(2) show ?thesis by simp
  next
    case son
    then have "orphan_ok (appendSon n node)"
      using n "2.prems"(2) by (auto intro!: linked_appendSon simp: link_def orphan_ok_def)
    with son rest show ?thesis by auto
  next
    case parent
    then have "orphan_ok (updNode (appendSon node) ?tgt n)"
      using n "2.prems"(2) by (auto intro: linked_append_found simp: orphan_ok_def)
    with parent rest show ?thesis by auto
  next
    case none
    have "\<forall>n \<in> set (insertOrphanLoop rv node (kept @ [n]) ns). orphan_ok n"
      using none n rest "2.prems"(2) by (intro "2.IH"(2)) auto
    with none show ?thesis by simp
  qed
qed

lemma insertOrphanLoop_mset:
  "(\<Sum>n\<leftarrow>insertOrphanLoop rv node kept ns. mset (qcs n))
     \<subseteq># mset (qcs node) + (\<Sum>n\<leftarrow>kept @ ns. mset (qcs n))"
proof (induction rv node kept ns rule: insertOrphanLoop.induct)
  case (1 rv node kept)
  then show ?case by (simp add: ac_simps)
next
  case (2 rv node kept n ns)
  show ?case
  proof (cases rule: orphan_step_cases [where n = n and rv = rv and node = node])
    case expired
    with "2.IH"(1) show ?thesis
      by (auto intro: subset_mset.order_trans)
  next
    case son
    then show ?thesis by (simp add: ac_simps)
  next
    case (parent m)
    then have "dfsNode (GetParentProposalId (In node)) n \<noteq> None"
      by (auto simp: dfsQuery_def split: if_splits)
    with parent show ?thesis by (simp add: mset_qcs_updNode ac_simps)
  next
    case none
    with "2.IH"(2) show ?thesis by (simp add: ac_simps)
  qed
qed

lemma insertOrphan_frame [simp]:
  "root (insertOrphan t node) = root t" "highQC (insertOrphan t node) = highQC t"
  "genericQC (insertOrphan t node) = genericQC t" "lockedQC (insertOrphan t node) = lockedQC t"
  "commitQC (insertOrphan t node) = commitQC t" "genesis (insertOrphan t node) = genesis t"
  by (simp_all add: insertOrphan_def Let_def)

section \<open>The invariant of the pending tree\<close>

text \<open>
  \<open>chain_ok\<close>: the generic QC is the parent of the high QC, the locked QC the parent of the
  generic one, and the commit QC the parent of the locked one, wherever they are set.
\<close>

definition chain_ok :: "QCPendingTree \<Rightarrow> bool" where
  "chain_ok t \<longleftrightarrow>
     (\<forall>g. genericQC t = Some g \<longrightarrow> link (highQC t) g) \<and>
     (\<forall>l. lockedQC t = Some l \<longrightarrow> (\<exists>g. genericQC t = Some g \<and> link g l)) \<and>
     (\<forall>c. commitQC t = Some c \<longrightarrow> (\<exists>l. lockedQC t = Some l \<and> link l c))"

definition tree_inv :: "QCPendingTree \<Rightarrow> bool" where
  "tree_inv t \<longleftrightarrow> linked (root t) \<and> (\<forall>n \<in> set (orphanList t). orphan_ok n) \<and> chain_ok t"

definition forest_qcs :: "QCPendingTree \<Rightarrow> QuorumCert multiset" where
  "forest_qcs t = mset (qcs (root t)) + (\<Sum>n\<leftarrow>orphanList t. mset (qcs n))"

lemma updateQCs_frame [simp]:
  "root (updateQCs t q) = root t" "orphanList (updateQCs t q) = orphanList t"
  "orphanMap (updateQCs t q) = orphanMap t" "genesis (updateQCs t q) = genesis t"
  "highQC (updateQCs t q) = q"
  by (simp_all add: updateQCs_def Let_def split: option.splits)

lemma updateQCs_chain: "chain_ok (updateQCs t q)"
  by (auto simp: updateQCs_def chain_ok_def Let_def dest!: dfsQuery_link split: option.splits)

lemma tree_inv_updateQCs: "tree_inv t \<Longrightarrow> tree_inv (updateQCs t q)"
  by (simp add: tree_inv_def updateQCs_chain)

lemma tree_inv_UpdateHighQC: "tree_inv t \<Longrightarrow> tree_inv (UpdateHighQC t i)"
  by (simp add: UpdateHighQC_def tree_inv_updateQCs split: option.splits)

lemma tree_inv_Enforce: "tree_inv t \<Longrightarrow> tree_inv (fst (EnforceUpdateHighQC t i))"
  by (simp add: EnforceUpdateHighQC_def tree_inv_updateQCs split: option.splits)

lemma chain_ok_cong:
  "chain_ok (t\<lparr>root := r\<rparr>) = chain_ok t" "chain_ok (t\<lparr>orphanList := os\<rparr>) = chain_ok t"
  "chain_ok (t\<lparr>orphanMap := om\<rparr>) = chain_ok t"
  by (simp_all add: chain_ok_def)

lemma tree_inv_insertOrphan:
  "tree_inv t \<Longrightarrow> orphan_ok node \<Longrightarrow> tree_inv (insertOrphan t node)"
  using insertOrphanLoop_ok [where kept = "[]" and ns = "orphanList t" and node = node]
  by (simp add: tree_inv_def insertOrphan_def chain_ok_cong Let_def)

lemma insertNode_found:
  assumes "GetParentProposalId (In node) \<noteq> None"
    and "dfsQuery (root t) (GetParentProposalId (In node)) = Some p"
  shows "insertNode t node =
    (t\<lparr>root := updNode (appendSon (fst (adoptOrphans node (orphanList t))))
                 (GetParentProposalId (In node)) (root t),
       orphanList := snd (adoptOrphans node (orphanList t))\<rparr>, None)"
  using assms by (simp add: insertNode_def Let_def case_prod_beta)

lemma tree_inv_insertNode:
  assumes inv: "tree_inv t" and node: "linked node"
  shows "tree_inv (fst (insertNode t node))"
proof (cases "GetParentProposalId (In node) = None")
  case True
  with inv show ?thesis by (simp add: insertNode_def)
next
  case some: False
  show ?thesis
  proof (cases "dfsQuery (root t) (GetParentProposalId (In node))")
    case None
    with some inv node show ?thesis 
      by (simp add: insertNode_def Let_def tree_inv_insertOrphan orphan_ok_def)
  next
    case (Some p)
    let ?n = "fst (adoptOrphans node (orphanList t))"
    have "linked ?n"
      using inv node by (intro adoptOrphans_linked) (auto simp: tree_inv_def)
    then have "linked (updNode (appendSon ?n) (GetParentProposalId (In ?n)) (root t))"
      using inv some by (intro linked_append_found) (auto simp: tree_inv_def adoptOrphans_In)
    moreover have "\<forall>n \<in> set (snd (adoptOrphans node (orphanList t))). orphan_ok n"
      using inv by (auto simp: adoptOrphans_rest tree_inv_def)
    ultimately show ?thesis
      using inv unfolding insertNode_found [OF some Some]
      by (simp add: tree_inv_def chain_ok_cong adoptOrphans_In)
  qed
qed

lemma insertNode_frame [simp]:
  "highQC (fst (insertNode t node)) = highQC t" "genesis (fst (insertNode t node)) = genesis t"
  by (simp_all add: insertNode_def Let_def case_prod_beta split: option.splits)

lemma insertNode_error: "insertNode t node = (t', Some e) \<Longrightarrow> t' = t \<and> e = ErrNoValidParentId"
  by (auto simp: insertNode_def Let_def case_prod_beta split: option.splits if_splits)

lemma UpdateQcStatus_root:
  "root (fst (UpdateQcStatus t node)) =
     (if dfsQuery (root t) (GetProposalId (In node)) \<noteq> None then root t
      else root (fst (insertNode t node)))"
  "orphanList (fst (UpdateQcStatus t node)) =
     (if dfsQuery (root t) (GetProposalId (In node)) \<noteq> None then orphanList t
      else orphanList (fst (insertNode t node)))"
  by (cases "insertNode t node"; simp add: UpdateQcStatus_def split: option.splits)+

lemma tree_inv_UpdateQcStatus:
  assumes "tree_inv t" and "linked node"
  shows "tree_inv (fst (UpdateQcStatus t node))"
  using tree_inv_insertNode [OF assms] assms(1)
  by (cases "insertNode t node")
    (simp add: UpdateQcStatus_def tree_inv_updateQCs split: option.splits)

lemma forest_qcs_UpdateQcStatus:
  "forest_qcs (fst (UpdateQcStatus t node)) =
     (if dfsQuery (root t) (GetProposalId (In node)) \<noteq> None then forest_qcs t
      else forest_qcs (fst (insertNode t node)))"
  by (simp add: forest_qcs_def UpdateQcStatus_root)

lemma forest_qcs_insert_found:
  assumes "dfsQuery (root t) (GetParentProposalId (In node)) = Some p"
  shows "forest_qcs (fst (insertNode t node)) = forest_qcs t + mset (qcs node)"
proof -
  have some: "GetParentProposalId (In node) \<noteq> None"
    using assms by (auto simp: dfsQuery_def split: if_splits)
  then have "dfsNode (GetParentProposalId (In node)) (root t) \<noteq> None"
    using assms by (auto simp: dfsQuery_def)
  then show ?thesis
    using adoptOrphans_mset [of node "orphanList t"] unfolding insertNode_found [OF some assms]
    by (simp add: forest_qcs_def mset_qcs_updNode ac_simps)
qed

lemma forest_qcs_insertNode:
  "forest_qcs (fst (insertNode t node)) \<subseteq># forest_qcs t + mset (qcs node)"
proof (cases "dfsQuery (root t) (GetParentProposalId (In node))")
  case None
  then show ?thesis
    using insertOrphanLoop_mset [of "GetProposalView (In (root t))" node "[]" "orphanList t"]
    by (simp add: insertNode_def insertOrphan_def forest_qcs_def Let_def ac_simps)
next
  case (Some p)
  then show ?thesis by (simp add: forest_qcs_insert_found)
qed

subsection \<open>Commit\<close>

lemma cutAbove_cases:
  "cutAbove r p3 p4 = p3 \<or>
   (\<exists>n. dfsNode (GetProposalId (In p3)) (updNode clearSons (GetProposalId (In p4)) r) = Some n
        \<and> cutAbove r p3 p4 = n)"
  by (auto simp: cutAbove_def Let_def split: option.splits)

lemma cutAbove_linked:
  assumes "linked r" and "p3 \<in> set (nodes r)"
  shows "linked (cutAbove r p3 p4)"
  using cutAbove_cases [of r p3 p4] assms linked_clear [OF assms(1)]
  by (auto simp: dfs_eq_find dest: find_Some_iff_in intro: linked_sub)

lemma cutAbove_qcs:
  assumes "p3 \<in> set (nodes r)"
  shows "set (qcs (cutAbove r p3 p4)) \<subseteq> set (qcs r)"
proof -
  have "set (qcs n) \<subseteq> set (qcs r)"
    if "n \<in> set (nodes (updNode clearSons i r))" for n i
    using qcs_sub [OF that] set_qcs_updNode_clear(1) by blast
  then show ?thesis
    using cutAbove_cases [of r p3 p4] qcs_sub [OF assms]
    by (fastforce simp: dfs_eq_find dest: find_Some_iff_in)
qed

lemma cutAbove_id: "bytes_equal (GetProposalId (In (cutAbove r p3 p4))) (GetProposalId (In p3))"
  using cutAbove_cases [of r p3 p4] by (auto simp: dfs_eq_find find_Some_iff)

lemma UpdateCommit_frame [simp]:
  "highQC (UpdateCommit t i) = highQC t" "genericQC (UpdateCommit t i) = genericQC t"
  "lockedQC (UpdateCommit t i) = lockedQC t" "commitQC (UpdateCommit t i) = commitQC t"
  "orphanList (UpdateCommit t i) = orphanList t" "orphanMap (UpdateCommit t i) = orphanMap t"
  "genesis (UpdateCommit t i) = genesis t"
  by (simp_all add: UpdateCommit_def split: option.splits)

lemma UpdateCommit_disj:
  "UpdateCommit t i = t \<or> (\<exists>n p pp p3 p4.
    dfsQuery (root t) i = Some n \<and>
    dfsQuery (root t) (GetParentProposalId (In n)) = Some p \<and>
    dfsQuery (root t) (GetParentProposalId (In p)) = Some pp \<and>
    dfsQuery (root t) (GetParentProposalId (In pp)) = Some p3 \<and>
    dfsQuery (root t) (GetParentProposalId (In p3)) = Some p4 \<and>
    UpdateCommit t i = t\<lparr>root := cutAbove (root t) p3 p4\<rparr>)"
  by (simp add: UpdateCommit_def split: option.split)

lemma UpdateCommit_cases [case_names same cut]:
  obtains "UpdateCommit t i = t"
  | n p pp p3 p4 where
    "dfsQuery (root t) i = Some n"
    "dfsQuery (root t) (GetParentProposalId (In n)) = Some p"
    "dfsQuery (root t) (GetParentProposalId (In p)) = Some pp"
    "dfsQuery (root t) (GetParentProposalId (In pp)) = Some p3"
    "dfsQuery (root t) (GetParentProposalId (In p3)) = Some p4"
    "UpdateCommit t i = t\<lparr>root := cutAbove (root t) p3 p4\<rparr>"
  using UpdateCommit_disj [of t i] by blast

lemma tree_inv_UpdateCommit: "tree_inv t \<Longrightarrow> tree_inv (UpdateCommit t i)"
proof (cases rule: UpdateCommit_cases [of t i])
  case (cut n p pp p3 p4)
  moreover assume "tree_inv t"
  ultimately show ?thesis
    by (auto simp: tree_inv_def chain_ok_cong intro!: cutAbove_linked dest!: dfsQuery_SomeD)
qed simp

lemma UpdateCommit_qcs: "set (qcs (root (UpdateCommit t i))) \<subseteq> set (qcs (root t))"
proof (cases rule: UpdateCommit_cases [of t i])
  case (cut n p pp p3 p4)
  then show ?thesis
    using cutAbove_qcs [of p3 "root t" p4] by (auto dest!: dfsQuery_SomeD)
qed simp

lemma nodes_split: "m \<in> set (nodes n) \<Longrightarrow> \<exists>A B. nodes n = A @ nodes m @ B"
proof (induction n)
  case (ProposalNode q ss)
  show ?case
  proof (cases "m = ProposalNode q ss")
    case True
    then have "nodes (ProposalNode q ss) = [] @ nodes m @ []" by simp
    then show ?thesis by blast
  next
    case False
    with ProposalNode.prems obtain s where s: "s \<in> set ss" and m: "m \<in> set (nodes s)" by auto
    from s obtain xs ys where ss: "ss = xs @ s # ys" by (auto simp: in_set_conv_decomp)
    from ProposalNode.IH [OF s m] obtain A B where "nodes s = A @ nodes m @ B" by blast
    then have "nodes (ProposalNode q ss) =
        (ProposalNode q ss # concat (map nodes xs) @ A) @ nodes m @ (B @ concat (map nodes ys))"
      by (simp add: ss)
    then show ?thesis by blast
  qed
qed

lemma nodes_parent:
  "m \<in> set (nodes n) \<Longrightarrow> m \<noteq> n \<Longrightarrow> \<exists>p \<in> set (nodes n). m \<in> set (Sons p)"
proof (induction n)
  case (ProposalNode q ss)
  then obtain s where s: "s \<in> set ss" "m \<in> set (nodes s)" by auto
  with ProposalNode.IH [of s] show ?case by (cases "m = s") auto
qed

lemma son_neq: "s \<in> set (Sons p) \<Longrightarrow> s \<noteq> p"
  by (metis ProposalNode.collapse add.right_neutral add_Suc_right less_irrefl less_Suc_eq
      not_add_less1 ProposalNode.size(2) size_list_estimation)

lemma distinct_ids_eq:
  "distinct (ids r) \<Longrightarrow> m \<in> set (nodes r) \<Longrightarrow> n \<in> set (nodes r) \<Longrightarrow>
     bytes_equal (GetProposalId (In m)) (GetProposalId (In n)) \<Longrightarrow> m = n"
  by (auto simp: ids_def bytes_equal_def distinct_map dest: inj_onD)

lemma found_parent_son:
  assumes "linked r" and dist: "distinct (ids r)" and m: "m \<in> set (nodes r)" "m \<noteq> r"
    and p: "dfsQuery r (GetParentProposalId (In m)) = Some p"
  shows "m \<in> set (Sons p)"
proof -
  from nodes_parent [OF m] obtain m' where m': "m' \<in> set (nodes r)" "m \<in> set (Sons m')" by blast
  with \<open>linked r\<close> have "link (In m) (In m')" by (simp add: linked_def)
  moreover have p': "p \<in> set (nodes r)" "link (In m) (In p)"
    using dfsQuery_SomeD [OF p] dfsQuery_link [OF p] by simp_all
  ultimately have "bytes_equal (GetProposalId (In m')) (GetProposalId (In p))"
    by (simp add: link_def bytes_equal_def)
  with dist m' p' show ?thesis by (metis distinct_ids_eq)
qed

lemma dfsSons_mem: "n \<in> set ns \<Longrightarrow> dfsSons (GetProposalId (In n)) ns \<noteq> None"
proof (induction ns)
  case (Cons m ns)
  have "dfsNode (GetProposalId (In n)) n \<noteq> None" by (cases n) simp
  with Cons show ?case by (auto split: option.splits)
qed simp

lemma sons_in_nodes: "s \<in> set (Sons p) \<Longrightarrow> s \<in> set (nodes p)"
  by (cases p) force

lemma nodes_shorter: "m \<in> set (nodes n) \<Longrightarrow> m \<noteq> n \<Longrightarrow> length (nodes m) < length (nodes n)"
proof (induction n)
  case (ProposalNode q ss)
  then obtain s where s: "s \<in> set ss" "m \<in> set (nodes s)" by auto
  have "length (nodes m) \<le> length (nodes s)"
    using ProposalNode.IH [of s] s by (cases "m = s") auto
  also have "\<dots> \<le> length (concat (map nodes ss))"
    using s(1) by (induction ss) auto
  finally show ?case by simp
qed

lemma adoptOrphans_takes:
  "In n \<in> set (qcs node) \<or> (n \<in> set ns \<and> bytes_equal (GetParentProposalId (In n)) (GetProposalId (In node)))
     \<Longrightarrow> In n \<in> set (qcs (fst (adoptOrphans node ns)))"
proof (induction node ns rule: adoptOrphans.induct)
  case (2 node m ns)
  have "set (qcs (appendSon m node)) = set (qcs node) \<union> set (qcs m)"
    using mset_qcs_appendSon [of m node] by (metis set_mset_mset set_mset_union)
  moreover have "In m \<in> set (qcs m)" by (cases m) simp
  ultimately show ?case using 2 by (auto simp: case_prod_beta)
qed simp

lemma cutAbove_exact:
  assumes "linked r" and dist: "distinct (ids r)" and p3: "p3 \<in> set (nodes r)" "p3 \<noteq> r"
    and p4: "dfsQuery r (GetParentProposalId (In p3)) = Some p4"
  shows "cutAbove r p3 p4 = p3"
proof -
  have son: "p3 \<in> set (Sons p4)" by (rule found_parent_son) fact+
  have p4': "p4 \<in> set (nodes r)" using dfsQuery_SomeD [OF p4] by simp
  have ne: "\<not> bytes_equal (GetProposalId (In p3)) (GetProposalId (In p4))"
    using distinct_ids_eq [OF dist p3(1) p4'] son_neq [OF son] by blast
  from nodes_split [OF p4'] obtain A B where AB: "nodes r = A @ nodes p4 @ B" by blast
  have before: "set (takeWhile (\<lambda>n. \<not> bytes_equal (GetProposalId (In n)) (GetProposalId (In p4)))
      (nodes r)) \<subseteq> set A"
  proof -
    obtain rest where "nodes p4 = p4 # rest" by (cases p4) simp
    then show ?thesis unfolding AB by (auto simp: takeWhile_append dest: set_takeWhileD)
  qed
  have "\<not> bytes_equal (GetProposalId (In n)) (GetProposalId (In p3))" if "n \<in> set A" for n
  proof
    assume "bytes_equal (GetProposalId (In n)) (GetProposalId (In p3))"
    moreover have "n \<in> set (nodes r)" using that AB by simp
    ultimately have "n = p3" using dist p3(1) by (metis distinct_ids_eq)
    moreover have "distinct (nodes r)" using dist by (simp add: ids_def distinct_map)
    ultimately show False using that sons_in_nodes [OF son] AB by auto
  qed
  then show ?thesis using ne before dfsSons_mem [OF son] by (auto simp: cutAbove_def Let_def)
qed

lemma InitQCTree_inv:
  assumes height: "is_i64 (blkHeight tip)"
    and blk: "\<And>h b. query h = Some b \<Longrightarrow> blkBlockid b \<noteq> None"
    and ok: "InitQCTree startHeight query tip = Ok (Some t)"
  shows "tree_inv t"
proof -
  have node: "\<exists>b. query h = Some b \<and> Sons n = [] \<and> GetProposalId (In n) = blkBlockid b \<and>
      (\<forall>pre. query (i64 (h - 1)) = Some pre \<longrightarrow> GetParentProposalId (In n) = blkBlockid pre)"
    if "NewTreeNode query h = Some n" for h n
    using that by (auto simp: NewTreeNode_def Let_def qc_getters split: option.splits)
  have lnk: "link (In s) (In p)" if s: "NewTreeNode query h = Some s"
    and p: "NewTreeNode query (i64 (h - 1)) = Some p" for h s p
    using node [OF s] node [OF p] blk by (auto simp: link_def)
  have leaf: "linked n" if "NewTreeNode query h = Some n" for h n
    using node [OF that] by (cases n) auto
  have tipsons: "\<forall>s \<in> set (case NewTreeNode query H of None \<Rightarrow> [] | Some n \<Rightarrow> [n]). link (In s) (In p) \<and> linked s"
    if "NewTreeNode query (i64 (H - 1)) = Some p" for H p
    using that lnk [of H] leaf [of H] by (auto split: option.splits)
  show ?thesis
  proof (cases "3 \<le> blkHeight tip \<and> \<not> blkHeight tip \<le> startHeight")
    case True
    then have "i64 (blkHeight tip - 3) = i64 (i64 (blkHeight tip - 2) - 1)"
      "i64 (blkHeight tip - 2) = i64 (i64 (blkHeight tip - 1) - 1)"
      using height by (simp_all add: i64_id is_i64_def)
    note shift = this
    from True ok obtain g r gen h where
      n: "NewTreeNode query (i64 (blkHeight tip - 3)) = Some r"
        "NewTreeNode query (i64 (blkHeight tip - 2)) = Some gen"
        "NewTreeNode query (i64 (blkHeight tip - 1)) = Some h"
      and t: "highQC t = In h" "genericQC t = Some (In gen)" "lockedQC t = None"
        "commitQC t = None" "orphanList t = []"
        "root t = ProposalNode (In r) [ProposalNode (In gen) [ProposalNode (In h)
           (case NewTreeNode query (blkHeight tip) of None \<Rightarrow> [] | Some n \<Rightarrow> [n])]]"
      by (auto simp: InitQCTree_def Let_def split: option.splits)
    have "link (In gen) (In r)" "link (In h) (In gen)"
      using lnk [OF n(2)] lnk [OF n(3)] n(1,2) shift by simp_all
    with t tipsons [OF n(3)] show ?thesis
      by (simp add: tree_inv_def chain_ok_def)
  next
    case False
    then show ?thesis
      using ok lnk [of 1] tipsons [of 1] tipsons [of 2] leaf [of 0]
      by (auto simp: InitQCTree_def Let_def tree_inv_def chain_ok_def i64_numeral
          split: option.splits if_splits)
  qed
qed

section \<open>The interface the state machine uses\<close>

text \<open>
  What the SMR relies on of its certificate store: every operation keeps the store's
  invariant, a lookup returns a stored certificate with the wanted id, the view of the highest
  certificate falls only when it is forced, and a commit forgets certificates but adds none.
\<close>

datatype store_op = Add QuorumCert | Raise slice | Force slice | Commit slice

locale cert_store =
  fixes inv :: "'t \<Rightarrow> bool"
    and certs :: "'t \<Rightarrow> QuorumCert set"
    and high :: "'t \<Rightarrow> QuorumCert"
    and lookup :: "'t \<Rightarrow> slice \<Rightarrow> QuorumCert option"
    and add :: "'t \<Rightarrow> QuorumCert \<Rightarrow> 't"
    and raise :: "'t \<Rightarrow> slice \<Rightarrow> 't"
    and force :: "'t \<Rightarrow> slice \<Rightarrow> 't"
    and commit :: "'t \<Rightarrow> slice \<Rightarrow> 't"
  assumes lookup_sound: "lookup t i = Some q \<Longrightarrow> q \<in> certs t \<and> bytes_equal (GetProposalId q) i"
    and lookup_complete: "q \<in> certs t \<Longrightarrow> GetProposalId q \<noteq> None \<Longrightarrow> lookup t (GetProposalId q) \<noteq> None"
    and inv_add: "inv t \<Longrightarrow> inv (add t q)"
    and inv_raise: "inv t \<Longrightarrow> inv (raise t i)"
    and inv_force: "inv t \<Longrightarrow> inv (force t i)"
    and inv_commit: "inv t \<Longrightarrow> inv (commit t i)"
    and high_add: "GetProposalView (high t) \<le> GetProposalView (high (add t q))"
    and high_raise: "GetProposalView (high t) \<le> GetProposalView (high (raise t i))"
    and high_commit: "high (commit t i) = high t"
    and certs_raise: "certs (raise t i) = certs t"
    and certs_force: "certs (force t i) = certs t"
    and certs_commit: "certs (commit t i) \<subseteq> certs t"
begin

primrec exec :: "store_op \<Rightarrow> 't \<Rightarrow> 't" where
  "exec (Add q) t = add t q"
| "exec (Raise i) t = raise t i"
| "exec (Force i) t = force t i"
| "exec (Commit i) t = commit t i"

definition run :: "store_op list \<Rightarrow> 't \<Rightarrow> 't" where
  "run ops t = fold exec ops t"

lemma run_simps [simp]: "run [] t = t" "run (x # ops) t = run ops (exec x t)"
  "run (as @ bs) t = run bs (run as t)"
  by (simp_all add: run_def)

lemma exec_inv: "inv t \<Longrightarrow> inv (exec x t)"
  by (cases x) (auto simp: inv_add inv_raise inv_force inv_commit)

lemma run_inv: "inv t \<Longrightarrow> inv (run ops t)"
  by (induction ops arbitrary: t) (auto simp: exec_inv)

lemma exec_high:
  "\<forall>i. x \<noteq> Force i \<Longrightarrow> GetProposalView (high t) \<le> GetProposalView (high (exec x t))"
  by (cases x) (auto simp: high_add high_raise high_commit)

lemma run_high:
  "\<forall>i. Force i \<notin> set ops \<Longrightarrow> GetProposalView (high t) \<le> GetProposalView (high (run ops t))"
proof (induction ops arbitrary: t)
  case (Cons x ops)
  then have "GetProposalView (high t) \<le> GetProposalView (high (exec x t))"
    by (intro exec_high) auto
  also have "\<dots> \<le> GetProposalView (high (run ops (exec x t)))"
    using Cons by simp
  finally show ?case by simp
qed simp

lemma run_certs:
  "\<forall>q. Add q \<notin> set ops \<Longrightarrow> certs (run ops t) \<subseteq> certs t"
proof (induction ops arbitrary: t)
  case (Cons x ops)
  then have "certs (exec x t) \<subseteq> certs t"
    using certs_raise certs_force certs_commit by (cases x) auto
  with Cons show ?case by fastforce
qed simp

end

definition tree_lookup :: "QCPendingTree \<Rightarrow> slice \<Rightarrow> QuorumCert option" where
  "tree_lookup t i = map_option In (DFSQueryNode t i)"

definition tree_add :: "QCPendingTree \<Rightarrow> QuorumCert \<Rightarrow> QCPendingTree" where
  "tree_add t q = fst (UpdateQcStatus t (ProposalNode q []))"

definition tree_force :: "QCPendingTree \<Rightarrow> slice \<Rightarrow> QCPendingTree" where
  "tree_force t i = fst (EnforceUpdateHighQC t i)"

lemma highQC_UpdateQcStatus:
  "GetProposalView (highQC t) \<le> GetProposalView (highQC (fst (UpdateQcStatus t node)))"
proof (cases "insertNode t node")
  case (Pair t' e)
  then have "highQC t' = highQC t" by (metis fst_conv insertNode_frame(1))
  with Pair show ?thesis
    by (cases e) (auto simp: UpdateQcStatus_def split: option.splits)
qed

lemma highQC_UpdateHighQC:
  "GetProposalView (highQC t) \<le> GetProposalView (highQC (UpdateHighQC t i))"
  by (auto simp: UpdateHighQC_def split: option.splits)

lemma root_UpdateHighQC [simp]: "root (UpdateHighQC t i) = root t"
  by (simp add: UpdateHighQC_def split: option.splits)

lemma root_Enforce [simp]: "root (fst (EnforceUpdateHighQC t i)) = root t"
  by (simp add: EnforceUpdateHighQC_def split: option.splits)

interpretation qct: cert_store tree_inv "\<lambda>t. set (qcs (root t))" highQC tree_lookup tree_add
  UpdateHighQC tree_force UpdateCommit
proof unfold_locales
  show "q \<in> set (qcs (root t)) \<and> bytes_equal (GetProposalId q) i"
    if "tree_lookup t i = Some q" for t i q
    using that by (auto simp: tree_lookup_def DFSQueryNode_def qcs_def dest: dfsQuery_SomeD)
  show "tree_lookup t (GetProposalId q) \<noteq> None"
    if "q \<in> set (qcs (root t))" "GetProposalId q \<noteq> None" for q t
    using that dfsQuery_None_iff [of "root t" "GetProposalId q"]
    by (auto simp: tree_lookup_def DFSQueryNode_def)
  show "tree_inv (tree_add t q)" if "tree_inv t" for t q
    using that by (simp add: tree_add_def tree_inv_UpdateQcStatus)
qed (auto simp: tree_add_def tree_force_def tree_inv_UpdateHighQC tree_inv_Enforce
    tree_inv_UpdateCommit highQC_UpdateQcStatus highQC_UpdateHighQC root_UpdateHighQC
    root_Enforce dest: subsetD [OF UpdateCommit_qcs] split: option.splits)

section \<open>Properties\<close>

text \<open>A concrete ledger of six blocks and a chain of certificates, for the witnesses.\<close>

definition demo_id :: "int \<Rightarrow> string" where
  "demo_id h = [''b0'', ''b1'', ''b2'', ''b3'', ''b4'', ''b5''] ! nat h"

definition demo_block :: "int \<Rightarrow> BlockInfo option" where
  "demo_block h = (if 0 \<le> h \<and> h \<le> 5
     then Some \<lparr>blkBlockid = Some (demo_id h), blkHeight = h,
                blkPreHash = (if h = 0 then None else Some (demo_id (h - 1))), blkTimestamp = h,
                blkProposer = Some ''A'', blkStorage = None\<rparr>
     else None)"

definition demo_qc :: "string \<Rightarrow> int \<Rightarrow> string \<Rightarrow> QuorumCert" where
  "demo_qc i v p = NewQuorumCert
     \<lparr>ProposalId = Some i, ProposalView = v, ParentId = Some p, ParentView = v - 1\<rparr> None None"

definition demo_tree :: "ProposalNode \<Rightarrow> QCPendingTree" where
  "demo_tree r = \<lparr>genesis = In r, root = r, highQC = In r, genericQC = None, lockedQC = None,
     commitQC = None, orphanList = [], orphanMap = {}\<rparr>"

lemmas demo_defs = demo_qc_def demo_tree_def qc_getters bytes_equal_def contents_def

text \<open>
  C5: Every state of the pending tree reached from the constructor by insertions, raising or
  forcing the highest certificate and commits satisfies the tree invariant: every son names
  the node it hangs under as its parent, in the tree and in the orphan forest, and the
  generic, locked and commit certificates are the parent, grandparent and great-grandparent
  of the highest one. The hypotheses are on the ledger: the tip height is an int64 and blocks
  have an id.
\<close>

theorem reachable_tree_inv:
  assumes "is_i64 (blkHeight tip)" and "\<And>h b. query h = Some b \<Longrightarrow> blkBlockid b \<noteq> None"
    and "InitQCTree startHeight query tip = Ok (Some t)"
  shows "tree_inv (qct.run ops t)"
  by (rule qct.run_inv) (rule InitQCTree_inv [OF assms])

lemma demo_block_id: "demo_block h = Some b \<Longrightarrow> blkBlockid b \<noteq> None"
  by (auto simp: demo_block_def split: if_splits)

definition demo_init :: "QCPendingTree" where
  "demo_init = (case InitQCTree 1 demo_block (the (demo_block 5)) of Ok (Some t) \<Rightarrow> t)"

lemma demo_init: "InitQCTree 1 demo_block (the (demo_block 5)) = Ok (Some demo_init)"
  by (simp add: demo_init_def InitQCTree_def NewTreeNode_def demo_block_def Let_def)

theorem reachable_tree_inv_witness:
  "tree_inv (qct.run [Add (demo_qc ''x'' 6 ''b5''), Raise (Some ''x''),
     Commit (Some ''x''), Force (Some ''b4'')] demo_init)"
  by (rule reachable_tree_inv [where query = demo_block and startHeight = 1
        and tip = "the (demo_block 5)", OF _ _ demo_init])
    (rule demo_block_id | simp add: demo_block_def is_i64_def)+

text \<open>
  C6: The view of the highest certificate never decreases under insertions, \<open>UpdateHighQC\<close>
  and commits, in whatever order they come; only the forced update of \<open>ResetProposerStatus\<close>
  can lower it.
\<close>

theorem high_view_monotone:
  assumes "\<And>i. Force i \<notin> set ops"
  shows "GetProposalView (highQC t) \<le> GetProposalView (highQC (qct.run ops t))"
  using assms by (intro qct.run_high) blast

theorem high_view_monotone_witness:
  "GetProposalView (highQC (demo_tree (ProposalNode (demo_qc ''a'' 1 ''z'') [])))
     \<le> GetProposalView (highQC (qct.run [Add (demo_qc ''b'' 2 ''a''), Raise (Some ''b'')]
         (demo_tree (ProposalNode (demo_qc ''a'' 1 ''z'') []))))"
  by (rule high_view_monotone) simp

text \<open>
  Inserting a certificate whose parent is in the tree and whose id is new succeeds, keeps
  every certificate of the tree and of the orphan forest and adds exactly the new one, and the
  tree then answers for its id.
\<close>

theorem UpdateQcStatus_inserts:
  assumes "dfsQuery (root t) (GetParentProposalId q) = Some p"
    and "dfsQuery (root t) (GetProposalId q) = None"
    and "GetProposalId q \<noteq> None"
  shows "snd (UpdateQcStatus t (ProposalNode q [])) = None \<and>
    forest_qcs (tree_add t q) = forest_qcs t + {#q#} \<and>
    tree_lookup (tree_add t q) (GetProposalId q) \<noteq> None"
proof (intro conjI)
  let ?n = "ProposalNode q []"
  have some: "GetParentProposalId (In ?n) \<noteq> None"
    using assms(1) by (auto dest: dfsQuery_SomeD)
  show "snd (UpdateQcStatus t ?n) = None"
    using assms some by (auto simp: UpdateQcStatus_def insertNode_def Let_def case_prod_beta
        split: option.splits)
  show "forest_qcs (tree_add t q) = forest_qcs t + {#q#}"
    using assms forest_qcs_insert_found [of t ?n p]
    by (simp add: tree_add_def forest_qcs_UpdateQcStatus)
  have "q \<in> set (qcs (root (tree_add t q)))"
  proof -
    let ?a = "fst (adoptOrphans ?n (orphanList t))"
    have "q \<in> set (qcs ?a)"
      using in_qcs_nodes [OF self_in_nodes, of ?a] by (simp add: adoptOrphans_In)
    moreover have "dfsNode (GetParentProposalId q) (root t) \<noteq> None"
      using assms(1) by (auto simp: dfsQuery_def split: if_splits)
    ultimately have "q \<in># mset (qcs (updNode (appendSon ?a) (GetParentProposalId q) (root t)))"
      by (simp add: mset_qcs_updNode)
    then show ?thesis
      using assms some by (simp add: tree_add_def UpdateQcStatus_root insertNode_found)
  qed
  then show "tree_lookup (tree_add t q) (GetProposalId q) \<noteq> None"
    using assms(3) by (rule qct.lookup_complete)
qed

theorem UpdateQcStatus_inserts_witness:
  "forest_qcs (tree_add (demo_tree (ProposalNode (demo_qc ''a'' 1 ''z'') [])) (demo_qc ''b'' 2 ''a''))
     = {#demo_qc ''a'' 1 ''z'', demo_qc ''b'' 2 ''a''#}"
  using UpdateQcStatus_inserts [of "demo_tree (ProposalNode (demo_qc ''a'' 1 ''z'') [])"
      "demo_qc ''b'' 2 ''a''" "ProposalNode (demo_qc ''a'' 1 ''z'') []"]
  by (simp add: demo_defs dfsQuery_def forest_qcs_def add_mset_commute)

text \<open>
  C7: In a tree whose sons name their parents, with distinct ids and a root whose own parent
  is gone, a commit of a proposal with four ancestors in the tree makes its third ancestor the
  new root with the whole subtree below it: the three generations down to the committed
  proposal survive, and the tree gets smaller.
\<close>

theorem UpdateCommit_prunes:
  assumes tree: "linked (root t)" "distinct (ids (root t))"
    and top: "dfsQuery (root t) (GetParentProposalId (In (root t))) = None"
    and n: "dfsQuery (root t) i = Some n"
    and p: "dfsQuery (root t) (GetParentProposalId (In n)) = Some p"
    and pp: "dfsQuery (root t) (GetParentProposalId (In p)) = Some pp"
    and p3: "dfsQuery (root t) (GetParentProposalId (In pp)) = Some p3"
    and p4: "dfsQuery (root t) (GetParentProposalId (In p3)) = Some p4"
  shows "root (UpdateCommit t i) = p3 \<and> {n, p, pp} \<subseteq> set (nodes p3) \<and>
    length (nodes p3) < length (nodes (root t))"
proof -
  have ne: "m \<noteq> root t" if "dfsQuery (root t) (GetParentProposalId (In m)) = Some q" for m q
    using that top by auto
  note mem = n [THEN dfsQuery_SomeD] p [THEN dfsQuery_SomeD] pp [THEN dfsQuery_SomeD]
    p3 [THEN dfsQuery_SomeD]
  note son = found_parent_son [OF tree]
  have "n \<in> set (Sons p)" "p \<in> set (Sons pp)" "pp \<in> set (Sons p3)"
    using son [OF _ ne [OF p] p] son [OF _ ne [OF pp] pp] son [OF _ ne [OF p3] p3] mem by simp_all
  then have "pp \<in> set (nodes p3)" "p \<in> set (nodes pp)" "n \<in> set (nodes p)"
    by (simp_all add: sons_in_nodes)
  then have sub: "{n, p, pp} \<subseteq> set (nodes p3)"
    using nodes_trans by blast
  have "cutAbove (root t) p3 p4 = p3"
    by (rule cutAbove_exact [OF tree _ ne [OF p4] p4]) (use mem in simp)
  then have "root (UpdateCommit t i) = p3"
    using n p pp p3 p4 by (simp add: UpdateCommit_def)
  moreover have "length (nodes p3) < length (nodes (root t))"
    by (rule nodes_shorter [OF _ ne [OF p4]]) (use mem in simp)
  ultimately show ?thesis using sub by blast
qed

definition demo_chain :: "QCPendingTree" where
  "demo_chain = demo_tree
     (ProposalNode (demo_qc ''a'' 1 ''z'') [ProposalNode (demo_qc ''u'' 2 ''a'') [],
        ProposalNode (demo_qc ''b'' 2 ''a'') [ProposalNode (demo_qc ''c'' 3 ''b'')
          [ProposalNode (demo_qc ''d'' 4 ''c'') [ProposalNode (demo_qc ''e'' 5 ''d'') []]]]])"

theorem UpdateCommit_prunes_witness:
  "map GetProposalId (qcs (root (UpdateCommit demo_chain (Some ''e'')))) =
     [Some ''b'', Some ''c'', Some ''d'', Some ''e'']"
proof -
  let ?e = "ProposalNode (demo_qc ''e'' 5 ''d'') []"
  let ?d = "ProposalNode (demo_qc ''d'' 4 ''c'') [?e]"
  let ?c = "ProposalNode (demo_qc ''c'' 3 ''b'') [?d]"
  let ?b = "ProposalNode (demo_qc ''b'' 2 ''a'') [?c]"
  have "root (UpdateCommit demo_chain (Some ''e'')) = ?b"
    using UpdateCommit_prunes [of demo_chain "Some ''e''" ?e ?d ?c ?b "root demo_chain"]
    by (simp add: demo_chain_def demo_defs dfsQuery_def ids_def link_def)
  then show ?thesis by (simp add: demo_defs)
qed

text \<open>
  A proposal that arrived before its parent is adopted when the parent enters the tree:
  every orphan of the list that names the inserted proposal as its parent is then in the tree,
  and has left the orphan list.
\<close>

theorem orphans_adopted:
  assumes "dfsQuery (root t) (GetParentProposalId q) = Some p"
    and "dfsQuery (root t) (GetProposalId q) = None"
    and "o' \<in> set (orphanList t)"
    and "bytes_equal (GetParentProposalId (In o')) (GetProposalId q)"
  shows "In o' \<in> set (qcs (root (tree_add t q))) \<and> o' \<notin> set (orphanList (tree_add t q))"
proof -
  let ?n = "ProposalNode q []"
  let ?a = "adoptOrphans ?n (orphanList t)"
  have some: "GetParentProposalId (In ?n) \<noteq> None"
    using assms(1) by (auto dest: dfsQuery_SomeD)
  have rest: "orphanList (tree_add t q) = snd ?a"
    using assms(1,2) some by (simp add: tree_add_def UpdateQcStatus_root insertNode_found)
  have "In o' \<in> set (qcs (fst ?a))"
    using assms(3,4) by (intro adoptOrphans_takes) auto
  moreover have "dfsNode (GetParentProposalId q) (root t) \<noteq> None"
    using assms(1) by (auto simp: dfsQuery_def split: if_splits)
  ultimately have "In o' \<in># mset (qcs (updNode (appendSon (fst ?a)) (GetParentProposalId q) (root t)))"
    by (simp add: mset_qcs_updNode)
  then have "In o' \<in> set (qcs (root (tree_add t q)))"
    using assms(1,2) some by (simp add: tree_add_def UpdateQcStatus_root insertNode_found)
  with rest assms(4) show ?thesis by (simp add: adoptOrphans_rest)
qed

theorem orphans_adopted_witness:
  "demo_qc ''c'' 3 ''b'' \<in> set (qcs (root (tree_add
     (tree_add (demo_tree (ProposalNode (demo_qc ''a'' 1 ''z'') [])) (demo_qc ''c'' 3 ''b''))
     (demo_qc ''b'' 2 ''a''))))"
  using orphans_adopted [of
      "tree_add (demo_tree (ProposalNode (demo_qc ''a'' 1 ''z'') [])) (demo_qc ''c'' 3 ''b'')"
      "demo_qc ''b'' 2 ''a''" "ProposalNode (demo_qc ''a'' 1 ''z'') []"
      "ProposalNode (demo_qc ''c'' 3 ''b'') []"]
  by (simp add: tree_add_def UpdateQcStatus_def insertNode_def insertOrphan_def demo_defs
      dfsQuery_def Let_def)

section \<open>A stranded orphan\<close>

text \<open>
  \<open>insertOrphan\<close> stops at the first orphan that names the new node as its parent, so of two
  such orphans the second stays at the top of the list; once the new node enters the tree
  below its own parent, no later insertion looks for the second one's parent again. Here the
  proposals x and y of the same parent p arrive, then p, then its parent q, whose parent is
  the root: p and x are in the tree at the end, y is an orphan although its parent is in the
  tree.
\<close>

definition stranded :: "QCPendingTree" where
  "stranded = fold (\<lambda>q t. tree_add t q)
     [demo_qc ''x'' 4 ''p'', demo_qc ''y'' 4 ''p'', demo_qc ''p'' 3 ''q'', demo_qc ''q'' 2 ''a'']
     (demo_tree (ProposalNode (demo_qc ''a'' 1 ''z'') []))"

lemma stranded_orphan:
  "map GetProposalId (qcs (root stranded)) = [Some ''a'', Some ''q'', Some ''p'', Some ''x''] \<and>
   orphanList stranded = [ProposalNode (demo_qc ''y'' 4 ''p'') []]"
  by (simp add: stranded_def tree_add_def UpdateQcStatus_def insertNode_def insertOrphan_def
      updateQCs_def appendSon_def demo_defs dfsQuery_def Let_def utils_F_eq_iff)

end
