(* ===== verification/Go_Json.thy ===== *)
theory Go_Json
  imports Xuper_Base
begin

text \<open>
  What the hashes of the code use of \<open>encoding/json\<close>: an integer in decimal and a byte slice as a
  base64 string, \<open>null\<close> when it is nil. Both are injective and fit on one line.
\<close>

definition b64_alphabet :: string where
  "b64_alphabet = ''ABCDEFGHIJKLMNOPQRSTUVWXYZabcdefghijklmnopqrstuvwxyz0123456789+/''"

definition b64_char :: "nat \<Rightarrow> char" where
  "b64_char n = b64_alphabet ! n"

fun b64 :: "nat list \<Rightarrow> string" where
  "b64 [] = []"
| "b64 [a] = [b64_char (a div 4), b64_char (a mod 4 * 16), CHR ''='', CHR ''='']"
| "b64 [a, b] = [b64_char (a div 4), b64_char (a mod 4 * 16 + b div 16),
     b64_char (b mod 16 * 4), CHR ''='']"
| "b64 (a # b # c # r) = b64_char (a div 4) # b64_char (a mod 4 * 16 + b div 16)
     # b64_char (b mod 16 * 4 + c div 64) # b64_char (c mod 64) # b64 r"

definition json_bytes :: "slice \<Rightarrow> string" where
  "json_bytes s = (case s of None \<Rightarrow> ''null''
     | Some bs \<Rightarrow> CHR 0x22 # b64 (map of_char bs) @ [CHR 0x22])"

definition json_int :: "int \<Rightarrow> string" where
  "json_int i = (if i < 0 then CHR ''-'' # show_nat (nat (- i)) else show_nat (nat i))"

lemma b64_char_inj: "m < 64 \<Longrightarrow> n < 64 \<Longrightarrow> b64_char m = b64_char n \<Longrightarrow> m = n"
proof -
  have "distinct b64_alphabet" "length b64_alphabet = 64"
    by (simp_all add: b64_alphabet_def)
  then show "m < 64 \<Longrightarrow> n < 64 \<Longrightarrow> b64_char m = b64_char n \<Longrightarrow> m = n"
    by (simp add: b64_char_def nth_eq_iff_index_eq)
qed

lemma b64_char_mem: "n < 64 \<Longrightarrow> b64_char n \<in> set b64_alphabet"
  unfolding b64_char_def by (rule nth_mem) (simp add: b64_alphabet_def)

lemma b64_char_neq:
  assumes "n < 64" shows "b64_char n \<noteq> CHR ''=''" "b64_char n \<noteq> CHR 0x22" "b64_char n \<noteq> CHR 0x0A"
  using b64_char_mem [OF assms] by (auto simp: b64_alphabet_def)

lemma base_split:
  assumes "x * k + y = x' * k + y'" and "y < k" and "y' < (k :: nat)"
  shows "x = x' \<and> y = y'"
proof -
  have "(x * k + y) div k = x" "(x' * k + y') div k = x'"
    "(x * k + y) mod k = y" "(x' * k + y') mod k = y'"
    using assms(2,3) by simp_all
  with assms(1) show ?thesis by metis
qed

lemma div_mod_eqI: "a div k = b div k \<Longrightarrow> a mod k = b mod k \<Longrightarrow> a = b" for a b k :: nat
  by (metis div_mult_mod_eq)

lemma byte_split:
  assumes "a div 4 = a' div 4" and "a mod 4 * 16 + b div 16 = a' mod 4 * 16 + b' div 16"
    and "b < 256" and "b' < (256 :: nat)"
  shows "a = a' \<and> b div 16 = b' div 16"
proof -
  have "b div 16 < 16" "b' div 16 < 16" using assms(3,4) by simp_all
  from base_split [OF assms(2) this] assms(1) show ?thesis by (auto intro: div_mod_eqI)
qed

lemma byte_split2:
  assumes "b div 16 = b' div 16" and "b mod 16 * 4 + c div 64 = b' mod 16 * 4 + c' div 64"
    and "c mod 64 = c' mod 64" and "c < 256" and "c' < (256 :: nat)"
  shows "b = b' \<and> c = c'"
proof -
  have "c div 64 < 4" "c' div 64 < 4" using assms(4,5) by simp_all
  from base_split [OF assms(2) this] assms(1,3) show ?thesis by (auto intro: div_mod_eqI)
qed

lemma sextet_bounds:
  assumes "a < 256" "b < 256" "c < (256 :: nat)"
  shows "a div 4 < 64" "a mod 4 * 16 < 64" "a mod 4 * 16 + b div 16 < 64"
    "b mod 16 * 4 < 64" "b mod 16 * 4 + c div 64 < 64" "c mod 64 < 64"
proof -
  have "a mod 4 < 4" "b mod 16 < 16" "b div 16 < 16" "c div 64 < 4" "a div 4 < 64" "c mod 64 < 64"
    using assms by simp_all
  then show "a div 4 < 64" "a mod 4 * 16 < 64" "a mod 4 * 16 + b div 16 < 64"
    "b mod 16 * 4 < 64" "b mod 16 * 4 + c div 64 < 64" "c mod 64 < 64" by linarith+
qed

lemma zero256: "0 < (256 :: nat)"
  by simp

lemma one_inj:
  assumes "a < 256" "a' < 256" and c: "b64_char (a div 4) = b64_char (a' div 4)"
    "b64_char (a mod 4 * 16) = b64_char (a' mod 4 * 16)"
  shows "a = a'"
proof -
  note s = sextet_bounds [OF assms(1) zero256 zero256] and s' = sextet_bounds [OF assms(2) zero256 zero256]
  have "a div 4 = a' div 4" using s(1) s'(1) c(1) by (rule b64_char_inj)
  moreover have "a mod 4 * 16 = a' mod 4 * 16" using s(2) s'(2) c(2) by (rule b64_char_inj)
  ultimately show ?thesis by (auto intro: div_mod_eqI)
qed

lemma two_inj:
  assumes "a < 256" "b < 256" "a' < 256" "b' < 256"
    and c: "b64_char (a div 4) = b64_char (a' div 4)"
    "b64_char (a mod 4 * 16 + b div 16) = b64_char (a' mod 4 * 16 + b' div 16)"
    "b64_char (b mod 16 * 4) = b64_char (b' mod 16 * 4)"
  shows "a = a' \<and> b = b'"
proof -
  note s = sextet_bounds [OF assms(1,2) zero256] and s' = sextet_bounds [OF assms(3,4) zero256]
  have "a div 4 = a' div 4" using s(1) s'(1) c(1) by (rule b64_char_inj)
  moreover have "a mod 4 * 16 + b div 16 = a' mod 4 * 16 + b' div 16"
    using s(3) s'(3) c(2) by (rule b64_char_inj)
  ultimately have "a = a' \<and> b div 16 = b' div 16" using assms(2,4) by (rule byte_split)
  moreover have "b mod 16 * 4 = b' mod 16 * 4" using s(4) s'(4) c(3) by (rule b64_char_inj)
  ultimately show ?thesis by (auto intro: div_mod_eqI)
qed

lemma three_inj:
  assumes "a < 256" "b < 256" "c < 256" "a' < 256" "b' < 256" "c' < 256"
    and c: "b64_char (a div 4) = b64_char (a' div 4)"
    "b64_char (a mod 4 * 16 + b div 16) = b64_char (a' mod 4 * 16 + b' div 16)"
    "b64_char (b mod 16 * 4 + c div 64) = b64_char (b' mod 16 * 4 + c' div 64)"
    "b64_char (c mod 64) = b64_char (c' mod 64)"
  shows "a = a' \<and> b = b' \<and> c = c'"
proof -
  note s = sextet_bounds [OF assms(1,2,3)] and s' = sextet_bounds [OF assms(4,5,6)]
  have "a div 4 = a' div 4" using s(1) s'(1) c(1) by (rule b64_char_inj)
  moreover have "a mod 4 * 16 + b div 16 = a' mod 4 * 16 + b' div 16"
    using s(3) s'(3) c(2) by (rule b64_char_inj)
  ultimately have ab: "a = a' \<and> b div 16 = b' div 16" using assms(2,5) by (rule byte_split)
  have "b mod 16 * 4 + c div 64 = b' mod 16 * 4 + c' div 64"
    using s(5) s'(5) c(3) by (rule b64_char_inj)
  moreover have "c mod 64 = c' mod 64" using s(6) s'(6) c(4) by (rule b64_char_inj)
  ultimately show ?thesis using ab byte_split2 assms(3,6) by blast
qed

lemma pad_neq:
  assumes "b < 256" "c < (256 :: nat)"
  shows "b64_char (b mod 16 * 4) \<noteq> CHR ''=''" "b64_char (b mod 16 * 4 + c div 64) \<noteq> CHR ''=''"
    "b64_char (c mod 64) \<noteq> CHR ''=''"
  by (rule b64_char_neq(1), rule sextet_bounds(4-6) [OF assms(1) assms])+

lemma b64_inj:
  "\<forall>x \<in> set xs. x < 256 \<Longrightarrow> \<forall>y \<in> set ys. y < 256 \<Longrightarrow> b64 xs = b64 ys \<Longrightarrow> xs = ys"
proof (induction xs arbitrary: ys rule: b64.induct)
  case 1
  then show ?case by (cases ys rule: b64.cases) simp_all
next
  case (2 a)
  then have a: "a < 256" by simp
  show ?case
  proof (cases ys rule: b64.cases)
    case (2 a')
    with "2.prems" one_inj [OF a, of a'] show ?thesis by simp
  next
    case (3 a' b')
    with "2.prems" pad_neq [of b' 0] show ?thesis by simp
  next
    case (4 a' b' c' r')
    with "2.prems" pad_neq [of b' c'] show ?thesis by simp
  qed (use "2.prems" in simp)
next
  case (3 a b)
  then have ab: "a < 256" "b < 256" by simp_all
  show ?case
  proof (cases ys rule: b64.cases)
    case (2 a')
    with "3.prems" pad_neq [OF ab(2) ab(2)] show ?thesis by simp
  next
    case (3 a' b')
    with "3.prems" two_inj [OF ab, of a' b'] show ?thesis by simp
  next
    case (4 a' b' c' r')
    with "3.prems" pad_neq [of b' c'] show ?thesis by auto
  qed (use "3.prems" in simp)
next
  case (4 a b c r)
  then have abc: "a < 256" "b < 256" "c < 256" by simp_all
  show ?case
  proof (cases ys rule: b64.cases)
    case (2 a')
    with "4.prems" pad_neq [OF abc(2,3)] show ?thesis by simp
  next
    case (3 a' b')
    with "4.prems" pad_neq [OF abc(2,3)] show ?thesis by simp
  next
    case (4 a' b' c' r')
    with "4.prems" three_inj [OF abc, of a' b' c'] "4.IH" [of r'] show ?thesis by simp
  qed (use "4.prems" in simp)
qed

lemma json_bytes_inj: "json_bytes a = json_bytes b \<Longrightarrow> a = b"
proof -
  assume eq: "json_bytes a = json_bytes b"
  have inj: "xs = ys" if "b64 (map of_char xs) = b64 (map of_char ys)" for xs ys :: string
  proof -
    have "map of_char xs = (map of_char ys :: nat list)"
      using that by (intro b64_inj) (auto simp: less_char_def)
    then show ?thesis by (simp add: inj_map_eq_map inj_of_char)
  qed
  then have "b64 (map of_char xs) = b64 (map of_char ys) \<longleftrightarrow> xs = ys" for xs ys :: string
    by blast
  with eq show ?thesis
    by (cases a; cases b) (simp_all add: json_bytes_def)
qed

lemma b64_chars: "\<forall>x \<in> set xs. x < 256 \<Longrightarrow> CHR 0x0A \<notin> set (b64 xs)"
proof (induction xs rule: b64.induct)
  case (2 a)
  then have "a < 256" by simp
  note s = sextet_bounds [OF this zero256 zero256, THEN b64_char_neq(3)]
  from s(1,2) show ?case by auto
next
  case (3 a b)
  then have "a < 256" "b < 256" by simp_all
  note s = sextet_bounds [OF this zero256, THEN b64_char_neq(3)]
  from s(1,3,4) show ?case by auto
next
  case (4 a b c r)
  then have "a < 256" "b < 256" "c < 256" by simp_all
  note s = sextet_bounds [OF this, THEN b64_char_neq(3)]
  from s(1,3,5,6) 4 show ?case by auto
qed simp

lemma json_bytes_line: "CHR 0x0A \<notin> set (json_bytes s)"
  using b64_chars [of "map of_char (the s)"] by (auto simp: json_bytes_def split: option.splits)

lemma json_int_inj: "json_int i = json_int j \<Longrightarrow> i = j"
proof -
  assume eq: "json_int i = json_int j"
  have minus: "CHR ''-'' # xs \<noteq> show_nat n" for xs n
  proof -
    have "CHR ''-'' \<notin> set (show_nat n)" using show_nat_chars [of "CHR ''-''" n] by auto
    then show ?thesis by (metis list.set_intros(1))
  qed
  have "show_nat m = show_nat n \<longleftrightarrow> m = n" for m n
    using digits_val_show by metis
  with eq minus minus [symmetric] show ?thesis
    by (auto simp: json_int_def split: if_splits)
qed

lemma json_int_line: "CHR 0x0A \<notin> set (json_int i)"
  using show_nat_chars [of "CHR 0x0A"] by (auto simp: json_int_def)

lemma first_line_eq:
  "c \<notin> set xs \<Longrightarrow> c \<notin> set ys \<Longrightarrow> xs @ c # as = ys @ c # bs \<longleftrightarrow> xs = ys \<and> as = bs"
proof (induction xs arbitrary: ys)
  case Nil
  then show ?case by (cases ys) auto
next
  case (Cons x xs)
  then show ?case by (cases ys) auto
qed

end
