(* ===== verification/Cbft_Crypto.thy ===== *)
theory Cbft_Crypto
  imports Qc_Tree Go_Json
begin

text \<open>
  \<open>chained-bft/crypto/crypto.go\<close>: the digest of a proposal message, the signatures the driver
  makes and the check of a vote signature. The elliptic curve library and the hash are the
  parameter \<open>CryptoClient\<close>; the JSON encoding of the digest is that of \<open>Go_Json\<close>,
  with a newline after each value.
\<close>

section \<open>Messages and the crypto client\<close>

record ProposalMsg =
  pmProposalView :: int
  pmProposalId :: slice
  pmTimestamp :: int
  pmJustifyQC :: slice
  pmSign :: "QuorumCertSign option"
  pmMsgDigest :: slice

record Address =
  addrAddress :: string
  addrPublicKeyStr :: string
  addrPrivateKey :: string

record CryptoClient =
  SignECDSA :: "string \<Rightarrow> slice \<Rightarrow> string + slice"
  GetEcdsaPublicKeyFromJsonStr :: "string \<Rightarrow> string + string"
  GetAddressFromPublicKey :: "string \<Rightarrow> string + string"
  VerifyECDSA :: "string \<Rightarrow> slice \<Rightarrow> slice \<Rightarrow> bool \<times> string option"
  DoubleSha256 :: "bytes \<Rightarrow> bytes"

record CBFTCrypto =
  cAddress :: Address
  cClient :: CryptoClient

definition encodeProposalMsg :: "ProposalMsg \<Rightarrow> bytes" where
  "encodeProposalMsg msg =
     json_int (pmProposalView msg) @ [CHR 0x0A] @
     json_bytes (pmProposalId msg) @ [CHR 0x0A] @
     json_int (pmTimestamp msg) @ [CHR 0x0A] @
     json_bytes (pmJustifyQC msg) @ [CHR 0x0A]"

definition MakeProposalMsgDigest :: "CBFTCrypto \<Rightarrow> ProposalMsg \<Rightarrow> ProposalMsg \<times> slice" where
  "MakeProposalMsgDigest c msg =
     (let d = Some (DoubleSha256 (cClient c) (encodeProposalMsg msg))
      in (msg\<lparr>pmMsgDigest := d\<rparr>, d))"

definition sign_by :: "CBFTCrypto \<Rightarrow> slice \<Rightarrow> QuorumCertSign" where
  "sign_by c s = \<lparr>signAddress = addrAddress (cAddress c),
     signPublicKey = addrPublicKeyStr (cAddress c), signSign = s\<rparr>"

definition SignProposalMsg :: "CBFTCrypto \<Rightarrow> ProposalMsg \<Rightarrow> string + ProposalMsg" where
  "SignProposalMsg c msg =
     (let (msg1, msgDigest) = MakeProposalMsgDigest c msg
      in case SignECDSA (cClient c) (addrPrivateKey (cAddress c)) msgDigest of
           Inr s \<Rightarrow> Inr (msg1\<lparr>pmMsgDigest := msgDigest, pmSign := Some (sign_by c s)\<rparr>)
         | Inl e \<Rightarrow> Inl e)"

definition SignVoteMsg :: "CBFTCrypto \<Rightarrow> slice \<Rightarrow> string + QuorumCertSign" where
  "SignVoteMsg c msg =
     (case SignECDSA (cClient c) (addrPrivateKey (cAddress c)) msg of
        Inr s \<Rightarrow> Inr (sign_by c s)
      | Inl e \<Rightarrow> Inl e)"

text \<open>The pair is Go's \<open>(bool, error)\<close>, \<open>None\<close> the nil error.\<close>

definition VerifyVoteMsgSign :: "CBFTCrypto \<Rightarrow> QuorumCertSign \<Rightarrow> slice \<Rightarrow> bool \<times> string option" where
  "VerifyVoteMsgSign c sig msg =
     (case GetEcdsaPublicKeyFromJsonStr (cClient c) (signPublicKey sig) of
        Inr ak \<Rightarrow>
          (case GetAddressFromPublicKey (cClient c) ak of
             Inr addr \<Rightarrow>
               if addr \<noteq> signAddress sig
               then (False, Some (''VerifyVoteMsgSign error, addr not match pk: '' @ addr))
               else VerifyECDSA (cClient c) ak (signSign sig) msg
           | Inl e \<Rightarrow> (False, Some e))
      | Inl e \<Rightarrow> (False, Some e))"

section \<open>The digest binds the message\<close>

text \<open>
  The bytes a proposal's digest is computed from determine the view, the id, the timestamp
  and the justify certificate of the message: the JSON encoding is injective, so a signature
  over the digest binds all four, up to collisions of the hash.
\<close>

theorem encodeProposalMsg_injective:
  "encodeProposalMsg m = encodeProposalMsg m' \<longleftrightarrow>
     pmProposalView m = pmProposalView m' \<and> pmProposalId m = pmProposalId m' \<and>
     pmTimestamp m = pmTimestamp m' \<and> pmJustifyQC m = pmJustifyQC m'"
  by (auto simp: encodeProposalMsg_def first_line_eq json_int_line json_bytes_line
      dest: json_int_inj json_bytes_inj)

section \<open>Signing and checking\<close>

lemma SignProposalMsg_frame:
  "SignProposalMsg c msg = Inr m \<Longrightarrow>
     pmProposalView m = pmProposalView msg \<and> pmProposalId m = pmProposalId msg \<and>
     pmTimestamp m = pmTimestamp msg \<and> pmJustifyQC m = pmJustifyQC msg \<and>
     map_option signAddress (pmSign m) = Some (addrAddress (cAddress c))"
  by (auto simp: SignProposalMsg_def MakeProposalMsgDigest_def sign_by_def Let_def
      split: sum.splits)

lemma SignVoteMsg_address:
  "SignVoteMsg c msg = Inr s \<Longrightarrow> signAddress s = addrAddress (cAddress c)"
  by (auto simp: SignVoteMsg_def sign_by_def split: sum.splits)

text \<open>
  A vote signature made with \<open>SignVoteMsg\<close> passes \<open>VerifyVoteMsgSign\<close> on the same bytes,
  for every client whose keys belong together: the public key parses, its address is the
  signer's, and verification accepts what the private key signed.
\<close>

theorem sign_verify_roundtrip:
  assumes "GetEcdsaPublicKeyFromJsonStr (cClient c) (addrPublicKeyStr (cAddress c)) = Inr ak"
    and "GetAddressFromPublicKey (cClient c) ak = Inr (addrAddress (cAddress c))"
    and "\<And>s. SignECDSA (cClient c) (addrPrivateKey (cAddress c)) msg = Inr s \<Longrightarrow>
           VerifyECDSA (cClient c) ak s msg = (True, None)"
    and "SignVoteMsg c msg = Inr sig"
  shows "VerifyVoteMsgSign c sig msg = (True, None)"
  using assms
  by (auto simp: SignVoteMsg_def VerifyVoteMsgSign_def sign_by_def split: sum.splits)

text \<open>
  A concrete client: the signature of a message is the private key followed by the message,
  and public key, private key and address are the same string.
\<close>

definition demo_client :: CryptoClient where
  "demo_client = \<lparr>SignECDSA = (\<lambda>k m. Inr (Some (k @ contents m))),
     GetEcdsaPublicKeyFromJsonStr = Inr, GetAddressFromPublicKey = Inr,
     VerifyECDSA = (\<lambda>k s m. (s = Some (k @ contents m), None)), DoubleSha256 = id\<rparr>"

definition demo_crypto :: "string \<Rightarrow> CBFTCrypto" where
  "demo_crypto a = \<lparr>cAddress = \<lparr>addrAddress = a, addrPublicKeyStr = a, addrPrivateKey = a\<rparr>,
     cClient = demo_client\<rparr>"

theorem sign_verify_roundtrip_witness:
  "VerifyVoteMsgSign (demo_crypto ''A'')
     \<lparr>signAddress = ''A'', signPublicKey = ''A'', signSign = Some ''Am''\<rparr> (Some ''m'') = (True, None)"
  by (rule sign_verify_roundtrip [where ak = "''A''"])
    (simp_all add: demo_crypto_def demo_client_def SignVoteMsg_def sign_by_def contents_def)

end
