(* ===== verification/Safety_Rules.thy ===== *)
theory Safety_Rules
  imports Cbft_Crypto
begin

text \<open>
  \<open>chained-bft/saftyrules.go\<close> and \<open>pacemaker.go\<close>: the rules a node checks before it votes or
  accepts a proposal, the vote threshold, and the view counter. Rounds are int64, so the
  differences the code computes wrap (\<open>i64\<close>). The tree the rules read is the state machine's
  own, so it is an argument. An error result is \<open>None\<close> for Go's nil.
\<close>

section \<open>The pacemaker\<close>

record DefaultPaceMaker =
  CurrentView :: int

definition AdvanceView :: "DefaultPaceMaker \<Rightarrow> QuorumCert option \<Rightarrow> DefaultPaceMaker \<times> bool \<times> bft_error option" where
  "AdvanceView p qc =
     (case qc of
        None \<Rightarrow> (p, False, Some ErrNilQC)
      | Some q \<Rightarrow>
          let r = GetProposalView q
          in (if i64 (r + 1) > CurrentView p then p\<lparr>CurrentView := i64 (r + 1)\<rparr> else p, True, None))"

definition GetCurrentView :: "DefaultPaceMaker \<Rightarrow> int" where
  "GetCurrentView p = CurrentView p"

section \<open>The safety rules\<close>

definition StrictInternal :: int where
  "StrictInternal = 3"

definition PermissiveInternal :: int where
  "PermissiveInternal = 6"

record DefaultSaftyRules =
  lastVoteRound :: int
  preferredRound :: int

definition UpdatePreferredRound :: "DefaultSaftyRules \<Rightarrow> int \<Rightarrow> DefaultSaftyRules \<times> bool" where
  "UpdatePreferredRound s round' =
     ((if i64 (round' - 1) > preferredRound s then s\<lparr>preferredRound := i64 (round' - 1)\<rparr> else s), True)"

definition increaseLastVoteRound :: "DefaultSaftyRules \<Rightarrow> int \<Rightarrow> DefaultSaftyRules" where
  "increaseLastVoteRound s round' =
     (if round' > lastVoteRound s then s\<lparr>lastVoteRound := round'\<rparr> else s)"

definition VoteProposal ::
  "DefaultSaftyRules \<Rightarrow> slice \<Rightarrow> int \<Rightarrow> QuorumCert \<Rightarrow> DefaultSaftyRules \<times> bool" where
  "VoteProposal s proposalId proposalRound parentQc =
     (if proposalRound < i64 (lastVoteRound s - StrictInternal) then (s, False)
      else if GetProposalView parentQc < i64 (preferredRound s - StrictInternal) then (s, False)
      else (increaseLastVoteRound s proposalRound, True))"

definition isInSlice :: "string \<Rightarrow> string list \<Rightarrow> bool" where
  "isInSlice target s \<longleftrightarrow> list_ex (\<lambda>v. target = v) s"

text \<open>
  A failed signature check returns the error of the crypto client, which is nil when the
  client reports a mismatch as \<open>(false, nil)\<close>.
\<close>

definition CheckVote ::
  "CBFTCrypto \<Rightarrow> DefaultSaftyRules \<Rightarrow> QuorumCert \<Rightarrow> string list option \<Rightarrow> bft_error option" where
  "CheckVote c s qc validators =
     (case GetSignsInfo qc of
        Some (sign # _) \<Rightarrow>
          if \<not> isInSlice (signAddress sign) (contents_list validators) then Some InvalidVoteAddr
          else let (ok, err) = VerifyVoteMsgSign c sign (GetProposalId qc)
               in if \<not> ok then map_option ErrCrypto err
                  else if GetProposalView qc < i64 (lastVoteRound s - StrictInternal)
                  then Some TooLowVoteView
                  else if GetParentView qc < i64 (preferredRound s - StrictInternal)
                  then Some TooLowVParentView
                  else None
      | _ \<Rightarrow> Some EmptyVoteSignErr)"

definition CalVotesThreshold :: "int \<Rightarrow> int \<Rightarrow> bool" where
  "CalVotesThreshold input n =
     (let f = go_div (i64 (n - 1)) 3
      in if f < 0 then False
         else if f = 0 then i64 (input + 1) \<ge> n
         else i64 (input + 1) \<ge> i64 (n - f))"

text \<open>The loop over the justify's signatures: the number of valid ones, \<open>None\<close> at a bad one.\<close>

fun countValid :: "CBFTCrypto \<Rightarrow> slice \<Rightarrow> string list \<Rightarrow> QuorumCertSign list \<Rightarrow> nat option" where
  "countValid c msg vs [] = Some 0"
| "countValid c msg vs (v # rest) =
     (if \<not> isInSlice (signAddress v) vs then countValid c msg vs rest
      else if \<not> fst (VerifyVoteMsgSign c v msg) then None
      else map_option Suc (countValid c msg vs rest))"

definition CheckProposal ::
  "CBFTCrypto \<Rightarrow> DefaultSaftyRules \<Rightarrow> QCPendingTree \<Rightarrow> QuorumCert \<Rightarrow> QuorumCert \<Rightarrow>
   string list option \<Rightarrow> bft_error option" where
  "CheckProposal c s t proposal parent justifyValidators =
     (if GetProposalView proposal < i64 (lastVoteRound s - PermissiveInternal)
      then Some TooLowProposalView
      else case justifyValidators of
        None \<Rightarrow> Some EmptyValidators
      | Some vs \<Rightarrow>
          if GetProposalId parent = None then Some EmptyParentQC
          else if DFSQueryNode t (GetProposalId parent) = None
              \<and> (GetProposalView proposal \<le> GetParentView (In (root t))
                 \<or> GetProposalView proposal > i64 (GetProposalView (In (root t)) + PermissiveInternal))
          then Some EmptyParentNode
          else case countValid c (GetProposalId parent) vs (contents_list (GetSignsInfo parent)) of
                 None \<Rightarrow> Some InvalidVoteSign
               | Some validCnt \<Rightarrow>
                   if \<not> CalVotesThreshold (int validCnt) (int (length vs)) then Some NoEnoughVotes
                   else None)"

definition CheckPacemaker :: "int \<Rightarrow> int \<Rightarrow> bool" where
  "CheckPacemaker pending local' \<longleftrightarrow> \<not> pending \<le> i64 (local' - StrictInternal)"

section \<open>The vote threshold as a quorum system\<close>

text \<open>
  What the driver needs of a threshold: more votes never hurt, and two accepted vote sets, each
  with the collector's own implicit vote, share more validators than can be faulty. \<open>enough k n\<close>
  reads: \<open>k\<close> collected votes of \<open>n\<close> validators, \<open>tol n\<close> how many of them may be faulty.
\<close>

locale vote_quorum =
  fixes enough :: "nat \<Rightarrow> nat \<Rightarrow> bool" and tol :: "nat \<Rightarrow> nat" and bound :: nat
  assumes enough_mono: "enough k n \<Longrightarrow> k \<le> k' \<Longrightarrow> k' < bound \<Longrightarrow> n < bound \<Longrightarrow> enough k' n"
    and enough_overlap: "enough j n \<Longrightarrow> enough k n \<Longrightarrow> 0 < n \<Longrightarrow> j < bound \<Longrightarrow> k < bound \<Longrightarrow> n < bound \<Longrightarrow>
      n + tol n < (j + 1) + (k + 1)"
begin

lemma quorums_share_honest:
  assumes V: "finite V" "card V < bound" and sub: "A \<subseteq> V" "B \<subseteq> V" "a \<in> V" "b \<in> V"
    and own: "a \<notin> A" "b \<notin> B"
    and ok: "enough (card A) (card V)" "enough (card B) (card V)"
    and bad: "card F \<le> tol (card V)" "finite F"
  shows "\<exists>v. v \<in> insert a A \<and> v \<in> insert b B \<and> v \<notin> F"
proof (rule ccontr)
  assume no: "\<not> ?thesis"
  let ?A = "insert a A" and ?B = "insert b B"
  have fin: "finite A" "finite B" using V sub finite_subset by auto
  have lt: "card A < bound" "card B < bound"
    using V sub card_mono le_less_trans by metis+
  have "card V > 0" using V sub card_gt_0_iff by blast
  then have big: "card V + tol (card V) < card ?A + card ?B"
    using enough_overlap [OF ok _ lt V(2)] fin own by simp
  have "card (?A \<union> ?B) \<le> card V" using V sub by (intro card_mono) auto
  moreover have "card (?A \<inter> ?B) \<le> card F" using no bad by (intro card_mono) auto
  moreover have "card ?A + card ?B = card (?A \<union> ?B) + card (?A \<inter> ?B)"
    using fin by (intro card_Un_Int) auto
  ultimately show False using big bad(1) by linarith
qed

end

definition max_faulty :: "nat \<Rightarrow> nat" where
  "max_faulty n = (n - 1) div 3"

definition enough_votes :: "nat \<Rightarrow> nat \<Rightarrow> bool" where
  "enough_votes k n = CalVotesThreshold (int k) (int n)"

lemma enough_votes_iff:
  assumes "0 < n" "n < 2 ^ 62" "k < 2 ^ 62"
  shows "enough_votes k n \<longleftrightarrow> n \<le> k + 1 + max_faulty n"
proof -
  have b: "int n < 2 ^ 62" "int k < 2 ^ 62"
    using assms(2,3) by simp_all
  have f: "go_div (int n - 1) 3 = (int n - 1) div 3"
    using assms(1) by (simp add: go_div_nonneg)
  have f_le: "0 \<le> (int n - 1) div 3" "(int n - 1) div 3 \<le> int n - 1"
    using assms(1) by linarith+
  have wrap: "i64 (int n - 1) = int n - 1" "i64 (int k + 1) = int k + 1"
    "i64 (int n - (int n - 1) div 3) = int n - (int n - 1) div 3"
    using b f_le assms(1) by (simp_all add: i64_id is_i64_def)
  have "int (max_faulty n) = (int n - 1) div 3"
    using assms(1) by (simp add: max_faulty_def zdiv_int of_nat_diff)
  then show ?thesis
    using f_le by (auto simp: enough_votes_def CalVotesThreshold_def Let_def wrap f)
qed

lemma max_faulty_third: "0 < n \<Longrightarrow> 3 * max_faulty n < n"
  by (simp add: max_faulty_def)

lemma enough_votes_0: "k < 2 ^ 62 \<Longrightarrow> enough_votes k 0"
  by (simp add: enough_votes_def CalVotesThreshold_def go_div_def signed_divide_int_def i64_def)

interpretation votes: vote_quorum enough_votes max_faulty "2 ^ 62"
proof
  fix k n k' :: nat
  assume "enough_votes k n" "k \<le> k'" "k' < 2 ^ 62" "n < 2 ^ 62"
  then show "enough_votes k' n"
    by (cases "n = 0") (simp_all add: enough_votes_0 enough_votes_iff)
next
  fix j k n :: nat
  assume "enough_votes j n" "enough_votes k n" "0 < n" "j < 2 ^ 62" "k < 2 ^ 62" "n < 2 ^ 62"
  then show "n + max_faulty n < (j + 1) + (k + 1)"
    using max_faulty_third [of n] by (simp add: enough_votes_iff)
qed

section \<open>Properties\<close>

lemma isInSlice_iff [simp]: "isInSlice a vs \<longleftrightarrow> a \<in> set vs"
  by (simp add: isInSlice_def list_ex_iff)

definition valid_sign :: "CBFTCrypto \<Rightarrow> slice \<Rightarrow> QuorumCertSign \<Rightarrow> bool" where
  "valid_sign c msg s \<longleftrightarrow> fst (VerifyVoteMsgSign c s msg)"

lemma countValid_eq:
  "countValid c msg vs ss =
     (let ms = filter (\<lambda>s. signAddress s \<in> set vs) ss
      in if \<forall>s \<in> set ms. valid_sign c msg s then Some (length ms) else None)"
  by (induction c msg vs ss rule: countValid.induct) (auto simp: Let_def valid_sign_def)

text \<open>
  What the vote threshold decides, for every validator count and vote count below
  \<open>2\<^sup>62\<close>: with at least one validator it accepts exactly when the votes and the collector's
  own implicit one reach the validators minus a third of all but one of them, rounded down.
\<close>

theorem CalVotesThreshold_spec:
  assumes "0 < n" "n < 2 ^ 62" "k < 2 ^ 62"
  shows "CalVotesThreshold (int k) (int n) \<longleftrightarrow> n - (n - 1) div 3 \<le> k + 1"
  using enough_votes_iff [OF assms] by (auto simp: enough_votes_def max_faulty_def)

theorem CalVotesThreshold_spec_witness:
  "CalVotesThreshold 2 4 \<and> \<not> CalVotesThreshold 1 4"
  using CalVotesThreshold_spec [of 4 2] CalVotesThreshold_spec [of 4 1] by simp



text \<open>
  \<open>CheckProposal\<close> accepts a proposal exactly when its view is not more than six below the
  last voted round, the validator set is known, the justify certificate names a proposal that
  is in the tree or the proposal's own view lies between the root's parent and six above the
  root, every justify signature by a validator verifies, and the number of those signatures
  passes the threshold.
\<close>

theorem CheckProposal_accepts_iff:
  "CheckProposal c s t proposal parent vs = None \<longleftrightarrow>
     i64 (lastVoteRound s - 6) \<le> GetProposalView proposal \<and>
     vs \<noteq> None \<and> GetProposalId parent \<noteq> None \<and>
     \<not> (DFSQueryNode t (GetProposalId parent) = None \<and>
        (GetProposalView proposal \<le> GetParentView (In (root t)) \<or>
         i64 (GetProposalView (In (root t)) + 6) < GetProposalView proposal)) \<and>
     (let ms = filter (\<lambda>g. signAddress g \<in> set (the vs)) (contents_list (GetSignsInfo parent))
      in list_all (valid_sign c (GetProposalId parent)) ms \<and>
         CalVotesThreshold (int (length ms)) (int (length (the vs))))"
  by (auto simp: CheckProposal_def countValid_eq Let_def PermissiveInternal_def list_all_iff
      split: option.splits if_splits)

text \<open>
  C9: When the justify certificate carries at most one signature per validator and the
  validators are distinct, an accepted proposal's justify was signed by enough different
  validators: there is a set of them, all of whose signatures on the justified proposal
  verify, that reaches the threshold.
\<close>

theorem CheckProposal_quorum:
  assumes "CheckProposal c s t proposal parent (Some vs) = None"
    and "distinct (map signAddress (contents_list (GetSignsInfo parent)))"
    and "0 < length vs" "length vs < 2 ^ 62" "distinct vs"
  shows "\<exists>Q \<subseteq> set vs. length vs - (length vs - 1) div 3 \<le> card Q + 1 \<and>
    (\<forall>a \<in> Q. \<exists>g \<in> set (contents_list (GetSignsInfo parent)).
       signAddress g = a \<and> fst (VerifyVoteMsgSign c g (GetProposalId parent)))"
proof -
  let ?ms = "filter (\<lambda>g. signAddress g \<in> set vs) (contents_list (GetSignsInfo parent))"
  let ?Q = "signAddress ` set ?ms"
  have ok: "\<forall>g \<in> set ?ms. valid_sign c (GetProposalId parent) g"
    "enough_votes (length ?ms) (length vs)"
    using assms(1) by (auto simp: CheckProposal_def countValid_eq Let_def enough_votes_def
        split: if_splits)
  have card: "card ?Q = length ?ms"
  proof -
    have "distinct (map signAddress ?ms)" using assms(2) by (rule distinct_map_filter)
    then show ?thesis by (metis distinct_card length_map list.set_map)
  qed
  have "card ?Q \<le> length vs"
    using card_mono [of "set vs" ?Q] distinct_card [OF assms(5)] by auto
  then have "length vs \<le> card ?Q + 1 + max_faulty (length vs)"
    using ok(2) enough_votes_iff [of "length vs" "length ?ms"] assms(3,4) card by simp
  moreover have "\<forall>a \<in> ?Q. \<exists>g \<in> set (contents_list (GetSignsInfo parent)).
      signAddress g = a \<and> fst (VerifyVoteMsgSign c g (GetProposalId parent))"
    using ok(1) by (auto simp: valid_sign_def)
  ultimately show ?thesis
    by (intro exI [of _ ?Q]) (auto simp: max_faulty_def)
qed

text \<open>Signatures of \<open>demo_client\<close> and a justify certificate signed by the given validators.\<close>

definition demo_sign :: "string \<Rightarrow> string \<Rightarrow> QuorumCertSign" where
  "demo_sign a i = \<lparr>signAddress = a, signPublicKey = a, signSign = Some (a @ i)\<rparr>"

definition demo_justify :: "string \<Rightarrow> int \<Rightarrow> string list \<Rightarrow> QuorumCert" where
  "demo_justify i v as = NewQuorumCert
     \<lparr>ProposalId = Some i, ProposalView = v, ParentId = None, ParentView = 0\<rparr>
     None (Some (map (\<lambda>a. demo_sign a i) as))"

definition demo_vs :: "string list" where
  "demo_vs = [''A'', ''B'', ''C'', ''D'']"

definition demo_rules :: DefaultSaftyRules where
  "demo_rules = \<lparr>lastVoteRound = 2, preferredRound = 1\<rparr>"

lemmas demo_rule_defs = demo_sign_def demo_justify_def demo_vs_def demo_rules_def demo_defs
  demo_crypto_def demo_client_def

lemma demo_justify_accepted:
  "CheckProposal (demo_crypto ''A'') demo_rules demo_chain (demo_qc ''f'' 6 ''e'')
     (demo_justify ''e'' 5 [''B'', ''C'']) (Some demo_vs) = None"
  by (simp add: CheckProposal_def demo_rule_defs demo_chain_def DFSQueryNode_def dfsQuery_def
      VerifyVoteMsgSign_def CalVotesThreshold_def Let_def go_div_def signed_divide_int_def
      PermissiveInternal_def)

theorem CheckProposal_quorum_witness:
  "\<exists>Q. Q \<subseteq> {''A'', ''B'', ''C'', ''D''} \<and> 2 \<le> card Q \<and>
    (\<forall>a \<in> Q. \<exists>g \<in> set (contents_list (GetSignsInfo (demo_justify ''e'' 5 [''B'', ''C'']))).
       signAddress g = a)"
proof -
  have "distinct demo_vs" "length demo_vs = 4" "set demo_vs = {''A'', ''B'', ''C'', ''D''}"
    by (auto simp: demo_vs_def)
  moreover have "distinct (map signAddress (contents_list (GetSignsInfo (demo_justify ''e'' 5 [''B'', ''C'']))))"
    by (simp add: demo_rule_defs)
  ultimately show ?thesis
    using CheckProposal_quorum [OF demo_justify_accepted] by fastforce
qed

text \<open>
  Without that assumption the count says nothing about the number of signers: the loop does
  not look for repeated addresses, so one validator's signature, repeated, is a quorum.
\<close>

lemma CheckProposal_repeated_sign:
  "CheckProposal (demo_crypto ''A'') demo_rules demo_chain (demo_qc ''f'' 6 ''e'')
     (demo_justify ''e'' 5 [''B'', ''B'']) (Some demo_vs) = None"
  by (simp add: CheckProposal_def demo_rule_defs demo_chain_def DFSQueryNode_def dfsQuery_def
      VerifyVoteMsgSign_def CalVotesThreshold_def Let_def go_div_def signed_divide_int_def
      PermissiveInternal_def)

text \<open>
  \<open>CheckVote\<close> returns the client's error when a signature does not verify. A client that
  reports a mismatch as \<open>false\<close> with a nil error makes that a nil error, so the vote passes.
\<close>

lemma CheckVote_forged_sign:
  "CheckVote (demo_crypto ''A'') demo_rules
     (NewQuorumCert \<lparr>ProposalId = Some ''e'', ProposalView = 5, ParentId = Some ''d'', ParentView = 4\<rparr>
        None (Some [\<lparr>signAddress = ''B'', signPublicKey = ''B'', signSign = Some ''forged''\<rparr>]))
     (Some demo_vs) = None"
  by (simp add: CheckVote_def demo_rule_defs VerifyVoteMsgSign_def)

subsection \<open>Rounds and views only grow\<close>

lemma AdvanceView_mono: "CurrentView p \<le> CurrentView (fst (AdvanceView p qc))"
  by (auto simp: AdvanceView_def Let_def split: option.splits)

lemma AdvanceView_past:
  "is_i64 (GetProposalView q + 1) \<Longrightarrow> GetProposalView q < CurrentView (fst (AdvanceView p (Some q)))"
  by (auto simp: AdvanceView_def Let_def i64_id)

lemma AdvanceView_snd [simp]: "snd (AdvanceView p (Some q)) = (True, None)"
  by (simp add: AdvanceView_def Let_def)

lemma UpdatePreferredRound_mono:
  "preferredRound s \<le> preferredRound (fst (UpdatePreferredRound s r))"
  "lastVoteRound (fst (UpdatePreferredRound s r)) = lastVoteRound s"
  "snd (UpdatePreferredRound s r)"
  by (simp_all add: UpdatePreferredRound_def)

lemma VoteProposal_mono:
  "lastVoteRound s \<le> lastVoteRound (fst (VoteProposal s i r q))"
  "preferredRound (fst (VoteProposal s i r q)) = preferredRound s"
  by (simp_all add: VoteProposal_def increaseLastVoteRound_def)

lemma VoteProposal_granted:
  "snd (VoteProposal s i r q) \<Longrightarrow> i64 (lastVoteRound s - 3) \<le> r \<and>
     i64 (preferredRound s - 3) \<le> GetProposalView q \<and>
     lastVoteRound (fst (VoteProposal s i r q)) = max (lastVoteRound s) r"
  by (auto simp: VoteProposal_def increaseLastVoteRound_def StrictInternal_def split: if_splits)

lemma VoteProposal_refused: "\<not> snd (VoteProposal s i r q) \<Longrightarrow> fst (VoteProposal s i r q) = s"
  by (auto simp: VoteProposal_def split: if_splits)

lemmas rules_mono = AdvanceView_mono UpdatePreferredRound_mono VoteProposal_mono

text \<open>The rounds granted over a sequence of vote requests.\<close>

fun vote_run :: "DefaultSaftyRules \<Rightarrow> (slice \<times> int \<times> QuorumCert) list \<Rightarrow> int list" where
  "vote_run s [] = []"
| "vote_run s ((i, r, q) # rest) =
     (let (s', ok) = VoteProposal s i r q in if ok then r # vote_run s' rest else vote_run s' rest)"

text \<open>
  C10: Over any sequence of vote requests, a granted vote is never more than three rounds below
  any earlier granted vote: the last voted round only grows, and each grant is checked
  against it.
\<close>

theorem votes_never_fall_back:
  assumes "\<forall>(i, r, q) \<in> set reqs. \<bar>r\<bar> < 2 ^ 61" and "\<bar>lastVoteRound s\<bar> < 2 ^ 61"
  shows "sorted_wrt (\<lambda>earlier later. earlier - 3 \<le> later) (vote_run s reqs)"
proof -
  have "sorted_wrt (\<lambda>e l. e - 3 \<le> l) (vote_run s reqs) \<and>
      (\<forall>l \<in> set (vote_run s reqs). lastVoteRound s - 3 \<le> l)"
    using assms
  proof (induction s reqs rule: vote_run.induct)
    case (2 s i r q rest)
    obtain s' ok where v: "VoteProposal s i r q = (s', ok)" by (cases "VoteProposal s i r q")
    have lv: "lastVoteRound s \<le> lastVoteRound s'"
      using VoteProposal_mono(1) [of s i r q] v by simp
    have bnd: "\<bar>lastVoteRound s'\<bar> < 2 ^ 61"
      using "2.prems" VoteProposal_granted [of s i r q] VoteProposal_refused [of s i r q] v
      by (cases ok) auto
    note IH = "2.IH" [OF v [symmetric] refl] 
    show ?case
    proof (cases ok)
      case True
      then have "i64 (lastVoteRound s - 3) \<le> r" "r \<le> lastVoteRound s'"
        using VoteProposal_granted [of s i r q] v by auto
      moreover have "i64 (lastVoteRound s - 3) = lastVoteRound s - 3"
        using "2.prems"(2) by (intro i64_id) (auto simp: is_i64_def)
      ultimately show ?thesis
        using IH(1) "2.prems" True bnd lv v by fastforce
    next
      case False
      with IH(2) "2.prems" bnd lv v show ?thesis by fastforce
    qed
  qed simp
  then show ?thesis ..
qed

theorem votes_never_fall_back_witness:
  "sorted_wrt (\<lambda>earlier later. earlier - 3 \<le> later)
     (vote_run demo_rules [(Some ''e'', 5, demo_qc ''d'' 4 ''c''), (Some ''b'', 1, demo_qc ''a'' 0 ''z''),
        (Some ''c'', 3, demo_qc ''b'' 2 ''a'')])"
  by (rule votes_never_fall_back) (simp_all add: demo_rules_def)

end
