(* ===== verification/P2p_Network.thy ===== *)
theory P2p_Network
  imports Xuper_Base "HOL-Library.Word"
begin

unbundle bit_operations_syntax

text \<open>
  \<open>kernel/network/p2p\<close>: the message envelope with its checksum and compression
  (\<open>message.go\<close>), the subscribers (\<open>subscriber.go\<close>) and the dispatcher that hands a message to
  the subscribers of its type (\<open>dispatcher.go\<close>). Protocol buffers, snappy and the expiring
  cache are third-party packages and are arguments of the definitions; CRC-32 is the standard
  library's and is written out. A message type is the number of its enumerator.
\<close>

section \<open>CRC-32\<close>

text \<open>
  \<open>crc32.ChecksumIEEE\<close>: the reflected polynomial \<open>0xedb88320\<close>, one bit at a time, with the
  register complemented before and after.
\<close>

definition crc_poly :: "32 word" where
  "crc_poly = 0xedb88320"

definition crc_bit :: "32 word \<Rightarrow> 32 word" where
  "crc_bit c = (if bit c 0 then drop_bit 1 c XOR crc_poly else drop_bit 1 c)"

definition crc_byte :: "32 word \<Rightarrow> char \<Rightarrow> 32 word" where
  "crc_byte c b = (crc_bit ^^ 8) (c XOR of_nat (of_char b))"

definition ChecksumIEEE :: "bytes \<Rightarrow> 32 word" where
  "ChecksumIEEE bs = NOT (foldl crc_byte (NOT 0) bs)"

section \<open>Messages\<close>

record MessageHeader =
  hVersion :: string
  hLogid :: string
  hFrom :: string
  hBcname :: string
  hType :: int
  hDataCheckSum :: "32 word"
  hErrorType :: int
  hEnableCompress :: bool

text \<open>\<open>msgData\<close> is the pointer to the data message, which holds the byte slice \<open>MsgInfo\<close>.\<close>

record XuperMessage =
  msgHeader :: "MessageHeader option"
  msgData :: "slice option"

definition emptyHeader :: MessageHeader where
  "emptyHeader = \<lparr>hVersion = [], hLogid = [], hFrom = [], hBcname = [], hType = 0,
     hDataCheckSum = 0, hErrorType = 0, hEnableCompress = False\<rparr>"

text \<open>The generated getters return the zero value behind a nil pointer.\<close>

definition GetHeader :: "XuperMessage \<Rightarrow> MessageHeader" where
  "GetHeader m = (case msgHeader m of None \<Rightarrow> emptyHeader | Some h \<Rightarrow> h)"

definition GetMsgInfo :: "XuperMessage \<Rightarrow> slice" where
  "GetMsgInfo m = (case msgData m of None \<Rightarrow> None | Some d \<Rightarrow> d)"

definition updHeader :: "(MessageHeader \<Rightarrow> MessageHeader) \<Rightarrow> XuperMessage \<Rightarrow> XuperMessage" where
  "updHeader f m = m\<lparr>msgHeader := map_option f (msgHeader m)\<rparr>"

type_synonym MessageOption = "XuperMessage \<Rightarrow> XuperMessage"

definition WithBCName :: "string \<Rightarrow> MessageOption" where
  "WithBCName bcname = updHeader (\<lambda>h. h\<lparr>hBcname := bcname\<rparr>)"

definition WithLogId :: "string \<Rightarrow> MessageOption" where
  "WithLogId logid = updHeader (\<lambda>h. h\<lparr>hLogid := logid\<rparr>)"

definition WithVersion :: "string \<Rightarrow> MessageOption" where
  "WithVersion version = updHeader (\<lambda>h. h\<lparr>hVersion := version\<rparr>)"

definition WithErrorType :: "int \<Rightarrow> MessageOption" where
  "WithErrorType errorType = updHeader (\<lambda>h. h\<lparr>hErrorType := errorType\<rparr>)"

definition Checksum :: "XuperMessage \<Rightarrow> 32 word" where
  "Checksum m = ChecksumIEEE (contents (GetMsgInfo m))"

definition VerifyChecksum :: "XuperMessage \<Rightarrow> bool" where
  "VerifyChecksum m \<longleftrightarrow> ChecksumIEEE (contents (GetMsgInfo m)) = hDataCheckSum (GetHeader m)"

definition Compress :: "(bytes \<Rightarrow> bytes) \<Rightarrow> XuperMessage \<Rightarrow> XuperMessage" where
  "Compress encode m =
     (if contents (GetMsgInfo m) = [] then m
      else if hEnableCompress (GetHeader m) then m
      else updHeader (\<lambda>h. h\<lparr>hEnableCompress := True\<rparr>)
             (m\<lparr>msgData := Some (Some (encode (contents (GetMsgInfo m))))\<rparr>))"

definition Decompress :: "(bytes \<Rightarrow> bytes option) \<Rightarrow> XuperMessage \<Rightarrow> bytes option" where
  "Decompress decode m =
     (case (msgHeader m, msgData m) of
        (Some h, Some (Some b)) \<Rightarrow> if \<not> hEnableCompress h then Some b else decode b
      | _ \<Rightarrow> None)"

text \<open>
  \<open>NewMessage\<close>: \<open>message\<close> is the marshalled body, \<open>None\<close> for a nil message; \<open>logid\<close> is the
  generated log id.
\<close>

definition NewMessage ::
  "(bytes \<Rightarrow> bytes) \<Rightarrow> string \<Rightarrow> int \<Rightarrow> slice option \<Rightarrow> MessageOption list \<Rightarrow> XuperMessage" where
  "NewMessage encode logid typ message opts =
     (let msg = \<lparr>msgHeader = Some (emptyHeader\<lparr>hVersion := ''3.0.0'', hBcname := ''xuper'',
                    hLogid := logid, hType := typ, hErrorType := 1\<rparr>),
                 msgData = Some (case message of None \<Rightarrow> None | Some data \<Rightarrow> data)\<rparr>;
          msg = fold (\<lambda>op m. op m) opts msg;
          msg = Compress encode msg
      in updHeader (\<lambda>h. h\<lparr>hDataCheckSum := Checksum msg\<rparr>) msg)"

datatype net_error =
    ErrMessageChecksum | ErrMessageDecompress | ErrMessageUnmarshal
  | ErrSubscriber | ErrRegistered | ErrMessageEmpty | ErrStreamNil | ErrNotRegister
  | ErrStreamSendError

definition Unmarshal ::
  "(bytes \<Rightarrow> bytes option) \<Rightarrow> (bytes \<Rightarrow> 'm option) \<Rightarrow> XuperMessage \<Rightarrow> (net_error, 'm) result" where
  "Unmarshal decode unmarshal m =
     (if \<not> VerifyChecksum m then Err ErrMessageChecksum
      else case Decompress decode m of
             None \<Rightarrow> Err ErrMessageDecompress
           | Some data \<Rightarrow> (case unmarshal data of None \<Rightarrow> Err ErrMessageUnmarshal | Some x \<Rightarrow> Ok x))"

text \<open>A message type is an int32; the successor of the last one wraps.\<close>

definition i32 :: "int \<Rightarrow> int" where
  "i32 x = (x + 2 ^ 31) mod 2 ^ 32 - 2 ^ 31"

definition requestToResponse :: "int \<Rightarrow> int option" where
  "requestToResponse = map_of [(3, 6), (5, 7), (8, 9), (11, 12), (13, 14), (26, 27), (28, 29)]"

definition GetRespMessageType :: "int \<Rightarrow> int" where
  "GetRespMessageType msgType =
     (case requestToResponse msgType of Some resp \<Rightarrow> resp | None \<Rightarrow> i32 (msgType + 1))"

definition VerifyMessageType :: "XuperMessage \<Rightarrow> XuperMessage \<Rightarrow> string \<Rightarrow> bool" where
  "VerifyMessageType request response peerID \<longleftrightarrow>
     \<not> hFrom (GetHeader response) \<noteq> peerID \<and>
     \<not> hLogid (GetHeader request) \<noteq> hLogid (GetHeader response) \<and>
     \<not> GetRespMessageType (hType (GetHeader request)) \<noteq> hType (GetHeader response)"

section \<open>Subscribers\<close>

text \<open>
  A subscriber has a handler, a function of the message that returns the response, or a
  channel, named by a number. \<open>subId\<close> is the pointer's identity, by which the dispatcher's map
  is keyed.
\<close>

record subscriber =
  subId :: nat
  subTyp :: int
  subBcName :: string
  subFrom :: string
  subChannel :: "nat option"
  subHandler :: "(XuperMessage \<Rightarrow> XuperMessage option) option"

definition WithFilterFrom :: "string \<Rightarrow> subscriber \<Rightarrow> subscriber" where
  "WithFilterFrom from s = s\<lparr>subFrom := from\<rparr>"

definition WithFilterBCName :: "string \<Rightarrow> subscriber \<Rightarrow> subscriber" where
  "WithFilterBCName bcName s = s\<lparr>subBcName := bcName\<rparr>"

datatype sub_target =
    Handler "(XuperMessage \<Rightarrow> XuperMessage option) option" | Channel "nat option" | OtherTarget

definition NewSubscriber ::
  "nat \<Rightarrow> int \<Rightarrow> sub_target \<Rightarrow> (subscriber \<Rightarrow> subscriber) list \<Rightarrow> subscriber option" where
  "NewSubscriber i typ v opts =
     (let s = \<lparr>subId = i, subTyp = typ, subBcName = [], subFrom = [], subChannel = None,
               subHandler = None\<rparr>
      in case v of
           OtherTarget \<Rightarrow> None
         | Handler h \<Rightarrow>
             if h = None then None else Some (fold (\<lambda>op s. op s) opts (s\<lparr>subHandler := h\<rparr>))
         | Channel c \<Rightarrow>
             if c = None then None else Some (fold (\<lambda>op s. op s) opts (s\<lparr>subChannel := c\<rparr>)))"

definition Match :: "subscriber \<Rightarrow> XuperMessage \<Rightarrow> bool" where
  "Match s msg =
     (if subFrom s \<noteq> [] \<and> subFrom s \<noteq> hFrom (GetHeader msg) then False
      else if subBcName s \<noteq> [] \<and> subBcName s \<noteq> hBcname (GetHeader msg) then False
      else True)"

text \<open>
  What handling a message changes: the responses sent on the stream, and the channels'
  buffers. \<open>chanCap\<close> is the capacity of each channel; \<open>send\<close> says whether the stream takes a
  response.
\<close>

record netState =
  sentMsgs :: "XuperMessage list"
  chanBuf :: "nat \<Rightarrow> XuperMessage list"

record netEnv =
  chanCap :: "nat \<Rightarrow> nat"
  streamSend :: "XuperMessage \<Rightarrow> bool"
  snappyEnc :: "bytes \<Rightarrow> bytes"
  newLogId :: string

definition handlerResponse :: "netEnv \<Rightarrow> XuperMessage \<Rightarrow> XuperMessage option \<Rightarrow> XuperMessage" where
  "handlerResponse e msg resp =
     updHeader (\<lambda>h. h\<lparr>hLogid := hLogid (GetHeader msg)\<rparr>)
       (case resp of
          Some r \<Rightarrow> if msgHeader r \<noteq> None then r
            else NewMessage (snappyEnc e) (newLogId e) (GetRespMessageType (hType (GetHeader msg))) None
              [WithBCName (hBcname (GetHeader msg)), WithErrorType 2, WithLogId (hLogid (GetHeader msg))]
        | None \<Rightarrow>
            NewMessage (snappyEnc e) (newLogId e) (GetRespMessageType (hType (GetHeader msg))) None
              [WithBCName (hBcname (GetHeader msg)), WithErrorType 2, WithLogId (hLogid (GetHeader msg))])"

text \<open>
  The \<open>select\<close> of the channel branch has a \<open>default\<close>: a full channel drops the message at once.
\<close>

definition channelSend :: "netEnv \<Rightarrow> nat \<Rightarrow> XuperMessage \<Rightarrow> netState \<Rightarrow> netState" where
  "channelSend e c msg n =
     (if length (chanBuf n c) < chanCap e c
      then n\<lparr>chanBuf := (chanBuf n)(c := chanBuf n c @ [msg])\<rparr> else n)"

definition HandleMessage ::
  "netEnv \<Rightarrow> subscriber \<Rightarrow> XuperMessage \<Rightarrow> netState \<Rightarrow> netState \<times> net_error option" where
  "HandleMessage e s msg n =
     (let (n1, stop) =
            (case subHandler s of
               None \<Rightarrow> (n, False)
             | Some handler \<Rightarrow>
                 let resp = handlerResponse e msg (handler msg)
                 in if streamSend e resp then (n\<lparr>sentMsgs := sentMsgs n @ [resp]\<rparr>, False)
                    else (n, True))
      in if stop then (n1, Some ErrStreamSendError)
         else case subChannel s of
                None \<Rightarrow> (n1, None)
              | Some c \<Rightarrow> (channelSend e c msg n1, None))"

section \<open>The dispatcher\<close>

text \<open>
  The map from a message type to its subscribers, and the cache of handled messages, whose
  package is third-party: \<open>cacheGet\<close> and \<open>cacheSet\<close> stand for it. Go ranges over the inner map
  in an unspecified order, which \<open>visit\<close> chooses.
\<close>

record 'c dispatcher =
  mc :: "int \<Rightarrow> subscriber list option"
  handled :: 'c

record 'c dispEnv =
  cacheGet :: "'c \<Rightarrow> string \<Rightarrow> bool"
  cacheSet :: "'c \<Rightarrow> string \<Rightarrow> 'c"
  sha256d :: "bytes \<Rightarrow> bytes"
  visit :: "subscriber list \<Rightarrow> subscriber list"

definition MSG_TYPE_NONE :: int where
  "MSG_TYPE_NONE = 10"

definition has_sub :: "subscriber \<Rightarrow> subscriber list \<Rightarrow> bool" where
  "has_sub s xs \<longleftrightarrow> subId s \<in> subId ` set xs"

definition Register ::
  "'c dispatcher \<Rightarrow> subscriber option \<Rightarrow> 'c dispatcher \<times> net_error option" where
  "Register d sub =
     (case sub of
        None \<Rightarrow> (d, Some ErrSubscriber)
      | Some s \<Rightarrow>
          if subTyp s = MSG_TYPE_NONE then (d, Some ErrSubscriber)
          else let d = (if mc d (subTyp s) = None then d\<lparr>mc := (mc d)(subTyp s \<mapsto> [])\<rparr> else d);
                   xs = contents_list (mc d (subTyp s))
               in if has_sub s xs then (d, Some ErrRegistered)
                  else (d\<lparr>mc := (mc d)(subTyp s \<mapsto> xs @ [s])\<rparr>, None))"

definition UnRegister ::
  "'c dispatcher \<Rightarrow> subscriber option \<Rightarrow> 'c dispatcher \<times> net_error option" where
  "UnRegister d sub =
     (case sub of
        None \<Rightarrow> (d, Some ErrSubscriber)
      | Some s \<Rightarrow>
          if subTyp s = MSG_TYPE_NONE then (d, Some ErrSubscriber)
          else case mc d (subTyp s) of
                 None \<Rightarrow> (d, Some ErrNotRegister)
               | Some xs \<Rightarrow>
                   if \<not> has_sub s xs then (d, Some ErrNotRegister)
                   else (d\<lparr>mc := (mc d)(subTyp s \<mapsto> filter (\<lambda>x. subId x \<noteq> subId s) xs)\<rparr>, None))"

text \<open>\<open>typeName\<close> is the generated \<open>String\<close> method of the message type.\<close>

definition MessageKey :: "(int \<Rightarrow> string) \<Rightarrow> 'c dispEnv \<Rightarrow> XuperMessage \<Rightarrow> string" where
  "MessageKey typeName e msg =
     (case msgHeader msg of
        None \<Rightarrow> []
      | Some h \<Rightarrow> utils_F (Some (sha256d e
          (typeName (hType h) @ hBcname h @ hFrom h @ hLogid h @ show_nat (unat (hDataCheckSum h))))))"

definition MaskHandled :: "(int \<Rightarrow> string) \<Rightarrow> 'c dispEnv \<Rightarrow> 'c dispatcher \<Rightarrow> XuperMessage \<Rightarrow> 'c dispatcher" where
  "MaskHandled typeName e d msg =
     d\<lparr>handled := cacheSet e (handled d) (MessageKey typeName e msg)\<rparr>"

definition IsHandled :: "(int \<Rightarrow> string) \<Rightarrow> 'c dispEnv \<Rightarrow> 'c dispatcher \<Rightarrow> XuperMessage \<Rightarrow> bool" where
  "IsHandled typeName e d msg = cacheGet e (handled d) (MessageKey typeName e msg)"

definition deliver :: "netEnv \<Rightarrow> XuperMessage \<Rightarrow> subscriber list \<Rightarrow> netState \<Rightarrow> netState" where
  "deliver ne msg subs n =
     fold (\<lambda>sub n. if \<not> Match sub msg then n else fst (HandleMessage ne sub msg n)) subs n"

definition Dispatch ::
  "(int \<Rightarrow> string) \<Rightarrow> 'c dispEnv \<Rightarrow> netEnv \<Rightarrow> 'c dispatcher \<Rightarrow> XuperMessage option \<Rightarrow> bool \<Rightarrow> netState \<Rightarrow>
   ('c dispatcher \<times> netState) \<times> net_error option" where
  "Dispatch typeName e ne d msg streamNil n =
     (case msg of
        None \<Rightarrow> ((d, n), Some ErrMessageEmpty)
      | Some m \<Rightarrow>
          if msgHeader m = None \<or> msgData m = None then ((d, n), Some ErrMessageEmpty)
          else if IsHandled typeName e d m then ((d, n), None)
          else if streamNil then ((d, n), Some ErrStreamNil)
          else case mc d (hType (GetHeader m)) of
                 None \<Rightarrow> ((d, n), Some ErrNotRegister)
               | Some subs \<Rightarrow>
                   ((MaskHandled typeName e d m, deliver ne m (visit e subs) n), None))"

section \<open>The checksum finds every change of one byte\<close>

lemma crc_bit_top: "bit (crc_bit c) 31 \<longleftrightarrow> bit c 0"
  by (auto simp: crc_bit_def crc_poly_def bit_xor_iff bit_drop_bit_eq bit_word_iff_drop_bit_and)

lemma xor_cancel_left: "a XOR b = a XOR c \<longleftrightarrow> b = (c :: 32 word)"
  by (metis bit.xor_left_self)

lemma xor_cancel_right: "b XOR a = c XOR a \<longleftrightarrow> b = (c :: 32 word)"
  by (metis xor.commute xor_cancel_left)

lemma crc_bit_inj: "crc_bit c = crc_bit d \<Longrightarrow> c = d"
proof -
  assume eq: "crc_bit c = crc_bit d"
  then have low: "bit c 0 \<longleftrightarrow> bit d 0" using crc_bit_top by metis
  have shift: "drop_bit 1 c = drop_bit 1 d"
  proof (cases "bit c 0")
    case True
    with low eq show ?thesis by (simp add: crc_bit_def xor_cancel_right)
  qed (use low eq in \<open>simp add: crc_bit_def\<close>)
  show ?thesis
  proof (rule bit_eqI)
    fix n
    show "bit c n \<longleftrightarrow> bit d n"
    proof (cases n)
      case (Suc m)
      have "bit (drop_bit 1 c) m \<longleftrightarrow> bit (drop_bit 1 d) m" by (simp only: shift)
      then show ?thesis by (simp add: Suc bit_drop_bit_eq)
    qed (simp add: low)
  qed
qed

lemma crc_bits_inj: "(crc_bit ^^ n) c = (crc_bit ^^ n) d \<Longrightarrow> c = d"
  by (induction n) (auto dest: crc_bit_inj)

lemma of_char_word_inj:
  "(of_nat (of_char a) :: 32 word) = of_nat (of_char b) \<longleftrightarrow> a = b"
proof -
  have lt: "of_char x < (256 :: nat)" for x
    by (metis of_char_mod_256 mod_less_divisor zero_less_numeral)
  have "unat (of_nat (of_char x) :: 32 word) = of_char x" for x
    by (simp add: unat_of_nat) (rule mod_less, rule less_trans [OF lt], simp)
  then show ?thesis by (metis of_char_eq_iff)
qed

lemma crc_byte_eq_iff:
  "crc_byte c b = crc_byte d b \<longleftrightarrow> c = d" "crc_byte c a = crc_byte c b \<longleftrightarrow> a = b"
proof -
  show "crc_byte c b = crc_byte d b \<longleftrightarrow> c = d"
    unfolding crc_byte_def using crc_bits_inj xor_cancel_right by metis
  show "crc_byte c a = crc_byte c b \<longleftrightarrow> a = b"
    unfolding crc_byte_def using crc_bits_inj xor_cancel_left of_char_word_inj by metis
qed

lemma crc_fold_inj: "foldl crc_byte c bs = foldl crc_byte d bs \<longleftrightarrow> c = d"
  by (induction bs arbitrary: c d) (simp_all add: crc_byte_eq_iff)

lemma Checksum_one_byte:
  "ChecksumIEEE (as @ x # bs) = ChecksumIEEE (as @ y # bs) \<longleftrightarrow> x = y"
  by (simp add: ChecksumIEEE_def crc_fold_inj crc_byte_eq_iff)

section \<open>Properties\<close>

lemma GetHeader_updHeader: "msgHeader m \<noteq> None \<Longrightarrow> GetHeader (updHeader f m) = f (GetHeader m)"
  by (auto simp: GetHeader_def updHeader_def)

lemma updHeader_frame [simp]:
  "msgData (updHeader f m) = msgData m" "GetMsgInfo (updHeader f m) = GetMsgInfo m"
  "msgHeader (updHeader f m) = None \<longleftrightarrow> msgHeader m = None"
  by (simp_all add: updHeader_def GetMsgInfo_def)

text \<open>
  What the options of the package do to a message: they keep the data and the flags of the
  envelope, and a header stays a header.
\<close>

definition keeps_body :: "MessageOption \<Rightarrow> bool" where
  "keeps_body op \<longleftrightarrow> (\<forall>m. msgData (op m) = msgData m \<and> (msgHeader (op m) = None \<longleftrightarrow> msgHeader m = None)
     \<and> hEnableCompress (GetHeader (op m)) = hEnableCompress (GetHeader m)
     \<and> hType (GetHeader (op m)) = hType (GetHeader m))"

lemma options_keep_body:
  "keeps_body (WithBCName b)" "keeps_body (WithLogId l)" "keeps_body (WithVersion v)"
  "keeps_body (WithErrorType t)"
  by (auto simp: keeps_body_def WithBCName_def WithLogId_def WithVersion_def WithErrorType_def
      GetHeader_def updHeader_def split: option.splits)

lemma fold_options:
  "\<forall>op \<in> set opts. keeps_body op \<Longrightarrow>
     msgData (fold (\<lambda>op m. op m) opts m) = msgData m
     \<and> (msgHeader (fold (\<lambda>op m. op m) opts m) = None \<longleftrightarrow> msgHeader m = None)
     \<and> hEnableCompress (GetHeader (fold (\<lambda>op m. op m) opts m)) = hEnableCompress (GetHeader m)
     \<and> hType (GetHeader (fold (\<lambda>op m. op m) opts m)) = hType (GetHeader m)"
  by (induction opts arbitrary: m) (auto simp: keeps_body_def)

lemma Compress_header: "msgHeader (Compress enc m) = None \<longleftrightarrow> msgHeader m = None"
  by (auto simp: Compress_def updHeader_def)

lemma Decompress_Compress:
  assumes "msgHeader m \<noteq> None" "msgData m = Some (Some b)" "\<not> hEnableCompress (GetHeader m)"
    and "b \<noteq> [] \<Longrightarrow> dec (enc b) = Some b"
  shows "Decompress dec (Compress enc m) = Some b"
  using assms by (auto simp: Compress_def Decompress_def GetMsgInfo_def GetHeader_def updHeader_def
      split: option.splits)

lemma Decompress_updHeader:
  "(\<And>h. hEnableCompress (f h) = hEnableCompress h) \<Longrightarrow> Decompress dec (updHeader f m) = Decompress dec m"
  by (auto simp: Decompress_def updHeader_def split: option.splits)

lemma Verify_stamped:
  "msgHeader m \<noteq> None \<Longrightarrow> VerifyChecksum (updHeader (\<lambda>h. h\<lparr>hDataCheckSum := Checksum m\<rparr>) m)"
  by (simp add: VerifyChecksum_def GetHeader_updHeader Checksum_def)

lemma NewMessage_stamped:
  assumes "\<forall>op \<in> set opts. keeps_body op"
  shows "VerifyChecksum (NewMessage enc logid typ body opts)"
  using fold_options [OF assms] by (simp add: NewMessage_def Let_def Verify_stamped Compress_header)

lemma NewMessage_decompress:
  assumes "\<forall>op \<in> set opts. keeps_body op" and "\<And>c. decode (encode c) = Some c"
  shows "Decompress decode (NewMessage encode logid typ (Some (Some b)) opts) = Some b"
proof -
  let ?m0 = "\<lparr>msgHeader = Some (emptyHeader\<lparr>hVersion := ''3.0.0'', hBcname := ''xuper'',
      hLogid := logid, hType := typ, hErrorType := 1\<rparr>), msgData = Some (Some b)\<rparr>"
  note opts = fold_options [OF assms(1), of ?m0]
  have "Decompress decode (Compress encode (fold (\<lambda>op m. op m) opts ?m0)) = Some b"
    using opts assms(2) by (intro Decompress_Compress) (auto simp: GetHeader_def emptyHeader_def)
  then show ?thesis by (simp add: NewMessage_def Let_def Decompress_updHeader)
qed

lemma Unmarshal_NewMessage:
  assumes "\<forall>op \<in> set opts. keeps_body op" and "\<And>c. decode (encode c) = Some c"
  shows "Unmarshal decode unmarshal (NewMessage encode logid typ (Some (Some b)) opts) =
    (case unmarshal b of None \<Rightarrow> Err ErrMessageUnmarshal | Some x \<Rightarrow> Ok x)"
  using NewMessage_stamped [OF assms(1)] NewMessage_decompress [where decode = decode and encode = encode, OF assms]
  by (simp add: Unmarshal_def)

text \<open>
  C11: A message packed by \<open>NewMessage\<close> is unpacked by \<open>Unmarshal\<close>: with the package's options in
  any number and order, the checksum verifies, decompression undoes compression and the body
  is the one that was sent. The hypotheses are the round trips of the two encoders.
\<close>

theorem message_roundtrip:
  assumes "\<forall>op \<in> set opts. keeps_body op"
    and "marshal x = Some b" and "unmarshal b = Some x"
    and "\<And>c. decode (encode c) = Some c"
  shows "Unmarshal decode unmarshal (NewMessage encode logid typ (Some (marshal x)) opts) = Ok x"
  using assms by (simp add: Unmarshal_NewMessage)

theorem message_roundtrip_witness:
  "Unmarshal (\<lambda>b. Some (rev b)) Some
     (NewMessage rev ''7'' 16 (Some (Some ''body'')) [WithBCName ''chain'', WithLogId ''9'']) = Ok ''body''"
  using message_roundtrip [of "[WithBCName ''chain'', WithLogId ''9'']" Some "''body''" "''body''" Some
      "\<lambda>b. Some (rev b)" rev "''7''" 16] by (simp add: options_keep_body)

text \<open>
  C12: A message whose data differ in one byte from data that carry the right checksum is
  refused by \<open>Unmarshal\<close> with the checksum error, whatever the byte, its position and the
  length.
\<close>

theorem corrupted_byte_refused:
  assumes "VerifyChecksum m" and "msgData m = Some (Some (as @ x # bs))" and "x \<noteq> y"
  shows "Unmarshal decode unmarshal (m\<lparr>msgData := Some (Some (as @ y # bs))\<rparr>) = Err ErrMessageChecksum"
  using assms Checksum_one_byte [of as y bs x]
  by (auto simp: Unmarshal_def VerifyChecksum_def GetMsgInfo_def GetHeader_def)

theorem corrupted_byte_refused_witness:
  "Unmarshal Some Some
     ((NewMessage id [] 16 (Some (Some ''body'')) [])\<lparr>msgData := Some (Some ''bady'')\<rparr>)
   = Err ErrMessageChecksum"
  using corrupted_byte_refused [of "NewMessage id [] 16 (Some (Some ''body'')) []" "''b''" "CHR ''o''"
      "''dy''" "CHR ''a''" Some Some]
  using NewMessage_stamped [of "[]" id "[]" 16 "Some (Some ''body'')"]
  by (simp add: NewMessage_def Compress_def GetMsgInfo_def Let_def)

lemma HandleMessage_chan:
  assumes "\<And>r. streamSend e r"
  shows "chanBuf (fst (HandleMessage e s m n)) c =
    (if subChannel s = Some c \<and> length (chanBuf n c) < chanCap e c then chanBuf n c @ [m]
     else chanBuf n c)"
  using assms by (auto simp: HandleMessage_def channelSend_def Let_def split: option.splits)

lemma deliver_chan:
  assumes "\<And>r. streamSend e r"
  shows "length (chanBuf n c) + length (filter (\<lambda>s. Match s m \<and> subChannel s = Some c) subs) \<le> chanCap e c \<Longrightarrow>
    chanBuf (deliver e m subs n) c = chanBuf n c @
      replicate (length (filter (\<lambda>s. Match s m \<and> subChannel s = Some c) subs)) m"
proof (induction subs arbitrary: n)
  case Nil
  then show ?case by (simp add: deliver_def)
next
  case (Cons s subs)
  show ?case
  proof (cases "Match s m")
    case False
    with Cons show ?thesis by (simp add: deliver_def)
  next
    case True
    let ?n = "fst (HandleMessage e s m n)"
    have "chanBuf (deliver e m subs ?n) c = chanBuf ?n c @
        replicate (length (filter (\<lambda>s. Match s m \<and> subChannel s = Some c) subs)) m"
      using Cons.prems True by (intro Cons.IH) (auto simp: HandleMessage_chan [OF assms] split: if_splits)
    moreover have "deliver e m (s # subs) n = deliver e m subs ?n"
      using True by (simp add: deliver_def)
    ultimately show ?thesis
      using Cons.prems True by (auto simp: HandleMessage_chan [OF assms] simp flip: replicate_Suc)
  qed
qed

lemma mset_filter_length: "mset xs = mset ys \<Longrightarrow> length (filter P xs) = length (filter P ys)"
  by (metis mset_filter size_mset)


definition demo_sub :: "nat \<Rightarrow> string \<Rightarrow> subscriber" where
  "demo_sub i b = \<lparr>subId = i, subTyp = 16, subBcName = b, subFrom = [], subChannel = Some i,
     subHandler = None\<rparr>"

definition demo_msg :: XuperMessage where
  "demo_msg = NewMessage id ''7'' 16 (Some (Some ''body'')) [WithBCName ''xuper'']"

definition demo_disp :: "string list dispatcher" where
  "demo_disp = fst (Register (fst (Register \<lparr>mc = Map.empty, handled = []\<rparr> (Some (demo_sub 1 []))))
     (Some (demo_sub 2 ''other'')))"

definition demo_dispEnv :: "string list dispEnv" where
  "demo_dispEnv = \<lparr>cacheGet = (\<lambda>c k. k \<in> set c), cacheSet = (\<lambda>c k. k # c), sha256d = id, visit = rev\<rparr>"

definition demo_netEnv :: netEnv where
  "demo_netEnv = \<lparr>chanCap = (\<lambda>_. 1000), streamSend = (\<lambda>_. True), snappyEnc = id, newLogId = []\<rparr>"

lemmas demo_net_defs = demo_sub_def demo_disp_def demo_dispEnv_def demo_netEnv_def Register_def
  has_sub_def MSG_TYPE_NONE_def IsHandled_def

lemma demo_msg_header:
  "msgHeader demo_msg \<noteq> None" "msgData demo_msg \<noteq> None" "hType (GetHeader demo_msg) = 16"
  "hBcname (GetHeader demo_msg) = ''xuper''" "hFrom (GetHeader demo_msg) = []"
  "hLogid (GetHeader demo_msg) = ''7''"
  by (simp_all add: demo_msg_def NewMessage_def Compress_def GetMsgInfo_def GetHeader_def
      updHeader_def WithBCName_def emptyHeader_def Let_def)


text \<open>
  A request whose handler gives no response, or a response without a header, is answered
  with a message that the requester's check accepts once the peer's name is stamped on it: it
  has the request's log id and the response type of the request, and reports an error.
\<close>

theorem missing_response_answered:
  assumes "resp = None \<or> (\<exists>r. resp = Some r \<and> msgHeader r = None)"
  shows "VerifyMessageType msg (updHeader (\<lambda>h. h\<lparr>hFrom := peer\<rparr>) (handlerResponse e msg resp)) peer \<and>
    hErrorType (GetHeader (handlerResponse e msg resp)) = 2"
  using assms
  by (auto simp: VerifyMessageType_def handlerResponse_def NewMessage_def Compress_def GetMsgInfo_def
      GetHeader_def updHeader_def WithBCName_def WithErrorType_def WithLogId_def Let_def)

theorem missing_response_answered_witness:
  "VerifyMessageType demo_msg
     (updHeader (\<lambda>h. h\<lparr>hFrom := ''peer''\<rparr>) (handlerResponse demo_netEnv demo_msg None)) ''peer''"
  using missing_response_answered [of None demo_msg "''peer''" demo_netEnv] by simp

text \<open>
  The channel branch of \<open>HandleMessage\<close> never waits: with a full channel the message is dropped
  and no error is returned.
\<close>

lemma full_channel_drops:
  assumes "subHandler s = None" "subChannel s = Some c" "chanCap e c \<le> length (chanBuf n c)"
  shows "HandleMessage e s m n = (n, None)"
  using assms by (simp add: HandleMessage_def channelSend_def)

subsection \<open>Registration\<close>

definition registered :: "'c dispatcher \<Rightarrow> subscriber \<Rightarrow> bool" where
  "registered d s \<longleftrightarrow> has_sub s (contents_list (mc d (subTyp s)))"

lemma Register_ok: "snd (Register d (Some s)) = None \<Longrightarrow> registered (fst (Register d (Some s))) s"
  by (auto simp: Register_def registered_def has_sub_def Let_def split: if_splits)

lemma UnRegister_ok:
  "snd (UnRegister d (Some s)) = None \<Longrightarrow> \<not> registered (fst (UnRegister d (Some s))) s"
  by (auto simp: UnRegister_def registered_def has_sub_def split: option.splits if_splits)

end
