(* ===== verification/Smr.thy ===== *)
theory Smr
  imports Safety_Rules P2p_Network
begin

text \<open>
  \<open>chained-bft/smr.go\<close>: the state machine that owns the pending tree, the pacemaker, the safety
  rules and the collected votes, and reacts to blocks of the ledger and to proposal and vote
  messages. The mutex \<open>mtx\<close> serialises the entry points, so each is one function from state to
  state. The election, the encoders and the crypto client are the argument \<open>SmrEnv\<close>; a message
  that the code hands to \<open>go s.p2p.SendMessage\<close> is appended to \<open>outbox\<close> with its receivers. The
  fields of \<open>sync.Map\<close> type are maps keyed by the printed id. Entries of a signature list are
  never nil.
\<close>

section \<open>State and environment\<close>

record VoteMsg =
  vmVoteInfo :: slice
  vmLedgerCommitInfo :: slice
  vmSignature :: "QuorumCertSign list option"

text \<open>
  \<open>parseQC\<close> is \<open>json.Unmarshal\<close> into an empty certificate: \<open>Ok None\<close> is a certificate whose
  \<open>VoteInfo\<close> is still nil, on which every getter panics.
\<close>

record SmrEnv =
  GetLeader :: "int \<Rightarrow> string"
  GetValidators :: "int \<Rightarrow> string list option"
  smrCrypto :: CBFTCrypto
  marshalQC :: "QuorumCert \<Rightarrow> slice"
  parseQC :: "slice \<Rightarrow> (unit, QuorumCert option) result"
  marshalVoteInfo :: "VoteInfo \<Rightarrow> slice"
  parseVoteInfo :: "slice \<Rightarrow> VoteInfo option"
  marshalLedgerInfo :: "LedgerCommitInfo \<Rightarrow> slice"
  parseLedgerInfo :: "slice \<Rightarrow> LedgerCommitInfo option"
  protoProposal :: "ProposalMsg \<Rightarrow> slice"
  unprotoProposal :: "bytes \<Rightarrow> ProposalMsg option"
  protoVote :: "VoteMsg \<Rightarrow> slice"
  unprotoVote :: "bytes \<Rightarrow> VoteMsg option"
  snappyEncode :: "bytes \<Rightarrow> bytes"
  snappyDecode :: "bytes \<Rightarrow> bytes option"
  genLogId :: string

record Smr =
  bcName :: string
  address :: string
  pacemaker :: DefaultPaceMaker
  saftyrules :: DefaultSaftyRules
  qcTree :: QCPendingTree
  ledgerState :: int
  localProposal :: "string \<Rightarrow> int option"
  qcVoteMsgs :: "string \<Rightarrow> QuorumCertSign list option"
  subscribeList :: "int list"
  outbox :: "(XuperMessage \<times> string list) list"

definition NEW_VIEW_MSG :: int where "NEW_VIEW_MSG = 15"
definition NEW_PROPOSAL_MSG :: int where "NEW_PROPOSAL_MSG = 16"
definition VOTE_MSG :: int where "VOTE_MSG = 17"

section \<open>Construction and the network\<close>

definition NewSmr ::
  "string \<Rightarrow> string \<Rightarrow> DefaultPaceMaker \<Rightarrow> DefaultSaftyRules \<Rightarrow> QCPendingTree \<Rightarrow> Smr" where
  "NewSmr bc addr pm sr t =
     \<lparr>bcName = bc, address = addr, pacemaker = pm, saftyrules = sr, qcTree = t,
      ledgerState = GetProposalView (highQC t),
      localProposal = [utils_F (GetProposalId (In (root t))) \<mapsto> 0],
      qcVoteMsgs = Map.empty, subscribeList = [], outbox = []\<rparr>"

definition LoadVotes :: "Smr \<Rightarrow> slice \<Rightarrow> QuorumCertSign list option \<Rightarrow> Smr" where
  "LoadVotes s proposalId signs =
     (case signs of
        None \<Rightarrow> s
      | Some ss \<Rightarrow> s\<lparr>qcVoteMsgs := (qcVoteMsgs s)(utils_F proposalId \<mapsto> ss)\<rparr>)"

text \<open>
  \<open>RegisterToNetwork\<close> subscribes to the three message types in order and stops at the first
  refusal of the network's \<open>Register\<close>; a subscription is named by its type.
\<close>

fun registerAll :: "(int \<Rightarrow> bft_error option) \<Rightarrow> Smr \<Rightarrow> int list \<Rightarrow> Smr \<times> bft_error option" where
  "registerAll reg s [] = (s, None)"
| "registerAll reg s (typ # typs) =
     (case reg typ of
        Some e \<Rightarrow> (s, Some e)
      | None \<Rightarrow> registerAll reg (s\<lparr>subscribeList := subscribeList s @ [typ]\<rparr>) typs)"

definition RegisterToNetwork :: "(int \<Rightarrow> bft_error option) \<Rightarrow> Smr \<Rightarrow> Smr \<times> bft_error option" where
  "RegisterToNetwork reg s = registerAll reg s [NEW_VIEW_MSG, NEW_PROPOSAL_MSG, VOTE_MSG]"

text \<open>
  The loop of \<open>UnRegisterToNetwork\<close>: \<open>some\<close> is whether the element pointer \<open>e\<close> is non-nil, which
  the loop tests before it first assigns it. A turn takes the front of the list and removes
  it when the network unregisters it; \<open>e\<close> is then the second element of the old list.
\<close>

function unregisterLoop :: "(int \<Rightarrow> bft_error option) \<Rightarrow> nat \<Rightarrow> bool \<Rightarrow> int list \<Rightarrow> int list" where
  "unregisterLoop unreg i some subs =
     (if i < length subs \<and> some
      then unregisterLoop unreg (Suc i) (tl subs \<noteq> [])
             (if unreg (hd subs) = None then tl subs else subs)
      else subs)"
  by pat_completeness auto
termination
  by (relation "measure (\<lambda>(_, i, _, subs). length subs - i)") auto

declare unregisterLoop.simps [simp del]

definition UnRegisterToNetwork :: "(int \<Rightarrow> bft_error option) \<Rightarrow> Smr \<Rightarrow> Smr" where
  "UnRegisterToNetwork unreg s = s\<lparr>subscribeList := unregisterLoop unreg 0 False (subscribeList s)\<rparr>"

section \<open>Small accessors and helpers\<close>

definition GetRootQC :: "Smr \<Rightarrow> QuorumCert" where
  "GetRootQC s = In (root (qcTree s))"

definition getHighQC :: "Smr \<Rightarrow> QuorumCert" where
  "getHighQC s = highQC (qcTree s)"

text \<open>The second loop tests the addresses of \<open>q\<close> as it was, and never adds one of \<open>p\<close>.\<close>

definition appendSigns :: "QuorumCertSign list \<Rightarrow> QuorumCertSign list \<Rightarrow> QuorumCertSign list" where
  "appendSigns q p = q @ filter (\<lambda>sign. signAddress sign \<notin> signAddress ` set q) p"

definition removeLocalValidator :: "Smr \<Rightarrow> string list \<Rightarrow> string list" where
  "removeLocalValidator s ins = filter (\<lambda>addr. addr \<noteq> address s) ins"

definition blockToProposalNode :: "Smr \<Rightarrow> BlockInfo \<Rightarrow> ProposalNode" where
  "blockToProposalNode s block =
     (case DFSQueryNode (qcTree s) (blkBlockid block) of
        Some node \<Rightarrow> node
      | None \<Rightarrow> ProposalNode (NewQuorumCert
          \<lparr>ProposalId = blkBlockid block, ProposalView = blkHeight block,
           ParentId = blkPreHash block, ParentView = i64 (blkHeight block - 1)\<rparr> None None) [])"

definition getCompleteHighQC :: "Smr \<Rightarrow> QuorumCert" where
  "getCompleteHighQC s =
     (let raw = getHighQC s;
          vote = \<lparr>ProposalId = GetProposalId raw, ProposalView = GetProposalView raw,
                  ParentId = GetParentProposalId raw, ParentView = GetProposalView raw\<rparr>
      in NewQuorumCert vote None (qcVoteMsgs s (utils_F (GetProposalId raw))))"

definition validNewHighQC :: "Smr \<Rightarrow> slice \<Rightarrow> string list option \<Rightarrow> bool" where
  "validNewHighQC s inProposalId validators =
     (case qcVoteMsgs s (utils_F inProposalId) of
        None \<Rightarrow> False
      | Some signs \<Rightarrow>
          let n = length (contents_list validators)
          in if n = 1 then length signs = n
             else CalVotesThreshold (int (length signs)) (int n))"

definition enforceUpdateHighQC :: "Smr \<Rightarrow> slice \<Rightarrow> Smr \<times> bool \<times> bft_error option" where
  "enforceUpdateHighQC s inProposalId =
     (if bytes_equal (GetProposalId (getHighQC s)) inProposalId then (s, False, None)
      else let (t, e) = EnforceUpdateHighQC (qcTree s) inProposalId
           in (s\<lparr>qcTree := t\<rparr>, True, e))"

definition reloadJustifyQC :: "Smr \<Rightarrow> slice \<Rightarrow> bft_error + QuorumCert" where
  "reloadJustifyQC s parentID =
     (if bytes_equal (GetProposalId (genesis (qcTree s))) parentID then Inr (getHighQC s)
      else case DFSQueryNode (qcTree s) parentID of
             None \<Rightarrow> Inl ErrEmptyTarget
           | Some qc \<Rightarrow>
               let v = \<lparr>ProposalId = GetProposalId (In qc), ProposalView = GetProposalView (In qc),
                        ParentId = None, ParentView = 0\<rparr>;
                   commitId = (case commitQC (qcTree s) of None \<Rightarrow> None | Some c \<Rightarrow> GetProposalId c)
               in case qcVoteMsgs s (utils_F (ProposalId v)) of
                    None \<Rightarrow> Inl ErrJustifyVotesEmpty
                  | Some signs \<Rightarrow>
                      Inr (NewQuorumCert v (Some \<lparr>CommitStateId = commitId, VoteInfoHash = None\<rparr>)
                           (Some signs)))"

definition updateJustifyQcStatus :: "Smr \<Rightarrow> QuorumCert option \<Rightarrow> Smr" where
  "updateJustifyQcStatus s justify =
     (case justify of
        None \<Rightarrow> s
      | Some j \<Rightarrow>
          let signs = contents_list (qcVoteMsgs s (utils_F (GetProposalId j)))
          in case GetSignsInfo j of
               None \<Rightarrow> s
             | Some justifySigns \<Rightarrow>
                 s\<lparr>qcVoteMsgs := (qcVoteMsgs s)
                     (utils_F (GetProposalId j) \<mapsto> appendSigns signs justifySigns),
                   qcTree := UpdateHighQC (qcTree s) (GetProposalId j)\<rparr>)"

definition updateQcStatus :: "Smr \<Rightarrow> ProposalNode option \<Rightarrow> Smr \<times> bft_error option" where
  "updateQcStatus s node =
     (case node of
        None \<Rightarrow> (s, Some ErrEmptyTarget)
      | Some n \<Rightarrow>
          let s1 = (if GetProposalView (In n) > ledgerState s
                    then s\<lparr>ledgerState := GetProposalView (In n)\<rparr> else s);
              (t, e) = UpdateQcStatus (qcTree s1) n
          in (s1\<lparr>qcTree := t\<rparr>, e))"

definition advance :: "Smr \<Rightarrow> QuorumCert option \<Rightarrow> Smr" where
  "advance s qc = s\<lparr>pacemaker := fst (AdvanceView (pacemaker s) qc)\<rparr>"

definition SendMessage :: "Smr \<Rightarrow> XuperMessage \<Rightarrow> string list \<Rightarrow> Smr" where
  "SendMessage s netMsg accounts = s\<lparr>outbox := outbox s @ [(netMsg, accounts)]\<rparr>"

section \<open>Making a proposal\<close>

definition voteToSelf :: "SmrEnv \<Rightarrow> Smr \<Rightarrow> int \<Rightarrow> slice \<Rightarrow> QuorumCert \<Rightarrow> Smr" where
  "voteToSelf env s viewNumber proposalID parent =
     (let selfQC = NewQuorumCert
            \<lparr>ProposalId = proposalID, ProposalView = viewNumber, ParentId = GetProposalId parent,
             ParentView = 0\<rparr> (Some \<lparr>CommitStateId = None, VoteInfoHash = proposalID\<rparr>) None
      in case SignVoteMsg (smrCrypto env) proposalID of
           Inr selfSign \<Rightarrow>
             let key = utils_F proposalID;
                 s1 = (if qcVoteMsgs s key = None
                       then s\<lparr>qcVoteMsgs := (qcVoteMsgs s)(key \<mapsto> [selfSign])\<rparr> else s);
                 (t, e) = UpdateQcStatus (qcTree s1) (ProposalNode selfQC []);
                 s2 = s1\<lparr>qcTree := t\<rparr>
             in (case e of
                   Some _ \<Rightarrow> s2
                 | None \<Rightarrow>
                     let s3 = advance s2 (Some selfQC)
                     in s3\<lparr>qcTree := UpdateHighQC (qcTree s3) proposalID\<rparr>)
         | Inl _ \<Rightarrow> s)"

text \<open>\<open>now\<close> is the clock. The highest certificate is never nil, so that check is absent.\<close>

definition ProcessProposal ::
  "SmrEnv \<Rightarrow> int \<Rightarrow> Smr \<Rightarrow> int \<Rightarrow> slice \<Rightarrow> slice \<Rightarrow> string list option \<Rightarrow> Smr \<times> bft_error option" where
  "ProcessProposal env now s viewNumber proposalID parentID validatesIpInfo =
     (case validatesIpInfo of
        None \<Rightarrow> (s, Some ErrEmptyTarget)
      | Some validators \<Rightarrow>
          let t = qcTree s; cur = GetCurrentView (pacemaker s)
          in if cur \<noteq> i64 (GetProposalView (genesis t) + 1) \<and>
                (case lockedQC t of None \<Rightarrow> False | Some l \<Rightarrow> cur < GetProposalView l)
             then (s, Some ErrTooLowNewProposal)
             else if localProposal s (utils_F proposalID) \<noteq> None then (s, Some ErrSameProposalNotify)
             else case reloadJustifyQC s parentID of
               Inl e \<Rightarrow> (s, Some e)
             | Inr parentQuorumCert \<Rightarrow>
                 let proposal = \<lparr>pmProposalView = viewNumber, pmProposalId = proposalID,
                       pmTimestamp = now, pmJustifyQC = marshalQC env parentQuorumCert,
                       pmSign = None, pmMsgDigest = None\<rparr>
                 in (case SignProposalMsg (smrCrypto env) proposal of
                       Inr propMsg \<Rightarrow>
                         let netMsg = NewMessage (snappyEncode env) (genLogId env) NEW_PROPOSAL_MSG
                               (Some (protoProposal env propMsg)) [WithBCName (bcName s)];
                             s1 = SendMessage s netMsg (removeLocalValidator s validators);
                             s2 = s1\<lparr>localProposal := (localProposal s1)(utils_F proposalID \<mapsto> now)\<rparr>
                         in (if length validators = 1
                             then voteToSelf env s2 viewNumber proposalID parentQuorumCert else s2,
                             None)
                     | Inl e \<Rightarrow> (s, Some (ErrCrypto e))))"

section \<open>Receiving a proposal\<close>

definition voteProposal ::
  "SmrEnv \<Rightarrow> Smr \<Rightarrow> slice \<Rightarrow> VoteInfo \<Rightarrow> LedgerCommitInfo \<Rightarrow> string \<Rightarrow> Smr" where
  "voteProposal env s msg vote ledger voteTo =
     (if voteTo = address s then s
      else case SignVoteMsg (smrCrypto env) msg of
             Inl _ \<Rightarrow> s
           | Inr nextSign \<Rightarrow>
               let voteMsg = \<lparr>vmVoteInfo = marshalVoteInfo env vote,
                     vmLedgerCommitInfo = marshalLedgerInfo env ledger, vmSignature = Some [nextSign]\<rparr>;
                   netMsg = NewMessage (snappyEncode env) (genLogId env) VOTE_MSG
                     (Some (protoVote env voteMsg)) [WithBCName (bcName s)]
               in SendMessage s netMsg [voteTo])"

text \<open>The message that passes a proposal on to the leader of its round.\<close>

definition notifyLeader :: "SmrEnv \<Rightarrow> Smr \<Rightarrow> ProposalMsg \<Rightarrow> Smr" where
  "notifyLeader env s newProposalMsg =
     (let netMsg = NewMessage (snappyEncode env) (genLogId env) NEW_PROPOSAL_MSG
            (Some (protoProposal env newProposalMsg)) [WithBCName (bcName s)];
          leader = (case pmSign newProposalMsg of None \<Rightarrow> [] | Some g \<Rightarrow> signAddress g)
      in if leader \<noteq> [] \<and> leader \<noteq> address s then SendMessage s netMsg [leader] else s)"

text \<open>Steps 4 to 6 of \<open>handleReceivedProposal\<close>: the checks before the vote, the insertion, the vote.\<close>

definition acceptProposal ::
  "SmrEnv \<Rightarrow> Smr \<Rightarrow> ProposalMsg \<Rightarrow> VoteInfo \<Rightarrow> QuorumCert \<Rightarrow> Smr" where
  "acceptProposal env s m newVote parentQC =
     (if \<not> CheckPacemaker (pmProposalView m) (GetCurrentView (pacemaker s)) then s
      else let (r, ok) = VoteProposal (saftyrules s) (pmProposalId m) (pmProposalView m) parentQC;
               s1 = s\<lparr>saftyrules := r\<rparr>
           in if \<not> ok then s1
              else let newLedgerInfo = \<lparr>CommitStateId = None, VoteInfoHash = pmProposalId m\<rparr>;
                       (t, e) = UpdateQcStatus (qcTree s1)
                         (ProposalNode (NewQuorumCert newVote (Some newLedgerInfo) None) []);
                       s2 = s1\<lparr>qcTree := t\<rparr>
                   in if e \<noteq> None then s2
                      else let nextLeader = GetLeader env (i64 (GetCurrentView (pacemaker s2) + 1))
                           in if nextLeader = [] then s2
                              else voteProposal env s2 (pmProposalId m) newVote newLedgerInfo nextLeader)"

text \<open>Step 3: the preferred round, and the commit of the justified proposal.\<close>

definition commitJustify :: "Smr \<Rightarrow> QuorumCert \<Rightarrow> Smr" where
  "commitJustify s parentQC =
     (if (case qcLedgerCommitInfo parentQC of None \<Rightarrow> False | Some l \<Rightarrow> CommitStateId l \<noteq> None)
      then let (r, ok) = UpdatePreferredRound (saftyrules s) (GetProposalView parentQC)
           in if ok then s\<lparr>saftyrules := r, qcTree := UpdateCommit (qcTree s) (GetProposalId parentQC)\<rparr>
              else s\<lparr>saftyrules := r\<rparr>
      else s)"

text \<open>
  The handler from the parsed justify certificate on. The proposal's own certificate carries
  the message's signature, which no check reads.
\<close>

definition handleJustified :: "SmrEnv \<Rightarrow> Smr \<Rightarrow> ProposalMsg \<Rightarrow> QuorumCert \<Rightarrow> Smr" where
  "handleJustified env s m parentQC =
     (let newVote = \<lparr>ProposalId = pmProposalId m, ProposalView = pmProposalView m,
            ParentId = GetProposalId parentQC, ParentView = GetProposalView parentQC\<rparr>;
          isFirstJustify = bytes_equal (GetProposalId (genesis (qcTree s))) (GetProposalId parentQC);
          proposalQC = NewQuorumCert newVote None (map_option (\<lambda>g. [g]) (pmSign m))
      in if \<not> isFirstJustify \<and>
            CheckProposal (smrCrypto env) (saftyrules s) (qcTree s) proposalQC parentQC
              (GetValidators env (GetProposalView parentQC)) \<noteq> None
         then s
         else if i64 (ledgerState s + StrictInternal) < ProposalView newVote then s
         else acceptProposal env
                (commitJustify (notifyLeader env (advance s (Some parentQC)) m) parentQC)
                m newVote parentQC)"

text \<open>
  The whole handler. It panics when a proposal with a known id has no signature, and when the
  justify certificate parses to one without a vote.
\<close>

definition handleReceivedProposal :: "SmrEnv \<Rightarrow> Smr \<Rightarrow> XuperMessage \<Rightarrow> (unit, Smr) result" where
  "handleReceivedProposal env s msg =
     (case Unmarshal (snappyDecode env) (unprotoProposal env) msg of
        Ok m \<Rightarrow>
          let key = utils_F (pmProposalId m);
              known = (localProposal s key \<noteq> None);
              s1 = (if known then s
                    else s\<lparr>localProposal := (localProposal s)(key \<mapsto> pmTimestamp m)\<rparr>)
          in if known \<and> pmSign m = None then Panic
             else if known \<and> signAddress (the (pmSign m)) \<noteq> address s then Ok s1
             else (case parseQC env (pmJustifyQC m) of
                     Err _ \<Rightarrow> Ok s1
                   | Panic \<Rightarrow> Panic
                   | Ok None \<Rightarrow> Panic
                   | Ok (Some parentQC) \<Rightarrow> Ok (handleJustified env s1 m parentQC))
      | _ \<Rightarrow> Ok s)"

section \<open>Receiving a vote\<close>

definition voteMsgToQC :: "SmrEnv \<Rightarrow> VoteMsg \<Rightarrow> QuorumCert option" where
  "voteMsgToQC env msg =
     (case parseVoteInfo env (vmVoteInfo msg) of
        None \<Rightarrow> None
      | Some voteInfo \<Rightarrow>
          (case parseLedgerInfo env (vmLedgerCommitInfo msg) of
             None \<Rightarrow> None
           | Some ledgerCommitInfo \<Rightarrow>
               Some (NewQuorumCert voteInfo (Some ledgerCommitInfo) (vmSignature msg))))"

text \<open>
  The collected signatures after a vote, and their number. The stored list of a first vote is
  the whole list of the message, counted as one.
\<close>

definition storeVote ::
  "Smr \<Rightarrow> QuorumCert \<Rightarrow> QuorumCertSign list \<Rightarrow> (string \<Rightarrow> QuorumCertSign list option) \<times> nat" where
  "storeVote s voteQC msgSigns =
     (let key = utils_F (GetProposalId voteQC); first = hd msgSigns
      in case qcVoteMsgs s key of
           None \<Rightarrow> ((qcVoteMsgs s)(key \<mapsto> msgSigns), 1)
         | Some signs \<Rightarrow>
             let stored = list_ex (\<lambda>sign. signAddress sign = signAddress first
                            \<or> signAddress first = address s) signs;
                 signs' = (if \<not> stored then signs @ [first] else signs)
             in (if \<not> stored then (qcVoteMsgs s)(key \<mapsto> signs') else qcVoteMsgs s, length signs'))"

definition handleReceivedVoteMsg :: "SmrEnv \<Rightarrow> Smr \<Rightarrow> XuperMessage \<Rightarrow> Smr \<times> bft_error option" where
  "handleReceivedVoteMsg env s msg =
     (case Unmarshal (snappyDecode env) (unprotoVote env) msg of
        Ok newVoteMsg \<Rightarrow>
          (case voteMsgToQC env newVoteMsg of
             None \<Rightarrow> (s, Some ErrUnmarshal)
           | Some voteQC \<Rightarrow>
               let validators = GetValidators env (GetProposalView voteQC)
               in case CheckVote (smrCrypto env) (saftyrules s) voteQC validators of
                    Some e \<Rightarrow> (s, Some e)
                  | None \<Rightarrow>
                      if localProposal s (utils_F (GetProposalId voteQC)) = None
                      then (s, Some ErrEmptyTarget)
                      else if DFSQueryNode (qcTree s) (GetProposalId voteQC) = None
                      then (s, Some ErrEmptyTarget)
                      else let (votes, voteLen) = storeVote s voteQC (contents_list (GetSignsInfo voteQC));
                               s1 = s\<lparr>qcVoteMsgs := votes\<rparr>
                           in if \<not> CalVotesThreshold (int voteLen) (int (length (contents_list validators)))
                              then (s1, None)
                              else let s2 = advance s1 (Some voteQC)
                                   in (s2\<lparr>qcTree := UpdateHighQC (qcTree s2) (GetProposalId voteQC)\<rparr>, None))
      | _ \<Rightarrow> (s, Some ErrUnmarshal))"

definition handleReceivedMsg :: "SmrEnv \<Rightarrow> Smr \<Rightarrow> XuperMessage \<Rightarrow> (unit, Smr) result" where
  "handleReceivedMsg env s msg =
     (if hBcname (GetHeader msg) \<noteq> bcName s then Ok s
      else if hType (GetHeader msg) = NEW_PROPOSAL_MSG then handleReceivedProposal env s msg
      else if hType (GetHeader msg) = VOTE_MSG then Ok (fst (handleReceivedVoteMsg env s msg))
      else Ok s)"

section \<open>Blocks of the ledger\<close>

definition smrCheckProposal ::
  "SmrEnv \<Rightarrow> Smr \<Rightarrow> BlockInfo \<Rightarrow> QuorumCert \<Rightarrow> string list option \<Rightarrow> bft_error option" where
  "smrCheckProposal env s block justify validators =
     CheckProposal (smrCrypto env) (saftyrules s) (qcTree s) (In (blockToProposalNode s block))
       justify validators"

definition KeepUpWithBlock ::
  "SmrEnv \<Rightarrow> int \<Rightarrow> Smr \<Rightarrow> BlockInfo \<Rightarrow> QuorumCert option \<Rightarrow> string list option \<Rightarrow> Smr \<times> bft_error option" where
  "KeepUpWithBlock env now s block justify validators =
     (let s1 = updateJustifyQcStatus s justify;
          (s2, e) = (if validators \<noteq> None
             then ProcessProposal env now s1 (blkHeight block) (blkBlockid block) (blkPreHash block) validators
             else (s1, None))
      in if e \<noteq> None \<and> e \<noteq> Some ErrSameProposalNotify \<and> e \<noteq> Some ErrTooLowNewProposal then (s2, e)
         else let (s3, e3) = updateQcStatus s2 (Some (blockToProposalNode s2 block))
              in if e3 \<noteq> None then (s3, e3)
                 else (advance (s3\<lparr>qcTree := UpdateCommit (qcTree s3) (blkPreHash block)\<rparr>) justify, None))"

text \<open>
  The search of \<open>ResetProposerStatus\<close> for the newest certified ancestor of a block: \<open>None\<close> when
  it never ends, \<open>Some (Inl e)\<close> its error returns, \<open>Some (Inr qc)\<close> the certificate it breaks
  with.
\<close>

partial_function (option) resetLoop ::
  "SmrEnv \<Rightarrow> Smr \<Rightarrow> (slice \<Rightarrow> BlockInfo option) \<Rightarrow> slice \<Rightarrow> (bft_error + QuorumCert) option" where
  "resetLoop env s query targetId =
     (case query targetId of
        None \<Rightarrow> Some (Inl ErrEmptyTarget)
      | Some block \<Rightarrow>
          if blkHeight block \<le> GetProposalView (GetRootQC s) then Some (Inr (GetRootQC s))
          else case DFSQueryNode (qcTree s) (blkBlockid block) of
                 None \<Rightarrow> resetLoop env s query (blkPreHash block)
               | Some node \<Rightarrow>
                   (case GetValidators env (blkHeight block) of
                      None \<Rightarrow> Some (Inl ErrEmptyTarget)
                    | Some wantProposers \<Rightarrow>
                        if \<not> validNewHighQC s (GetProposalId (In node)) (Some wantProposers)
                        then resetLoop env s query (blkPreHash block)
                        else Some (Inr (In node))))"

definition ResetProposerStatus ::
  "SmrEnv \<Rightarrow> Smr \<Rightarrow> BlockInfo \<Rightarrow> (slice \<Rightarrow> BlockInfo option) \<Rightarrow> string list option \<Rightarrow>
   (Smr \<times> (bft_error + bool \<times> QuorumCert)) option" where
  "ResetProposerStatus env s tipBlock query validators =
     (if bytes_equal (GetProposalId (getHighQC s)) (blkBlockid tipBlock) \<and>
         validNewHighQC s (blkBlockid tipBlock) validators
      then Some (s, Inr (False, getCompleteHighQC s))
      else case resetLoop env s query (blkBlockid tipBlock) of
             None \<Rightarrow> None
           | Some (Inl e) \<Rightarrow> Some (s, Inl e)
           | Some (Inr qc) \<Rightarrow>
               let (s1, ok, err) = enforceUpdateHighQC s (GetProposalId qc)
               in (case err of
                     Some e \<Rightarrow> Some (s1, Inl e)
                   | None \<Rightarrow> Some (s1, Inr (True, getCompleteHighQC s1))))"

section \<open>What the handlers keep and what they let grow\<close>

text \<open>
  \<open>grows s s'\<close>: identity is unchanged; the current view, the voting rounds and the ledger
  height do not fall; known proposals and sent messages stay.
\<close>

definition grows :: "Smr \<Rightarrow> Smr \<Rightarrow> bool" where
  "grows s s' \<longleftrightarrow>
     bcName s' = bcName s \<and> address s' = address s \<and>
     CurrentView (pacemaker s) \<le> CurrentView (pacemaker s') \<and>
     lastVoteRound (saftyrules s) \<le> lastVoteRound (saftyrules s') \<and>
     preferredRound (saftyrules s) \<le> preferredRound (saftyrules s') \<and>
     ledgerState s \<le> ledgerState s' \<and>
     localProposal s \<subseteq>\<^sub>m localProposal s' \<and>
     dom (qcVoteMsgs s) \<subseteq> dom (qcVoteMsgs s') \<and>
     (\<exists>new. outbox s' = outbox s @ new)"

text \<open>\<open>tree_run s s'\<close>: the tree changed by operations of the store, none of them forced.\<close>

definition tree_run :: "Smr \<Rightarrow> Smr \<Rightarrow> bool" where
  "tree_run s s' \<longleftrightarrow> (\<exists>ops. (\<forall>i. Force i \<notin> set ops) \<and> qcTree s' = qct.run ops (qcTree s))"

named_theorems smr_grows \<open>steps of the state machine are monotone\<close>

lemma growsD: "grows s s' \<Longrightarrow> grows s' s'' \<Longrightarrow> grows s s''"
  by (auto simp: grows_def intro: map_le_trans)

lemma grows_refl [simp]: "grows s s"
  by (simp add: grows_def)

lemma tree_run_refl [simp]: "tree_run s s"
  unfolding tree_run_def by (rule exI [of _ "[]"]) simp

lemma tree_run_trans: "tree_run s s' \<Longrightarrow> tree_run s' s'' \<Longrightarrow> tree_run s s''"
proof -
  assume "tree_run s s'" "tree_run s' s''"
  then obtain as bs where "\<forall>i. Force i \<notin> set as" "\<forall>i. Force i \<notin> set bs"
    "qcTree s'' = qct.run (as @ bs) (qcTree s)" by (auto simp: tree_run_def)
  then show ?thesis unfolding tree_run_def by (intro exI [of _ "as @ bs"]) auto
qed

lemma tree_run_same: "qcTree s' = qcTree s \<Longrightarrow> tree_run s s'"
  unfolding tree_run_def by (rule exI [of _ "[]"]) simp

lemma tree_run_raise: "qcTree s' = UpdateHighQC (qcTree s) i \<Longrightarrow> tree_run s s'"
  unfolding tree_run_def by (rule exI [of _ "[Raise i]"]) simp

lemma tree_run_commit: "qcTree s' = UpdateCommit (qcTree s) i \<Longrightarrow> tree_run s s'"
  unfolding tree_run_def by (rule exI [of _ "[Commit i]"]) simp

lemma tree_run_add:
  "qcTree s' = fst (UpdateQcStatus (qcTree s) (ProposalNode q [])) \<Longrightarrow> tree_run s s'"
  unfolding tree_run_def by (rule exI [of _ "[Add q]"]) (simp add: tree_add_def)

lemma advance_frame [simp]:
  "qcTree (advance s q) = qcTree s" "saftyrules (advance s q) = saftyrules s"
  "outbox (advance s q) = outbox s" "localProposal (advance s q) = localProposal s"
  "qcVoteMsgs (advance s q) = qcVoteMsgs s" "ledgerState (advance s q) = ledgerState s"
  "address (advance s q) = address s" "bcName (advance s q) = bcName s"
  by (simp_all add: advance_def)

lemma SendMessage_frame [simp]:
  "qcTree (SendMessage s m a) = qcTree s" "saftyrules (SendMessage s m a) = saftyrules s"
  "outbox (SendMessage s m a) = outbox s @ [(m, a)]"
  "localProposal (SendMessage s m a) = localProposal s"
  "qcVoteMsgs (SendMessage s m a) = qcVoteMsgs s" "ledgerState (SendMessage s m a) = ledgerState s"
  "pacemaker (SendMessage s m a) = pacemaker s" "address (SendMessage s m a) = address s"
  "bcName (SendMessage s m a) = bcName s"
  by (simp_all add: SendMessage_def)

lemma grows_advance [smr_grows]: "grows s (advance s q)"
  by (simp add: grows_def) (simp add: advance_def AdvanceView_mono)

lemma grows_Send [smr_grows]: "grows s (SendMessage s m a)"
  by (simp add: grows_def)

lemma grows_tree [smr_grows]: "grows s (s\<lparr>qcTree := t\<rparr>)"
  by (simp add: grows_def)

lemma grows_LoadVotes [smr_grows]: "grows s (LoadVotes s i ss)"
  by (auto simp: grows_def LoadVotes_def split: option.splits)

lemma run_LoadVotes: "tree_run s (LoadVotes s i ss)"
  by (rule tree_run_same) (simp add: LoadVotes_def split: option.splits)

lemma grows_updateJustify [smr_grows]: "grows s (updateJustifyQcStatus s j)"
  by (auto simp: grows_def updateJustifyQcStatus_def Let_def split: option.splits)

lemma run_updateJustify: "tree_run s (updateJustifyQcStatus s j)"
  by (cases j) (auto simp: updateJustifyQcStatus_def Let_def split: option.splits
      intro: tree_run_raise)

lemma grows_updateQcStatus [smr_grows]: "grows s (fst (updateQcStatus s n))"
  by (auto simp: grows_def updateQcStatus_def Let_def case_prod_beta split: option.splits)

lemma grows_voteToSelf [smr_grows]: "grows s (voteToSelf env s v i p)"
proof (cases "SignVoteMsg (smrCrypto env) i")
  case (Inr g)
  then show ?thesis
    by (auto simp: grows_def voteToSelf_def Let_def case_prod_beta advance_def AdvanceView_mono
        split: option.splits)
qed (simp add: voteToSelf_def)

lemma run_voteToSelf: "tree_run s (voteToSelf env s v i p)"
proof (cases "SignVoteMsg (smrCrypto env) i")
  case (Inr g)
  let ?q = "NewQuorumCert \<lparr>ProposalId = i, ProposalView = v, ParentId = GetProposalId p,
      ParentView = 0\<rparr> (Some \<lparr>CommitStateId = None, VoteInfoHash = i\<rparr>) None"
  let ?s = "s\<lparr>qcTree := fst (UpdateQcStatus (qcTree s) (ProposalNode ?q []))\<rparr>"
  have "tree_run s ?s" by (rule tree_run_add [of _ _ ?q]) simp
  moreover have "tree_run ?s (voteToSelf env s v i p)"
    using Inr by (cases "snd (UpdateQcStatus (qcTree s) (ProposalNode ?q []))")
      (auto simp: voteToSelf_def Let_def case_prod_beta intro: tree_run_same tree_run_raise [of _ _ i])
  ultimately show ?thesis by (rule tree_run_trans)
qed (simp add: voteToSelf_def)

lemma run_updateQcStatus:
  assumes "n = blockToProposalNode s b" and id: "contents (blkBlockid b) \<noteq> []"
  shows "tree_run s (fst (updateQcStatus s (Some n)))"
proof (cases "DFSQueryNode (qcTree s) (blkBlockid b)")
  case None
  then obtain q where "n = ProposalNode q []" by (simp add: assms blockToProposalNode_def)
  then show ?thesis
    by (intro tree_run_add [of _ _ q]) (simp add: updateQcStatus_def Let_def case_prod_beta)
next
  case (Some m)
  then have "n = m" by (simp add: assms blockToProposalNode_def)
  moreover from Some have "GetProposalId (In m) \<noteq> None"
    using id dfsQuery_SomeD [of "root (qcTree s)" "blkBlockid b" m]
    by (cases "GetProposalId (In m)") (simp_all add: DFSQueryNode_def bytes_equal_def)
  ultimately have "dfsQuery (root (qcTree s)) (GetProposalId (In n)) \<noteq> None"
    using Some dfsQuery_same_id [of "root (qcTree s)" "blkBlockid b" m]
    unfolding DFSQueryNode_def by blast
  then show ?thesis
    by (intro tree_run_same) (auto simp: updateQcStatus_def UpdateQcStatus_def Let_def)
qed

lemma ProcessProposal_disj:
  "(\<exists>e. ProcessProposal env now s v i p vs = (s, Some e)) \<or>
   (\<exists>ws q m s1. vs = Some ws \<and> reloadJustifyQC s p = Inr q \<and> localProposal s (utils_F i) = None \<and>
      SignProposalMsg (smrCrypto env) \<lparr>pmProposalView = v, pmProposalId = i, pmTimestamp = now,
        pmJustifyQC = marshalQC env q, pmSign = None, pmMsgDigest = None\<rparr> = Inr m \<and>
      s1 = (SendMessage s (NewMessage (snappyEncode env) (genLogId env) NEW_PROPOSAL_MSG
        (Some (protoProposal env m)) [WithBCName (bcName s)]) (removeLocalValidator s ws))
        \<lparr>localProposal := (localProposal s)(utils_F i \<mapsto> now)\<rparr> \<and>
      ProcessProposal env now s v i p vs =
        (if length ws = 1 then voteToSelf env s1 v i q else s1, None))"
proof (cases vs)
  case (Some ws)
  show ?thesis
  proof (cases "reloadJustifyQC s p")
    case (Inr q)
    with Some show ?thesis
      by (cases "SignProposalMsg (smrCrypto env) \<lparr>pmProposalView = v, pmProposalId = i,
          pmTimestamp = now, pmJustifyQC = marshalQC env q, pmSign = None, pmMsgDigest = None\<rparr>")
        (auto simp: ProcessProposal_def Let_def)
  qed (auto simp: ProcessProposal_def Let_def Some)
qed (simp add: ProcessProposal_def)

lemma ProcessProposal_cases:
  obtains e where "ProcessProposal env now s v i p vs = (s, Some e)"
  | ws q m s1 where "vs = Some ws" "reloadJustifyQC s p = Inr q"
    "localProposal s (utils_F i) = None"
    "s1 = (SendMessage s (NewMessage (snappyEncode env) (genLogId env) NEW_PROPOSAL_MSG
       (Some (protoProposal env m)) [WithBCName (bcName s)]) (removeLocalValidator s ws))
       \<lparr>localProposal := (localProposal s)(utils_F i \<mapsto> now)\<rparr>"
    "ProcessProposal env now s v i p vs =
       (if length ws = 1 then voteToSelf env s1 v i q else s1, None)"
  using ProcessProposal_disj [of env now s v i p vs] by blast

lemma grows_ProcessProposal [smr_grows]: "grows s (fst (ProcessProposal env now s v i p vs))"
  and run_ProcessProposal: "tree_run s (fst (ProcessProposal env now s v i p vs))"
proof -
  have "grows s (fst (ProcessProposal env now s v i p vs)) \<and>
      tree_run s (fst (ProcessProposal env now s v i p vs))"
  proof (cases rule: ProcessProposal_cases [of env now s v i p vs])
    case (2 ws q m s1)
    then have "grows s s1" "tree_run s s1"
      by (auto simp: grows_def intro: map_le_upd tree_run_same)
    with 2 show ?thesis
      by (auto intro: growsD grows_voteToSelf tree_run_trans run_voteToSelf)
  qed simp
  then show "grows s (fst (ProcessProposal env now s v i p vs))"
    "tree_run s (fst (ProcessProposal env now s v i p vs))" by simp_all
qed

lemma grows_voteProposal [smr_grows]: "grows s (voteProposal env s m v l a)"
  by (auto simp: voteProposal_def Let_def grows_Send split: sum.splits)

lemma run_voteProposal: "tree_run s (voteProposal env s m v l a)"
  by (rule tree_run_same) (auto simp: voteProposal_def Let_def split: sum.splits)

lemma grows_notifyLeader [smr_grows]: "grows s (notifyLeader env s m)"
  by (auto simp: notifyLeader_def Let_def grows_Send)

lemma run_notifyLeader: "tree_run s (notifyLeader env s m)"
  by (rule tree_run_same) (auto simp: notifyLeader_def Let_def)

lemma grows_commitJustify [smr_grows]: "grows s (commitJustify s q)"
  by (auto simp: grows_def commitJustify_def Let_def case_prod_beta UpdatePreferredRound_mono
      split: option.splits)

lemma run_commitJustify: "tree_run s (commitJustify s q)"
  by (auto simp: commitJustify_def Let_def case_prod_beta intro: tree_run_commit tree_run_same
      split: option.splits)

lemma acceptProposal_grows_run:
  "grows s (acceptProposal env s m v q) \<and> tree_run s (acceptProposal env s m v q)"
proof -
  let ?q = "NewQuorumCert v (Some \<lparr>CommitStateId = None, VoteInfoHash = pmProposalId m\<rparr>) None"
  let ?s1 = "s\<lparr>saftyrules := fst (VoteProposal (saftyrules s) (pmProposalId m) (pmProposalView m) q)\<rparr>"
  let ?s2 = "?s1\<lparr>qcTree := fst (UpdateQcStatus (qcTree s) (ProposalNode ?q []))\<rparr>"
  have 1: "grows s ?s1" "tree_run s ?s1"
    by (auto simp: grows_def VoteProposal_mono intro: tree_run_same)
  have 2: "grows s ?s2" "tree_run s ?s2"
    by (auto simp: grows_def VoteProposal_mono intro: tree_run_add [of _ _ ?q])
  show ?thesis
    using 1 2 by (auto simp: acceptProposal_def Let_def case_prod_beta
        intro: growsD grows_voteProposal tree_run_trans run_voteProposal)
qed

lemmas grows_acceptProposal [smr_grows] = acceptProposal_grows_run [THEN conjunct1]
lemmas run_acceptProposal = acceptProposal_grows_run [THEN conjunct2]

lemma handleJustified_disj:
  "handleJustified env s m q = s \<or>
   ((bytes_equal (GetProposalId (genesis (qcTree s))) (GetProposalId q) \<or>
       CheckProposal (smrCrypto env) (saftyrules s) (qcTree s)
         (NewQuorumCert \<lparr>ProposalId = pmProposalId m, ProposalView = pmProposalView m,
            ParentId = GetProposalId q, ParentView = GetProposalView q\<rparr> None
            (map_option (\<lambda>g. [g]) (pmSign m))) q (GetValidators env (GetProposalView q)) = None) \<and>
    pmProposalView m \<le> i64 (ledgerState s + 3) \<and>
    handleJustified env s m q =
       acceptProposal env (commitJustify (notifyLeader env (advance s (Some q)) m) q) m
       \<lparr>ProposalId = pmProposalId m, ProposalView = pmProposalView m,
        ParentId = GetProposalId q, ParentView = GetProposalView q\<rparr> q)"
  by (simp add: handleJustified_def Let_def StrictInternal_def)

lemma handleJustified_cases:
  obtains "handleJustified env s m q = s"
  | "bytes_equal (GetProposalId (genesis (qcTree s))) (GetProposalId q) \<or>
       CheckProposal (smrCrypto env) (saftyrules s) (qcTree s)
         (NewQuorumCert \<lparr>ProposalId = pmProposalId m, ProposalView = pmProposalView m,
            ParentId = GetProposalId q, ParentView = GetProposalView q\<rparr> None
            (map_option (\<lambda>g. [g]) (pmSign m))) q (GetValidators env (GetProposalView q)) = None"
    "pmProposalView m \<le> i64 (ledgerState s + 3)"
    "handleJustified env s m q =
       acceptProposal env (commitJustify (notifyLeader env (advance s (Some q)) m) q) m
       \<lparr>ProposalId = pmProposalId m, ProposalView = pmProposalView m,
        ParentId = GetProposalId q, ParentView = GetProposalView q\<rparr> q"
proof (cases "handleJustified env s m q = s")
  case False
  then show thesis
    using handleJustified_disj [of env s m q] by (intro that(2)) simp_all
qed (rule that(1))

lemma grows_handleJustified [smr_grows]: "grows s (handleJustified env s m q)"
proof (cases rule: handleJustified_cases [of env s m q])
  case 2
  from growsD [OF growsD [OF growsD [OF grows_advance grows_notifyLeader] grows_commitJustify]
      grows_acceptProposal]
  show ?thesis unfolding 2(3) .
qed simp

lemma run_handleJustified: "tree_run s (handleJustified env s m q)"
proof (cases rule: handleJustified_cases [of env s m q])
  case 2
  have "tree_run s (advance s (Some q))" by (rule tree_run_same) simp
  from tree_run_trans [OF tree_run_trans [OF tree_run_trans [OF this run_notifyLeader]
        run_commitJustify] run_acceptProposal]
  show ?thesis unfolding 2(3) .
qed simp

text \<open>How \<open>handleReceivedProposal\<close> ends when it does not panic.\<close>

lemma handleReceivedProposal_cases:
  assumes "handleReceivedProposal env s msg = Ok s'"
  obtains "s' = s"
  | m :: ProposalMsg and s1 where
    "Unmarshal (snappyDecode env) (unprotoProposal env) msg = Ok m"
    "s1 = s \<or> localProposal s (utils_F (pmProposalId m)) = None \<and>
       s1 = s\<lparr>localProposal := (localProposal s)(utils_F (pmProposalId m) \<mapsto> pmTimestamp m)\<rparr>"
    "s' = s1 \<or> (\<exists>q. parseQC env (pmJustifyQC m) = Ok (Some q) \<and> s' = handleJustified env s1 m q)"
proof (cases "Unmarshal (snappyDecode env) (unprotoProposal env) msg")
  case (Ok m)
  let ?s1 = "if localProposal s (utils_F (pmProposalId m)) \<noteq> None then s
    else s\<lparr>localProposal := (localProposal s)(utils_F (pmProposalId m) \<mapsto> pmTimestamp m)\<rparr>"
  show thesis
  proof (rule that(2) [OF Ok, of ?s1])
    show "s' = ?s1 \<or> (\<exists>q. parseQC env (pmJustifyQC m) = Ok (Some q) \<and> s' = handleJustified env ?s1 m q)"
      using assms Ok unfolding handleReceivedProposal_def Let_def
      by (simp split: if_splits result.splits option.splits)
  qed simp
qed (use assms that in \<open>auto simp: handleReceivedProposal_def\<close>)

lemma handleReceivedProposal_grows_run:
  assumes "handleReceivedProposal env s msg = Ok s'"
  shows "grows s s' \<and> tree_run s s'"
  using assms
proof (cases rule: handleReceivedProposal_cases)
  case (2 m s1)
  then have s1: "grows s s1" "tree_run s s1"
    by (auto simp: grows_def intro: map_le_upd tree_run_same)
  from 2(3) show ?thesis
  proof
    assume "\<exists>q. parseQC env (pmJustifyQC m) = Ok (Some q) \<and> s' = handleJustified env s1 m q"
    then obtain q where "s' = handleJustified env s1 m q" by blast
    with growsD [OF s1(1) grows_handleJustified] tree_run_trans [OF s1(2) run_handleJustified]
    show ?thesis by simp
  qed (use s1 in simp)
qed simp

lemma storeVote_keeps: "dom (qcVoteMsgs s) \<subseteq> dom (fst (storeVote s q ss))"
  by (auto simp: storeVote_def Let_def split: option.splits)

lemma handleReceivedVoteMsg_disj:
  "(\<exists>e. handleReceivedVoteMsg env s msg = (s, Some e)) \<or>
   (\<exists>m q votes k. Unmarshal (snappyDecode env) (unprotoVote env) msg = Ok m \<and> voteMsgToQC env m = Some q \<and>
      CheckVote (smrCrypto env) (saftyrules s) q (GetValidators env (GetProposalView q)) = None \<and>
      DFSQueryNode (qcTree s) (GetProposalId q) \<noteq> None \<and>
      storeVote s q (contents_list (GetSignsInfo q)) = (votes, k) \<and>
      (if CalVotesThreshold (int k) (int (length (contents_list (GetValidators env (GetProposalView q)))))
       then handleReceivedVoteMsg env s msg =
              ((advance (s\<lparr>qcVoteMsgs := votes\<rparr>) (Some q))
                 \<lparr>qcTree := UpdateHighQC (qcTree s) (GetProposalId q)\<rparr>, None)
       else handleReceivedVoteMsg env s msg = (s\<lparr>qcVoteMsgs := votes\<rparr>, None)))"
proof (cases "Unmarshal (snappyDecode env) (unprotoVote env) msg")
  case (Ok m)
  show ?thesis
  proof (cases "voteMsgToQC env m")
    case (Some q)
    with Ok show ?thesis
      by (cases "CheckVote (smrCrypto env) (saftyrules s) q (GetValidators env (GetProposalView q))")
        (auto simp: handleReceivedVoteMsg_def Let_def case_prod_beta prod_eq_iff)
  qed (simp add: handleReceivedVoteMsg_def Ok)
qed (simp_all add: handleReceivedVoteMsg_def)

lemma handleReceivedVoteMsg_grows_run:
  "grows s (fst (handleReceivedVoteMsg env s msg)) \<and> tree_run s (fst (handleReceivedVoteMsg env s msg))"
proof -
  have step: "grows s (s\<lparr>qcVoteMsgs := fst (storeVote s q ss)\<rparr>)" for q ss
    using storeVote_keeps [of s q ss] by (simp add: grows_def)
  from handleReceivedVoteMsg_disj [of env s msg] show ?thesis
  proof (elim disjE exE conjE)
    fix m q votes k
    let ?vs = "contents_list (GetValidators env (GetProposalView q))"
    assume st: "storeVote s q (contents_list (GetSignsInfo q)) = (votes, k)"
      and res: "if CalVotesThreshold (int k) (int (length ?vs))
       then handleReceivedVoteMsg env s msg =
              ((advance (s\<lparr>qcVoteMsgs := votes\<rparr>) (Some q))
                 \<lparr>qcTree := UpdateHighQC (qcTree s) (GetProposalId q)\<rparr>, None)
       else handleReceivedVoteMsg env s msg = (s\<lparr>qcVoteMsgs := votes\<rparr>, None)"
    have g: "grows s (s\<lparr>qcVoteMsgs := votes\<rparr>)"
      using step [of q "contents_list (GetSignsInfo q)"] st by simp
    have g2: "grows s ((advance (s\<lparr>qcVoteMsgs := votes\<rparr>) (Some q))\<lparr>qcTree := t\<rparr>)" for t
      by (rule growsD [OF growsD [OF g grows_advance] grows_tree])
    show ?thesis
      using res g g2 by (auto split: if_splits intro: tree_run_same tree_run_raise)
  qed simp
qed

lemma handleReceivedMsg_grows_run:
  "handleReceivedMsg env s msg = Ok s' \<Longrightarrow> grows s s' \<and> tree_run s s'"
  using handleReceivedProposal_grows_run handleReceivedVoteMsg_grows_run
  by (auto simp: handleReceivedMsg_def split: if_splits)

lemma KeepUpWithBlock_grows_run:
  assumes id: "contents (blkBlockid b) \<noteq> []"
  shows "grows s (fst (KeepUpWithBlock env now s b j vs)) \<and>
    tree_run s (fst (KeepUpWithBlock env now s b j vs))"
proof -
  let ?s1 = "updateJustifyQcStatus s j"
  define p where "p = (if vs \<noteq> None
    then ProcessProposal env now ?s1 (blkHeight b) (blkBlockid b) (blkPreHash b) vs else (?s1, None))"
  define u where "u = updateQcStatus (fst p) (Some (blockToProposalNode (fst p) b))"
  have p: "grows s (fst p)" "tree_run s (fst p)"
    unfolding p_def using growsD [OF grows_updateJustify grows_ProcessProposal]
      tree_run_trans [OF run_updateJustify run_ProcessProposal] grows_updateJustify run_updateJustify
    by simp_all
  have u: "grows s (fst u)" "tree_run s (fst u)"
    unfolding u_def using growsD [OF p(1) grows_updateQcStatus]
      tree_run_trans [OF p(2) run_updateQcStatus [OF refl id]] by simp_all
  let ?c = "(fst u)\<lparr>qcTree := UpdateCommit (qcTree (fst u)) (blkPreHash b)\<rparr>"
  have c: "grows s (advance ?c j)" "tree_run s (advance ?c j)"
    using growsD [OF growsD [OF u(1) grows_tree] grows_advance] 
      tree_run_trans [OF u(2) tree_run_commit [of "advance ?c j" "fst u" "blkPreHash b"]] by simp_all
  have "fst (KeepUpWithBlock env now s b j vs) \<in> {fst p, fst u, advance ?c j}"
    unfolding KeepUpWithBlock_def Let_def case_prod_beta p_def [symmetric] u_def [symmetric]
    by simp
  then show ?thesis using p u c by auto
qed

lemma ResetProposerStatus_grows:
  assumes "ResetProposerStatus env s tip query vs = Some (s', r)"
  shows "grows s s' \<and> (tree_run s s' \<or> (\<exists>i. qcTree s' = tree_force (qcTree s) i))"
  using assms
  by (auto simp: ResetProposerStatus_def enforceUpdateHighQC_def Let_def case_prod_beta grows_tree
      tree_force_def split: if_splits option.splits sum.splits)

section \<open>The step relation\<close>

text \<open>
  The entry points as one relation; the environment may be another at every step. A block of
  the ledger has a non-empty id. \<open>Panic\<close> and a search that never ends are not steps.
\<close>

inductive smr_step :: "Smr \<Rightarrow> Smr \<Rightarrow> bool" where
  message: "handleReceivedMsg env s msg = Ok s' \<Longrightarrow> smr_step s s'"
| block: "contents (blkBlockid b) \<noteq> [] \<Longrightarrow> KeepUpWithBlock env now s b j vs = (s', e) \<Longrightarrow> smr_step s s'"
| reset: "ResetProposerStatus env s tip query vs = Some (s', r) \<Longrightarrow> smr_step s s'"
| propose: "ProcessProposal env now s v i p vs = (s', e) \<Longrightarrow> smr_step s s'"
| load: "smr_step s (LoadVotes s i ss)"

lemma smr_step_grows: "smr_step s s' \<Longrightarrow> grows s s'"
proof (induction rule: smr_step.induct)
  case (block b env now s j vs s' e)
  then show ?case using KeepUpWithBlock_grows_run [OF block(1), of s env now j vs] by simp
next
  case (propose env now s v i p vs s' e)
  then show ?case using grows_ProcessProposal [of s env now v i p vs] by simp
qed (auto dest: handleReceivedMsg_grows_run ResetProposerStatus_grows simp: grows_LoadVotes)

lemma smr_step_tree:
  "smr_step s s' \<Longrightarrow> tree_run s s' \<or> (\<exists>i. qcTree s' = tree_force (qcTree s) i)"
proof (induction rule: smr_step.induct)
  case (block b env now s j vs s' e)
  then show ?case using KeepUpWithBlock_grows_run [OF block(1), of s env now j vs] by simp
next
  case (propose env now s v i p vs s' e)
  then show ?case using run_ProcessProposal [of s env now v i p vs] by simp
qed (auto dest: handleReceivedMsg_grows_run ResetProposerStatus_grows simp: run_LoadVotes)

lemma smr_step_run: "smr_step s s' \<Longrightarrow> \<exists>ops. qcTree s' = qct.run ops (qcTree s)"
proof -
  assume "smr_step s s'"
  then consider "tree_run s s'" | i where "qcTree s' = tree_force (qcTree s) i"
    using smr_step_tree by blast
  then show ?thesis
  proof cases
    case (2 i)
    then have "qcTree s' = qct.run [Force i] (qcTree s)" by simp
    then show ?thesis by blast
  qed (auto simp: tree_run_def)
qed

lemma smr_reach_run: "smr_step\<^sup>*\<^sup>* s s' \<Longrightarrow> grows s s' \<and> (\<exists>ops. qcTree s' = qct.run ops (qcTree s))"
proof (induction rule: rtranclp_induct)
  case base
  show ?case by (auto intro: exI [of _ "[]"])
next
  case (step s1 s2)
  then obtain as bs where "qcTree s2 = qct.run (as @ bs) (qcTree s)"
    using smr_step_run by fastforce
  with step show ?case using growsD smr_step_grows by blast
qed

section \<open>The search of ResetProposerStatus\<close>

inductive on_chain :: "(slice \<Rightarrow> BlockInfo option) \<Rightarrow> slice \<Rightarrow> BlockInfo \<Rightarrow> bool"
  for query :: "slice \<Rightarrow> BlockInfo option" where
  self: "query i = Some b \<Longrightarrow> on_chain query i b"
| pre: "query i = Some b \<Longrightarrow> on_chain query (blkPreHash b) b' \<Longrightarrow> on_chain query i b'"

definition heights_fall :: "(slice \<Rightarrow> BlockInfo option) \<Rightarrow> bool" where
  "heights_fall query \<longleftrightarrow>
     (\<forall>i b b'. query i = Some b \<longrightarrow> query (blkPreHash b) = Some b' \<longrightarrow> blkHeight b' < blkHeight b)"

text \<open>What the search may return: the root, or a tree node of an ancestor with enough votes.\<close>

definition reset_target ::
  "SmrEnv \<Rightarrow> Smr \<Rightarrow> (slice \<Rightarrow> BlockInfo option) \<Rightarrow> slice \<Rightarrow> QuorumCert \<Rightarrow> bool" where
  "reset_target env s query i qc \<longleftrightarrow>
     (\<exists>b. on_chain query i b \<and> blkHeight b \<le> GetProposalView (GetRootQC s)) \<and> qc = GetRootQC s \<or>
     (\<exists>b n. on_chain query i b \<and> DFSQueryNode (qcTree s) (blkBlockid b) = Some n \<and> qc = In n \<and>
        GetProposalView (GetRootQC s) < blkHeight b \<and>
        validNewHighQC s (GetProposalId (In n)) (GetValidators env (blkHeight b)))"

lemma reset_target_pre:
  "query i = Some b \<Longrightarrow> reset_target env s query (blkPreHash b) qc \<Longrightarrow> reset_target env s query i qc"
  by (auto simp: reset_target_def intro: on_chain.pre)

lemma resetLoop_total:
  assumes "heights_fall query"
  shows "\<exists>r. resetLoop env s query i = Some r \<and>
    (\<forall>qc. r = Inr qc \<longrightarrow> reset_target env s query i qc)"
proof -
  define rank where "rank i = (case query i of None \<Rightarrow> 0
    | Some b \<Rightarrow> nat (blkHeight b - GetProposalView (GetRootQC s)))" for i
  show ?thesis
  proof (induction i rule: measure_induct_rule [of rank])
    case (less i)
    show ?case
    proof (cases "query i")
      case None
      then show ?thesis by (subst resetLoop.simps) simp
    next
      case (Some b)
      note self = on_chain.self [of query i b, OF Some]
      show ?thesis
      proof (cases "blkHeight b \<le> GetProposalView (GetRootQC s)")
        case True
        with Some self show ?thesis
          by (subst resetLoop.simps) (auto simp: reset_target_def)
      next
        case False
        have "rank (blkPreHash b) < rank i"
          using assms Some False unfolding rank_def heights_fall_def
          by (force split: option.splits)
        from less.IH [OF this] obtain r where r: "resetLoop env s query (blkPreHash b) = Some r"
          "\<forall>qc. r = Inr qc \<longrightarrow> reset_target env s query i qc"
          using reset_target_pre [of query i b] Some by blast
        show ?thesis
        proof (cases "DFSQueryNode (qcTree s) (blkBlockid b)")
          case None
          with Some False r show ?thesis by (subst resetLoop.simps) simp
        next
          case (Some n)
          have "reset_target env s query i (In n)"
            if "validNewHighQC s (GetProposalId (In n)) (GetValidators env (blkHeight b))"
            using that self False Some unfolding reset_target_def by fastforce
          with \<open>query i = Some b\<close> False Some r show ?thesis
            by (subst resetLoop.simps) (auto split: option.splits)
        qed
      qed
    qed
  qed
qed

section \<open>Properties\<close>



text \<open>
  C3: \<open>ResetProposerStatus\<close> always returns on a ledger in which a block is higher than its
  predecessor, and when it forces a new highest certificate, that certificate is the root or
  belongs to an ancestor of the tip that is in the tree and has enough collected votes.
\<close>

theorem ResetProposerStatus_returns:
  assumes "heights_fall query"
  shows "\<exists>s' r. ResetProposerStatus env s tip query vs = Some (s', r) \<and>
    (\<forall>q. r = Inr (True, q) \<longrightarrow>
       (\<exists>qc. reset_target env s query (blkBlockid tip) qc \<and>
          bytes_equal (GetProposalId (highQC (qcTree s'))) (GetProposalId qc) \<and>
          bytes_equal (GetProposalId q) (GetProposalId qc)))"
proof -
  from resetLoop_total [OF assms] obtain r where r:
    "resetLoop env s query (blkBlockid tip) = Some r"
    "\<And>qc. r = Inr qc \<Longrightarrow> reset_target env s query (blkBlockid tip) qc" by blast
  have force: "bytes_equal (GetProposalId (highQC t')) i"
    if "EnforceUpdateHighQC t i = (t', None)" for t t' i
    using that by (auto simp: EnforceUpdateHighQC_def dest: dfsQuery_SomeD split: option.splits)
  show ?thesis
  proof (cases r)
    case (Inl e)
    with r show ?thesis by (auto simp: ResetProposerStatus_def)
  next
    case (Inr qc)
    obtain t e where E: "EnforceUpdateHighQC (qcTree s) (GetProposalId qc) = (t, e)" by force
    show ?thesis
      using r(1) r(2) [OF Inr] Inr E force [of "qcTree s" "GetProposalId qc" t]
      by (cases e) (auto simp: ResetProposerStatus_def enforceUpdateHighQC_def getCompleteHighQC_def
          getHighQC_def Let_def qc_getters)
  qed
qed

definition demo_ledger :: "slice \<Rightarrow> BlockInfo option" where
  "demo_ledger i = find (\<lambda>b. blkBlockid b = i) (map (the \<circ> demo_block) [0, 1, 2, 3, 4, 5])"

lemma demo_ledger_falls: "heights_fall demo_ledger"
proof -
  have "blkHeight b' < blkHeight b" if "demo_ledger i = Some b" "demo_ledger (blkPreHash b) = Some b'" for i b b'
  proof -
    from that(1) have "b \<in> set (map (the \<circ> demo_block) [0, 1, 2, 3, 4, 5])"
      unfolding demo_ledger_def by (blast dest: find_Some_iff_in)
    then have "b = the (demo_block 0) \<or> b = the (demo_block 1) \<or> b = the (demo_block 2) \<or>
      b = the (demo_block 3) \<or> b = the (demo_block 4) \<or> b = the (demo_block 5)" by simp
    then show ?thesis using that(2)
      by (elim disjE; hypsubst; auto simp: demo_ledger_def demo_block_def demo_id_def)
  qed
  then show ?thesis by (simp add: heights_fall_def)
qed

text \<open>
  A concrete environment: four validators, the crypto client of the safety rules, encoders
  that keep one message and one certificate.
\<close>

definition demo_env :: "VoteMsg \<Rightarrow> VoteInfo \<Rightarrow> SmrEnv" where
  "demo_env v vi = \<lparr>GetLeader = (\<lambda>_. ''D''), GetValidators = (\<lambda>_. Some demo_vs),
     smrCrypto = demo_crypto ''A'', marshalQC = (\<lambda>_. None), parseQC = (\<lambda>_. Err ()),
     marshalVoteInfo = (\<lambda>_. Some []), parseVoteInfo = (\<lambda>_. Some vi),
     marshalLedgerInfo = (\<lambda>_. Some []),
     parseLedgerInfo = (\<lambda>_. Some \<lparr>CommitStateId = None, VoteInfoHash = None\<rparr>),
     protoProposal = (\<lambda>_. Some ''p''), unprotoProposal = (\<lambda>_. None),
     protoVote = (\<lambda>_. Some ''v''), unprotoVote = (\<lambda>_. Some v), snappyEncode = id,
     snappyDecode = Some, genLogId = ''1''\<rparr>"

theorem ResetProposerStatus_returns_witness:
  "\<exists>s' r. ResetProposerStatus
     (demo_env \<lparr>vmVoteInfo = None, vmLedgerCommitInfo = None, vmSignature = None\<rparr>
        \<lparr>ProposalId = None, ProposalView = 0, ParentId = None, ParentView = 0\<rparr>)
     (NewSmr ''xuper'' ''A'' \<lparr>CurrentView = 5\<rparr> demo_rules demo_init) (the (demo_block 5))
     demo_ledger (Some demo_vs) = Some (s', r)"
  using ResetProposerStatus_returns [OF demo_ledger_falls] by blast

subsection \<open>Votes\<close>

lemma NewMessage_type:
  "\<forall>op \<in> set opts. keeps_body op \<Longrightarrow> hType (GetHeader (NewMessage enc l typ b opts)) = typ"
  using fold_options [of opts "\<lparr>msgHeader = Some (emptyHeader\<lparr>hVersion := ''3.0.0'', hBcname := ''xuper'',
      hLogid := l, hType := typ, hErrorType := 1\<rparr>), msgData = Some (case b of None \<Rightarrow> None | Some d \<Rightarrow> d)\<rparr>"]
  by (auto simp: NewMessage_def Let_def Compress_def GetHeader_updHeader) (auto simp: GetHeader_def updHeader_def)

lemma acceptProposal_vote:
  assumes "(netMsg, to) \<in> set (outbox (acceptProposal env s m v q))" "(netMsg, to) \<notin> set (outbox s)"
  shows "CheckPacemaker (pmProposalView m) (CurrentView (pacemaker s)) \<and>
    snd (VoteProposal (saftyrules s) (pmProposalId m) (pmProposalView m) q) \<and>
    saftyrules (acceptProposal env s m v q) =
      fst (VoteProposal (saftyrules s) (pmProposalId m) (pmProposalView m) q) \<and>
    pacemaker (acceptProposal env s m v q) = pacemaker s \<and>
    to = [GetLeader env (i64 (CurrentView (pacemaker s) + 1))] \<and> to \<noteq> [address s]"
  using assms
  by (auto simp: acceptProposal_def voteProposal_def Let_def case_prod_beta GetCurrentView_def
      split: if_splits sum.splits)

lemma commitJustify_frame [simp]:
  "outbox (commitJustify s q) = outbox s" "pacemaker (commitJustify s q) = pacemaker s"
  "address (commitJustify s q) = address s" "ledgerState (commitJustify s q) = ledgerState s"
  "lastVoteRound (saftyrules (commitJustify s q)) = lastVoteRound (saftyrules s)"
  by (auto simp: commitJustify_def Let_def case_prod_beta UpdatePreferredRound_mono)

lemma notifyLeader_frame [simp]:
  "saftyrules (notifyLeader env s m) = saftyrules s" "pacemaker (notifyLeader env s m) = pacemaker s"
  "address (notifyLeader env s m) = address s" "ledgerState (notifyLeader env s m) = ledgerState s"
  by (auto simp: notifyLeader_def Let_def)

lemma notifyLeader_outbox:
  "(netMsg, to) \<in> set (outbox (notifyLeader env s m)) \<Longrightarrow> (netMsg, to) \<notin> set (outbox s) \<Longrightarrow>
     hType (GetHeader netMsg) = NEW_PROPOSAL_MSG"
  by (auto simp: notifyLeader_def Let_def NewMessage_type options_keep_body split: if_splits)

lemma handleJustified_vote:
  assumes "(netMsg, to) \<in> set (outbox (handleJustified env s m q))" "(netMsg, to) \<notin> set (outbox s)"
    and "hType (GetHeader netMsg) = VOTE_MSG"
  shows "(bytes_equal (GetProposalId (genesis (qcTree s))) (GetProposalId q) \<or>
      CheckProposal (smrCrypto env) (saftyrules s) (qcTree s)
        (NewQuorumCert \<lparr>ProposalId = pmProposalId m, ProposalView = pmProposalView m,
           ParentId = GetProposalId q, ParentView = GetProposalView q\<rparr> None
           (map_option (\<lambda>g. [g]) (pmSign m))) q (GetValidators env (GetProposalView q)) = None) \<and>
    pmProposalView m \<le> i64 (ledgerState s + 3) \<and>
    i64 (lastVoteRound (saftyrules s) - 3) \<le> pmProposalView m \<and>
    lastVoteRound (saftyrules (handleJustified env s m q)) = max (lastVoteRound (saftyrules s)) (pmProposalView m) \<and>
    to = [GetLeader env (i64 (CurrentView (pacemaker (handleJustified env s m q)) + 1))] \<and>
    to \<noteq> [address s]"
proof (cases rule: handleJustified_cases [of env s m q])
  case 1
  with assms show ?thesis by simp
next
  case 2
  let ?s3 = "commitJustify (notifyLeader env (advance s (Some q)) m) q"
  have new: "(netMsg, to) \<notin> set (outbox ?s3)"
    using notifyLeader_outbox [of netMsg to env "advance s (Some q)" m] assms(2,3)
    by (auto simp: NEW_PROPOSAL_MSG_def VOTE_MSG_def)
  note acc = acceptProposal_vote [OF assms(1) [unfolded 2(3)] new]
  then have grant: "snd (VoteProposal (saftyrules ?s3) (pmProposalId m) (pmProposalView m) q)" by simp
  from VoteProposal_granted [OF grant] acc 2(1,2) show ?thesis
    unfolding 2(3) by (elim conjE, intro conjI) simp_all
qed

text \<open>
  C2: A vote message leaves the node only after every check: if handling a received proposal
  puts a new vote message in the outbox, then the proposal parsed, its justify certificate was
  the genesis one or passed the safety rules, its view is at most three above the ledger's
  height and at most three below the last voted round, the last voted round now covers it, and
  the vote goes to the leader of the next view, which is another node.
\<close>

theorem vote_only_after_checks:
  assumes "handleReceivedProposal env s msg = Ok s'"
    and "(netMsg, to) \<in> set (outbox s')" and "(netMsg, to) \<notin> set (outbox s)"
    and "hType (GetHeader netMsg) = VOTE_MSG"
  shows "\<exists>m q. Unmarshal (snappyDecode env) (unprotoProposal env) msg = Ok m \<and>
    parseQC env (pmJustifyQC m) = Ok (Some q) \<and>
    (bytes_equal (GetProposalId (genesis (qcTree s))) (GetProposalId q) \<or>
      CheckProposal (smrCrypto env) (saftyrules s) (qcTree s)
        (NewQuorumCert \<lparr>ProposalId = pmProposalId m, ProposalView = pmProposalView m,
           ParentId = GetProposalId q, ParentView = GetProposalView q\<rparr> None
           (map_option (\<lambda>g. [g]) (pmSign m))) q (GetValidators env (GetProposalView q)) = None) \<and>
    pmProposalView m \<le> i64 (ledgerState s + 3) \<and>
    i64 (lastVoteRound (saftyrules s) - 3) \<le> pmProposalView m \<and>
    lastVoteRound (saftyrules s') = max (lastVoteRound (saftyrules s)) (pmProposalView m) \<and>
    to = [GetLeader env (i64 (CurrentView (pacemaker s') + 1))] \<and> to \<noteq> [address s]"
  using assms(1)
proof (cases rule: handleReceivedProposal_cases)
  case 1
  with assms(2,3) show ?thesis by simp
next
  case (2 m s1)
  then have s1: "outbox s1 = outbox s" "saftyrules s1 = saftyrules s" "qcTree s1 = qcTree s"
    "ledgerState s1 = ledgerState s" "address s1 = address s" by auto
  have "s' \<noteq> s1" using assms(2,3) s1 by auto
  with 2(3) obtain q where q: "parseQC env (pmJustifyQC m) = Ok (Some q)"
    "s' = handleJustified env s1 m q" by blast
  from handleJustified_vote [OF assms(2) [unfolded q(2)] _ assms(4)] assms(3) s1 2(1) q
  show ?thesis by auto
qed

text \<open>
  A validator that receives a first proposal: the justify certificate is the genesis one, and
  the vote goes to D.
\<close>

definition demo_proposal :: ProposalMsg where
  "demo_proposal = \<lparr>pmProposalView = 2, pmProposalId = Some ''b'', pmTimestamp = 7, pmJustifyQC = Some ''q'',
     pmSign = Some (demo_sign ''C'' ''b''), pmMsgDigest = None\<rparr>"

definition demo_prop_env :: SmrEnv where
  "demo_prop_env = (demo_env \<lparr>vmVoteInfo = None, vmLedgerCommitInfo = None, vmSignature = None\<rparr>
      \<lparr>ProposalId = None, ProposalView = 0, ParentId = None, ParentView = 0\<rparr>)
     \<lparr>unprotoProposal := (\<lambda>_. Some demo_proposal), parseQC := (\<lambda>_. Ok (Some (demo_qc ''a'' 1 ''z'')))\<rparr>"

definition demo_smr :: Smr where
  "demo_smr = NewSmr ''xuper'' ''A'' \<lparr>CurrentView = 1\<rparr> demo_rules
     (demo_tree (ProposalNode (demo_qc ''a'' 1 ''z'') []))"

definition demo_prop_msg :: XuperMessage where
  "demo_prop_msg = NewMessage id ''1'' NEW_PROPOSAL_MSG (Some (Some ''p'')) []"

lemmas demo_smr_defs = demo_smr_def NewSmr_def demo_prop_env_def demo_env_def demo_proposal_def

lemma demo_prop_unmarshal: "Unmarshal Some (\<lambda>_. Some demo_proposal) demo_prop_msg = Ok demo_proposal"
  unfolding demo_prop_msg_def by (subst Unmarshal_NewMessage) simp_all

definition demo_voted :: Smr where
  "demo_voted = handleJustified demo_prop_env
     (demo_smr\<lparr>localProposal := (localProposal demo_smr)(utils_F (Some ''b'') \<mapsto> 7)\<rparr>) demo_proposal
     (demo_qc ''a'' 1 ''z'')"

lemma demo_prop_handled: "handleReceivedProposal demo_prop_env demo_smr demo_prop_msg = Ok demo_voted"
proof -
  have "utils_F (Some ''b'') \<noteq> utils_F (Some ''a'')" by (simp add: utils_F_eq_iff bytes_equal_def)
  then show ?thesis
    using demo_prop_unmarshal
    by (simp add: handleReceivedProposal_def demo_voted_def demo_smr_defs demo_defs Let_def)
qed

lemma demo_vote_sent:
  "\<exists>m. hType (GetHeader m) = VOTE_MSG \<and> (m, [''D'']) \<in> set (outbox demo_voted)"
proof -
  let ?m = "NewMessage id ''1'' VOTE_MSG (Some (Some ''v'')) [WithBCName ''xuper'']"
  have "(?m, [''D'']) \<in> set (outbox demo_voted)"
    by (simp add: demo_voted_def handleJustified_def acceptProposal_def voteProposal_def notifyLeader_def
        commitJustify_def advance_def AdvanceView_def CheckPacemaker_def VoteProposal_def
        increaseLastVoteRound_def UpdateQcStatus_def insertNode_def updateQCs_def dfsQuery_def
        appendSon_def SignVoteMsg_def sign_by_def demo_smr_defs demo_rule_defs StrictInternal_def GetCurrentView_def
        SendMessage_def Let_def)
  moreover have "hType (GetHeader ?m) = VOTE_MSG"
    by (rule NewMessage_type) (simp add: options_keep_body)
  ultimately show ?thesis by blast
qed

theorem vote_only_after_checks_witness:
  "lastVoteRound (saftyrules demo_voted) = 2"
proof -
  from demo_vote_sent obtain m where m: "hType (GetHeader m) = VOTE_MSG"
    "(m, [''D'']) \<in> set (outbox demo_voted)" by blast
  have "(m, [''D'']) \<notin> set (outbox demo_smr)" by (simp add: demo_smr_defs)
  from vote_only_after_checks [OF demo_prop_handled m(2) this m(1)]
  have "lastVoteRound (saftyrules demo_voted) = max 2 (pmProposalView demo_proposal)"
    using demo_prop_unmarshal by (auto simp: demo_smr_defs demo_rules_def)
  then show ?thesis by (simp add: demo_proposal_def)
qed

text \<open>
  A node makes a proposal for an id at most once: after a successful \<open>ProcessProposal\<close>,
  whatever happens next, another call with the same id changes nothing, sends nothing and
  returns an error.
\<close>

theorem proposed_once:
  assumes "ProcessProposal env now s v i p vs = (s1, None)" and "smr_step\<^sup>*\<^sup>* s1 s2"
  shows "\<exists>e. ProcessProposal env' now' s2 v' i p' vs' = (s2, Some e)"
proof -
  have "localProposal s1 (utils_F i) \<noteq> None"
    using assms(1)
  proof (cases rule: ProcessProposal_cases [of env now s v i p vs])
    case (2 ws q m s0)
    have "localProposal (voteToSelf env s0 v i q) (utils_F i) \<noteq> None"
      using grows_voteToSelf [of s0 env v i q] 2(4) by (force simp: grows_def map_le_def)
    with 2 assms(1) show ?thesis by (auto split: if_splits)
  qed simp
  moreover have "localProposal s1 \<subseteq>\<^sub>m localProposal s2"
    using smr_reach_run [OF assms(2)] by (simp add: grows_def)
  ultimately have "localProposal s2 (utils_F i) \<noteq> None"
    by (metis domI domIff map_le_def)
  then show ?thesis
    using ProcessProposal_disj [of env' now' s2 v' i p' vs'] by auto
qed

theorem proposed_once_witness:
  "\<exists>e. ProcessProposal demo_prop_env 9
     (fst (ProcessProposal demo_prop_env 8 demo_smr 2 (Some ''b'') (Some ''a'') (Some demo_vs)))
     2 (Some ''b'') (Some ''a'') (Some demo_vs) =
     (fst (ProcessProposal demo_prop_env 8 demo_smr 2 (Some ''b'') (Some ''a'') (Some demo_vs)), Some e)"
proof -
  have "utils_F (Some ''b'') \<noteq> utils_F (Some ''a'')" by (simp add: utils_F_eq_iff bytes_equal_def)
  then have "snd (ProcessProposal demo_prop_env 8 demo_smr 2 (Some ''b'') (Some ''a'') (Some demo_vs)) = None"
    by (simp add: ProcessProposal_def reloadJustifyQC_def SignProposalMsg_def MakeProposalMsgDigest_def
        GetCurrentView_def getHighQC_def demo_smr_defs demo_rule_defs Let_def)
  then have "ProcessProposal demo_prop_env 8 demo_smr 2 (Some ''b'') (Some ''a'') (Some demo_vs) =
      (fst (ProcessProposal demo_prop_env 8 demo_smr 2 (Some ''b'') (Some ''a'') (Some demo_vs)), None)"
    by (simp add: prod_eq_iff)
  from proposed_once [OF this rtranclp.rtrancl_refl] show ?thesis .
qed

text \<open>
  A replica processes a proposal id once: after the first handling, and whatever happens
  in between, a proposal message with the same id that is signed by another node is dropped
  without any change of state, so no second vote is cast for it.
\<close>

theorem proposal_handled_once:
  assumes "handleReceivedProposal env s msg = Ok s1"
    and "Unmarshal (snappyDecode env) (unprotoProposal env) msg = Ok m"
    and "smr_step\<^sup>*\<^sup>* s1 s2"
    and "Unmarshal (snappyDecode env') (unprotoProposal env') msg' = Ok m'"
    and "bytes_equal (pmProposalId m') (pmProposalId m)"
    and "pmSign m' = Some g" and "signAddress g \<noteq> address s2"
  shows "handleReceivedProposal env' s2 msg' = Ok s2"
proof -
  have "localProposal s1 (utils_F (pmProposalId m)) \<noteq> None"
  proof (cases "localProposal s (utils_F (pmProposalId m))")
    case (Some n)
    then show ?thesis
      using handleReceivedProposal_grows_run [OF assms(1)] by (force simp: grows_def map_le_def)
  next
    case None
    let ?s = "s\<lparr>localProposal := (localProposal s)(utils_F (pmProposalId m) \<mapsto> pmTimestamp m)\<rparr>"
    have "s1 = ?s \<or> (\<exists>q. s1 = handleJustified env ?s m q)"
      using assms(1,2) None
      by (auto simp: handleReceivedProposal_def Let_def split: result.splits option.splits)
    moreover have "localProposal (handleJustified env ?s m q) (utils_F (pmProposalId m)) \<noteq> None" for q
      using grows_handleJustified [of ?s env m q] by (force simp: grows_def map_le_def)
    ultimately show ?thesis by auto
  qed
  moreover have "localProposal s1 \<subseteq>\<^sub>m localProposal s2"
    using smr_reach_run [OF assms(3)] by (simp add: grows_def)
  ultimately have "localProposal s2 (utils_F (pmProposalId m')) \<noteq> None"
    using assms(5) by (metis domI domIff map_le_def utils_F_eq_iff)
  then show ?thesis using assms(4,6,7) by (auto simp: handleReceivedProposal_def Let_def)
qed

theorem proposal_handled_once_witness:
  "handleReceivedProposal demo_prop_env demo_voted demo_prop_msg = Ok demo_voted"
proof (rule proposal_handled_once [OF demo_prop_handled _ rtranclp.rtrancl_refl,
      where m = demo_proposal and m' = demo_proposal and g = "demo_sign ''C'' ''b''"])
  show "signAddress (demo_sign ''C'' ''b'') \<noteq> address demo_voted"
    using handleReceivedProposal_grows_run [OF demo_prop_handled]
    by (simp add: grows_def demo_smr_defs demo_sign_def)
qed (use demo_prop_unmarshal in \<open>simp_all add: demo_prop_env_def demo_env_def demo_proposal_def\<close>)

lemma storeVote_count:
  assumes "storeVote s q ss = (votes, k)" and "ss \<noteq> []"
  shows "\<exists>signs. votes (utils_F (GetProposalId q)) = Some signs \<and> k \<le> length signs"
  using assms by (cases ss) (auto simp: storeVote_def Let_def split: option.splits if_splits)

lemma CheckVote_signed: "CheckVote c r q vs = None \<Longrightarrow> contents_list (GetSignsInfo q) \<noteq> []"
  by (auto simp: CheckVote_def contents_list_def split: option.splits list.splits)

text \<open>
  C4: The highest certificate changes on a vote only with a quorum: if handling a vote message
  moves it, the vote passed the checks, its proposal is in the tree and is now the highest
  certificate, and the signatures collected for it reach the threshold of the validators of
  its view.
\<close>

theorem vote_moves_high_only_with_quorum:
  assumes "handleReceivedVoteMsg env s msg = (s', r)" and "highQC (qcTree s') \<noteq> highQC (qcTree s)"
    and "\<And>vs v. GetValidators env v = Some vs \<Longrightarrow> length vs < 2 ^ 62"
    and "\<And>i ss. qcVoteMsgs s' i = Some ss \<Longrightarrow> length ss < 2 ^ 62"
  shows "\<exists>m q signs. Unmarshal (snappyDecode env) (unprotoVote env) msg = Ok m \<and>
    voteMsgToQC env m = Some q \<and>
    CheckVote (smrCrypto env) (saftyrules s) q (GetValidators env (GetProposalView q)) = None \<and>
    tree_lookup (qcTree s) (GetProposalId q) = Some (highQC (qcTree s')) \<and>
    qcVoteMsgs s' (utils_F (GetProposalId q)) = Some signs \<and>
    CalVotesThreshold (int (length signs)) (int (length (contents_list (GetValidators env (GetProposalView q)))))"
  using handleReceivedVoteMsg_disj [of env s msg]
proof (elim disjE exE conjE)
  fix m q votes k
  let ?vs = "contents_list (GetValidators env (GetProposalView q))"
  assume m: "Unmarshal (snappyDecode env) (unprotoVote env) msg = Ok m" "voteMsgToQC env m = Some q"
    and chk: "CheckVote (smrCrypto env) (saftyrules s) q (GetValidators env (GetProposalView q)) = None"
    and st: "storeVote s q (contents_list (GetSignsInfo q)) = (votes, k)"
    and res: "if CalVotesThreshold (int k) (int (length ?vs))
       then handleReceivedVoteMsg env s msg =
              ((advance (s\<lparr>qcVoteMsgs := votes\<rparr>) (Some q))
                 \<lparr>qcTree := UpdateHighQC (qcTree s) (GetProposalId q)\<rparr>, None)
       else handleReceivedVoteMsg env s msg = (s\<lparr>qcVoteMsgs := votes\<rparr>, None)"
  have thr: "CalVotesThreshold (int k) (int (length ?vs))"
    using res assms(1,2) by (auto split: if_splits)
  with res assms(1) have s': "qcTree s' = UpdateHighQC (qcTree s) (GetProposalId q)" "qcVoteMsgs s' = votes"
    by auto
  from storeVote_count [OF st CheckVote_signed [OF chk]] obtain signs where
    signs: "votes (utils_F (GetProposalId q)) = Some signs" "k \<le> length signs" by blast
  have "length signs < 2 ^ 62" using assms(4) s' signs by metis
  moreover have "length ?vs < 2 ^ 62"
    using assms(3) by (cases "GetValidators env (GetProposalView q)") auto
  ultimately have "CalVotesThreshold (int (length signs)) (int (length ?vs))"
    using votes.enough_mono [of k "length ?vs" "length signs"] thr signs(2) by (simp add: enough_votes_def)
  moreover have "tree_lookup (qcTree s) (GetProposalId q) = Some (highQC (qcTree s'))"
    using assms(2) s' by (auto simp: UpdateHighQC_def tree_lookup_def DFSQueryNode_def
        split: option.splits if_splits)
  ultimately show ?thesis using m chk signs s' by blast
qed (use assms in auto)

text \<open>
  A vote message of validator B that carries, after B's signature, two that nobody made. The
  first vote for a proposal is stored with its whole list, so handling the message twice
  counts three signatures and moves the highest certificate without a second voter.
\<close>

definition padded_vote :: VoteMsg where
  "padded_vote = \<lparr>vmVoteInfo = Some ''i'', vmLedgerCommitInfo = Some ''l'',
     vmSignature = Some [demo_sign ''B'' ''b'', \<lparr>signAddress = ''x'', signPublicKey = [], signSign = None\<rparr>,
       \<lparr>signAddress = ''y'', signPublicKey = [], signSign = None\<rparr>]\<rparr>"

definition vote_env :: SmrEnv where
  "vote_env = demo_env padded_vote
     \<lparr>ProposalId = Some ''b'', ProposalView = 2, ParentId = Some ''a'', ParentView = 1\<rparr>"

definition vote_msg :: XuperMessage where
  "vote_msg = NewMessage id ''1'' VOTE_MSG (Some (Some ''v'')) []"

definition vote_state :: "(string \<Rightarrow> QuorumCertSign list option) \<Rightarrow> Smr" where
  "vote_state votes = demo_smr
     \<lparr>localProposal := [utils_F (Some ''b'') \<mapsto> 7], qcVoteMsgs := votes,
      qcTree := demo_tree (ProposalNode (demo_qc ''a'' 1 ''z'') [ProposalNode (demo_qc ''b'' 2 ''a'') []])\<rparr>"

lemma vote_unmarshal: "Unmarshal Some (\<lambda>_. Some padded_vote) vote_msg = Ok padded_vote"
  unfolding vote_msg_def by (subst Unmarshal_NewMessage) simp_all

lemmas vote_defs = handleReceivedVoteMsg_def voteMsgToQC_def CheckVote_def VerifyVoteMsgSign_def
  vote_env_def demo_env_def vote_state_def demo_smr_defs demo_rule_defs DFSQueryNode_def dfsQuery_def
  storeVote_def CalVotesThreshold_def go_div_def signed_divide_int_def padded_vote_def
  StrictInternal_def Let_def

lemma padded_vote_first:
  "handleReceivedVoteMsg vote_env (vote_state Map.empty) vote_msg =
     (vote_state [utils_F (Some ''b'') \<mapsto> the (vmSignature padded_vote)], None)"
  using vote_unmarshal by (simp add: vote_defs)

definition padded_vote_state :: Smr where
  "padded_vote_state = fst (handleReceivedVoteMsg vote_env
     (vote_state [utils_F (Some ''b'') \<mapsto> the (vmSignature padded_vote)]) vote_msg)"

lemma padded_vote_second:
  "handleReceivedVoteMsg vote_env
     (vote_state [utils_F (Some ''b'') \<mapsto> the (vmSignature padded_vote)]) vote_msg = (padded_vote_state, None)"
  "GetProposalId (highQC (qcTree padded_vote_state)) = Some ''b''"
  "qcVoteMsgs padded_vote_state = [utils_F (Some ''b'') \<mapsto> the (vmSignature padded_vote)]"
  using vote_unmarshal
  by (simp_all add: padded_vote_state_def vote_defs UpdateHighQC_def updateQCs_def)

theorem vote_moves_high_only_with_quorum_witness:
  "\<exists>signs. qcVoteMsgs padded_vote_state (utils_F (Some ''b'')) = Some signs \<and> CalVotesThreshold (int (length signs)) 4"
proof -
  have moved: "highQC (qcTree padded_vote_state) \<noteq>
      highQC (qcTree (vote_state [utils_F (Some ''b'') \<mapsto> the (vmSignature padded_vote)]))"
    using padded_vote_second(2) by (auto simp: vote_state_def demo_defs)
  have vi: "parseVoteInfo vote_env = (\<lambda>_. Some \<lparr>ProposalId = Some ''b'', ProposalView = 2, ParentId = Some ''a'', ParentView = 1\<rparr>)"
    "GetValidators vote_env = (\<lambda>_. Some demo_vs)" "length demo_vs = 4"
    by (simp_all add: vote_env_def demo_env_def demo_vs_def)
  have "length vs < 2 ^ 62" if "GetValidators vote_env v = Some vs" for v vs
    using that vi by auto
  moreover have "length ss < 2 ^ 62" if "qcVoteMsgs padded_vote_state i = Some ss" for i ss
    using that by (auto simp: padded_vote_second(3) padded_vote_def split: if_splits)
  ultimately obtain m q signs where "voteMsgToQC vote_env m = Some q"
    "qcVoteMsgs padded_vote_state (utils_F (GetProposalId q)) = Some signs"
    "CalVotesThreshold (int (length signs)) (int (length (contents_list (GetValidators vote_env (GetProposalView q)))))"
    using vote_moves_high_only_with_quorum [OF padded_vote_second(1) moved] by blast
  moreover from this(1) have "GetProposalId q = Some ''b''"
    by (auto simp: voteMsgToQC_def vi GetProposalId_def NewQuorumCert_def split: option.splits)
  ultimately show ?thesis by (simp add: vi)
qed

section \<open>What the network side does not do\<close>

text \<open>
  \<open>UnRegisterToNetwork\<close> tests the nil element pointer before it first assigns it, so it never
  unregisters anything.
\<close>

lemma UnRegisterToNetwork_idle: "UnRegisterToNetwork unreg s = s"
  by (simp add: UnRegisterToNetwork_def unregisterLoop.simps)

text \<open>
  A proposal message whose justify certificate is a JSON object without a vote makes the
  handler panic, before any signature is looked at.
\<close>

lemma proposal_without_vote_panics:
  assumes "Unmarshal (snappyDecode env) (unprotoProposal env) msg = Ok m"
    and "localProposal s (utils_F (pmProposalId m)) = None" and "parseQC env (pmJustifyQC m) = Ok None"
  shows "handleReceivedProposal env s msg = Panic"
  using assms by (simp add: handleReceivedProposal_def Let_def)

text \<open>
  \<open>appendSigns\<close> compares the new signatures with the old ones only: two new ones of the same
  address are both appended.
\<close>

lemma appendSigns_repeats: "appendSigns [] [g, g] = [g, g]"
  by (simp add: appendSigns_def)

end
