(* ===== verification/Go_List.thy ===== *)
theory Go_List
  imports Xuper_Base
begin

text \<open>
  Go's \<open>container/list\<close>, as the caches use it: a doubly linked list whose elements are pointers
  that maps hold on to. An element is its number and its value; numbers are given out in
  order and never reused, so a pointer to a removed element finds nothing. The lemmas say
  which elements an operation keeps, and that the numbers stay distinct.
\<close>

record 'a golist =
  elems :: "(nat \<times> 'a) list"
  nextEle :: nat

definition list_New :: "'a golist" where
  "list_New = \<lparr>elems = [], nextEle = 0\<rparr>"

definition PushFront :: "'a golist \<Rightarrow> 'a \<Rightarrow> 'a golist \<times> nat" where
  "PushFront l v = (l\<lparr>elems := (nextEle l, v) # elems l, nextEle := Suc (nextEle l)\<rparr>, nextEle l)"

definition removeEle :: "'a golist \<Rightarrow> nat \<Rightarrow> 'a golist" where
  "removeEle l e = l\<lparr>elems := filter (\<lambda>(i, _). i \<noteq> e) (elems l)\<rparr>"

definition valueOf :: "'a golist \<Rightarrow> nat \<Rightarrow> 'a option" where
  "valueOf l e = map_of (elems l) e"

definition MoveToFront :: "'a golist \<Rightarrow> nat \<Rightarrow> 'a golist" where
  "MoveToFront l e =
     (case valueOf l e of
        None \<Rightarrow> l
      | Some v \<Rightarrow> l\<lparr>elems := (e, v) # filter (\<lambda>(i, _). i \<noteq> e) (elems l)\<rparr>)"

definition setValue :: "'a golist \<Rightarrow> nat \<Rightarrow> 'a \<Rightarrow> 'a golist" where
  "setValue l e v = l\<lparr>elems := map (\<lambda>(i, w). (i, if i = e then v else w)) (elems l)\<rparr>"

definition Back :: "'a golist \<Rightarrow> (nat \<times> 'a) option" where
  "Back l = (if elems l = [] then None else Some (last (elems l)))"

definition list_Len :: "'a golist \<Rightarrow> nat" where
  "list_Len l = length (elems l)"

definition golist_ok :: "'a golist \<Rightarrow> bool" where
  "golist_ok l \<longleftrightarrow> distinct (map fst (elems l)) \<and> (\<forall>(i, v) \<in> set (elems l). i < nextEle l)"

lemma golist_ok_New [simp]: "golist_ok list_New"
  by (simp add: golist_ok_def list_New_def)

lemma golist_ok_PushFront: "golist_ok l \<Longrightarrow> golist_ok (fst (PushFront l v))"
  by (force simp: golist_ok_def PushFront_def)

lemma distinct_map_fst_filter: "distinct (map fst xs) \<Longrightarrow> distinct (map fst (filter P xs))"
  by (rule distinct_map_filter)

lemma golist_ok_removeEle: "golist_ok l \<Longrightarrow> golist_ok (removeEle l e)"
  by (auto simp: golist_ok_def removeEle_def distinct_map_fst_filter)

lemma golist_ok_MoveToFront: "golist_ok l \<Longrightarrow> golist_ok (MoveToFront l e)"
  by (auto simp: golist_ok_def MoveToFront_def valueOf_def distinct_map_fst_filter
      dest: map_of_SomeD split: option.splits)

lemma map_fst_setValue: "map fst (elems (setValue l e v)) = map fst (elems l)"
  by (simp add: setValue_def comp_def case_prod_beta)

lemma golist_ok_setValue: "golist_ok l \<Longrightarrow> golist_ok (setValue l e v)"
  unfolding golist_ok_def map_fst_setValue by (auto simp: setValue_def)

lemma valueOf_mem: "golist_ok l \<Longrightarrow> valueOf l e = Some v \<longleftrightarrow> (e, v) \<in> set (elems l)"
  by (simp add: golist_ok_def valueOf_def)

lemma Back_mem: "Back l = Some (e, v) \<Longrightarrow> (e, v) \<in> set (elems l)"
  by (metis Back_def last_in_set option.distinct(1) option.inject)

lemma filter_other_ele: "e \<notin> fst ` set xs \<Longrightarrow> filter (\<lambda>(i, _). i \<noteq> e) xs = xs"
  by (induction xs) auto

text \<open>With distinct numbers, removing the last element is \<open>butlast\<close>.\<close>

lemma removeEle_last:
  assumes "golist_ok l" and "elems l = xs @ [(e, v)]"
  shows "elems (removeEle l e) = xs"
proof -
  have "e \<notin> fst ` set xs" using assms by (simp add: golist_ok_def)
  then have "filter (\<lambda>(i, _). i \<noteq> e) xs = xs" by (rule filter_other_ele)
  then show ?thesis using assms(2) by (simp add: removeEle_def)
qed

lemma removeEle_length:
  assumes "golist_ok l" and "(e, v) \<in> set (elems l)"
  shows "Suc (list_Len (removeEle l e)) = list_Len l"
proof -
  from assms(2) obtain xs ys where l: "elems l = xs @ (e, v) # ys" by (auto simp: in_set_conv_decomp)
  with assms(1) have "e \<notin> fst ` set xs" "e \<notin> fst ` set ys" by (simp_all add: golist_ok_def)
  then have "filter (\<lambda>(i, _). i \<noteq> e) xs = xs" "filter (\<lambda>(i, _). i \<noteq> e) ys = ys"
    by (blast intro: filter_other_ele)+
  then show ?thesis using l by (simp add: removeEle_def list_Len_def)
qed

lemmas golist_oks = golist_ok_PushFront golist_ok_removeEle golist_ok_MoveToFront golist_ok_setValue

end
