(* ===== verification/Lru_Cache.thy ===== *)
theory Lru_Cache
  imports Go_List
begin

text \<open>
  \<open>lib/cache/lru_cache.go\<close>: a map from keys to elements of a list in order of use, and its
  refinement of the abstract cache, which is one list of key and value pairs with the most
  recently used first. The lock makes each method one step.
\<close>

section \<open>The code\<close>

record ('k, 'v) LRUCache =
  capacity :: int
  cache :: "'k \<Rightarrow> nat option"
  lru :: "('k \<times> 'v) golist"

definition NewLRUCache :: "int \<Rightarrow> ('k, 'v) LRUCache" where
  "NewLRUCache cap = \<lparr>capacity = cap, cache = Map.empty, lru = list_New\<rparr>"

definition lruGet :: "('k, 'v) LRUCache \<Rightarrow> 'k \<Rightarrow> ('k, 'v) LRUCache \<times> 'v option" where
  "lruGet c key =
     (case cache c key of
        Some elem \<Rightarrow> (c\<lparr>lru := MoveToFront (lru c) elem\<rparr>, map_option snd (valueOf (lru c) elem))
      | None \<Rightarrow> (c, None))"

definition evict :: "('k, 'v) LRUCache \<Rightarrow> ('k, 'v) LRUCache" where
  "evict c =
     (case Back (lru c) of
        None \<Rightarrow> c
      | Some (elem, pair) \<Rightarrow>
          c\<lparr>lru := removeEle (lru c) elem, cache := (cache c)(fst pair := None)\<rparr>)"

definition lruAdd :: "('k, 'v) LRUCache \<Rightarrow> 'k \<Rightarrow> 'v \<Rightarrow> ('k, 'v) LRUCache \<times> bool" where
  "lruAdd c key value =
     (case cache c key of
        Some elem \<Rightarrow> (c\<lparr>lru := setValue (MoveToFront (lru c) elem) elem (key, value)\<rparr>, False)
      | None \<Rightarrow>
          let (l, elem) = PushFront (lru c) (key, value);
              c1 = c\<lparr>lru := l, cache := (cache c)(key \<mapsto> elem)\<rparr>
          in if int (list_Len (lru c1)) > capacity c1 then (evict c1, True) else (c1, False))"

definition lruDel :: "('k, 'v) LRUCache \<Rightarrow> 'k \<Rightarrow> ('k, 'v) LRUCache" where
  "lruDel c key =
     (case cache c key of
        Some elem \<Rightarrow> c\<lparr>lru := removeEle (lru c) elem, cache := (cache c)(key := None)\<rparr>
      | None \<Rightarrow> c)"

definition lruLen :: "('k, 'v) LRUCache \<Rightarrow> nat" where
  "lruLen c = list_Len (lru c)"

definition lruKeys :: "('k, 'v) LRUCache \<Rightarrow> 'k set" where
  "lruKeys c = dom (cache c)"

text \<open>\<open>None\<close> is the nil error; the error text is not modelled.\<close>

definition EnlargeCapacity :: "('k, 'v) LRUCache \<Rightarrow> int \<Rightarrow> ('k, 'v) LRUCache \<times> unit option" where
  "EnlargeCapacity c newCapacity =
     (if newCapacity < capacity c then (c, Some ()) else (c\<lparr>capacity := newCapacity\<rparr>, None))"

section \<open>The abstract cache\<close>

text \<open>One list of pairs, the most recently used first.\<close>

definition spec_drop :: "'k \<Rightarrow> ('k \<times> 'v) list \<Rightarrow> ('k \<times> 'v) list" where
  "spec_drop k xs = filter (\<lambda>(k', _). k' \<noteq> k) xs"

definition spec_get :: "'k \<Rightarrow> ('k \<times> 'v) list \<Rightarrow> ('k \<times> 'v) list \<times> 'v option" where
  "spec_get k xs =
     (case map_of xs k of None \<Rightarrow> (xs, None) | Some v \<Rightarrow> ((k, v) # spec_drop k xs, Some v))"

definition spec_add :: "int \<Rightarrow> 'k \<Rightarrow> 'v \<Rightarrow> ('k \<times> 'v) list \<Rightarrow> ('k \<times> 'v) list \<times> bool" where
  "spec_add cap k v xs =
     (let ys = (k, v) # spec_drop k xs
      in if map_of xs k = None \<and> int (length ys) > cap then (butlast ys, True) else (ys, False))"

definition lru_abs :: "('k, 'v) LRUCache \<Rightarrow> ('k \<times> 'v) list" where
  "lru_abs c = map snd (elems (lru c))"

definition lru_inv :: "('k, 'v) LRUCache \<Rightarrow> bool" where
  "lru_inv c \<longleftrightarrow> golist_ok (lru c) \<and> distinct (map fst (lru_abs c)) \<and>
     (\<forall>k e. cache c k = Some e \<longleftrightarrow> (\<exists>v. (e, (k, v)) \<in> set (elems (lru c))))"

section \<open>Refinement\<close>

lemma lru_cache_Some:
  assumes "lru_inv c" and "cache c k = Some e"
  obtains v where "(e, (k, v)) \<in> set (elems (lru c))" "valueOf (lru c) e = Some (k, v)"
    "map_of (lru_abs c) k = Some v"
proof -
  from assms obtain v where v: "(e, (k, v)) \<in> set (elems (lru c))" by (auto simp: lru_inv_def)
  moreover have "valueOf (lru c) e = Some (k, v)"
    using assms(1) v by (simp add: lru_inv_def valueOf_mem)
  moreover have "map_of (lru_abs c) k = Some v"
    using assms(1) v by (force simp: lru_inv_def lru_abs_def intro: map_of_is_SomeI)
  ultimately show thesis by (rule that)
qed

lemma lru_cache_None:
  assumes "lru_inv c" and "cache c k = None"
  shows "map_of (lru_abs c) k = None" "spec_drop k (lru_abs c) = lru_abs c"
proof -
  have no: "(e, (k, v)) \<notin> set (elems (lru c))" for e v
    using assms unfolding lru_inv_def by (metis option.distinct(1))
  then show "map_of (lru_abs c) k = None" by (auto simp: map_of_eq_None_iff lru_abs_def)
  show "spec_drop k (lru_abs c) = lru_abs c"
    using no by (auto simp: spec_drop_def lru_abs_def filter_id_conv)
qed

text \<open>Dropping an element by its number is dropping its key from the abstract list.\<close>

lemma filter_ele_key:
  assumes inv: "lru_inv c" and e: "(e, (k, v)) \<in> set (elems (lru c))"
  shows "map snd (filter (\<lambda>(i, _). i \<noteq> e) (elems (lru c))) = spec_drop k (lru_abs c)"
proof -
  have "i = e \<longleftrightarrow> k' = k" if "(i, (k', v')) \<in> set (elems (lru c))" for i k' v'
  proof
    assume "i = e"
    with that e inv show "k' = k"
      by (metis lru_inv_def option.inject prod.inject valueOf_mem)
  next
    assume "k' = k"
    with that e inv show "i = e" by (metis lru_inv_def option.inject)
  qed
  then have "filter (\<lambda>(i, _). i \<noteq> e) (elems (lru c)) =
      filter (\<lambda>p. fst (snd p) \<noteq> k) (elems (lru c))"
    by (intro filter_cong refl) (metis (mono_tags, lifting) case_prod_unfold prod.collapse)
  then show ?thesis
    by (simp add: spec_drop_def lru_abs_def filter_map comp_def case_prod_beta)
qed

lemma spec_drop_keys: "fst ` set (spec_drop k xs) = fst ` set xs - {k}"
  by (force simp: spec_drop_def)

lemma distinct_spec_drop: "distinct (map fst xs) \<Longrightarrow> distinct (map fst (spec_drop k xs))"
  unfolding spec_drop_def by (rule distinct_map_filter)

lemma set_spec_drop: "set (spec_drop k xs) = {p \<in> set xs. fst p \<noteq> k}"
  by (auto simp: spec_drop_def)

lemma lru_invI:
  assumes "golist_ok l" and "distinct (map (fst \<circ> snd) (elems l))"
    and "\<And>k e. m k = Some e \<longleftrightarrow> (\<exists>v. (e, (k, v)) \<in> set (elems l))"
  shows "lru_inv \<lparr>capacity = cap, cache = m, lru = l\<rparr>"
  using assms by (simp add: lru_inv_def lru_abs_def)

lemma lru_move:
  assumes inv: "lru_inv c" and k: "cache c k = Some e"
  shows "lru_inv (c\<lparr>lru := setValue (MoveToFront (lru c) e) e (k, w)\<rparr>)"
    "lru_abs (c\<lparr>lru := setValue (MoveToFront (lru c) e) e (k, w)\<rparr>) = (k, w) # spec_drop k (lru_abs c)"
proof -
  from lru_cache_Some [OF inv k] obtain v where
    v: "(e, (k, v)) \<in> set (elems (lru c))" "valueOf (lru c) e = Some (k, v)" by metis
  let ?rest = "filter (\<lambda>(i, _). i \<noteq> e) (elems (lru c))"
  have set_rest: "map (\<lambda>(i, u). (i, if i = e then (k, w) else u)) ?rest = ?rest"
    by (rule map_idI) auto
  have el: "elems (setValue (MoveToFront (lru c) e) e (k, w)) = (e, (k, w)) # ?rest"
    using v(2) set_rest by (simp add: MoveToFront_def setValue_def)
  show abs: "lru_abs (c\<lparr>lru := setValue (MoveToFront (lru c) e) e (k, w)\<rparr>) =
      (k, w) # spec_drop k (lru_abs c)"
    using filter_ele_key [OF inv v(1)] by (simp add: lru_abs_def el)
  have keys: "distinct (map fst ((k, w) # spec_drop k (lru_abs c)))"
    using inv by (simp add: lru_inv_def distinct_spec_drop spec_drop_keys)
  have mem: "cache c k' = Some i \<longleftrightarrow> (\<exists>u. (i, (k', u)) \<in> set ((e, (k, w)) # ?rest))" for k' i
  proof (cases "i = e")
    case True
    then show ?thesis using inv v(1) by (auto simp: lru_inv_def)
      (metis lru_inv_def option.inject prod.inject valueOf_mem)
  qed (use inv in \<open>simp add: lru_inv_def\<close>)
  have "golist_ok (setValue (MoveToFront (lru c) e) e (k, w))"
    using inv by (simp add: lru_inv_def golist_oks)
  then show "lru_inv (c\<lparr>lru := setValue (MoveToFront (lru c) e) e (k, w)\<rparr>)"
    using keys mem abs by (simp add: lru_inv_def el)
qed

lemma MoveToFront_setValue:
  "valueOf l e = Some p \<Longrightarrow> setValue (MoveToFront l e) e p = MoveToFront l e"
proof -
  have "map (\<lambda>(i, w). (i, if i = e then p else w)) (filter (\<lambda>(i, _). i \<noteq> e) (elems l)) =
      filter (\<lambda>(i, _). i \<noteq> e) (elems l)" by (rule map_idI) auto
  then show "valueOf l e = Some p \<Longrightarrow> setValue (MoveToFront l e) e p = MoveToFront l e"
    by (simp add: MoveToFront_def setValue_def)
qed

lemma lruGet_refines:
  assumes "lru_inv c"
  shows "lru_inv (fst (lruGet c k))"
    "(lru_abs (fst (lruGet c k)), snd (lruGet c k)) = spec_get k (lru_abs c)"
proof -
  have "lru_inv (fst (lruGet c k)) \<and>
      (lru_abs (fst (lruGet c k)), snd (lruGet c k)) = spec_get k (lru_abs c)"
  proof (cases "cache c k")
    case None
    with assms lru_cache_None [OF assms None] show ?thesis by (simp add: lruGet_def spec_get_def)
  next
    case (Some e)
    from lru_cache_Some [OF assms Some] obtain v where
      v: "valueOf (lru c) e = Some (k, v)" "map_of (lru_abs c) k = Some v" by metis
    have "setValue (MoveToFront (lru c) e) e (k, v) = MoveToFront (lru c) e"
      using v(1) by (rule MoveToFront_setValue)
    with lru_move [OF assms Some, of v] v Some show ?thesis
      by (simp add: lruGet_def spec_get_def)
  qed
  then show "lru_inv (fst (lruGet c k))"
    "(lru_abs (fst (lruGet c k)), snd (lruGet c k)) = spec_get k (lru_abs c)" by simp_all
qed

lemma lru_drop:
  assumes inv: "lru_inv c" and k: "cache c k = Some e"
  shows "lru_inv (c\<lparr>lru := removeEle (lru c) e, cache := (cache c)(k := None)\<rparr>)"
    "lru_abs (c\<lparr>lru := removeEle (lru c) e, cache := (cache c)(k := None)\<rparr>) = spec_drop k (lru_abs c)"
proof -
  from lru_cache_Some [OF inv k] obtain v where v: "(e, (k, v)) \<in> set (elems (lru c))" by metis
  show abs: "lru_abs (c\<lparr>lru := removeEle (lru c) e, cache := (cache c)(k := None)\<rparr>) = spec_drop k (lru_abs c)"
    using filter_ele_key [OF inv v] by (simp add: lru_abs_def removeEle_def)
  have "((cache c)(k := None)) k' = Some i \<longleftrightarrow> (\<exists>u. (i, (k', u)) \<in> set (elems (removeEle (lru c) e)))" for k' i
  proof -
    have mem: "cache c k' = Some i \<longleftrightarrow> (\<exists>u. (i, (k', u)) \<in> set (elems (lru c)))"
      using inv by (simp add: lru_inv_def)
    have e: "(e, (k', u)) \<in> set (elems (lru c)) \<Longrightarrow> k' = k" for u
      using inv v by (metis lru_inv_def option.inject prod.inject valueOf_mem)
    have i: "(i, (k, u)) \<in> set (elems (lru c)) \<Longrightarrow> i = e" for u
      using inv k by (metis lru_inv_def option.inject)
    show ?thesis
    proof (cases "k' = k")
      case True
      with i show ?thesis by (auto simp: removeEle_def)
    next
      case False
      with e mem show ?thesis by (auto simp: removeEle_def)
    qed
  qed
  with inv abs show "lru_inv (c\<lparr>lru := removeEle (lru c) e, cache := (cache c)(k := None)\<rparr>)"
    by (simp add: lru_inv_def golist_oks distinct_spec_drop)
qed

lemma lruDel_refines:
  assumes "lru_inv c"
  shows "lru_inv (lruDel c k)" "lru_abs (lruDel c k) = spec_drop k (lru_abs c)"
  using lru_drop [OF assms] lru_cache_None [OF assms] assms
  by (auto simp: lruDel_def split: option.splits)

lemma lru_push:
  fixes c :: "('k, 'v) LRUCache" and v :: 'v
  assumes inv: "lru_inv c" and k: "cache c k = None"
  defines "c1 \<equiv> c\<lparr>lru := fst (PushFront (lru c) (k, v)), cache := (cache c)(k \<mapsto> snd (PushFront (lru c) (k, v)))\<rparr>"
  shows "lru_inv c1" "lru_abs c1 = (k, v) # lru_abs c" "capacity c1 = capacity c"
proof -
  show abs: "lru_abs c1 = (k, v) # lru_abs c" by (simp add: c1_def lru_abs_def PushFront_def)
  have "k \<notin> fst ` set (lru_abs c)"
    using lru_cache_None(1) [OF inv k] by (simp add: map_of_eq_None_iff)
  moreover have "(i, p) \<in> set (elems (lru c)) \<Longrightarrow> i \<noteq> nextEle (lru c)" for i p
    using inv by (force simp: lru_inv_def golist_ok_def)
  moreover have "(i, (k, u)) \<notin> set (elems (lru c))" for i u
    using inv k unfolding lru_inv_def by (metis option.distinct(1))
  moreover have "golist_ok (lru c1)" using inv by (simp add: c1_def lru_inv_def golist_oks)
  ultimately show "lru_inv c1"
    using inv k abs unfolding lru_inv_def by (auto simp: c1_def PushFront_def)
  show "capacity c1 = capacity c" by (simp add: c1_def)
qed

lemma spec_drop_other: "k \<notin> fst ` set xs \<Longrightarrow> spec_drop k xs = xs"
  by (induction xs) (auto simp: spec_drop_def)

lemma spec_drop_last:
  assumes "distinct (map fst xs)" and "xs = ys @ [(k, v)]"
  shows "spec_drop k xs = butlast xs"
proof -
  have "k \<notin> fst ` set ys" using assms by simp
  then have "spec_drop k ys = ys" by (rule spec_drop_other)
  then show ?thesis using assms(2) by (simp add: spec_drop_def)
qed

lemma evict_refines:
  assumes inv: "lru_inv c" and ne: "lru_abs c \<noteq> []"
  shows "lru_inv (evict c)" "lru_abs (evict c) = butlast (lru_abs c)"
proof -
  from ne obtain xs e k v where el: "elems (lru c) = xs @ [(e, (k, v))]"
    by (metis lru_abs_def list.map_disc_iff prod.collapse rev_exhaust)
  then have mem: "(e, (k, v)) \<in> set (elems (lru c))" by simp
  then have k: "cache c k = Some e" using inv by (auto simp: lru_inv_def)
  have ev: "evict c = c\<lparr>lru := removeEle (lru c) e, cache := (cache c)(k := None)\<rparr>"
    using el by (simp add: evict_def Back_def)
  have "lru_abs c = map snd xs @ [(k, v)]" using el by (simp add: lru_abs_def)
  then have "spec_drop k (lru_abs c) = butlast (lru_abs c)"
    using inv by (intro spec_drop_last) (auto simp: lru_inv_def)
  with lru_drop [OF inv k] show "lru_inv (evict c)" "lru_abs (evict c) = butlast (lru_abs c)"
    unfolding ev by simp_all
qed

lemma lruAdd_refines:
  assumes "lru_inv c"
  shows "lru_inv (fst (lruAdd c k v))"
    "(lru_abs (fst (lruAdd c k v)), snd (lruAdd c k v)) = spec_add (capacity c) k v (lru_abs c)"
    "capacity (fst (lruAdd c k v)) = capacity c"
proof -
  have "lru_inv (fst (lruAdd c k v)) \<and> capacity (fst (lruAdd c k v)) = capacity c \<and>
      (lru_abs (fst (lruAdd c k v)), snd (lruAdd c k v)) = spec_add (capacity c) k v (lru_abs c)"
  proof (cases "cache c k")
    case (Some e)
    from lru_cache_Some [OF assms Some] obtain u where "map_of (lru_abs c) k = Some u" by metis
    with lru_move [OF assms Some, of v] Some show ?thesis
      by (simp add: lruAdd_def spec_add_def Let_def)
  next
    case None
    let ?c1 = "c\<lparr>lru := fst (PushFront (lru c) (k, v)), cache := (cache c)(k \<mapsto> snd (PushFront (lru c) (k, v)))\<rparr>"
    note push = lru_push [OF assms None, of v] and none = lru_cache_None [OF assms None]
    have len: "list_Len (lru ?c1) = length (lru_abs ?c1)" by (simp add: list_Len_def lru_abs_def)
    have ev: "lru_inv (evict ?c1)" "lru_abs (evict ?c1) = butlast ((k, v) # lru_abs c)"
      using evict_refines [OF push(1)] push(2) by simp_all
    have cap: "capacity (evict ?c1) = capacity c"
      by (simp add: evict_def split: option.splits)
    have add: "lruAdd c k v =
        (if int (length (lru_abs ?c1)) > capacity c then (evict ?c1, True) else (?c1, False))"
      using None len by (simp add: lruAdd_def Let_def case_prod_beta)
    have spec: "spec_add (capacity c) k v (lru_abs c) =
        (if int (length (lru_abs ?c1)) > capacity c then (butlast ((k, v) # lru_abs c), True)
         else ((k, v) # lru_abs c, False))"
      unfolding spec_add_def Let_def none push(2) by simp
    show ?thesis unfolding add spec using push ev cap by simp
  qed
  then show "lru_inv (fst (lruAdd c k v))"
    "(lru_abs (fst (lruAdd c k v)), snd (lruAdd c k v)) = spec_add (capacity c) k v (lru_abs c)"
    "capacity (fst (lruAdd c k v)) = capacity c" by simp_all
qed

lemma lru_inv_New: "lru_inv (NewLRUCache cap)" "lru_abs (NewLRUCache cap) = []"
  by (simp_all add: lru_inv_def NewLRUCache_def lru_abs_def list_New_def golist_ok_def)

lemma capacity_New [simp]: "capacity (NewLRUCache cap) = cap"
  by (simp add: NewLRUCache_def)

section \<open>What a client of a bounded cache may rely on\<close>

datatype ('k, 'v) cache_op = Get 'k | Put 'k 'v | Drop 'k

fun op_key :: "('k, 'v) cache_op \<Rightarrow> 'k" where
  "op_key (Get k) = k" | "op_key (Put k v) = k" | "op_key (Drop k) = k"

text \<open>
  The interface is the abstract list: \<open>content\<close> gives it, and each operation changes it as the
  abstract cache does. The client lemma is that a key survives as long as fewer other keys
  than the capacity have been used since.
\<close>

locale bounded_cache =
  fixes inv :: "'c \<Rightarrow> bool" and content :: "'c \<Rightarrow> ('k \<times> 'v) list" and cap :: "'c \<Rightarrow> int"
    and get :: "'c \<Rightarrow> 'k \<Rightarrow> 'c \<times> 'v option" and put :: "'c \<Rightarrow> 'k \<Rightarrow> 'v \<Rightarrow> 'c \<times> bool"
    and drop_key :: "'c \<Rightarrow> 'k \<Rightarrow> 'c"
  assumes keys_distinct: "inv c \<Longrightarrow> distinct (map fst (content c))"
    and get_law: "inv c \<Longrightarrow> inv (fst (get c k)) \<and> cap (fst (get c k)) = cap c \<and>
      (content (fst (get c k)), snd (get c k)) = spec_get k (content c)"
    and put_law: "inv c \<Longrightarrow> inv (fst (put c k v)) \<and> cap (fst (put c k v)) = cap c \<and>
      (content (fst (put c k v)), snd (put c k v)) = spec_add (cap c) k v (content c)"
    and drop_law: "inv c \<Longrightarrow> inv (drop_key c k) \<and> cap (drop_key c k) = cap c \<and>
      content (drop_key c k) = spec_drop k (content c)"
begin

primrec exec :: "('k, 'v) cache_op \<Rightarrow> 'c \<Rightarrow> 'c" where
  "exec (Get k) c = fst (get c k)"
| "exec (Put k v) c = fst (put c k v)"
| "exec (Drop k) c = drop_key c k"

definition run :: "('k, 'v) cache_op list \<Rightarrow> 'c \<Rightarrow> 'c" where
  "run ops c = fold exec ops c"

lemma run_simps [simp]: "run [] c = c" "run (x # ops) c = run ops (exec x c)"
  by (simp_all add: run_def)

lemma exec_inv: "inv c \<Longrightarrow> inv (exec x c) \<and> cap (exec x c) = cap c"
  using get_law put_law drop_law by (cases x) auto

lemma run_inv: "inv c \<Longrightarrow> inv (run ops c) \<and> cap (run ops c) = cap c"
  by (induction ops arbitrary: c) (auto simp: exec_inv)

text \<open>The size never exceeds the capacity once it does not.\<close>

lemma exec_size:
  assumes "inv c" and "0 \<le> cap c" and "int (length (content c)) \<le> cap c"
  shows "int (length (content (exec x c))) \<le> cap c"
proof (cases x)
  case (Get k)
  have "length (spec_drop k xs) < length xs" if "map_of xs k = Some v" for xs :: "('k \<times> 'v) list" and v
    using that by (auto simp: spec_drop_def dest!: map_of_SomeD intro: length_filter_less)
  then show ?thesis
    using assms get_law [OF assms(1), of k] Get
    by (fastforce simp: spec_get_def split: option.splits)
next
  case (Put k v)
  have le: "length (spec_drop k xs) \<le> length xs" for xs :: "('k \<times> 'v) list"
    by (simp add: spec_drop_def)
  have lt: "length (spec_drop k xs) < length xs" if "map_of xs k = Some u" for xs :: "('k \<times> 'v) list" and u
    using that by (auto simp: spec_drop_def dest!: map_of_SomeD intro: length_filter_less)
  show ?thesis
  proof (cases "map_of (content c) k")
    case None
    then show ?thesis
      using assms put_law [OF assms(1), of k v] Put le [of "content c"]
      by (auto simp: spec_add_def Let_def split: if_splits)
  next
    case (Some u)
    then show ?thesis
      using assms put_law [OF assms(1), of k v] Put lt [OF Some]
      by (auto simp: spec_add_def Let_def)
  qed
next
  case (Drop k)
  have "length (spec_drop k (content c)) \<le> length (content c)" by (simp add: spec_drop_def)
  then show ?thesis using assms drop_law [OF assms(1), of k] Drop by auto
qed

lemma run_size:
  "inv c \<Longrightarrow> 0 \<le> cap c \<Longrightarrow> int (length (content c)) \<le> cap c \<Longrightarrow> int (length (content (run ops c))) \<le> cap c"
proof (induction ops arbitrary: c)
  case (Cons x ops)
  then have "inv (exec x c)" "cap (exec x c) = cap c" "int (length (content (exec x c))) \<le> cap c"
    using exec_size [of c x] exec_inv [of c x] by auto
  with Cons.IH [of "exec x c"] Cons.prems(2) show ?case by simp
qed simp

text \<open>
  \<open>recent k v T xs\<close>: the key is bound to \<open>v\<close>, and only keys of \<open>T\<close> were used after it.
\<close>

definition recent :: "'k \<Rightarrow> 'v \<Rightarrow> 'k set \<Rightarrow> ('k \<times> 'v) list \<Rightarrow> bool" where
  "recent k v T xs \<longleftrightarrow> (\<exists>as bs. xs = as @ (k, v) # bs \<and> fst ` set as \<subseteq> T \<and> k \<notin> fst ` set as)"

lemma recent_front: "recent k v T xs \<Longrightarrow> j \<noteq> k \<Longrightarrow> recent k v (insert j T) ((j, w) # spec_drop j xs)"
proof -
  assume "recent k v T xs" and j: "j \<noteq> k"
  then obtain as bs where xs: "xs = as @ (k, v) # bs" "fst ` set as \<subseteq> T" "k \<notin> fst ` set as"
    by (auto simp: recent_def)
  have "(j, w) # spec_drop j xs = ((j, w) # spec_drop j as) @ (k, v) # spec_drop j bs"
    using j by (simp add: xs spec_drop_def)
  moreover have "fst ` set ((j, w) # spec_drop j as) \<subseteq> insert j T" "k \<notin> fst ` set ((j, w) # spec_drop j as)"
    using xs(2,3) j by (auto simp: spec_drop_def)
  ultimately show ?thesis unfolding recent_def by blast
qed

lemma recent_drop: "recent k v T xs \<Longrightarrow> j \<noteq> k \<Longrightarrow> recent k v T (spec_drop j xs)"
proof -
  assume "recent k v T xs" and j: "j \<noteq> k"
  then obtain as bs where xs: "xs = as @ (k, v) # bs" "fst ` set as \<subseteq> T" "k \<notin> fst ` set as"
    by (auto simp: recent_def)
  have "spec_drop j xs = spec_drop j as @ (k, v) # spec_drop j bs"
    using j by (simp add: xs spec_drop_def)
  moreover have "fst ` set (spec_drop j as) \<subseteq> T" "k \<notin> fst ` set (spec_drop j as)"
    using xs(2,3) by (auto simp: spec_drop_def)
  ultimately show ?thesis unfolding recent_def by blast
qed

lemma recent_mono: "recent k v T xs \<Longrightarrow> T \<subseteq> T' \<Longrightarrow> recent k v T' xs"
  by (auto simp: recent_def)

lemma recent_butlast:
  assumes "recent k v T xs" and "distinct (map fst xs)" and "finite T" and "card T < length xs - 1"
  shows "recent k v T (butlast xs)"
proof -
  from assms(1) obtain as bs where xs: "xs = as @ (k, v) # bs" "fst ` set as \<subseteq> T" "k \<notin> fst ` set as"
    by (auto simp: recent_def)
  have "length as = card (fst ` set as)"
    using assms(2) xs(1) distinct_card [of "map fst as"] by simp
  also have "\<dots> \<le> card T" using xs(2) assms(3) by (intro card_mono)
  finally have "bs \<noteq> []" using assms(4) xs(1) by auto
  then have "butlast xs = as @ (k, v) # butlast bs" by (simp add: xs butlast_append)
  with xs(2,3) show ?thesis unfolding recent_def by blast
qed

lemma exec_recent:
  assumes "inv c" and "recent k v T (content c)" and "finite T" and j: "op_key x \<noteq> k"
    and small: "int (card (insert (op_key x) T)) < cap c"
  shows "recent k v (insert (op_key x) T) (content (exec x c))"
proof (cases x)
  case (Get j)
  then show ?thesis
    using assms get_law [OF assms(1), of j] recent_front [OF assms(2), of j]
      recent_mono [OF assms(2), of "insert j T"]
    by (auto simp: spec_get_def split: option.splits)
next
  case (Put j w)
  let ?ys = "(j, w) # spec_drop j (content c)"
  have r: "recent k v (insert j T) ?ys" using recent_front [OF assms(2)] j Put by simp
  have "distinct (map fst ?ys)"
    using keys_distinct [OF assms(1)] by (simp add: distinct_spec_drop spec_drop_keys)
  then have "recent k v (insert j T) (butlast ?ys)" if "cap c < int (length ?ys)"
    using recent_butlast [OF r] assms(3) small that Put by simp
  with r put_law [OF assms(1), of j w] Put show ?thesis
    by (auto simp: spec_add_def Let_def split: if_splits)
next
  case (Drop j)
  then show ?thesis
    using assms drop_law [OF assms(1), of j] recent_drop [OF assms(2), of j]
      recent_mono [of k v T _ "insert j T"] by auto
qed

lemma run_recent:
  assumes "inv c" and "recent k v T (content c)" and "finite T"
    and "k \<notin> op_key ` set ops" and "int (card (T \<union> op_key ` set ops)) < cap c"
  shows "recent k v (T \<union> op_key ` set ops) (content (run ops c))"
  using assms
proof (induction ops arbitrary: c T)
  case (Cons x ops)
  have "card (insert (op_key x) T) \<le> card (T \<union> op_key ` set (x # ops))"
    using Cons.prems(3) by (intro card_mono) auto
  then have "recent k v (insert (op_key x) T) (content (exec x c))"
    using Cons.prems by (intro exec_recent) auto
  moreover have "inv (exec x c)" "cap (exec x c) = cap c" using exec_inv [OF Cons.prems(1)] by auto
  ultimately have "recent k v (insert (op_key x) T \<union> op_key ` set ops) (content (run ops (exec x c)))"
    using Cons.prems by (intro Cons.IH) auto
  then show ?case by simp
qed simp

lemma recent_get: "recent k v T xs \<Longrightarrow> snd (spec_get k xs) = Some v"
proof -
  assume "recent k v T xs"
  then obtain as bs where "xs = as @ (k, v) # bs" "map_of as k = None"
    by (auto simp: recent_def map_of_eq_None_iff)
  then show ?thesis by (simp add: spec_get_def map_add_def)
qed

lemma put_recent:
  assumes "inv c" and "1 \<le> cap c"
  shows "recent k v {} (content (fst (put c k v)))"
proof -
  have "recent k v {} ((k, v) # xs)" for xs by (simp add: recent_def)
  moreover have "recent k v {} (butlast ((k, v) # spec_drop k (content c)))"
    if "cap c < int (length ((k, v) # spec_drop k (content c)))"
    using that assms(2) by (cases "spec_drop k (content c)") (auto simp: recent_def)
  ultimately show ?thesis
    using put_law [OF assms(1), of k v] by (auto simp: spec_add_def Let_def split: if_splits)
qed

lemma get_after_put:
  assumes "inv c" and "k \<notin> op_key ` set ops" and "int (card (op_key ` set ops)) < cap c"
  shows "snd (get (run ops (fst (put c k v))) k) = Some v"
proof -
  have p: "inv (fst (put c k v))" "cap (fst (put c k v)) = cap c" using put_law [OF assms(1)] by auto
  have "recent k v ({} \<union> op_key ` set ops) (content (run ops (fst (put c k v))))"
    using assms p by (intro run_recent put_recent) auto
  moreover have "inv (run ops (fst (put c k v)))" using run_inv [OF p(1)] by simp
  ultimately show ?thesis using get_law recent_get by (metis snd_conv)
qed

end

interpretation lruc: bounded_cache lru_inv lru_abs capacity lruGet lruAdd lruDel
proof
  fix c :: "('k, 'v) LRUCache" and k v
  assume c: "lru_inv c"
  show "distinct (map fst (lru_abs c))" using c by (simp add: lru_inv_def)
  show "lru_inv (fst (lruGet c k)) \<and> capacity (fst (lruGet c k)) = capacity c \<and>
      (lru_abs (fst (lruGet c k)), snd (lruGet c k)) = spec_get k (lru_abs c)"
    using lruGet_refines [OF c, of k] by (simp add: lruGet_def split: option.splits)
  show "lru_inv (fst (lruAdd c k v)) \<and> capacity (fst (lruAdd c k v)) = capacity c \<and>
      (lru_abs (fst (lruAdd c k v)), snd (lruAdd c k v)) = spec_add (capacity c) k v (lru_abs c)"
    using lruAdd_refines [OF c] by blast
  show "lru_inv (lruDel c k) \<and> capacity (lruDel c k) = capacity c \<and>
      lru_abs (lruDel c k) = spec_drop k (lru_abs c)"
    using lruDel_refines [OF c, of k] by (simp add: lruDel_def split: option.splits)
qed

section \<open>What a client sees\<close>

lemma lruGet_cases:
  assumes "lru_inv c"
  obtains (hit) c1 v where "lruGet c k = (c1, Some v)" "lru_inv c1" "(k, v) \<in> set (lru_abs c)" "set (lru_abs c1) \<subseteq> set (lru_abs c)" "map_of (lru_abs c1) k = Some v"
  | (miss) c1 where "lruGet c k = (c1, None)" "lru_inv c1" "map_of (lru_abs c) k = None" "lru_abs c1 = lru_abs c"
proof -
  obtain c1 r where g: "lruGet c k = (c1, r)" by (cases "lruGet c k")
  have l: "lru_inv c1" "(lru_abs c1, r) = spec_get k (lru_abs c)" using lruc.get_law [OF assms, of k] g by simp_all
  show ?thesis
  proof (cases "map_of (lru_abs c) k")
    case None
    then show ?thesis using miss g l by (simp add: spec_get_def)
  next
    case (Some v)
    then have "r = Some v" "lru_abs c1 = (k, v) # spec_drop k (lru_abs c)" using l(2) by (simp_all add: spec_get_def)
    then show ?thesis using hit g l(1) map_of_SomeD [OF Some] by (auto simp: set_spec_drop)
  qed
qed

lemma lruAdd_subset:
  assumes "lru_inv c"
  shows "lru_inv (fst (lruAdd c k v))" "set (lru_abs (fst (lruAdd c k v))) \<subseteq> {(k, v)} \<union> {p \<in> set (lru_abs c). fst p \<noteq> k}"
  using lruc.put_law [OF assms, of k v] by (auto simp: spec_add_def Let_def set_spec_drop split: if_splits dest: in_set_butlastD)

lemma lruDel_subset:
  assumes "lru_inv c"
  shows "lru_inv (lruDel c k)" "set (lru_abs (lruDel c k)) = {p \<in> set (lru_abs c). fst p \<noteq> k}"
  using lruc.drop_law [OF assms, of k] by (auto simp: set_spec_drop)

section \<open>Properties\<close>

text \<open>
  C14: The LRU cache refines the abstract one: over any sequence of gets, adds and deletes from
  a new cache, the map and the list stay consistent, and a get and an add return what the
  abstract list of pairs in order of use returns, and leave it as that list.
\<close>

theorem lru_refines:
  "lru_inv (lruc.run ops (NewLRUCache cap)) \<and>
   (lru_abs (fst (lruGet (lruc.run ops (NewLRUCache cap)) k)), snd (lruGet (lruc.run ops (NewLRUCache cap)) k))
     = spec_get k (lru_abs (lruc.run ops (NewLRUCache cap))) \<and>
   (lru_abs (fst (lruAdd (lruc.run ops (NewLRUCache cap)) k v)), snd (lruAdd (lruc.run ops (NewLRUCache cap)) k v))
     = spec_add cap k v (lru_abs (lruc.run ops (NewLRUCache cap)))"
proof -
  have "lru_inv (lruc.run ops (NewLRUCache cap)) \<and> capacity (lruc.run ops (NewLRUCache cap)) = cap"
    using lruc.run_inv [OF lru_inv_New(1), of ops cap] by simp
  then show ?thesis using lruc.get_law lruc.put_law by metis
qed

text \<open>
  A cached value is found again as long as fewer other keys than the capacity have been
  used since it was added, whatever the operations on them; and the number of cached pairs
  never exceeds the capacity.
\<close>

theorem lru_keeps_recent:
  assumes "k \<notin> op_key ` set ops" and "int (card (op_key ` set ops)) < cap"
  shows "snd (lruGet (lruc.run ops (fst (lruAdd (lruc.run before (NewLRUCache cap)) k v))) k) = Some v \<and>
    int (lruLen (lruc.run ops (fst (lruAdd (lruc.run before (NewLRUCache cap)) k v)))) \<le> cap"
proof -
  let ?c = "lruc.run before (NewLRUCache cap)"
  have c: "lru_inv ?c" "capacity ?c = cap"
    using lruc.run_inv [OF lru_inv_New(1), of before cap] by simp_all
  have pos: "0 \<le> cap" using assms(2) by simp
  have len: "int (length (lru_abs (lruc.run xs (NewLRUCache cap)))) \<le> cap" for xs
    using lruc.run_size [OF lru_inv_New(1), of cap xs] pos by (simp add: lru_inv_New(2))
  have "lruc.run ops (fst (lruAdd ?c k v)) = lruc.run (before @ Put k v # ops) (NewLRUCache cap)"
    by (simp add: lruc.run_def)
  with len [of "before @ Put k v # ops"]
  have "int (lruLen (lruc.run ops (fst (lruAdd ?c k v)))) \<le> cap"
    by (simp add: lruLen_def list_Len_def lru_abs_def)
  moreover have "snd (lruGet (lruc.run ops (fst (lruAdd ?c k v))) k) = Some v"
    using assms c by (intro lruc.get_after_put) simp_all
  ultimately show ?thesis by simp
qed

theorem lru_keeps_recent_witness:
  "snd (lruGet (lruc.run [Put ''b'' 2, Get ''b'', Put ''c'' 3]
     (fst (lruAdd (lruc.run [] (NewLRUCache 3)) ''a'' (1 :: nat)))) ''a'') = Some 1"
  using lru_keeps_recent [of "''a''" "[Put ''b'' 2, Get ''b'', Put ''c'' (3 :: nat)]" 3 "[]" 1] by simp

end
