(* ===== verification/Utxo_Cache.thy ===== *)
theory Utxo_Cache
  imports Go_List
begin

text \<open>
  \<open>state/utxo/utxo_cache.go\<close>: the two-level maps of cached outputs, all of them and the ones
  still available, with one list that orders them for eviction. A list element holds the
  address and the key; a cache item holds the pointer to its element.
\<close>

section \<open>The code\<close>

record UtxoItem =
  Amount :: int
  FrozenHeight :: int

record CacheItem =
  ciItem :: UtxoItem
  ciEle :: nat

type_synonym cache_map = "string \<Rightarrow> (string \<Rightarrow> CacheItem option) option"

record UtxoCache =
  ucAvailable :: cache_map
  ucAll :: cache_map
  ucList :: "(string \<times> string) golist"
  Limit :: int

definition NewUtxoCache :: "int \<Rightarrow> UtxoCache" where
  "NewUtxoCache limit = \<lparr>ucAvailable = Map.empty, ucAll = Map.empty, ucList = list_New, Limit = limit\<rparr>"

text \<open>\<open>delete(m[a], k)\<close>, and \<open>m[a][k] = v\<close> where \<open>m[a]\<close> exists.\<close>

definition delete2 :: "cache_map \<Rightarrow> string \<Rightarrow> string \<Rightarrow> cache_map" where
  "delete2 m a k = (case m a of None \<Rightarrow> m | Some l2 \<Rightarrow> m(a \<mapsto> l2(k := None)))"

definition store2 :: "cache_map \<Rightarrow> string \<Rightarrow> string \<Rightarrow> CacheItem \<Rightarrow> cache_map" where
  "store2 m a k v = (case m a of None \<Rightarrow> m | Some l2 \<Rightarrow> m(a \<mapsto> l2(k \<mapsto> v)))"

definition lookup2 :: "cache_map \<Rightarrow> string \<Rightarrow> string \<Rightarrow> CacheItem option" where
  "lookup2 m a k = (case m a of None \<Rightarrow> None | Some l2 \<Rightarrow> l2 k)"

definition cacheUse :: "UtxoCache \<Rightarrow> string \<Rightarrow> string \<Rightarrow> UtxoCache" where
  "cacheUse uv address utxoKey = uv\<lparr>ucAvailable := delete2 (ucAvailable uv) address utxoKey\<rparr>"

definition cacheRemove :: "UtxoCache \<Rightarrow> string \<Rightarrow> string \<Rightarrow> UtxoCache" where
  "cacheRemove uv address utxoKey =
     (let uv1 = (case ucAll uv address of
                   None \<Rightarrow> uv
                 | Some l2 \<Rightarrow>
                     let (uv', l2') =
                           (case l2 utxoKey of
                              None \<Rightarrow> (uv, l2)
                            | Some cacheItem \<Rightarrow>
                                (uv\<lparr>ucList := removeEle (ucList uv) (ciEle cacheItem),
                                    ucAll := delete2 (ucAll uv) address utxoKey\<rparr>, l2(utxoKey := None)))
                     in if dom l2' = {}
                        then uv'\<lparr>ucAll := (ucAll uv')(address := None),
                                 ucAvailable := (ucAvailable uv')(address := None)\<rparr>
                        else uv')
      in uv1\<lparr>ucAvailable := delete2 (ucAvailable uv1) address utxoKey\<rparr>)"

text \<open>The state of an insertion before the eviction.\<close>

definition inserted :: "UtxoCache \<Rightarrow> string \<Rightarrow> string \<Rightarrow> UtxoItem \<Rightarrow> UtxoCache" where
  "inserted uv addr utxoKey item =
     (let uv1 = (if ucAll uv addr = None
                 then uv\<lparr>ucAvailable := (ucAvailable uv)(addr \<mapsto> Map.empty),
                         ucAll := (ucAll uv)(addr \<mapsto> Map.empty)\<rparr> else uv);
          cacheItem = \<lparr>ciItem = item, ciEle = nextEle (ucList uv)\<rparr>
      in uv1\<lparr>ucList := fst (PushFront (ucList uv) (addr, utxoKey)),
             ucAvailable := store2 (ucAvailable uv1) addr utxoKey cacheItem,
             ucAll := store2 (ucAll uv1) addr utxoKey cacheItem\<rparr>)"

definition cacheInsert :: "UtxoCache \<Rightarrow> string \<Rightarrow> string \<Rightarrow> UtxoItem \<Rightarrow> UtxoCache" where
  "cacheInsert uv addr utxoKey item =
     (let uv2 = inserted uv addr utxoKey item
      in if int (list_Len (ucList uv2)) > Limit uv2
         then (case Back (ucList uv2) of
                 None \<Rightarrow> uv2
               | Some (_, addressUtxoKey) \<Rightarrow>
                   cacheRemove uv2 (fst addressUtxoKey) (snd addressUtxoKey))
         else uv2)"

section \<open>The invariant\<close>

text \<open>
  The list elements are exactly the elements of the cached items, one for each; what is
  available is cached; the two outer maps have the same addresses.
\<close>

definition cache_inv :: "UtxoCache \<Rightarrow> bool" where
  "cache_inv uv \<longleftrightarrow> golist_ok (ucList uv) \<and>
     (\<forall>a k e. (e, (a, k)) \<in> set (elems (ucList uv)) \<longleftrightarrow>
        (\<exists>it. lookup2 (ucAll uv) a k = Some it \<and> ciEle it = e)) \<and>
     (\<forall>a k it. lookup2 (ucAvailable uv) a k = Some it \<longrightarrow> lookup2 (ucAll uv) a k = Some it) \<and>
     dom (ucAvailable uv) = dom (ucAll uv)"

lemma lookup2_delete2 [simp]:
  "lookup2 (delete2 m a k) b j = (if a = b \<and> k = j then None else lookup2 m b j)"
  by (auto simp: lookup2_def delete2_def split: option.splits)

lemma lookup2_store2:
  "m a \<noteq> None \<Longrightarrow> lookup2 (store2 m a k v) b j = (if a = b \<and> k = j then Some v else lookup2 m b j)"
  by (auto simp: lookup2_def store2_def split: option.splits)

lemma dom_delete2 [simp]: "dom (delete2 m a k) = dom m"
  by (auto simp: delete2_def split: option.splits if_splits)

lemma dom_store2 [simp]: "dom (store2 m a k v) = dom m"
  by (auto simp: store2_def split: option.splits if_splits)

lemma lookup2_update_None: "lookup2 (m(a := None)) b j = (if a = b then None else lookup2 m b j)"
  by (simp add: lookup2_def)

lemma lookup2_update_empty: "m a = None \<Longrightarrow> lookup2 (m(a \<mapsto> Map.empty)) b j = lookup2 m b j"
  by (auto simp: lookup2_def)

lemma cache_inv_New: "cache_inv (NewUtxoCache limit)"
  by (simp add: cache_inv_def NewUtxoCache_def list_New_def golist_ok_def lookup2_def)

lemma cache_inv_Use: "cache_inv uv \<Longrightarrow> cache_inv (cacheUse uv a k)"
  by (simp add: cache_inv_def cacheUse_def)

text \<open>What a removal does to the lookups and to the list.\<close>

lemma cacheRemove_lookup:
  "lookup2 (ucAll (cacheRemove uv a k)) b j = (if a = b \<and> k = j then None else lookup2 (ucAll uv) b j)"
proof (cases "ucAll uv a")
  case None
  then show ?thesis by (auto simp: cacheRemove_def Let_def lookup2_def)
next
  case (Some l2)
  show ?thesis
  proof (cases "l2 k")
    case None
    have "dom l2 = {} \<Longrightarrow> lookup2 (ucAll uv) a j = None" for j
      using Some by (simp add: lookup2_def)
    with Some None show ?thesis
      by (auto simp: cacheRemove_def Let_def lookup2_update_None) (auto simp: lookup2_def)
  next
    case (Some it)
    have "lookup2 (ucAll uv) a j = None" if "l2(k := None) = Map.empty" "j \<noteq> k" for j
      using \<open>ucAll uv a = Some l2\<close> fun_cong [OF that(1), of j] that(2) by (simp add: lookup2_def)
    with Some \<open>ucAll uv a = Some l2\<close> show ?thesis
      by (auto simp: cacheRemove_def Let_def lookup2_update_None)
  qed
qed

lemma cacheRemove_list:
  "ucList (cacheRemove uv a k) =
     (case lookup2 (ucAll uv) a k of None \<Rightarrow> ucList uv | Some it \<Rightarrow> removeEle (ucList uv) (ciEle it))"
  by (auto simp: cacheRemove_def Let_def lookup2_def split: option.splits)

lemma cacheRemove_Limit [simp]: "Limit (cacheRemove uv a k) = Limit uv"
  by (auto simp: cacheRemove_def Let_def split: option.splits)

lemma cacheRemove_dom:
  "dom (ucAvailable uv) = dom (ucAll uv) \<Longrightarrow>
     dom (ucAvailable (cacheRemove uv a k)) = dom (ucAll (cacheRemove uv a k))"
  by (auto simp: cacheRemove_def Let_def split: option.splits)

lemma cacheRemove_avail:
  "lookup2 (ucAvailable (cacheRemove uv a k)) b j = Some it \<Longrightarrow>
     lookup2 (ucAvailable uv) b j = Some it \<and> (b, j) \<noteq> (a, k)"
  by (auto simp: cacheRemove_def Let_def lookup2_update_None split: option.splits if_splits)

lemma removeEle_mem: "(i, p) \<in> set (elems (removeEle l e)) \<longleftrightarrow> (i, p) \<in> set (elems l) \<and> i \<noteq> e"
  by (auto simp: removeEle_def)

lemma cache_inv_ele:
  assumes "cache_inv uv" "lookup2 (ucAll uv) a k = Some it" "lookup2 (ucAll uv) b j = Some it'"
  shows "ciEle it = ciEle it' \<longleftrightarrow> a = b \<and> k = j"
proof
  assume eq: "ciEle it = ciEle it'"
  have mem: "(ciEle it, (a, k)) \<in> set (elems (ucList uv))" "(ciEle it', (b, j)) \<in> set (elems (ucList uv))"
    using assms unfolding cache_inv_def by blast+
  then have "valueOf (ucList uv) (ciEle it) = Some (a, k)" "valueOf (ucList uv) (ciEle it') = Some (b, j)"
    using assms(1) by (simp_all add: cache_inv_def valueOf_mem)
  with eq show "a = b \<and> k = j" by simp
qed (use assms in simp)

lemma cache_inv_Remove:
  assumes inv: "cache_inv uv"
  shows "cache_inv (cacheRemove uv a k)"
proof -
  let ?uv = "cacheRemove uv a k"
  have ok: "golist_ok (ucList ?uv)"
    using inv by (auto simp: cache_inv_def cacheRemove_list golist_oks split: option.splits)
  have mem: "(e, (b, j)) \<in> set (elems (ucList ?uv)) \<longleftrightarrow>
      (\<exists>it. lookup2 (ucAll ?uv) b j = Some it \<and> ciEle it = e)" for b j e
  proof -
    have old: "(e, (b, j)) \<in> set (elems (ucList uv)) \<longleftrightarrow>
        (\<exists>it. lookup2 (ucAll uv) b j = Some it \<and> ciEle it = e)"
      using inv unfolding cache_inv_def by blast
    show ?thesis
    proof (cases "lookup2 (ucAll uv) a k")
      case None
      then show ?thesis using old by (auto simp: cacheRemove_list cacheRemove_lookup)
    next
      case (Some it)
      then show ?thesis
        using old cache_inv_ele [OF inv Some, of b j]
        by (auto simp: cacheRemove_list cacheRemove_lookup removeEle_mem)
    qed
  qed
  have avail: "lookup2 (ucAll ?uv) b j = Some it" if "lookup2 (ucAvailable ?uv) b j = Some it" for b j it
    using cacheRemove_avail [OF that] inv by (auto simp: cacheRemove_lookup cache_inv_def)
  have dom: "dom (ucAvailable ?uv) = dom (ucAll ?uv)"
    using inv by (intro cacheRemove_dom) (simp add: cache_inv_def)
  show ?thesis unfolding cache_inv_def using ok mem avail dom by blast
qed

lemma cacheRemove_size:
  assumes "cache_inv uv" and "lookup2 (ucAll uv) a k \<noteq> None"
  shows "Suc (list_Len (ucList (cacheRemove uv a k))) = list_Len (ucList uv)"
proof -
  from assms(2) obtain it where it: "lookup2 (ucAll uv) a k = Some it" by blast
  then have "(ciEle it, (a, k)) \<in> set (elems (ucList uv))" "golist_ok (ucList uv)"
    using assms(1) unfolding cache_inv_def by blast+
  then show ?thesis using removeEle_length it by (fastforce simp: cacheRemove_list)
qed

lemma cacheRemove_size_le: "list_Len (ucList (cacheRemove uv a k)) \<le> list_Len (ucList uv)"
  by (auto simp: cacheRemove_list removeEle_def list_Len_def split: option.splits)

lemma inserted_lookup:
  assumes "dom (ucAvailable uv) = dom (ucAll uv)"
  shows "lookup2 (ucAll (inserted uv a k item)) b j =
      (if a = b \<and> k = j then Some \<lparr>ciItem = item, ciEle = nextEle (ucList uv)\<rparr> else lookup2 (ucAll uv) b j)"
    "lookup2 (ucAvailable (inserted uv a k item)) b j =
      (if a = b \<and> k = j then Some \<lparr>ciItem = item, ciEle = nextEle (ucList uv)\<rparr>
       else lookup2 (ucAvailable uv) b j)"
    "dom (ucAvailable (inserted uv a k item)) = dom (ucAll (inserted uv a k item))"
proof -
  have "ucAvailable uv a = None \<longleftrightarrow> ucAll uv a = None" using assms by blast
  then show "lookup2 (ucAll (inserted uv a k item)) b j =
      (if a = b \<and> k = j then Some \<lparr>ciItem = item, ciEle = nextEle (ucList uv)\<rparr> else lookup2 (ucAll uv) b j)"
    "lookup2 (ucAvailable (inserted uv a k item)) b j =
      (if a = b \<and> k = j then Some \<lparr>ciItem = item, ciEle = nextEle (ucList uv)\<rparr>
       else lookup2 (ucAvailable uv) b j)"
    by (auto simp: inserted_def Let_def lookup2_store2 lookup2_update_empty)
  show "dom (ucAvailable (inserted uv a k item)) = dom (ucAll (inserted uv a k item))"
    using assms by (auto simp: inserted_def Let_def)
qed

lemma cache_inv_inserted:
  assumes inv: "cache_inv uv" and new: "lookup2 (ucAll uv) a k = None"
  shows "cache_inv (inserted uv a k item)"
proof -
  have dom: "dom (ucAvailable uv) = dom (ucAll uv)" using inv by (simp add: cache_inv_def)
  note lk = inserted_lookup [OF dom, of a k item]
  have l: "ucList (inserted uv a k item) = fst (PushFront (ucList uv) (a, k))"
    by (simp add: inserted_def Let_def)
  have fresh: "(i, p) \<in> set (elems (ucList uv)) \<Longrightarrow> i \<noteq> nextEle (ucList uv)" for i p
    using inv by (force simp: cache_inv_def golist_ok_def)
  have "(e, (b, j)) \<in> set (elems (ucList (inserted uv a k item))) \<longleftrightarrow>
      (\<exists>it. lookup2 (ucAll (inserted uv a k item)) b j = Some it \<and> ciEle it = e)" for b j e
  proof -
    have old: "(e, (b, j)) \<in> set (elems (ucList uv)) \<longleftrightarrow>
        (\<exists>it. lookup2 (ucAll uv) b j = Some it \<and> ciEle it = e)"
      using inv unfolding cache_inv_def by blast
    show ?thesis using old new by (auto simp: l lk PushFront_def)
  qed
  moreover have "golist_ok (ucList (inserted uv a k item))"
    using inv by (simp add: l cache_inv_def golist_oks)
  moreover have "lookup2 (ucAll (inserted uv a k item)) b j = Some it"
    if "lookup2 (ucAvailable (inserted uv a k item)) b j = Some it" for b j it
    using that inv by (auto simp: lk cache_inv_def split: if_splits)
  ultimately show ?thesis unfolding cache_inv_def using lk(3) by blast
qed

lemma inserted_size: "list_Len (ucList (inserted uv a k item)) = Suc (list_Len (ucList uv))"
  by (simp add: inserted_def Let_def PushFront_def list_Len_def)

lemma cacheInsert_inv:
  assumes inv: "cache_inv uv" and new: "lookup2 (ucAll uv) a k = None"
    and lim: "int (list_Len (ucList uv)) \<le> Limit uv"
  shows "cache_inv (cacheInsert uv a k item) \<and>
    int (list_Len (ucList (cacheInsert uv a k item))) \<le> Limit (cacheInsert uv a k item) \<and>
    Limit (cacheInsert uv a k item) = Limit uv"
proof -
  let ?i = "inserted uv a k item"
  have i: "cache_inv ?i" "Limit ?i = Limit uv"
    using cache_inv_inserted [OF inv new] by (simp_all add: inserted_def Let_def)
  have ne: "elems (ucList ?i) \<noteq> []"
    using inserted_size [of uv a k item] by (auto simp: list_Len_def)
  then obtain e b j where bk: "Back (ucList ?i) = Some (e, (b, j))" by (metis Back_def surj_pair)
  then have "lookup2 (ucAll ?i) b j \<noteq> None"
    using Back_mem [OF bk] i(1) unfolding cache_inv_def by blast
  from cacheRemove_size [OF i(1) this] bk i lim inserted_size [of uv a k item] show ?thesis
    by (simp add: cacheInsert_def Let_def cache_inv_Remove)
qed

section \<open>Properties\<close>

datatype uc_op = UcInsert string string UtxoItem | UcUse string string | UcRemove string string

text \<open>A client that does not insert a key that is still cached.\<close>

fun uc_run :: "uc_op list \<Rightarrow> UtxoCache \<Rightarrow> UtxoCache" where
  "uc_run [] uv = uv"
| "uc_run (UcInsert a k it # ops) uv =
     uc_run ops (if lookup2 (ucAll uv) a k = None then cacheInsert uv a k it else uv)"
| "uc_run (UcUse a k # ops) uv = uc_run ops (cacheUse uv a k)"
| "uc_run (UcRemove a k # ops) uv = uc_run ops (cacheRemove uv a k)"

text \<open>
  C15: When no key is inserted while it is still cached, every run of insertions, uses and
  removals keeps the maps and the eviction list of the output cache consistent and their size
  within the limit; what is available is always cached, and a used or removed key is not
  available.
\<close>

theorem uc_run_bounded:
  assumes "0 \<le> limit"
  shows "cache_inv (uc_run ops (NewUtxoCache limit)) \<and>
    int (list_Len (ucList (uc_run ops (NewUtxoCache limit)))) \<le> limit \<and>
    lookup2 (ucAvailable (cacheUse (uc_run ops (NewUtxoCache limit)) a k)) a k = None \<and>
    lookup2 (ucAll (cacheRemove (uc_run ops (NewUtxoCache limit)) a k)) a k = None"
proof -
  have "cache_inv (uc_run ops uv) \<and> int (list_Len (ucList (uc_run ops uv))) \<le> Limit uv"
    if "cache_inv uv" "int (list_Len (ucList uv)) \<le> Limit uv" for uv
    using that
  proof (induction ops uv rule: uc_run.induct)
    case (2 a k it ops uv)
    show ?case
    proof (cases "lookup2 (ucAll uv) a k = None")
      case True
      with 2 cacheInsert_inv [OF "2.prems"(1) True "2.prems"(2), of it] show ?thesis by auto
    next
      case False
      then show ?thesis using "2.IH" "2.prems" by auto
    qed
  next
    case (3 a k ops uv)
    then show ?case by (simp add: cache_inv_Use) (simp add: cacheUse_def)
  next
    case (4 a k ops uv)
    have "int (list_Len (ucList (cacheRemove uv a k))) \<le> Limit uv"
      using cacheRemove_size_le [of uv a k] "4.prems"(2) by linarith
    with 4 show ?case by (simp add: cache_inv_Remove)
  qed simp
  from this [OF cache_inv_New, of limit] assms show ?thesis
    by (simp add: NewUtxoCache_def list_New_def list_Len_def cacheUse_def cacheRemove_lookup)
qed

theorem uc_run_bounded_witness:
  "int (list_Len (ucList (uc_run [UcInsert ''a'' ''1'' \<lparr>Amount = 5, FrozenHeight = 0\<rparr>,
     UcInsert ''b'' ''2'' \<lparr>Amount = 7, FrozenHeight = 0\<rparr>] (NewUtxoCache 1)))) \<le> 1"
  using uc_run_bounded [of 1 "[UcInsert ''a'' ''1'' \<lparr>Amount = 5, FrozenHeight = 0\<rparr>,
     UcInsert ''b'' ''2'' \<lparr>Amount = 7, FrozenHeight = 0\<rparr>]"] by simp

text \<open>
  Inserting a key that is still cached leaves its old list element behind; when that element
  is the oldest, the eviction removes the new item instead, the stale element stays at the
  back of the list, and later evictions find nothing: the cache grows past its limit. Here
  the limit is one.
\<close>

definition over_limit :: UtxoCache where
  "over_limit = fold (\<lambda>(a, k) uv. cacheInsert uv a k \<lparr>Amount = 1, FrozenHeight = 0\<rparr>)
     [(''a'', ''1''), (''a'', ''1''), (''b'', ''1''), (''c'', ''1''), (''d'', ''1'')] (NewUtxoCache 1)"

lemma reinsert_breaks_limit:
  "list_Len (ucList over_limit) = 4 \<and>
   (\<forall>a \<in> {''b'', ''c'', ''d''}. lookup2 (ucAll over_limit) a ''1'' \<noteq> None)"
  by (simp add: over_limit_def cacheInsert_def inserted_def cacheRemove_def NewUtxoCache_def list_New_def
      PushFront_def Back_def removeEle_def list_Len_def store2_def delete2_def lookup2_def Let_def)

end
