(* ===== verification/Xledger_Types.thy ===== *)
theory Xledger_Types
  imports Xuper_Base
begin

text \<open>
  The messages of the ledger that several components read: transactions with their outputs
  and contract reads and writes, and blocks (\<open>xldgpb/xledger.proto\<close>, \<open>protos\<close>). Fields that no
  modelled component reads are left out.
\<close>

record TxInput =
  tiRefTxid :: slice
  tiRefOffset :: int
  tiFromAddr :: slice
  tiAmount :: slice
  tiFrozenHeight :: int

record TxOutput =
  toAmount :: slice
  toToAddr :: slice
  toFrozenHeight :: int

record TxInputExt =
  ieBucket :: string
  ieKey :: slice
  ieRefTxid :: slice
  ieRefOffset :: int

record TxOutputExt =
  oeBucket :: string
  oeKey :: slice
  oeValue :: slice

record SignatureInfo =
  siPublicKey :: string
  siSign :: slice

record XuperSignature =
  xsPublicKeys :: "slice list"
  xsSignature :: slice

record InvokeRequest =
  irModuleName :: string
  irContractName :: string
  irMethodName :: string
  irArgs :: "(string \<times> slice) list"
  irResourceLimits :: "(int \<times> int) list"
  irAmount :: string

record ModifyBlock =
  mbEffectiveTxid :: string
  mbMarked :: bool
  mbEffectiveHeight :: int
  mbPublicKey :: string
  mbSign :: string

record HDInfo =
  hdPublicKey :: slice
  hdOriginalHash :: slice

text \<open>
  A list field of a message that was read from the wire is nil exactly when it is empty; the
  contract requests, which the code compares with nil, keep the difference.
\<close>

record Transaction =
  txTxid :: slice
  txBlockid :: slice
  txInputs :: "TxInput list"
  txOutputs :: "TxOutput list"
  txDesc :: slice
  txCoinbase :: bool
  txAutogen :: bool
  txTimestamp :: int
  txInputsExt :: "TxInputExt list"
  txOutputsExt :: "TxOutputExt list"
  txInitiator :: string
  txAuthRequire :: "string list"
  txNonce :: string
  txVersion :: int
  txContractRequests :: "InvokeRequest list option"
  txInitiatorSigns :: "SignatureInfo list"
  txAuthRequireSigns :: "SignatureInfo list"
  txXuperSign :: "XuperSignature option"
  txModifyBlock :: "ModifyBlock option"
  txHDInfo :: "HDInfo option"

record QCSign =
  qsAddress :: string
  qsPublicKey :: string
  qsSign :: slice

record Justify =
  jProposalId :: slice
  jProposalMsg :: slice
  jType :: int
  jViewNumber :: int
  jSignInfos :: "QCSign list option"

record InternalBlock =
  ibVersion :: int
  ibNonce :: int
  ibBlockid :: slice
  ibPreHash :: slice
  ibProposer :: slice
  ibPubkey :: slice
  ibMerkleRoot :: slice
  ibHeight :: int
  ibTimestamp :: int
  ibTransactions :: "Transaction list"
  ibTxCount :: int
  ibCurTerm :: int
  ibCurBlockNum :: int
  ibFailedTxs :: "(string \<times> string) list"
  ibTargetBits :: int
  ibJustify :: "Justify option"
  ibInTrunk :: bool
  ibNextHash :: slice
  ibSign :: slice
  ibMerkleTree :: "slice list"

text \<open>The bucket of the writes that are not stored (\<open>state/xmodel\<close>).\<close>

definition TransientBucket :: string where
  "TransientBucket = ''$transient''"

text \<open>A transaction with the given id and nothing else, for examples.\<close>

definition bare_tx :: "string \<Rightarrow> Transaction" where
  "bare_tx i = \<lparr>txTxid = Some i, txBlockid = None, txInputs = [], txOutputs = [], txDesc = None,
     txCoinbase = False, txAutogen = False, txTimestamp = 0, txInputsExt = [], txOutputsExt = [],
     txInitiator = [], txAuthRequire = [], txNonce = [], txVersion = 0, txContractRequests = None,
     txInitiatorSigns = [], txAuthRequireSigns = [], txXuperSign = None, txModifyBlock = None, txHDInfo = None\<rparr>"

end
