(* ===== verification/Spin_Lock.thy ===== *)
theory Spin_Lock
  imports Xledger_Types
begin

text \<open>
  The key locks of the unspent outputs (\<open>state/utxo/spin_lock.go\<close>). \<open>SpinLock\<close> is the table of
  locked keys (a \<open>sync.Map\<close>) and the counter of shared holders; a key missing in the counter's
  map reads as 0. \<open>TryLock\<close> and \<open>Unlock\<close> are given as the loops of the code, over the atomic
  operations of the two maps. The goroutines that call them are modelled one atomic operation
  at a time, so that the theorems speak of every interleaving.
\<close>

section \<open>The lock table\<close>

datatype LockType = sharedLock | exclusiveLock

record LockKey =
  lockType :: LockType
  key :: string

record SpinLock =
  lockMap :: "string \<Rightarrow> LockType option"
  ctMap :: "string \<Rightarrow> int"

definition NewSpinLock :: SpinLock where
  "NewSpinLock = \<lparr>lockMap = Map.empty, ctMap = \<lambda>_. 0\<rparr>"

definition rcAdd :: "SpinLock \<Rightarrow> string \<Rightarrow> SpinLock" where
  "rcAdd sp k = sp\<lparr>ctMap := (ctMap sp)(k := ctMap sp k + 1)\<rparr>"

definition rcRelease :: "SpinLock \<Rightarrow> string \<Rightarrow> SpinLock \<times> int" where
  "rcRelease sp k = (sp\<lparr>ctMap := (ctMap sp)(k := ctMap sp k - 1)\<rparr>, ctMap sp k - 1)"

text \<open>\<open>LoadOrStore\<close> and \<open>Delete\<close> of \<open>sync.Map\<close>: the value found, or none and the new one stored.\<close>

definition LoadOrStore :: "SpinLock \<Rightarrow> string \<Rightarrow> LockType \<Rightarrow> SpinLock \<times> LockType option" where
  "LoadOrStore sp k ty =
     (case lockMap sp k of
        Some t \<Rightarrow> (sp, Some t)
      | None \<Rightarrow> (sp\<lparr>lockMap := (lockMap sp)(k \<mapsto> ty)\<rparr>, None))"

definition smDelete :: "SpinLock \<Rightarrow> string \<Rightarrow> SpinLock" where
  "smDelete sp k = sp\<lparr>lockMap := (lockMap sp)(k := None)\<rparr>"

definition IsLocked :: "SpinLock \<Rightarrow> string \<Rightarrow> bool" where
  "IsLocked sp k \<longleftrightarrow> lockMap sp k \<noteq> None"

section \<open>The keys of a transaction\<close>

definition inputKey :: "TxInput \<Rightarrow> string" where
  "inputKey i = contents (tiRefTxid i) @ ''_'' @ itoa (tiRefOffset i)"

definition outputKey :: "Transaction \<Rightarrow> nat \<Rightarrow> string" where
  "outputKey tx n = contents (txTxid tx) @ ''_'' @ itoa (int n)"

definition extKey :: "string \<Rightarrow> slice \<Rightarrow> string" where
  "extKey b k = b @ ''/'' @ contents k"

definition writeKeys :: "Transaction \<Rightarrow> string list" where
  "writeKeys tx = remdups (map (\<lambda>out. extKey (oeBucket out) (oeKey out))
     (filter (\<lambda>out. oeBucket out \<noteq> TransientBucket) (txOutputsExt tx)))"

definition readKeys :: "Transaction \<Rightarrow> string list" where
  "readKeys tx = filter (\<lambda>k. k \<notin> set (writeKeys tx))
     (remdups (map (\<lambda>i. extKey (ieBucket i) (ieKey i)) (txInputsExt tx)))"

definition allLockKeys :: "Transaction \<Rightarrow> LockKey list" where
  "allLockKeys tx =
     map (\<lambda>i. \<lparr>lockType = exclusiveLock, key = inputKey i\<rparr>) (txInputs tx)
     @ map (\<lambda>n. \<lparr>lockType = exclusiveLock, key = outputKey tx n\<rparr>) [0..<length (txOutputs tx)]
     @ map (\<lambda>k. \<lparr>lockType = sharedLock, key = k\<rparr>) (readKeys tx)
     @ map (\<lambda>k. \<lparr>lockType = exclusiveLock, key = k\<rparr>) (writeKeys tx)"

text \<open>The loop that keeps the first of each run of equal keys.\<close>

fun dedupKeys :: "LockKey option \<Rightarrow> LockKey list \<Rightarrow> LockKey list" where
  "dedupKeys prev [] = []"
| "dedupKeys prev (k # ks) =
     (if prev = None \<or> key k \<noteq> key (the prev) then k # dedupKeys (Some k) ks
      else dedupKeys (Some k) ks)"

text \<open>
  \<open>sort.Slice\<close> orders the keys but not the entries of one key, and the range loops over the two
  maps have no fixed order. \<open>sorter\<close> stands for both: it returns the entries in some order
  that is sorted by key.
\<close>

definition ExtractLockKeys :: "(LockKey list \<Rightarrow> LockKey list) \<Rightarrow> Transaction \<Rightarrow> LockKey list" where
  "ExtractLockKeys sorter tx = dedupKeys None (sorter (allLockKeys tx))"

section \<open>Locking and unlocking\<close>

text \<open>One round of the loop of \<open>TryLock\<close>: the new table, and whether the key was obtained.\<close>

definition tryLockKey :: "SpinLock \<Rightarrow> LockKey \<Rightarrow> SpinLock \<times> bool" where
  "tryLockKey sp k =
     (case LoadOrStore sp (key k) (lockType k) of
        (sp, Some lkType) \<Rightarrow>
          if lkType = sharedLock \<and> lockType k = sharedLock then (rcAdd sp (key k), True)
          else (sp, False)
      | (sp, None) \<Rightarrow> ((if lockType k = sharedLock then rcAdd sp (key k) else sp), True))"

fun tryLockLoop :: "SpinLock \<Rightarrow> LockKey list \<Rightarrow> LockKey list \<Rightarrow> SpinLock \<times> LockKey list \<times> bool" where
  "tryLockLoop sp succLocked [] = (sp, succLocked, True)"
| "tryLockLoop sp succLocked (k # ks) =
     (case tryLockKey sp k of
        (sp', True) \<Rightarrow> tryLockLoop sp' (succLocked @ [k]) ks
      | (sp', False) \<Rightarrow> (sp', succLocked, False))"

definition TryLock :: "SpinLock \<Rightarrow> LockKey list \<Rightarrow> SpinLock \<times> LockKey list \<times> bool" where
  "TryLock sp lockKeys = tryLockLoop sp [] lockKeys"

definition unlockKey :: "SpinLock \<Rightarrow> LockKey \<Rightarrow> SpinLock" where
  "unlockKey sp k =
     (case lockType k of
        exclusiveLock \<Rightarrow> smDelete sp (key k)
      | sharedLock \<Rightarrow>
          (case rcRelease sp (key k) of
             (sp', n) \<Rightarrow> if n = 0 then smDelete sp' (key k) else sp'))"

definition Unlock :: "SpinLock \<Rightarrow> LockKey list \<Rightarrow> SpinLock" where
  "Unlock sp lockKeys = fold (\<lambda>k sp. unlockKey sp k) (rev lockKeys) sp"

lemmas spin_defs = rcAdd_def rcRelease_def LoadOrStore_def smDelete_def tryLockKey_def unlockKey_def

subsection \<open>The keys a transaction locks\<close>

lemma dedupKeys_keys_prev:
  "sorted (map key ks) \<Longrightarrow> (\<And>p k. prev = Some p \<Longrightarrow> k \<in> set ks \<Longrightarrow> key p \<le> key k) \<Longrightarrow>
   distinct (map key (dedupKeys prev ks))
   \<and> set (dedupKeys prev ks) \<subseteq> set ks
   \<and> key ` set (dedupKeys prev ks) = key ` set ks - key ` set_option prev"
proof (induction ks arbitrary: prev)
  case Nil
  then show ?case by simp
next
  case (Cons a ks)
  have ih: "distinct (map key (dedupKeys (Some a) ks))
     \<and> set (dedupKeys (Some a) ks) \<subseteq> set ks
     \<and> key ` set (dedupKeys (Some a) ks) = key ` set ks - {key a}"
    using Cons.IH [of "Some a"] Cons.prems by auto
  show ?case
  proof (cases "prev = None \<or> key a \<noteq> key (the prev)")
    case True
    have "key p \<notin> key ` set ks" if "prev = Some p" for p
    proof
      assume "key p \<in> key ` set ks"
      then obtain k where k: "k \<in> set ks" "key p = key k" by auto
      have "key p \<le> key a" using Cons.prems(2) [OF that, of a] by simp
      moreover have "key a \<le> key k" using Cons.prems(1) k by simp
      ultimately have "key p = key a" using k by simp
      with True that show False by auto
    qed
    with True ih show ?thesis by (cases prev) auto
  next
    case False
    with ih show ?thesis by (cases prev) auto
  qed
qed

lemma dedupKeys_spec:
  assumes "sorted (map key ks)"
  shows "distinct (map key (dedupKeys None ks))" "set (dedupKeys None ks) \<subseteq> set ks"
    "key ` set (dedupKeys None ks) = key ` set ks"
  using dedupKeys_keys_prev [of ks None] assms by auto

definition sorts_keys :: "(LockKey list \<Rightarrow> LockKey list) \<Rightarrow> bool" where
  "sorts_keys sorter \<longleftrightarrow> (\<forall>ks. mset (sorter ks) = mset ks \<and> sorted (map key (sorter ks)))"

lemma sorts_keys_sort_key: "sorts_keys (sort_key key)"
  by (simp add: sorts_keys_def)

lemma readKeys_set:
  "set (readKeys tx) = (\<lambda>i. extKey (ieBucket i) (ieKey i)) ` set (txInputsExt tx) - set (writeKeys tx)"
  by (auto simp: readKeys_def)

lemma allLockKeys_shared:
  "lk \<in> set (allLockKeys tx) \<Longrightarrow> lockType lk = sharedLock \<Longrightarrow> key lk \<in> set (readKeys tx)"
  by (auto simp: allLockKeys_def)

lemma allLockKeys_exclusive:
  "lk \<in> set (allLockKeys tx) \<Longrightarrow> lockType lk = exclusiveLock \<Longrightarrow>
   key lk \<in> inputKey ` set (txInputs tx) \<union> outputKey tx ` {..<length (txOutputs tx)} \<union> set (writeKeys tx)"
  by (auto simp: allLockKeys_def)

lemma key_allLockKeys:
  "key ` set (allLockKeys tx) = inputKey ` set (txInputs tx)
     \<union> outputKey tx ` {..<length (txOutputs tx)}
     \<union> (\<lambda>i. extKey (ieBucket i) (ieKey i)) ` set (txInputsExt tx) \<union> set (writeKeys tx)"
  by (auto simp: allLockKeys_def image_Un image_image readKeys_set atLeast0LessThan
      simp flip: image_comp)

text \<open>
  The keys of a transaction, whatever order the maps and the sort give: each key once,
  strictly one entry for every output it spends, every output it makes, every key it reads and
  every key it writes outside the transient bucket, and the entry is shared exactly for the keys
  that are read and not written, provided no read key is spelled like the key of an output.
\<close>

theorem ExtractLockKeys_spec:
  assumes sorter: "sorts_keys sorter"
    and apart: "set (readKeys tx) \<inter>
      (inputKey ` set (txInputs tx) \<union> outputKey tx ` {..<length (txOutputs tx)}) = {}"
  shows "distinct (map key (ExtractLockKeys sorter tx))
    \<and> key ` set (ExtractLockKeys sorter tx) = inputKey ` set (txInputs tx)
        \<union> outputKey tx ` {..<length (txOutputs tx)}
        \<union> (\<lambda>i. extKey (ieBucket i) (ieKey i)) ` set (txInputsExt tx) \<union> set (writeKeys tx)
    \<and> {key lk |lk. lk \<in> set (ExtractLockKeys sorter tx) \<and> lockType lk = sharedLock} = set (readKeys tx)"
proof -
  let ?ks = "sorter (allLockKeys tx)"
  have ks: "set ?ks = set (allLockKeys tx)" and srt: "sorted (map key ?ks)"
    using sorter by (auto simp: sorts_keys_def dest: mset_eq_setD)
  note dd = dedupKeys_spec [OF srt, folded ExtractLockKeys_def, unfolded ks]
  have "key lk \<in> set (readKeys tx)" if "lk \<in> set (ExtractLockKeys sorter tx)" "lockType lk = sharedLock" for lk
    using that dd(2) allLockKeys_shared by auto
  moreover have "\<exists>lk \<in> set (ExtractLockKeys sorter tx). lockType lk = sharedLock \<and> key lk = k"
    if k: "k \<in> set (readKeys tx)" for k
  proof -
    have "k \<in> key ` set (ExtractLockKeys sorter tx)"
      unfolding dd(3) key_allLockKeys using k by (auto simp: readKeys_set)
    then obtain lk where lk: "lk \<in> set (ExtractLockKeys sorter tx)" "key lk = k" by auto
    then have "lockType lk \<noteq> exclusiveLock"
      using allLockKeys_exclusive [of lk tx] dd(2) apart k by (auto simp: readKeys_set)
    with lk show ?thesis by (cases "lockType lk") auto
  qed
  ultimately have "{key lk |lk. lk \<in> set (ExtractLockKeys sorter tx) \<and> lockType lk = sharedLock}
      = set (readKeys tx)" by blast
  with dd(1,3) show ?thesis unfolding key_allLockKeys by simp
qed

definition lock_demo_tx :: Transaction where
  "lock_demo_tx = (bare_tx ''t'')\<lparr>
     txInputs := [\<lparr>tiRefTxid = Some ''p'', tiRefOffset = 1, tiFromAddr = None, tiAmount = None, tiFrozenHeight = 0\<rparr>],
     txInputsExt := [\<lparr>ieBucket = ''b'', ieKey = Some ''x'', ieRefTxid = None, ieRefOffset = 0\<rparr>,
                     \<lparr>ieBucket = ''b'', ieKey = Some ''y'', ieRefTxid = None, ieRefOffset = 0\<rparr>],
     txOutputsExt := [\<lparr>oeBucket = ''b'', oeKey = Some ''y'', oeValue = None\<rparr>]\<rparr>"

lemma lock_demo_keys:
  "readKeys lock_demo_tx = [''b/x'']" "writeKeys lock_demo_tx = [''b/y'']"
  "map inputKey (txInputs lock_demo_tx) = [''p_1'']" "txOutputs lock_demo_tx = []"
  by (simp_all add: lock_demo_tx_def bare_tx_def readKeys_def writeKeys_def extKey_def inputKey_def
      itoa_def TransientBucket_def show_nat.simps char_of_def bit_0)

theorem ExtractLockKeys_spec_witness:
  "{key lk |lk. lk \<in> set (ExtractLockKeys (sort_key key) lock_demo_tx) \<and> lockType lk = sharedLock} = {''b/x''}"
proof -
  have "inputKey ` set (txInputs lock_demo_tx) = {''p_1''}"
    using arg_cong [OF lock_demo_keys(3), of set] by simp
  then show ?thesis
    using ExtractLockKeys_spec [OF sorts_keys_sort_key, of lock_demo_tx]
    by (simp add: lock_demo_keys)
qed

section \<open>One caller at a time\<close>

definition table_ok :: "SpinLock \<Rightarrow> bool" where
  "table_ok sp \<longleftrightarrow> (\<forall>k. if lockMap sp k = Some sharedLock then 0 < ctMap sp k else ctMap sp k = 0)"

lemma table_ok_New: "table_ok NewSpinLock"
  by (simp add: table_ok_def NewSpinLock_def)

definition lockable :: "SpinLock \<Rightarrow> LockKey \<Rightarrow> bool" where
  "lockable sp k \<longleftrightarrow> lockMap sp (key k) = None
     \<or> lockMap sp (key k) = Some sharedLock \<and> lockType k = sharedLock"

lemma tryLockKey_ok_iff: "snd (tryLockKey sp k) \<longleftrightarrow> lockable sp k"
  by (auto simp: lockable_def spin_defs split: option.splits)

lemma tryLockKey_other: "key j \<noteq> key k \<Longrightarrow> lockable (fst (tryLockKey sp k)) j = lockable sp j"
  by (auto simp: lockable_def spin_defs split: option.splits)

lemma tryLockKey_fail: "\<not> snd (tryLockKey sp k) \<Longrightarrow> fst (tryLockKey sp k) = sp"
  by (auto simp: spin_defs split: option.splits if_splits)

lemma tryLockKey_unlock:
  assumes "table_ok sp" and "tryLockKey sp k = (sp', True)"
  shows "table_ok sp' \<and> unlockKey sp' k = sp"
proof -
  have ok: "if lockMap sp j = Some sharedLock then 0 < ctMap sp j else ctMap sp j = 0" for j
    using assms(1) unfolding table_ok_def by blast
  have ok': "if lockMap sp' j = Some sharedLock then 0 < ctMap sp' j else ctMap sp' j = 0" for j
    using assms(2) ok [of j] ok [of "key k"]
    by (cases "lockType k"; cases "lockMap sp (key k)"; cases "j = key k")
      (auto simp: spin_defs split: if_splits)
  moreover have "unlockKey sp' k = sp"
    using assms(2) ok [of "key k"]
    by (cases "lockType k"; cases "lockMap sp (key k)")
      (auto simp: spin_defs fun_upd_idem split: if_splits)
  ultimately show ?thesis unfolding table_ok_def by blast
qed

lemma tryLockLoop_spec:
  "table_ok sp \<Longrightarrow> tryLockLoop sp pre ks = (sp', succ, ok) \<Longrightarrow>
   table_ok sp' \<and> (\<exists>got rest. succ = pre @ got \<and> ks = got @ rest \<and> Unlock sp' got = sp
     \<and> (ok \<longleftrightarrow> rest = []) \<and> (distinct (map key ks) \<longrightarrow> (ok \<longleftrightarrow> (\<forall>k \<in> set ks. lockable sp k))))"
proof (induction ks arbitrary: sp pre)
  case Nil
  then show ?case by (auto simp: Unlock_def)
next
  case (Cons k ks)
  obtain sp1 b where t: "tryLockKey sp k = (sp1, b)" by (cases "tryLockKey sp k")
  show ?case
  proof (cases b)
    case False
    with t have "sp1 = sp" "\<not> lockable sp k"
      using tryLockKey_fail [of sp k] tryLockKey_ok_iff [of sp k] by auto
    with t False Cons.prems show ?thesis by (auto simp: Unlock_def)
  next
    case True
    with t Cons.prems(1) have k: "table_ok sp1" "unlockKey sp1 k = sp" "lockable sp k"
      using tryLockKey_unlock [of sp k sp1] tryLockKey_ok_iff [of sp k] by auto
    have "tryLockLoop sp1 (pre @ [k]) ks = (sp', succ, ok)" using Cons.prems(2) t True by simp
    from Cons.IH [OF k(1) this] obtain got rest where
      ih: "table_ok sp'" "succ = (pre @ [k]) @ got" "ks = got @ rest" "Unlock sp' got = sp1"
        "ok \<longleftrightarrow> rest = []" "distinct (map key ks) \<longrightarrow> (ok \<longleftrightarrow> (\<forall>k \<in> set ks. lockable sp1 k))"
      by blast
    have "Unlock sp' (k # got) = sp" using ih(4) k(2) by (simp add: Unlock_def)
    moreover have "lockable sp1 j = lockable sp j" if "distinct (map key (k # ks))" "j \<in> set ks" for j
    proof -
      have "key j \<in> key ` set ks" using that(2) by (rule imageI)
      then have "key j \<noteq> key k" using that(1) by auto
      with tryLockKey_other [of j k sp] t show ?thesis by simp
    qed
    then have "distinct (map key (k # ks)) \<longrightarrow> (ok \<longleftrightarrow> (\<forall>j \<in> set (k # ks). lockable sp j))"
      using ih(6) k(3) by simp
    ultimately show ?thesis
      using ih(1,2,3,5) by (intro conjI exI [of _ "k # got"] exI [of _ rest]) auto
  qed
qed

text \<open>
  A caller that is alone obtains all its keys exactly when every one of them is free or
  locked for sharing and asked for sharing; otherwise it obtains those before the first
  conflict. Either way unlocking what was obtained restores the table and the counters.
\<close>

theorem TryLock_Unlock:
  assumes "table_ok sp" and "distinct (map key ks)"
  shows "case TryLock sp ks of (sp', succ, ok) \<Rightarrow>
    Unlock sp' succ = sp \<and> table_ok sp' \<and> (ok \<longleftrightarrow> (\<forall>k \<in> set ks. lockable sp k))
    \<and> (\<exists>rest. ks = succ @ rest \<and> (ok \<longleftrightarrow> rest = []))"
proof -
  obtain sp' succ ok where t: "TryLock sp ks = (sp', succ, ok)" by (cases "TryLock sp ks")
  then have "tryLockLoop sp [] ks = (sp', succ, ok)" by (simp add: TryLock_def)
  from tryLockLoop_spec [OF assms(1) this] assms(2) t show ?thesis by auto
qed

theorem TryLock_Unlock_witness:
  "case TryLock NewSpinLock [\<lparr>lockType = sharedLock, key = ''a''\<rparr>, \<lparr>lockType = exclusiveLock, key = ''b''\<rparr>]
   of (sp', succ, ok) \<Rightarrow> ok \<and> Unlock sp' succ = NewSpinLock"
proof -
  let ?ks = "[\<lparr>lockType = sharedLock, key = ''a''\<rparr>, \<lparr>lockType = exclusiveLock, key = ''b''\<rparr>]"
  have "\<forall>k \<in> set ?ks. lockable NewSpinLock k" by (simp add: lockable_def NewSpinLock_def)
  with TryLock_Unlock [OF table_ok_New, of ?ks] show ?thesis by auto
qed

section \<open>Interleaved callers\<close>

text \<open>
  A goroutine that runs a transaction: it calls \<open>TryLock\<close> on the transaction's keys, works when
  it got all of them, and calls \<open>Unlock\<close> on those it got (\<open>state.go\<close>, \<open>doTxSync\<close>). The
  constructors are its positions between two atomic operations of the maps, each with the keys
  obtained so far: \<open>Counting\<close> is between \<open>LoadOrStore\<close> and \<open>refCounter.Add\<close>, \<open>Deleting\<close> between
  \<open>refCounter.Release\<close> and \<open>m.Delete\<close>.
\<close>

datatype thread =
    Idle
  | Locking "LockKey list" "LockKey list"
  | Counting "LockKey list" LockKey "LockKey list"
  | Working "LockKey list"
  | Unlocking "LockKey list"
  | Deleting "LockKey list" LockKey

fun thread_step :: "SpinLock \<Rightarrow> thread \<Rightarrow> SpinLock \<times> thread" where
  "thread_step sp Idle = (sp, Idle)"
| "thread_step sp (Locking got []) = (sp, Working got)"
| "thread_step sp (Locking got (k # ks)) =
     (case LoadOrStore sp (key k) (lockType k) of
        (sp', Some lkType) \<Rightarrow>
          if lkType = sharedLock \<and> lockType k = sharedLock then (sp', Counting got k ks)
          else (sp', Unlocking got)
      | (sp', None) \<Rightarrow>
          if lockType k = sharedLock then (sp', Counting got k ks) else (sp', Locking (got @ [k]) ks))"
| "thread_step sp (Counting got k ks) = (rcAdd sp (key k), Locking (got @ [k]) ks)"
| "thread_step sp (Working got) = (sp, Unlocking got)"
| "thread_step sp (Unlocking got) =
     (if got = [] then (sp, Idle)
      else case lockType (last got) of
          exclusiveLock \<Rightarrow> (smDelete sp (key (last got)), Unlocking (butlast got))
        | sharedLock \<Rightarrow>
            (case rcRelease sp (key (last got)) of
               (sp', n) \<Rightarrow> if n = 0 then (sp', Deleting (butlast got) (last got))
                 else (sp', Unlocking (butlast got))))"
| "thread_step sp (Deleting got k) = (smDelete sp (key k), Unlocking got)"

text \<open>One entry of a schedule: the thread to move, and the keys it asks for when it is idle.\<close>

fun sched_step :: "nat \<times> LockKey list \<Rightarrow> SpinLock \<times> thread list \<Rightarrow> SpinLock \<times> thread list" where
  "sched_step (t, req) (sp, ths) =
     (if t < length ths
      then if ths ! t = Idle then (sp, ths[t := Locking [] req])
        else case thread_step sp (ths ! t) of (sp', th) \<Rightarrow> (sp', ths[t := th])
      else (sp, ths))"

definition run_threads :: "(nat \<times> LockKey list) list \<Rightarrow> SpinLock \<times> thread list \<Rightarrow> SpinLock \<times> thread list" where
  "run_threads sched s = fold sched_step sched s"

definition idle_threads :: "nat \<Rightarrow> SpinLock \<times> thread list" where
  "idle_threads n = (NewSpinLock, replicate n Idle)"

fun held :: "thread \<Rightarrow> LockKey list" where
  "held Idle = []"
| "held (Locking got ks) = got"
| "held (Counting got k ks) = got @ [k]"
| "held (Working got) = got"
| "held (Unlocking got) = got"
| "held (Deleting got k) = got"

definition held_n :: "string \<Rightarrow> thread \<Rightarrow> nat" where
  "held_n x th = length (filter (\<lambda>k. key k = x) (held th))"

definition excl_only :: "string \<Rightarrow> LockKey set \<Rightarrow> bool" where
  "excl_only x K \<longleftrightarrow> (\<forall>k \<in> K. key k = x \<longrightarrow> lockType k = exclusiveLock)"

fun excl_thread :: "string \<Rightarrow> thread \<Rightarrow> bool" where
  "excl_thread x (Locking got ks) \<longleftrightarrow> excl_only x (set got \<union> set ks)"
| "excl_thread x (Counting got k ks) \<longleftrightarrow> key k \<noteq> x \<and> excl_only x (set got \<union> set ks)"
| "excl_thread x (Deleting got k) \<longleftrightarrow> key k \<noteq> x \<and> excl_only x (set got)"
| "excl_thread x th \<longleftrightarrow> excl_only x (set (held th))"

definition lock_count :: "SpinLock \<Rightarrow> string \<Rightarrow> nat" where
  "lock_count sp x = (if lockMap sp x = None then 0 else 1)"

definition excl_inv :: "string \<Rightarrow> SpinLock \<times> thread list \<Rightarrow> bool" where
  "excl_inv x s \<longleftrightarrow>
     (\<forall>th \<in> set (snd s). excl_thread x th)
     \<and> lockMap (fst s) x \<noteq> Some sharedLock
     \<and> sum_list (map (held_n x) (snd s)) = lock_count (fst s) x"

lemma excl_only_simps [simp]:
  "excl_only x {}" "excl_only x (insert k K) \<longleftrightarrow> (key k = x \<longrightarrow> lockType k = exclusiveLock) \<and> excl_only x K"
  "excl_only x (A \<union> B) \<longleftrightarrow> excl_only x A \<and> excl_only x B"
  by (auto simp: excl_only_def)

lemma excl_only_mono: "excl_only x A \<Longrightarrow> B \<subseteq> A \<Longrightarrow> excl_only x B"
  by (auto simp: excl_only_def)

lemma held_n_split: "got \<noteq> [] \<Longrightarrow> length (filter P got) = length (filter P (butlast got)) + (if P (last got) then 1 else 0)"
  by (cases got rule: rev_cases) auto

text \<open>
  A step of one thread changes its number of entries for \<open>x\<close> exactly as it changes the table,
  provided a thread holds \<open>x\<close> only while the table has it.
\<close>

lemma thread_step_excl:
  assumes "excl_thread x th" and "lockMap sp x \<noteq> Some sharedLock"
    and "held_n x th \<le> lock_count sp x" and "thread_step sp th = (sp', th')"
  shows "excl_thread x th' \<and> lockMap sp' x \<noteq> Some sharedLock
    \<and> held_n x th' + lock_count sp x = held_n x th + lock_count sp' x"
  using assms
proof (cases th)
  case (Locking got ks)
  with assms show ?thesis
    by (cases ks; cases "lockType (hd ks)")
      (auto simp: spin_defs lock_count_def held_n_def split: option.splits if_splits)
next
  case (Unlocking got)
  show ?thesis
  proof (cases "got = []")
    case True
    with assms Unlocking show ?thesis by (auto simp: held_n_def)
  next
    case False
    have sub: "excl_only x (set (butlast got))" and last: "key (last got) = x \<longrightarrow> lockType (last got) = exclusiveLock"
      using assms(1) Unlocking False excl_only_mono [of x "set got" "set (butlast got)"]
      by (auto simp: excl_only_def dest: in_set_butlastD)
    with assms Unlocking False show ?thesis
      by (cases "lockType (last got)")
        (auto simp: spin_defs lock_count_def held_n_def held_n_split [OF False] split: if_splits)
  qed
next
  case (Deleting got k)
  with assms show ?thesis
    by (auto simp: spin_defs lock_count_def held_n_def split: if_splits)
qed (auto simp: held_n_def lock_count_def spin_defs)

lemma excl_inv_step:
  assumes inv: "excl_inv x s" and req: "excl_only x (set (snd q))"
  shows "excl_inv x (sched_step q s)"
proof -
  obtain sp ths t r where s: "s = (sp, ths)" and q: "q = (t, r)" by (cases s, cases q)
  have all: "excl_thread x th" if "th \<in> set ths" for th
    using inv that s by (auto simp: excl_inv_def)
  have tab: "lockMap sp x \<noteq> Some sharedLock" and sum: "sum_list (map (held_n x) ths) = lock_count sp x"
    using inv s by (auto simp: excl_inv_def)
  show ?thesis
  proof (cases "t < length ths")
    case False
    with inv s q show ?thesis by simp
  next
    case t: True
    have le: "held_n x (ths ! t) \<le> sum_list (map (held_n x) ths)"
      using t member_le_sum_list [of "held_n x (ths ! t)" "map (held_n x) ths"] by simp
    have upd: "sum_list (map (held_n x) (ths[t := th])) = sum_list (map (held_n x) ths) + held_n x th - held_n x (ths ! t)"
      for th using t by (simp add: map_update sum_list_update)
    have mem: "excl_thread x y" if "y \<in> set (ths[t := th])" "excl_thread x th" for y th
      using that all set_update_subset_insert [of ths t th] by auto
    show ?thesis
    proof (cases "ths ! t = Idle")
      case True
      have "excl_thread x (Locking [] r)" using req q by simp
      moreover have "held_n x (Locking [] r) = held_n x (ths ! t)" using True by (simp add: held_n_def)
      ultimately show ?thesis
        using s q t True tab sum upd [of "Locking [] r"] mem [of _ "Locking [] r"] by (auto simp: excl_inv_def)
    next
      case False
      obtain sp' th where st: "thread_step sp (ths ! t) = (sp', th)" by (cases "thread_step sp (ths ! t)")
      have "excl_thread x (ths ! t)" using all t by simp
      from thread_step_excl [OF this tab _ st] le sum
      have th: "excl_thread x th" "lockMap sp' x \<noteq> Some sharedLock"
        "held_n x th + lock_count sp x = held_n x (ths ! t) + lock_count sp' x" by simp_all
      have "sum_list (map (held_n x) (ths[t := th])) = lock_count sp' x"
        using upd [of th] th(3) sum le by simp
      then show ?thesis
        using s q t False st th(1,2) mem [of _ th] by (auto simp: excl_inv_def)
    qed
  qed
qed

lemma excl_inv_run:
  "excl_inv x s \<Longrightarrow> \<forall>q \<in> set sched. excl_only x (set (snd q)) \<Longrightarrow> excl_inv x (run_threads sched s)"
  by (induction sched arbitrary: s) (auto simp: run_threads_def excl_inv_step)

lemma excl_inv_idle: "excl_inv x (idle_threads n)"
  by (induction n) (auto simp: excl_inv_def idle_threads_def NewSpinLock_def lock_count_def held_n_def)

lemma sum_list_two:
  fixes f :: "nat list"
  shows "i < length f \<Longrightarrow> j < length f \<Longrightarrow> i \<noteq> j \<Longrightarrow> f ! i + f ! j \<le> sum_list f"
proof (induction f arbitrary: i j)
  case (Cons a f)
  have "f ! n \<le> sum_list f" if "n < length f" for n
    using that by (simp add: member_le_sum_list)
  with Cons show ?case by (cases i; cases j) (auto simp: add_increasing)
qed simp

text \<open>
  C16: Mutual exclusion. For any number of goroutines and any interleaving of the atomic
  operations of \<open>TryLock\<close> and \<open>Unlock\<close>, a key that is only ever asked for exclusively (every key
  of an unspent output is) is held by at most one goroutine, and it is in the table exactly while
  somebody holds it.
\<close>

theorem exclusive_key_held_once:
  assumes "\<forall>q \<in> set sched. excl_only x (set (snd q))"
    and "run_threads sched (idle_threads n) = (sp, ths)"
  shows "(\<forall>i < length ths. \<forall>j < length ths.
      x \<in> key ` set (held (ths ! i)) \<and> x \<in> key ` set (held (ths ! j)) \<longrightarrow> i = j)
    \<and> (IsLocked sp x \<longleftrightarrow> (\<exists>th \<in> set ths. x \<in> key ` set (held th)))"
proof -
  have inv: "excl_inv x (sp, ths)"
    using excl_inv_run [OF excl_inv_idle assms(1), of n] assms(2) by simp
  then have sum: "sum_list (map (held_n x) ths) = lock_count sp x" by (simp add: excl_inv_def)
  have pos: "0 < held_n x th \<longleftrightarrow> x \<in> key ` set (held th)" for th
    by (auto simp: held_n_def filter_empty_conv)
  have le: "lock_count sp x \<le> 1" by (simp add: lock_count_def)
  have "i = j" if "i < length ths" "j < length ths" "0 < held_n x (ths ! i)" "0 < held_n x (ths ! j)" for i j
  proof (rule ccontr)
    assume "i \<noteq> j"
    with sum_list_two [of i "map (held_n x) ths" j] that sum le show False by simp
  qed
  moreover have "IsLocked sp x \<longleftrightarrow> sum_list (map (held_n x) ths) \<noteq> 0"
    unfolding sum by (simp add: IsLocked_def lock_count_def)
  then have "IsLocked sp x \<longleftrightarrow> (\<exists>th \<in> set ths. 0 < held_n x th)"
    by (auto simp: sum_list_eq_0_iff)
  ultimately show ?thesis unfolding pos by blast
qed

definition xkey :: "string \<Rightarrow> LockKey" where
  "xkey k = \<lparr>lockType = exclusiveLock, key = k\<rparr>"

definition skey :: "string \<Rightarrow> LockKey" where
  "skey k = \<lparr>lockType = sharedLock, key = k\<rparr>"

lemmas spin_eval = run_threads_def idle_threads_def NewSpinLock_def spin_defs xkey_def skey_def
  IsLocked_def numeral_2_eq_2 numeral_3_eq_3

theorem exclusive_key_held_once_witness:
  "IsLocked (fst (run_threads [(0, [xkey ''u'']), (1, [xkey ''u'']), (0, []), (1, [])] (idle_threads 2))) ''u''"
proof -
  let ?q = "[(0, [xkey ''u'']), (1, [xkey ''u'']), (0, []), (1, [])] :: (nat \<times> LockKey list) list"
  obtain sp ths where r: "run_threads ?q (idle_threads 2) = (sp, ths)"
    by (cases "run_threads ?q (idle_threads 2)")
  have "\<forall>q \<in> set ?q. excl_only ''u'' (set (snd q))" by (simp add: excl_only_def xkey_def)
  from exclusive_key_held_once [OF this r] have "IsLocked sp ''u'' \<longleftrightarrow> (\<exists>th \<in> set ths. ''u'' \<in> key ` set (held th))"
    by blast
  moreover have "snd (run_threads ?q (idle_threads 2)) = [Locking [xkey ''u''] [], Unlocking []]"
    by (simp add: spin_eval)
  ultimately show ?thesis using r by (simp add: xkey_def)
qed

text \<open>
  The counter and the table are updated one after the other, so shared keys are not protected:
  a reader that is between \<open>Release\<close> and \<open>Delete\<close> deletes the entry that a second reader has
  just joined, and a writer then obtains the key while the second reader works with it.
\<close>

lemma shared_key_race:
  "snd (run_threads
     [(0, [skey ''k'']), (0, []), (0, []), (0, []), (0, []), (0, []),
      (1, [skey ''k'']), (1, []), (1, []), (1, []), (0, []),
      (2, [xkey ''k'']), (2, []), (2, [])] (idle_threads 3))
   = [Unlocking [], Working [skey ''k''], Working [xkey ''k'']]"
  by (simp add: spin_eval)

end
