(* ===== verification/Go_Bytes.thy ===== *)
theory Go_Bytes
  imports Xuper_Base
begin

text \<open>
  Integers as bytes (\<open>encoding/binary\<close>) and self-delimiting encoders: an encoder whose output can
  be cut off the front of any byte string in only one way. Such encoders are closed under
  pairing and under counted lists, which is how the hash of a transaction is built.
\<close>

section \<open>Integers\<close>

text \<open>\<open>binary.Write\<close> with \<open>LittleEndian\<close>: \<open>n\<close> bytes of an integer, the lowest first.\<close>

fun le_bytes :: "nat \<Rightarrow> int \<Rightarrow> bytes" where
  "le_bytes 0 x = []"
| "le_bytes (Suc n) x = char_of (nat (x mod 256)) # le_bytes n (x div 256)"

definition be_bytes :: "nat \<Rightarrow> int \<Rightarrow> bytes" where
  "be_bytes n x = rev (le_bytes n x)"

definition is_i32 :: "int \<Rightarrow> bool" where
  "is_i32 x \<longleftrightarrow> - (2 ^ 31) \<le> x \<and> x < 2 ^ 31"

lemma length_le_bytes [simp]: "length (le_bytes n x) = n"
  by (induction n arbitrary: x) auto

lemma char_of_byte: "char_of (nat (x mod 256)) = char_of (nat (y mod 256)) \<longleftrightarrow> x mod 256 = y mod 256" for x y :: int
proof
  assume "char_of (nat (x mod 256)) = char_of (nat (y mod 256))"
  then have "nat (x mod 256) mod 256 = nat (y mod 256) mod 256"
    by (metis of_char_of)
  moreover have "nat (z mod 256) mod 256 = nat (z mod 256)" for z :: int
    by (simp add: nat_less_iff)
  ultimately show "x mod 256 = y mod 256" by (simp add: eq_nat_nat_iff)
qed simp

lemma le_bytes_eq_iff: "le_bytes n x = le_bytes n y \<longleftrightarrow> x mod 256 ^ n = y mod 256 ^ n"
proof (induction n arbitrary: x y)
  case (Suc n)
  have *: "z mod (256 * 256 ^ n) = 256 * (z div 256 mod 256 ^ n) + z mod 256" for z :: int
    by (rule zmod_zmult2_eq) simp
  have "x mod 256 ^ Suc n = y mod 256 ^ Suc n \<longleftrightarrow> x mod 256 = y mod 256 \<and> x div 256 mod 256 ^ n = y div 256 mod 256 ^ n"
  proof
    assume "x mod 256 ^ Suc n = y mod 256 ^ Suc n"
    then have eq: "256 * (x div 256 mod 256 ^ n) + x mod 256 = 256 * (y div 256 mod 256 ^ n) + y mod 256"
      by (simp add: *)
    then have "(256 * (x div 256 mod 256 ^ n) + x mod 256) mod 256 = (256 * (y div 256 mod 256 ^ n) + y mod 256) mod 256"
      by simp
    then have "x mod 256 = y mod 256" by simp
    with eq show "x mod 256 = y mod 256 \<and> x div 256 mod 256 ^ n = y div 256 mod 256 ^ n" by simp
  qed (simp add: *)
  then show ?case by (simp add: char_of_byte Suc.IH eq_nat_nat_iff)
qed simp

lemma le_bytes_inj_signed:
  assumes "- (256 ^ n) \<le> 2 * x" "2 * x < 256 ^ n" "- (256 ^ n) \<le> 2 * y" "2 * y < 256 ^ n"
    and "le_bytes n x = le_bytes n y"
  shows "x = y"
proof -
  have "(256 :: int) ^ n dvd x - y"
    using assms(5) by (simp add: le_bytes_eq_iff mod_eq_dvd_iff)
  moreover have "\<bar>x - y\<bar> < 256 ^ n" using assms(1-4) by (simp add: abs_less_iff)
  ultimately show ?thesis using zdvd_imp_le [of "256 ^ n" "\<bar>x - y\<bar>"] by auto
qed

lemma le_bytes4_inj: "is_i32 x \<Longrightarrow> is_i32 y \<Longrightarrow> le_bytes 4 x = le_bytes 4 y \<Longrightarrow> x = y"
  by (rule le_bytes_inj_signed [of 4]) (auto simp: is_i32_def)

lemma le_bytes8_inj: "is_i64 x \<Longrightarrow> is_i64 y \<Longrightarrow> le_bytes 8 x = le_bytes 8 y \<Longrightarrow> x = y"
  by (rule le_bytes_inj_signed [of 8]) (auto simp: is_i64_def)

lemma append_split: "length a = length c \<Longrightarrow> a @ b = c @ d \<Longrightarrow> a = c \<and> b = d"
  by simp

lemma length_be_bytes [simp]: "length (be_bytes n x) = n"
  by (simp add: be_bytes_def)

lemma is_i32_i64: "is_i32 x \<Longrightarrow> is_i64 x"
  by (simp add: is_i32_def is_i64_def)

section \<open>Self-delimiting encoders\<close>

definition self_delim :: "('a \<Rightarrow> bytes) \<Rightarrow> ('a \<Rightarrow> bool) \<Rightarrow> bool" where
  "self_delim e P \<longleftrightarrow> (\<forall>x y r s. P x \<longrightarrow> P y \<longrightarrow> e x @ r = e y @ s \<longrightarrow> x = y \<and> r = s)"

lemma self_delimI: "(\<And>x y r s. P x \<Longrightarrow> P y \<Longrightarrow> e x @ r = e y @ s \<Longrightarrow> x = y \<and> r = s) \<Longrightarrow> self_delim e P"
  unfolding self_delim_def by blast

lemma self_delimD: "self_delim e P \<Longrightarrow> P x \<Longrightarrow> P y \<Longrightarrow> e x @ r = e y @ s \<Longrightarrow> x = y \<and> r = s"
  unfolding self_delim_def by blast

lemma self_delim_inj: "self_delim e P \<Longrightarrow> P x \<Longrightarrow> P y \<Longrightarrow> e x = e y \<Longrightarrow> x = y"
  using self_delimD [of e P x y "[]" "[]"] by simp

definition encInt64 :: "int \<Rightarrow> bytes" where
  "encInt64 x = be_bytes 8 x"

definition encString :: "string \<Rightarrow> bytes" where
  "encString s = encInt64 (int (length s)) @ s"

definition encBool :: "bool \<Rightarrow> bytes" where
  "encBool b = encInt64 (if b then 1 else 0)"

definition encPair :: "('a \<Rightarrow> bytes) \<Rightarrow> ('b \<Rightarrow> bytes) \<Rightarrow> 'a \<times> 'b \<Rightarrow> bytes" where
  "encPair e f p = e (fst p) @ f (snd p)"

definition encList :: "('a \<Rightarrow> bytes) \<Rightarrow> 'a list \<Rightarrow> bytes" where
  "encList e xs = encInt64 (int (length xs)) @ concat (map e xs)"

definition go_len :: "'a list \<Rightarrow> bool" where
  "go_len xs \<longleftrightarrow> length xs < 2 ^ 63"

named_theorems delim \<open>encoders that are self-delimiting\<close>

lemma delim_int [delim]: "self_delim encInt64 is_i64"
proof (rule self_delimI)
  fix x y r s
  assume "is_i64 x" "is_i64 y" "encInt64 x @ r = encInt64 y @ s"
  then show "x = y \<and> r = s" by (auto simp: encInt64_def be_bytes_def dest: le_bytes8_inj)
qed

lemma is_i64_len: "go_len xs \<Longrightarrow> is_i64 (int (length xs))"
  by (simp add: go_len_def is_i64_def)

lemma delim_string [delim]: "self_delim encString go_len"
proof (rule self_delimI)
  fix x y r s
  assume len: "go_len x" "go_len y" and eq: "encString x @ r = encString y @ s"
  then have "encInt64 (int (length x)) @ x @ r = encInt64 (int (length y)) @ y @ s" by (simp add: encString_def)
  from self_delimD [OF delim_int is_i64_len [OF len(1)] is_i64_len [OF len(2)] this]
  show "x = y \<and> r = s" by auto
qed

lemma delim_bool [delim]: "self_delim encBool (\<lambda>_. True)"
proof (rule self_delimI)
  fix x y r s
  assume "encBool x @ r = encBool y @ s"
  moreover have "is_i64 (if b then 1 else 0)" for b by (simp add: is_i64_def)
  ultimately have "(if x then 1 else 0) = (if y then 1 else (0::int)) \<and> r = s"
    unfolding encBool_def by (intro self_delimD [OF delim_int]) blast+
  then show "x = y \<and> r = s" by (cases x; cases y) simp_all
qed

lemma delim_pair [delim]:
  assumes "self_delim e P" and "self_delim f Q"
  shows "self_delim (encPair e f) (\<lambda>p. P (fst p) \<and> Q (snd p))"
proof (rule self_delimI)
  fix x y r s
  assume P: "P (fst x) \<and> Q (snd x)" "P (fst y) \<and> Q (snd y)" and eq: "encPair e f x @ r = encPair e f y @ s"
  then have "e (fst x) @ f (snd x) @ r = e (fst y) @ f (snd y) @ s" by (simp add: encPair_def)
  from self_delimD [OF assms(1) _ _ this] P have "fst x = fst y" "f (snd x) @ r = f (snd y) @ s" by auto
  with self_delimD [OF assms(2) _ _ this(2)] P show "x = y \<and> r = s" by (auto simp: prod_eq_iff)
qed

lemma delim_concat:
  assumes "self_delim e P" and "length xs = length ys" and "\<forall>x\<in>set xs. P x" and "\<forall>y\<in>set ys. P y"
    and "concat (map e xs) @ r = concat (map e ys) @ s"
  shows "xs = ys \<and> r = s"
  using assms(2-)
proof (induction xs ys arbitrary: r s rule: list_induct2)
  case (Cons x xs y ys)
  then have "e x @ (concat (map e xs) @ r) = e y @ (concat (map e ys) @ s)" by simp
  from self_delimD [OF assms(1) _ _ this] Cons.prems have "x = y" "concat (map e xs) @ r = concat (map e ys) @ s" by auto
  with Cons show ?case by simp
qed simp

lemma delim_list [delim]:
  assumes "self_delim e P"
  shows "self_delim (encList e) (\<lambda>xs. go_len xs \<and> (\<forall>x\<in>set xs. P x))"
proof (rule self_delimI)
  fix xs ys r s
  assume P: "go_len xs \<and> (\<forall>x\<in>set xs. P x)" "go_len ys \<and> (\<forall>x\<in>set ys. P x)" and eq: "encList e xs @ r = encList e ys @ s"
  then have "encInt64 (int (length xs)) @ concat (map e xs) @ r = encInt64 (int (length ys)) @ concat (map e ys) @ s"
    by (simp add: encList_def)
  from self_delimD [OF delim_int _ _ this] P
  have "length xs = length ys" "concat (map e xs) @ r = concat (map e ys) @ s" by (auto simp: is_i64_len)
  from delim_concat [OF assms this(1) _ _ this(2)] P show "xs = ys \<and> r = s" by blast
qed

end
