(* ===== verification/Merkle_Hash.thy ===== *)
theory Merkle_Hash
  imports Xledger_Types Go_Bytes
begin

text \<open>
  The Merkle tree and the id of a block (\<open>ledger/ledger_hash.go\<close>). The hash function is the
  parameter \<open>sha256\<close>. The tree is the array the code fills, level after level, with \<open>None\<close> for
  the nodes it leaves \<open>nil\<close>; \<open>merkle_spec\<close> is the usual recursive definition of a Merkle root,
  and the first theorem says that the array ends with it.
\<close>

unbundle bit_operations_syntax

section \<open>The tree\<close>

text \<open>
  The exponent of the next power of two. The code truncates the floating-point logarithm, which
  is exact for the transaction counts that fit in a block.
\<close>

fun log2_floor :: "nat \<Rightarrow> nat" where
  "log2_floor n = (if n < 2 then 0 else Suc (log2_floor (n div 2)))"

declare log2_floor.simps [simp del]

definition getLeafSize :: "nat \<Rightarrow> nat" where
  "getLeafSize txCount = (if txCount AND (txCount - 1) = 0 then txCount else 2 ^ (log2_floor txCount + 1))"

definition merkleDoubleSha256 :: "(bytes \<Rightarrow> bytes) \<Rightarrow> bytes \<Rightarrow> bytes \<Rightarrow> bytes" where
  "merkleDoubleSha256 sha256 left right = sha256 (sha256 (left @ right))"

text \<open>A leaf is an arena slot of 32 bytes into which the transaction id is copied.\<close>

definition leafOf :: "Transaction \<Rightarrow> bytes" where
  "leafOf tx = take 32 (contents (txTxid tx) @ replicate 32 (CHR 0x00))"

definition parentOf :: "(bytes \<Rightarrow> bytes) \<Rightarrow> slice \<Rightarrow> slice \<Rightarrow> slice" where
  "parentOf sha256 l r =
     (case l of
        None \<Rightarrow> None
      | Some a \<Rightarrow> (case r of
          None \<Rightarrow> Some (merkleDoubleSha256 sha256 a a)
        | Some b \<Rightarrow> Some (merkleDoubleSha256 sha256 a b)))"

function fillTree :: "(bytes \<Rightarrow> bytes) \<Rightarrow> nat \<Rightarrow> nat \<Rightarrow> slice list \<Rightarrow> slice list" where
  "fillTree sha256 i noneLeafOffset tree =
     (if i < length tree - 1
      then fillTree sha256 (i + 2) (Suc noneLeafOffset)
             (tree[noneLeafOffset := parentOf sha256 (tree ! i) (tree ! (i + 1))])
      else tree)"
  by auto
termination by (relation "measure (\<lambda>(_, i, _, tree). length tree - i)") auto

declare fillTree.simps [simp del]

definition MakeMerkleTree :: "(bytes \<Rightarrow> bytes) \<Rightarrow> Transaction list \<Rightarrow> slice list" where
  "MakeMerkleTree sha256 txList =
     (if txList = [] then []
      else let leafSize = getLeafSize (length txList);
               treeSize = leafSize * 2 - 1
           in fillTree sha256 0 leafSize
                (map (Some \<circ> leafOf) txList @ replicate (treeSize - length txList) None))"

datatype hash_error = MerkleRootWrong | CanNotMakeMerkleTree

definition VerifyMerkle :: "(bytes \<Rightarrow> bytes) \<Rightarrow> InternalBlock \<Rightarrow> hash_error + unit" where
  "VerifyMerkle sha256 block =
     (let merkleTree = MakeMerkleTree sha256 (ibTransactions block)
      in if 0 < length merkleTree
         then let merkleRoot = merkleTree ! (length merkleTree - 1)
              in if \<not> bytes_equal merkleRoot (ibMerkleRoot block) then Inl MerkleRootWrong else Inr ()
         else Inl CanNotMakeMerkleTree)"

section \<open>The block id\<close>

definition encodeFailedTxs :: "InternalBlock \<Rightarrow> bytes" where
  "encodeFailedTxs block = concat (map snd (sort_key fst (ibFailedTxs block)))"

definition encodeJustify :: "InternalBlock \<Rightarrow> bytes" where
  "encodeJustify block =
     (case ibJustify block of
        None \<Rightarrow> []
      | Some j \<Rightarrow> contents (jProposalId j) @ contents (jProposalMsg j) @ le_bytes 4 (jType j)
          @ le_bytes 8 (jViewNumber j)
          @ concat (map (\<lambda>s. qsAddress s @ qsPublicKey s @ contents (qsSign s)) (contents_list (jSignInfos j))))"

definition blockBuffer :: "InternalBlock \<Rightarrow> bytes" where
  "blockBuffer block =
     le_bytes 4 (ibVersion block) @ le_bytes 4 (ibNonce block) @ le_bytes 4 (ibTxCount block)
     @ contents (ibProposer block) @ le_bytes 8 (ibTimestamp block) @ contents (ibPubkey block)
     @ contents (ibPreHash block) @ contents (ibMerkleRoot block) @ encodeFailedTxs block
     @ le_bytes 8 (ibCurTerm block) @ le_bytes 8 (ibCurBlockNum block)
     @ (if 0 < ibTargetBits block then le_bytes 4 (ibTargetBits block) else [])
     @ encodeJustify block"

definition MakeBlockID :: "(bytes \<Rightarrow> bytes) \<Rightarrow> InternalBlock \<Rightarrow> bytes" where
  "MakeBlockID sha256 block = sha256 (sha256 (blockBuffer block))"

section \<open>The leaf count\<close>

lemma log2_floor_bounds: "0 < n \<Longrightarrow> 2 ^ log2_floor n \<le> n \<and> n < 2 ^ Suc (log2_floor n)"
proof (induction n rule: log2_floor.induct)
  case (1 n)
  show ?case
  proof (cases "n < 2")
    case True
    with "1.prems" show ?thesis by (simp add: log2_floor.simps)
  next
    case False
    then have ih: "2 ^ log2_floor (n div 2) \<le> n div 2" "n div 2 < 2 ^ Suc (log2_floor (n div 2))"
      using "1.IH" by auto
    have "log2_floor n = Suc (log2_floor (n div 2))" using False by (simp add: log2_floor.simps)
    with ih show ?thesis by simp linarith
  qed
qed

lemma and_pred_zero_iff: "0 < n \<Longrightarrow> n AND (n - 1) = 0 \<longleftrightarrow> (\<exists>k. n = 2 ^ k)" for n :: nat
proof (induction n rule: less_induct)
  case (less n)
  show ?case
  proof (cases "even n")
    case True
    then obtain m where m: "n = 2 * m" by auto
    with less.prems have pos: "0 < m" by simp
    have "odd (n - 1)" "(n - 1) div 2 = m - 1" using m pos by auto
    then have "n AND (n - 1) = 2 * (m AND (m - 1))"
      by (subst and_nat_rec) (simp add: m)
    moreover have "(\<exists>k. n = 2 ^ k) \<longleftrightarrow> (\<exists>k. m = 2 ^ k)"
    proof
      assume "\<exists>k. n = 2 ^ k"
      then obtain k where "n = 2 ^ k" by blast
      with True m show "\<exists>k. m = 2 ^ k" by (cases k) auto
    next
      assume "\<exists>k. m = 2 ^ k"
      then obtain k where "m = 2 ^ k" by blast
      with m have "n = 2 ^ Suc k" by simp
      then show "\<exists>k. n = 2 ^ k" by blast
    qed
    ultimately show ?thesis using less.IH [of m] m pos by auto
  next
    case False
    then obtain m where m: "n = 2 * m + 1" by (auto elim: oddE)
    then have "n AND (n - 1) = 2 * m" by (subst and_nat_rec) simp
    moreover have "(\<exists>k. n = 2 ^ k) \<longleftrightarrow> m = 0"
    proof
      assume "\<exists>k. n = 2 ^ k"
      then obtain k where k: "n = 2 ^ k" by blast
      with False have "k = 0" by (cases k) auto
      with k m show "m = 0" by simp
    qed (use m in \<open>auto intro: exI [of _ 0]\<close>)
    ultimately show ?thesis by simp
  qed
qed

text \<open>The leaf count is the least power of two that holds all transactions.\<close>

lemma getLeafSize_power:
  assumes "0 < n"
  obtains k where "getLeafSize n = 2 ^ k" "n \<le> 2 ^ k" "2 ^ k < 2 * n"
proof (cases "n AND (n - 1) = 0")
  case True
  with assms obtain k where "n = 2 ^ k" using and_pred_zero_iff by blast
  with True assms that [of k] show ?thesis by (simp add: getLeafSize_def)
next
  case False
  have b: "2 ^ log2_floor n \<le> n" "n < 2 ^ Suc (log2_floor n)" using log2_floor_bounds assms by auto
  have "n \<noteq> 2 ^ log2_floor n" using False and_pred_zero_iff [OF assms] by metis
  with b that [of "Suc (log2_floor n)"] False show ?thesis by (simp add: getLeafSize_def)
qed


section \<open>The array is the tree\<close>

fun pairUp :: "(bytes \<Rightarrow> bytes) \<Rightarrow> slice list \<Rightarrow> slice list" where
  "pairUp h (a # b # xs) = parentOf h a b # pairUp h xs"
| "pairUp h xs = []"

primrec levels :: "(bytes \<Rightarrow> bytes) \<Rightarrow> nat \<Rightarrow> slice list \<Rightarrow> slice list" where
  "levels h 0 xs = xs"
| "levels h (Suc k) xs = xs @ levels h k (pairUp h xs)"

primrec apex :: "(bytes \<Rightarrow> bytes) \<Rightarrow> nat \<Rightarrow> slice list \<Rightarrow> slice" where
  "apex h 0 xs = hd xs"
| "apex h (Suc k) xs = apex h k (pairUp h xs)"

text \<open>The Merkle root of at most \<open>2 ^ k\<close> leaves: the hash of the roots of the two halves.\<close>

primrec merkle_spec :: "(bytes \<Rightarrow> bytes) \<Rightarrow> nat \<Rightarrow> bytes list \<Rightarrow> slice" where
  "merkle_spec h 0 xs = (case xs of [] \<Rightarrow> None | x # _ \<Rightarrow> Some x)"
| "merkle_spec h (Suc k) xs = parentOf h (merkle_spec h k (take (2 ^ k) xs)) (merkle_spec h k (drop (2 ^ k) xs))"

lemma length_pairUp: "length (pairUp h xs) = length xs div 2"
  by (induction h xs rule: pairUp.induct) auto

lemma nth_pairUp: "2 * j + 1 < length xs \<Longrightarrow> pairUp h xs ! j = parentOf h (xs ! (2 * j)) (xs ! (2 * j + 1))"
proof (induction h xs arbitrary: j rule: pairUp.induct)
  case (1 h a b xs)
  then show ?case by (cases j) auto
qed auto

lemma pairUp_append: "even (length xs) \<Longrightarrow> pairUp h (xs @ ys) = pairUp h xs @ pairUp h ys"
  by (induction h xs rule: pairUp.induct) auto

lemma length_levels: "length xs = 2 ^ k \<Longrightarrow> length (levels h k xs) = 2 * 2 ^ k - 1"
  by (induction k arbitrary: xs) (auto simp: length_pairUp)

lemma levels_prefix: "i < length xs \<Longrightarrow> levels h k xs ! i = xs ! i"
  by (cases k) (auto simp: nth_append)

text \<open>What the loop makes of the array: every inner node is the parent of its two children.\<close>

lemma levels_node:
  "length xs = 2 ^ k \<Longrightarrow> j < 2 ^ k - 1 \<Longrightarrow>
   levels h k xs ! (2 ^ k + j) = parentOf h (levels h k xs ! (2 * j)) (levels h k xs ! (2 * j + 1))"
proof (induction k arbitrary: xs j)
  case (Suc k)
  let ?m = "2 ^ k :: nat" and ?v = "levels h k (pairUp h xs)"
  have len: "length (pairUp h xs) = ?m" using Suc.prems(1) by (simp add: length_pairUp)
  have node: "levels h (Suc k) xs ! (2 ^ Suc k + i) = ?v ! i" for i
    using Suc.prems(1) by (simp add: nth_append)
  show ?case
  proof (cases "j < ?m")
    case True
    then have "?v ! j = pairUp h xs ! j" using len by (simp add: levels_prefix)
    also have "\<dots> = parentOf h (xs ! (2 * j)) (xs ! (2 * j + 1))"
      using True Suc.prems(1) by (intro nth_pairUp) simp
    finally show ?thesis
      unfolding node using True Suc.prems(1) by (simp add: nth_append)
  next
    case False
    then obtain i where i: "j = ?m + i" by (metis le_Suc_ex not_less)
    have "?v ! (?m + i) = parentOf h (?v ! (2 * i)) (?v ! (2 * i + 1))"
      using Suc.prems(2) i len by (intro Suc.IH) auto
    moreover have "levels h (Suc k) xs ! (2 * j) = ?v ! (2 * i)"
      "levels h (Suc k) xs ! (2 * j + 1) = ?v ! (2 * i + 1)"
      using node [of "2 * i"] node [of "2 * i + 1"] i by (simp_all add: algebra_simps)
    ultimately show ?thesis unfolding node by (simp add: i)
  qed
qed simp

lemma last_levels: "length xs = 2 ^ k \<Longrightarrow> last (levels h k xs) = apex h k xs"
proof (induction k arbitrary: xs)
  case 0
  then show ?case by (cases xs) auto
next
  case (Suc k)
  have len: "length (pairUp h xs) = 2 ^ k" using Suc.prems by (simp add: length_pairUp)
  then have "levels h k (pairUp h xs) \<noteq> []"
    using length_levels [OF len, of h] by (metis length_0_conv not_one_le_zero one_le_power
        one_le_numeral diff_is_0_eq le_numeral_extra(4) mult_2 add_le_same_cancel1 order_trans)
  with Suc.IH [OF len] show ?case by simp
qed

lemma fillTree_levels:
  assumes "length xs = 2 ^ k"
  shows "i = 2 * j \<Longrightarrow> j \<le> 2 ^ k - 1 \<Longrightarrow> length tree = 2 * 2 ^ k - 1 \<Longrightarrow>
    (\<And>n. n < 2 ^ k + j \<Longrightarrow> tree ! n = levels h k xs ! n) \<Longrightarrow>
    fillTree h i (2 ^ k + j) tree = levels h k xs"
proof (induction "2 ^ k - 1 - j" arbitrary: i j tree)
  case 0
  then have j: "j = 2 ^ k - 1" by simp
  then have "\<not> i < length tree - 1" using "0.prems"(1,3) by auto
  then have "fillTree h i (2 ^ k + j) tree = tree" by (simp add: fillTree.simps)
  moreover have "tree = levels h k xs"
  proof (rule nth_equalityI)
    show "length tree = length (levels h k xs)"
      using 0 assms by (simp add: length_levels)
    show "tree ! n = levels h k xs ! n" if "n < length tree" for n
      using that j "0.prems"(3) by (intro "0.prems"(4)) auto
  qed
  ultimately show ?case by simp
next
  case (Suc d)
  have j: "j < 2 ^ k - 1" using Suc.hyps(2) by simp
  let ?t = "tree[2 ^ k + j := parentOf h (tree ! i) (tree ! (i + 1))]"
  have step: "fillTree h i (2 ^ k + j) tree = fillTree h (i + 2) (2 ^ k + Suc j) ?t"
    using j Suc.prems(1,3) by (subst fillTree.simps) auto
  have "?t ! n = levels h k xs ! n" if n: "n < 2 ^ k + Suc j" for n
  proof (cases "n = 2 ^ k + j")
    case True
    have "tree ! i = levels h k xs ! (2 * j)" "tree ! (i + 1) = levels h k xs ! (2 * j + 1)"
      using Suc.prems(1,4) j by simp_all
    then show ?thesis
      using True levels_node [OF assms j, of h] Suc.prems(3) j by simp
  next
    case False
    with n Suc.prems(4) show ?thesis by simp
  qed
  with Suc.hyps(1) [of "Suc j" "i + 2" ?t] Suc.hyps(2) Suc.prems(1,3) j show ?case
    unfolding step by simp
qed

lemma apex_halves:
  "length xs = 2 ^ Suc k \<Longrightarrow> apex h (Suc k) xs = parentOf h (apex h k (take (2 ^ k) xs)) (apex h k (drop (2 ^ k) xs))"
proof (induction k arbitrary: xs)
  case 0
  then obtain a b where "xs = [a, b]"
    by (metis (no_types, lifting) One_nat_def Suc_length_conv length_0_conv numeral_2_eq_2 power_one_right)
  then show ?case by simp
next
  case (Suc k)
  let ?m = "2 ^ Suc k"
  have xs: "xs = take ?m xs @ drop ?m xs" by simp
  have p: "pairUp h xs = pairUp h (take ?m xs) @ pairUp h (drop ?m xs)"
    by (subst xs, subst pairUp_append) (use Suc.prems in auto)
  have len: "length (pairUp h (take ?m xs)) = 2 ^ k"
    using Suc.prems by (simp add: length_pairUp)
  have "apex h (Suc (Suc k)) xs = apex h (Suc k) (pairUp h xs)" by simp
  also have "\<dots> = parentOf h (apex h k (take (2 ^ k) (pairUp h xs))) (apex h k (drop (2 ^ k) (pairUp h xs)))"
    using Suc.prems by (intro Suc.IH) (simp add: length_pairUp)
  finally show ?case using p len by simp
qed

definition pad :: "nat \<Rightarrow> bytes list \<Rightarrow> slice list" where
  "pad n as = map Some as @ replicate (n - length as) None"

lemma pad_halves:
  "length as \<le> 2 * n \<Longrightarrow> take n (pad (2 * n) as) = pad n (take n as) \<and> drop n (pad (2 * n) as) = pad n (drop n as)"
  by (auto simp: pad_def take_map drop_map min_def not_le)

lemma apex_pad: "length as \<le> 2 ^ k \<Longrightarrow> apex h k (pad (2 ^ k) as) = merkle_spec h k as"
proof (induction k arbitrary: as)
  case 0
  then show ?case by (cases as) (auto simp: pad_def)
next
  case (Suc k)
  have "apex h (Suc k) (pad (2 ^ Suc k) as)
      = parentOf h (apex h k (take (2 ^ k) (pad (2 ^ Suc k) as))) (apex h k (drop (2 ^ k) (pad (2 ^ Suc k) as)))"
    using Suc.prems by (intro apex_halves) (simp add: pad_def)
  then show ?case
    using pad_halves [of as "2 ^ k"] Suc.prems by (simp add: Suc.IH)
qed

lemma merkle_tree_levels:
  assumes "txs \<noteq> []" and "length txs \<le> 2 ^ k" and "2 ^ k < 2 * length txs"
  shows "MakeMerkleTree sha256 txs = levels sha256 k (pad (2 ^ k) (map leafOf txs))"
proof -
  have pos: "0 < length txs" using assms(1) by simp
  obtain k' where k': "getLeafSize (length txs) = 2 ^ k'" "length txs \<le> 2 ^ k'" "2 ^ k' < 2 * length txs"
    using getLeafSize_power [OF pos] .
  have "(2::nat) ^ k' < 2 ^ Suc k" "(2::nat) ^ k < 2 ^ Suc k'" using assms k' by simp_all
  then have "k' = k"
    by (metis less_Suc_eq_le nat_less_le not_less order_antisym power_strict_increasing_iff one_less_numeral_iff semiring_norm(76))
  then have leaf: "getLeafSize (length txs) = 2 ^ k" using k' by simp
  let ?xs = "pad (2 ^ k) (map leafOf txs)"
  have len: "length ?xs = 2 ^ k" using assms(2) by (simp add: pad_def)
  let ?t = "map (Some \<circ> leafOf) txs @ replicate (2 ^ k * 2 - 1 - length txs) None"
  have "?t ! n = levels sha256 k ?xs ! n" if "n < 2 ^ k + 0" for n
    using that len by (simp add: levels_prefix) (auto simp: pad_def nth_append)
  then have "fillTree sha256 0 (2 ^ k + 0) ?t = levels sha256 k ?xs"
    using assms(2) by (intro fillTree_levels [OF len]) auto
  then show ?thesis using assms(1) leaf by (simp add: MakeMerkleTree_def)
qed

lemma merkle_root:
  assumes "txs \<noteq> []" and "length txs \<le> 2 ^ k" and "2 ^ k < 2 * length txs"
  shows "last (MakeMerkleTree sha256 txs) = merkle_spec sha256 k (map leafOf txs)"
    "length (MakeMerkleTree sha256 txs) = 2 * 2 ^ k - 1"
proof -
  have len: "length (pad (2 ^ k) (map leafOf txs)) = 2 ^ k" using assms(2) by (simp add: pad_def)
  show "last (MakeMerkleTree sha256 txs) = merkle_spec sha256 k (map leafOf txs)"
    "length (MakeMerkleTree sha256 txs) = 2 * 2 ^ k - 1"
    using assms(2) length_levels [OF len, of sha256] last_levels [OF len, of sha256]
      apex_pad [of "map leafOf txs" k sha256] unfolding merkle_tree_levels [OF assms] by simp_all
qed

text \<open>
  C17: The array that \<open>MakeMerkleTree\<close> fills in one pass is a complete binary tree over the
  least power of two that holds the transactions, and its last element is the Merkle root as
  defined by recursion over the halves, a missing right half being replaced by the left one.
\<close>

theorem MakeMerkleTree_reference:
  assumes "txs \<noteq> []" and "length txs \<le> 2 ^ k" and "2 ^ k < 2 * length txs"
  shows "length (MakeMerkleTree sha256 txs) = 2 * 2 ^ k - 1
    \<and> last (MakeMerkleTree sha256 txs) = merkle_spec sha256 k (map leafOf txs)"
  using merkle_root [OF assms] by blast

theorem MakeMerkleTree_reference_witness:
  "\<forall>sha. last (MakeMerkleTree sha [bare_tx ''a'', bare_tx ''b'', bare_tx ''c''])
   = merkle_spec sha 2 (map leafOf [bare_tx ''a'', bare_tx ''b'', bare_tx ''c''])"
  using MakeMerkleTree_reference [of "[bare_tx ''a'', bare_tx ''b'', bare_tx ''c'']" 2] by simp

section \<open>What the root determines\<close>

text \<open>
  A hash without collisions whose results depend in length only on the length of what is
  hashed. The code needs the first of SHA-256 for the accepted blocks, the second holds of it.
\<close>

definition collision_free :: "(bytes \<Rightarrow> bytes) \<Rightarrow> bool" where
  "collision_free h \<longleftrightarrow> inj h \<and> (\<forall>x y. length x = length y \<longrightarrow> length (h x) = length (h y))"

lemma collision_free_id: "collision_free (\<lambda>x. x)"
  by (simp add: collision_free_def inj_def)

lemma merkleDoubleSha256_inj:
  assumes "collision_free h" and "merkleDoubleSha256 h a b = merkleDoubleSha256 h c d" and "length a = length c"
  shows "a = c \<and> b = d"
proof -
  have "inj h" using assms(1) unfolding collision_free_def by blast
  with assms(2,3) show ?thesis by (simp add: merkleDoubleSha256_def inj_eq)
qed

lemma merkleDoubleSha256_length:
  assumes "collision_free h" and "length a = length c" and "length b = length d"
  shows "length (merkleDoubleSha256 h a b) = length (merkleDoubleSha256 h c d)"
proof -
  have "length (h x) = length (h y)" if "length x = length y" for x y
    using assms(1) that unfolding collision_free_def by blast
  then show ?thesis
    unfolding merkleDoubleSha256_def by (rule, rule) (simp add: assms)
qed

lemma parentOf_None: "parentOf h l r = None \<longleftrightarrow> l = None"
  by (cases l; cases r) (simp_all add: parentOf_def)

lemma merkle_spec_None: "merkle_spec h k as = None \<longleftrightarrow> as = []"
proof (induction k arbitrary: as)
  case 0
  show ?case by (cases as) simp_all
next
  case (Suc k)
  show ?case by (simp add: parentOf_None Suc.IH)
qed

lemma merkle_spec_length:
  assumes "collision_free h"
  shows "list_all2 (\<lambda>a b. length a = length b) as bs \<Longrightarrow>
    merkle_spec h k as = Some a \<Longrightarrow> merkle_spec h k bs = Some b \<Longrightarrow> length a = length b"
proof (induction k arbitrary: as bs a b)
  case 0
  then show ?case by (cases as; cases bs) auto
next
  case (Suc k)
  note len = merkleDoubleSha256_length [OF assms]
  have halves: "list_all2 (\<lambda>a b. length a = length b) (take (2 ^ k) as) (take (2 ^ k) bs)"
    "list_all2 (\<lambda>a b. length a = length b) (drop (2 ^ k) as) (drop (2 ^ k) bs)"
    using Suc.prems(1) by auto
  have nil: "drop (2 ^ k) as = [] \<longleftrightarrow> drop (2 ^ k) bs = []"
    using list_all2_lengthD [OF halves(2)] by (metis length_0_conv)
  obtain l l' where l: "merkle_spec h k (take (2 ^ k) as) = Some l" "merkle_spec h k (take (2 ^ k) bs) = Some l'"
    using Suc.prems(2,3) by (auto simp: parentOf_def split: option.splits)
  note ll = Suc.IH [OF halves(1) l]
  show ?case
  proof (cases "merkle_spec h k (drop (2 ^ k) as)")
    case None
    then have "merkle_spec h k (drop (2 ^ k) bs) = None" using nil by (simp add: merkle_spec_None)
    with None l ll Suc.prems(2,3) show ?thesis by (auto simp: parentOf_def intro: len)
  next
    case (Some r)
    then obtain r' where r': "merkle_spec h k (drop (2 ^ k) bs) = Some r'"
      using nil merkle_spec_None by (metis not_None_eq)
    with Some l ll Suc.IH [OF halves(2) Some r'] Suc.prems(2,3) show ?thesis
      by (auto simp: parentOf_def intro: len)
  qed
qed

lemma merkle_spec_inj:
  assumes "collision_free h"
  shows "list_all2 (\<lambda>a b. length a = length b) as bs \<Longrightarrow> length as \<le> 2 ^ k \<Longrightarrow>
    merkle_spec h k as = merkle_spec h k bs \<Longrightarrow> as = bs"
proof (induction k arbitrary: as bs)
  case 0
  then have "length as \<le> 1" "length bs = length as" by (auto dest: list_all2_lengthD)
  with 0 show ?case by (cases as; cases bs) auto
next
  case (Suc k)
  let ?a = "take (2 ^ k) as" and ?b = "take (2 ^ k) bs" and ?c = "drop (2 ^ k) as" and ?d = "drop (2 ^ k) bs"
  have halves: "list_all2 (\<lambda>a b. length a = length b) ?a ?b" "list_all2 (\<lambda>a b. length a = length b) ?c ?d"
    using Suc.prems(1) by auto
  have nil: "?c = [] \<longleftrightarrow> ?d = []" "?a = [] \<longleftrightarrow> ?b = []"
    using list_all2_lengthD [OF halves(2)] list_all2_lengthD [OF halves(1)] by (metis length_0_conv)+
  have "merkle_spec h k ?a = merkle_spec h k ?b \<and> merkle_spec h k ?c = merkle_spec h k ?d"
  proof (cases "merkle_spec h k ?a")
    case None
    then have "as = []" by (simp add: merkle_spec_None)
    with list_all2_lengthD [OF Suc.prems(1)] show ?thesis by simp
  next
    case (Some l)
    then obtain l' where l': "merkle_spec h k ?b = Some l'" using nil merkle_spec_None by (metis not_None_eq)
    note ll = merkle_spec_length [OF assms halves(1) Some l']
    show ?thesis
    proof (cases "merkle_spec h k ?c")
      case None
      then have "merkle_spec h k ?d = None" using nil by (simp add: merkle_spec_None)
      with None Some l' Suc.prems(3) merkleDoubleSha256_inj [OF assms _ ll, of l l']
      show ?thesis by (simp add: parentOf_def)
    next
      case c: (Some r)
      then obtain r' where r': "merkle_spec h k ?d = Some r'" using nil merkle_spec_None by (metis not_None_eq)
      with c Some l' Suc.prems(3) merkleDoubleSha256_inj [OF assms _ ll, of r r']
      show ?thesis by (simp add: parentOf_def)
    qed
  qed
  then have "?a = ?b" "?c = ?d"
    using Suc.IH [OF halves(1)] Suc.IH [OF halves(2)] Suc.prems(2) by auto
  then show ?case by (metis append_take_drop_id)
qed

lemma length_leafOf [simp]: "length (leafOf tx) = 32"
  by (simp add: leafOf_def)

lemma leafOf_full: "length (contents (txTxid tx)) = 32 \<Longrightarrow> leafOf tx = contents (txTxid tx)"
  by (simp add: leafOf_def)

lemma pow2_exists: "0 < n \<Longrightarrow> \<exists>k. n \<le> 2 ^ k \<and> 2 ^ k < 2 * (n::nat)"
  using getLeafSize_power [of n] by metis

lemma VerifyMerkle_Inr:
  assumes "VerifyMerkle sha256 b = Inr ()"
  shows "ibTransactions b \<noteq> []"
    "contents (last (MakeMerkleTree sha256 (ibTransactions b))) = contents (ibMerkleRoot b)"
proof -
  have ne: "MakeMerkleTree sha256 (ibTransactions b) \<noteq> []"
    using assms by (auto simp: VerifyMerkle_def Let_def split: if_splits)
  then show "ibTransactions b \<noteq> []" by (auto simp: MakeMerkleTree_def)
  show "contents (last (MakeMerkleTree sha256 (ibTransactions b))) = contents (ibMerkleRoot b)"
    using assms ne by (auto simp: VerifyMerkle_def Let_def bytes_equal_def last_conv_nth split: if_splits)
qed


definition merkle_demo :: InternalBlock where
  "merkle_demo = \<lparr>ibVersion = 1, ibNonce = 0, ibBlockid = None, ibPreHash = Some ''p'', ibProposer = Some ''m'',
     ibPubkey = Some ''k'', ibMerkleRoot = Some (replicate 32 (CHR ''t'')), ibHeight = 5, ibTimestamp = 9,
     ibTransactions = [bare_tx (replicate 32 (CHR ''t''))], ibTxCount = 1, ibCurTerm = 1, ibCurBlockNum = 2,
     ibFailedTxs = [], ibTargetBits = 0, ibJustify = None, ibInTrunk = True, ibNextHash = None, ibSign = None, ibMerkleTree = []\<rparr>"

lemma merkle_demo_verifies: "VerifyMerkle (\<lambda>x. x) merkle_demo = Inr ()"
  by (simp add: VerifyMerkle_def MakeMerkleTree_def merkle_demo_def getLeafSize_def fillTree.simps
      bare_tx_def leafOf_full bytes_equal_def)


text \<open>
  The number of transactions matters: a transaction list with an odd number of entries and the
  list with its last entry repeated have the same root.
\<close>

lemma repeated_last_same_root:
  "last (MakeMerkleTree sha256 [a, b, c]) = last (MakeMerkleTree sha256 [a, b, c, c])"
proof -
  have "last (MakeMerkleTree sha256 [a, b, c]) = merkle_spec sha256 2 (map leafOf [a, b, c])"
    "last (MakeMerkleTree sha256 [a, b, c, c]) = merkle_spec sha256 2 (map leafOf [a, b, c, c])"
    by (rule merkle_root; simp)+
  then show ?thesis by (simp add: numeral_2_eq_2 parentOf_def)
qed

section \<open>What the block id determines\<close>

definition header_ranges :: "InternalBlock \<Rightarrow> bool" where
  "header_ranges b \<longleftrightarrow> is_i32 (ibVersion b) \<and> is_i32 (ibNonce b) \<and> is_i32 (ibTxCount b)
     \<and> is_i64 (ibTimestamp b) \<and> is_i64 (ibCurTerm b) \<and> is_i64 (ibCurBlockNum b)"

definition same_shape :: "InternalBlock \<Rightarrow> InternalBlock \<Rightarrow> bool" where
  "same_shape a b \<longleftrightarrow> length (contents (ibProposer a)) = length (contents (ibProposer b))
     \<and> length (contents (ibPubkey a)) = length (contents (ibPubkey b))
     \<and> length (contents (ibPreHash a)) = length (contents (ibPreHash b))
     \<and> length (contents (ibMerkleRoot a)) = length (contents (ibMerkleRoot b))
     \<and> length (encodeFailedTxs a) = length (encodeFailedTxs b)
     \<and> ibTargetBits a = ibTargetBits b"

lemma blockBuffer_inj:
  assumes "same_shape a b" and "blockBuffer a = blockBuffer b"
  shows "le_bytes 4 (ibVersion a) = le_bytes 4 (ibVersion b) \<and> le_bytes 4 (ibNonce a) = le_bytes 4 (ibNonce b)
    \<and> le_bytes 4 (ibTxCount a) = le_bytes 4 (ibTxCount b) \<and> contents (ibProposer a) = contents (ibProposer b)
    \<and> le_bytes 8 (ibTimestamp a) = le_bytes 8 (ibTimestamp b) \<and> contents (ibPubkey a) = contents (ibPubkey b)
    \<and> contents (ibPreHash a) = contents (ibPreHash b) \<and> contents (ibMerkleRoot a) = contents (ibMerkleRoot b)
    \<and> encodeFailedTxs a = encodeFailedTxs b \<and> le_bytes 8 (ibCurTerm a) = le_bytes 8 (ibCurTerm b)
    \<and> le_bytes 8 (ibCurBlockNum a) = le_bytes 8 (ibCurBlockNum b) \<and> encodeJustify a = encodeJustify b"
  using assms by (simp add: same_shape_def blockBuffer_def)



text \<open>
  The ids of the failed transactions are not part of the block id: only their error texts are
  written, so the block may name another transaction as the failed one.
\<close>

lemma failed_txid_not_covered:
  "MakeBlockID sha256 (b\<lparr>ibFailedTxs := [(t1, e)]\<rparr>) = MakeBlockID sha256 (b\<lparr>ibFailedTxs := [(t2, e)]\<rparr>)"
  by (simp add: MakeBlockID_def blockBuffer_def encodeFailedTxs_def encodeJustify_def)

end
