(* ===== verification/Consensus_Common.thy ===== *)
theory Consensus_Common
  imports Qc_Tree Xledger_Types
begin

text \<open>
  What the consensus algorithms share (\<open>kernel/consensus/base/common/common.go\<close>): comparing
  validator lists, forgetting old time slots, and the conversion between the certificates of the
  chained BFT and the older form that blocks store. JSON and protocol buffers are parameters; the
  round trip theorem names what it needs of them for the values at hand.
\<close>

record ConsensusStorage =
  csJustify :: "Justify option"
  csCurTerm :: int
  csCurBlockNum :: int
  csTargetBits :: int

record StorageCodec =
  ParseOldQCStorage :: "slice \<Rightarrow> ConsensusStorage option"
  marshalStorage :: "ConsensusStorage \<Rightarrow> slice"
  protoQC :: "Justify \<Rightarrow> slice"
  unprotoQC :: "slice \<Rightarrow> Justify option"

definition AddressEqual :: "string list \<Rightarrow> string list \<Rightarrow> bool" where
  "AddressEqual a b \<longleftrightarrow> length a = length b \<and> list_all (\<lambda>i. a ! i = b ! i) [0..<length a]"

lemma AddressEqual_iff: "AddressEqual a b \<longleftrightarrow> a = b"
  by (auto simp: AddressEqual_def list_all_iff intro: nth_equalityI)

definition MaxMapSize :: int where "MaxMapSize = 1000"

text \<open>The time slots a producer has used, and the clearing of those that are long past.\<close>

definition CleanProduceMap :: "int list \<Rightarrow> int \<Rightarrow> int \<Rightarrow> int list" where
  "CleanProduceMap isProduce now period =
     (if int (length isProduce) \<le> MaxMapSize then isProduce
      else let key = go_div (go_div now 1000000) period
           in filter (\<lambda>k. \<not> k \<le> key - MaxMapSize) isProduce)"

section \<open>Certificates in blocks\<close>

datatype storage_error = StorageUnmarshal | InvalidJustify | JustifyUnmarshal

definition OldSignToNew :: "StorageCodec \<Rightarrow> slice \<Rightarrow> QuorumCertSign list option" where
  "OldSignToNew c storage =
     (case ParseOldQCStorage c storage of
        None \<Rightarrow> None
      | Some oldS \<Rightarrow>
          (case csJustify oldS of
             None \<Rightarrow> None
           | Some oldQC \<Rightarrow>
               (case jSignInfos oldQC of
                  None \<Rightarrow> None
                | Some signs \<Rightarrow>
                    if signs = [] then None
                    else Some (map (\<lambda>s. \<lparr>signAddress = qsAddress s, signPublicKey = qsPublicKey s, signSign = qsSign s\<rparr>) signs))))"

definition NewSignToOld :: "QuorumCertSign list option \<Rightarrow> QCSign list" where
  "NewSignToOld signs =
     map (\<lambda>s. \<lparr>qsAddress = signAddress s, qsPublicKey = signPublicKey s, qsSign = signSign s\<rparr>) (contents_list signs)"

definition OldQCToNew :: "StorageCodec \<Rightarrow> slice \<Rightarrow> storage_error + QuorumCert" where
  "OldQCToNew c storage =
     (case ParseOldQCStorage c storage of
        None \<Rightarrow> Inl StorageUnmarshal
      | Some oldS \<Rightarrow>
          (case csJustify oldS of
             None \<Rightarrow> Inl InvalidJustify
           | Some oldQC \<Rightarrow>
               (case unprotoQC c (jProposalMsg oldQC) of
                  None \<Rightarrow> Inl JustifyUnmarshal
                | Some justifyQC \<Rightarrow>
                    Inr (NewQuorumCert
                      \<lparr>ProposalId = jProposalId oldQC, ProposalView = jViewNumber oldQC,
                       ParentId = jProposalId justifyQC, ParentView = jViewNumber justifyQC\<rparr>
                      None (OldSignToNew c storage)))))"

definition oldParentQC :: "QuorumCert \<Rightarrow> Justify" where
  "oldParentQC new = \<lparr>jProposalId = ParentId (qcVoteInfo new), jProposalMsg = None, jType = 0,
     jViewNumber = ParentView (qcVoteInfo new), jSignInfos = None\<rparr>"

definition NewToOldQC :: "StorageCodec \<Rightarrow> QuorumCert \<Rightarrow> Justify" where
  "NewToOldQC c new =
     \<lparr>jProposalId = ProposalId (qcVoteInfo new), jProposalMsg = protoQC c (oldParentQC new), jType = 0,
      jViewNumber = ProposalView (qcVoteInfo new), jSignInfos = Some (NewSignToOld (GetSignsInfo new))\<rparr>"

lemma sign_conversion:
  "map (\<lambda>s. \<lparr>signAddress = qsAddress s, signPublicKey = qsPublicKey s, signSign = qsSign s\<rparr>) (NewSignToOld signs)
   = contents_list signs"
  by (cases signs) (simp_all add: NewSignToOld_def o_def map_idI)

lemma NewSignToOld_Nil: "NewSignToOld signs = [] \<longleftrightarrow> contents_list signs = []"
  by (simp add: NewSignToOld_def)

text \<open>
  A certificate survives its way through a block: stored in the old form in a block's
  consensus storage and read back, it has the same proposal, the same parent and the same
  signatures, whatever else the storage holds. The two readings are the documented behaviour of
  JSON and protocol buffers on the values at hand.
\<close>

theorem certificate_roundtrip:
  assumes json: "ParseOldQCStorage c (marshalStorage c s) = Some s"
    and proto: "unprotoQC c (protoQC c (oldParentQC qc)) = Some (oldParentQC qc)"
    and stored: "csJustify s = Some (NewToOldQC c qc)"
  shows "\<exists>qc'. OldQCToNew c (marshalStorage c s) = Inr qc' \<and> qcVoteInfo qc' = qcVoteInfo qc
    \<and> contents_list (GetSignsInfo qc') = contents_list (GetSignsInfo qc)"
proof -
  have "contents_list (OldSignToNew c (marshalStorage c s)) = contents_list (GetSignsInfo qc)"
  proof (cases "NewSignToOld (GetSignsInfo qc) = []")
    case True
    then show ?thesis using NewSignToOld_Nil by (simp add: OldSignToNew_def json stored NewToOldQC_def)
  next
    case False
    then show ?thesis by (simp add: OldSignToNew_def json stored NewToOldQC_def sign_conversion)
  qed
  moreover have "OldQCToNew c (marshalStorage c s) = Inr (NewQuorumCert (qcVoteInfo qc) None (OldSignToNew c (marshalStorage c s)))"
    using proto by (cases "qcVoteInfo qc") (simp add: OldQCToNew_def json stored NewToOldQC_def oldParentQC_def)
  ultimately show ?thesis by (simp add: NewQuorumCert_def GetSignsInfo_def)
qed

definition codec_demo_qc :: QuorumCert where
  "codec_demo_qc = NewQuorumCert \<lparr>ProposalId = Some ''p'', ProposalView = 4, ParentId = Some ''q'', ParentView = 3\<rparr>
     None (Some [\<lparr>signAddress = ''a'', signPublicKey = ''k'', signSign = Some ''s''\<rparr>])"

definition codec_demo_storage :: ConsensusStorage where
  "codec_demo_storage = \<lparr>csJustify = Some \<lparr>jProposalId = Some ''p'', jProposalMsg = Some ''b'', jType = 0, jViewNumber = 4,
     jSignInfos = Some [\<lparr>qsAddress = ''a'', qsPublicKey = ''k'', qsSign = Some ''s''\<rparr>]\<rparr>,
     csCurTerm = 1, csCurBlockNum = 2, csTargetBits = 0\<rparr>"

definition codec_demo :: StorageCodec where
  "codec_demo = \<lparr>ParseOldQCStorage = \<lambda>_. Some codec_demo_storage, marshalStorage = \<lambda>_. Some ''j'',
     protoQC = \<lambda>_. Some ''b'', unprotoQC = \<lambda>_. Some (oldParentQC codec_demo_qc)\<rparr>"

theorem certificate_roundtrip_witness:
  "\<exists>qc'. OldQCToNew codec_demo (Some ''j'') = Inr qc' \<and> qcVoteInfo qc' = qcVoteInfo codec_demo_qc"
proof -
  have "csJustify codec_demo_storage = Some (NewToOldQC codec_demo codec_demo_qc)"
    by (simp add: codec_demo_storage_def NewToOldQC_def codec_demo_def codec_demo_qc_def NewQuorumCert_def
        GetSignsInfo_def NewSignToOld_def)
  moreover have m: "marshalStorage codec_demo codec_demo_storage = Some ''j''"
    "ParseOldQCStorage codec_demo (marshalStorage codec_demo codec_demo_storage) = Some codec_demo_storage"
    "unprotoQC codec_demo (protoQC codec_demo (oldParentQC codec_demo_qc)) = Some (oldParentQC codec_demo_qc)"
    by (simp_all add: codec_demo_def)
  ultimately show ?thesis using certificate_roundtrip [OF m(2,3)] unfolding m(1) by blast
qed

end
