(* ===== verification/Kernel_Contract.thy ===== *)
theory Kernel_Contract
  imports Xuper_Base "HOL-Library.AList"
begin

text \<open>
  What the kernel contracts share: the context of a call (\<open>kernel/contract/kernel/kcontext_impl.go\<close>),
  responses, and buckets. A bucket of the state sandbox is a map from keys to stored values; a
  missing key makes \<open>Get\<close> return an error. A value that the code stores as JSON is represented by
  the value itself, so reading a key whose value has another shape is the unmarshalling error.
  A handler returns its result and the state, also when it fails: a failed transaction is
  dropped with its sandbox, but a failed nested call leaves its writes behind.
\<close>

type_synonym 'v bucket = "string \<Rightarrow> 'v option"

record KCtx =
  kArgs :: "string \<Rightarrow> bytes option"
  kInitiator :: string
  kAuthRequire :: "string list"
  kCaller :: string
  kXFeeLimit :: int

record 'b Response =
  rStatus :: int
  rBody :: "'b option"
  rXFee :: int

definition StatusOK :: int where
  "StatusOK = 200"

text \<open>The context that \<open>ctx.Call\<close> builds for the callee: the caller is the calling contract.\<close>

definition callCtx :: "KCtx \<Rightarrow> string \<Rightarrow> (string \<times> bytes) list \<Rightarrow> KCtx" where
  "callCtx ctx caller args = ctx\<lparr>kArgs := map_of args, kCaller := caller\<rparr>"

text \<open>Only a successful transaction changes the state of the chain.\<close>

definition committed :: "'s \<Rightarrow> ('e, 'b) result \<times> 's \<Rightarrow> 's" where
  "committed s r = (case r of (Ok _, s') \<Rightarrow> s' | _ \<Rightarrow> s)"

lemma committed_simps [simp]:
  "committed s (Ok b, s') = s'" "committed s (Err e, s') = s" "committed s (Panic, s') = s"
  by (simp_all add: committed_def)

lemma committed_cases:
  obtains (kept) "committed s r = s" | (changed) b s' where "r = (Ok b, s')" "committed s r = s'"
  by (cases r; cases "fst r") (auto simp: committed_def)

lemma committed_pres:
  assumes "P s" and "\<And>b s'. r = (Ok b, s') \<Longrightarrow> P s'"
  shows "P (committed s r)"
  by (cases rule: committed_cases [of s r]) (use assms in auto)

lemma sum_upd:
  fixes f :: "'v option \<Rightarrow> int"
  assumes "finite (dom m)" and "f None = 0"
  shows "(\<Sum>k \<in> dom (m(x \<mapsto> v)). f ((m(x \<mapsto> v)) k)) = (\<Sum>k \<in> dom m. f (m k)) - f (m x) + f (Some v)"
proof -
  have "(\<Sum>k \<in> dom (m(x \<mapsto> v)). f ((m(x \<mapsto> v)) k)) = f (Some v) + (\<Sum>k \<in> dom m - {x}. f (m k))"
    using assms(1) by (simp add: sum.insert_remove)
  also have "(\<Sum>k \<in> dom m - {x}. f (m k)) = (\<Sum>k \<in> dom m. f (m k)) - f (m x)"
  proof (cases "x \<in> dom m")
    case True
    with assms(1) show ?thesis by (simp add: sum_diff1)
  next
    case False
    then have "m x = None" by auto
    with False assms(2) show ?thesis by simp
  qed
  finally show ?thesis by linarith
qed

end
