(* ===== verification/Govern_Token.thy ===== *)
theory Govern_Token
  imports Kernel_Contract
begin

text \<open>
  The governance token (\<open>kernel/contract/proposal/govern_token/govern_token_contract.go\<close>): its
  distribution, transfers, and the locks that other kernel contracts take. The theorems say that
  transfers between different accounts and locks conserve the supply and never lock more than an
  account has. Two lemmas at the end show what a transfer to oneself and a transfer to an account
  with locks do.
\<close>

section \<open>Data\<close>

record GovernTokenBalance =
  TotalBalance :: int
  LockedBalance :: "(string \<times> int) list"

definition GovernTokenTypeOrdinary :: string where "GovernTokenTypeOrdinary = ''ordinary''"
definition GovernTokenTypeTDPOS :: string where "GovernTokenTypeTDPOS = ''tdpos''"
definition ProposalKernelContract :: string where "ProposalKernelContract = ''$proposal''"
definition TimerTaskKernelContract :: string where "TimerTaskKernelContract = ''$timer_task''"
definition TDPOSKernelContract :: string where "TDPOSKernelContract = ''$tdpos''"
definition XPOSKernelContract :: string where "XPOSKernelContract = ''$xpos''"

definition NewGovernTokenBalance :: GovernTokenBalance where
  "NewGovernTokenBalance = \<lparr>TotalBalance = 0,
     LockedBalance = [(GovernTokenTypeOrdinary, 0), (GovernTokenTypeTDPOS, 0)]\<rparr>"

datatype GovVal = GBalance GovernTokenBalance | GText string

type_synonym gov_store = "GovVal bucket"

definition MakeAccountBalanceKey :: "string \<Rightarrow> string" where
  "MakeAccountBalanceKey account = ''balanceOf'' @ ''_'' @ account"

definition MakeTotalSupplyKey :: string where "MakeTotalSupplyKey = ''totalSupply''"
definition GetDistributedKey :: string where "GetDistributedKey = ''distributed''"

text \<open>
  The configuration: the fee, the genesis distribution, and the value that \<open>big.Int.SetString\<close>
  leaves behind when it cannot parse a text, which its documentation calls undefined.
\<close>

record GovEnv =
  NewGovResourceAmount :: int
  Predistribution :: "(string \<times> string) list"
  undefinedInt :: "string \<Rightarrow> int"

definition setString :: "GovEnv \<Rightarrow> string \<Rightarrow> int" where
  "setString env s = (case parse_int s of Some n \<Rightarrow> n | None \<Rightarrow> undefinedInt env s)"

datatype gov_error =
  AlreadyInitialized | NegativeAmount | GasNotEnough | NilArgument | ParseAmount | NoBalance
  | InsufficientBalance | NoAuthority | InvalidLockType | KeyNotFound

section \<open>Operations\<close>

definition balanceOf :: "gov_store \<Rightarrow> string \<Rightarrow> GovernTokenBalance option" where
  "balanceOf st account =
     (case st (MakeAccountBalanceKey account) of
        Some (GBalance b) \<Rightarrow>
          Some (b\<lparr>LockedBalance := AList.updates (map fst (LockedBalance b)) (map snd (LockedBalance b))
                    (LockedBalance NewGovernTokenBalance)\<rparr>)
      | _ \<Rightarrow> None)"

fun initLoop :: "GovEnv \<Rightarrow> (string \<times> string) list \<Rightarrow> int \<Rightarrow> gov_store \<Rightarrow> (gov_error, int) result \<times> gov_store" where
  "initLoop env [] totalSupply st = (Ok totalSupply, st)"
| "initLoop env ((address, quota) # ps) totalSupply st =
     (let amount = setString env quota
      in if amount < 0 then (Err NegativeAmount, st)
         else initLoop env ps (totalSupply + amount)
                (st(MakeAccountBalanceKey address \<mapsto>
                   GBalance (NewGovernTokenBalance\<lparr>TotalBalance := amount\<rparr>))))"

definition InitGovernTokens :: "GovEnv \<Rightarrow> gov_store \<Rightarrow> (gov_error, GovVal Response) result \<times> gov_store" where
  "InitGovernTokens env st =
     (if st GetDistributedKey = Some (GText ''true'') then (Err AlreadyInitialized, st)
      else case initLoop env (Predistribution env) 0 st of
          (Ok totalSupply, st') \<Rightarrow>
            (Ok \<lparr>rStatus = StatusOK, rBody = None, rXFee = NewGovResourceAmount env\<rparr>,
             st'(MakeTotalSupplyKey \<mapsto> GText (itoa totalSupply), GetDistributedKey \<mapsto> GText ''true''))
        | (Err e, st') \<Rightarrow> (Err e, st')
        | (Panic, st') \<Rightarrow> (Panic, st'))"

definition gasReply :: "GovEnv \<Rightarrow> GovVal Response" where
  "gasReply env = \<lparr>rStatus = StatusOK, rBody = None, rXFee = go_div (NewGovResourceAmount env) 1000\<rparr>"

definition TransferGovernTokens :: "GovEnv \<Rightarrow> KCtx \<Rightarrow> gov_store \<Rightarrow> (gov_error, GovVal Response) result \<times> gov_store" where
  "TransferGovernTokens env ctx st =
     (if kXFeeLimit ctx < go_div (NewGovResourceAmount env) 1000 then (Err GasNotEnough, st)
      else case (kArgs ctx ''to'', kArgs ctx ''amount'') of
          (Some receiver, Some amountBuf) \<Rightarrow>
            (case parse_int amountBuf of
               None \<Rightarrow> (Err ParseAmount, st)
             | Some amount \<Rightarrow>
                 if amount < 0 then (Err ParseAmount, st)
                 else case balanceOf st (kInitiator ctx) of
                     None \<Rightarrow> (Err NoBalance, st)
                   | Some senderBalance \<Rightarrow>
                       if list_ex (\<lambda>(_, v). TotalBalance senderBalance - v < amount) (LockedBalance senderBalance)
                       then (Err InsufficientBalance, st)
                       else let receiverKey = MakeAccountBalanceKey receiver;
                                old = (case st receiverKey of
                                         None \<Rightarrow> Some 0
                                       | Some (GBalance b) \<Rightarrow> Some (TotalBalance b)
                                       | Some (GText _) \<Rightarrow> None)
                            in (case old of
                                  None \<Rightarrow> (Panic, st)
                                | Some oldTotal \<Rightarrow>
                                    (Ok (gasReply env),
                                     st(MakeAccountBalanceKey (kInitiator ctx) \<mapsto>
                                          GBalance (senderBalance\<lparr>TotalBalance := TotalBalance senderBalance - amount\<rparr>),
                                        receiverKey \<mapsto>
                                          GBalance (NewGovernTokenBalance\<lparr>TotalBalance := amount + oldTotal\<rparr>)))))
        | _ \<Rightarrow> (Err NilArgument, st))"

definition mayLock :: "KCtx \<Rightarrow> bool" where
  "mayLock ctx \<longleftrightarrow> kCaller ctx = ProposalKernelContract \<or> kCaller ctx = TDPOSKernelContract
     \<or> kCaller ctx = XPOSKernelContract"

definition validLockType :: "string \<Rightarrow> bool" where
  "validLockType t \<longleftrightarrow> t = GovernTokenTypeOrdinary \<or> t = GovernTokenTypeTDPOS"

definition lockedOf :: "GovernTokenBalance \<Rightarrow> string \<Rightarrow> int" where
  "lockedOf b t = (case map_of (LockedBalance b) t of Some v \<Rightarrow> v | None \<Rightarrow> 0)"

definition setLocked :: "GovernTokenBalance \<Rightarrow> string \<Rightarrow> int \<Rightarrow> GovernTokenBalance" where
  "setLocked b t v = b\<lparr>LockedBalance := AList.update t v (LockedBalance b)\<rparr>"

definition LockGovernTokens :: "GovEnv \<Rightarrow> KCtx \<Rightarrow> gov_store \<Rightarrow> (gov_error, GovVal Response) result \<times> gov_store" where
  "LockGovernTokens env ctx st =
     (if \<not> mayLock ctx then (Err NoAuthority, st)
      else case (kArgs ctx ''from'', kArgs ctx ''amount'', kArgs ctx ''lock_type'') of
          (Some account, Some amountBuf, Some lockType) \<Rightarrow>
            if \<not> validLockType lockType then (Err InvalidLockType, st)
            else (case balanceOf st account of
                    None \<Rightarrow> (Err NoBalance, st)
                  | Some accountBalance \<Rightarrow>
                      let amountLock = setString env amountBuf;
                          availableBalance = TotalBalance accountBalance - lockedOf accountBalance lockType
                      in if availableBalance < amountLock then (Err InsufficientBalance, st)
                         else (Ok (gasReply env),
                               st(MakeAccountBalanceKey account \<mapsto>
                                    GBalance (setLocked accountBalance lockType
                                      (lockedOf accountBalance lockType + amountLock)))))
        | _ \<Rightarrow> (Err NilArgument, st))"

definition UnLockGovernTokens :: "GovEnv \<Rightarrow> KCtx \<Rightarrow> gov_store \<Rightarrow> (gov_error, GovVal Response) result \<times> gov_store" where
  "UnLockGovernTokens env ctx st =
     (if \<not> mayLock ctx then (Err NoAuthority, st)
      else case (kArgs ctx ''from'', kArgs ctx ''amount'', kArgs ctx ''lock_type'') of
          (Some account, Some amountBuf, Some lockType) \<Rightarrow>
            (case balanceOf st account of
               None \<Rightarrow> (Err NoBalance, st)
             | Some accountBalance \<Rightarrow>
                 let amountLock = setString env amountBuf
                 in if \<not> validLockType lockType then (Err InvalidLockType, st)
                    else (Ok (gasReply env),
                          st(MakeAccountBalanceKey account \<mapsto>
                               GBalance (setLocked accountBalance lockType
                                 (lockedOf accountBalance lockType - amountLock)))))
        | _ \<Rightarrow> (Err NilArgument, st))"

definition QueryAccountGovernTokens :: "KCtx \<Rightarrow> gov_store \<Rightarrow> (gov_error, GovVal Response) result \<times> gov_store" where
  "QueryAccountGovernTokens ctx st =
     (case balanceOf st (contents (kArgs ctx ''account'')) of
        None \<Rightarrow> (Err NoBalance, st)
      | Some balance \<Rightarrow> (Ok \<lparr>rStatus = StatusOK, rBody = Some (GBalance balance), rXFee = 0\<rparr>, st))"

definition TotalSupply :: "GovEnv \<Rightarrow> gov_store \<Rightarrow> (gov_error, GovVal Response) result \<times> gov_store" where
  "TotalSupply env st =
     (case st MakeTotalSupplyKey of
        Some (GText s) \<Rightarrow> (Ok \<lparr>rStatus = StatusOK, rBody = Some (GText (itoa (setString env s))), rXFee = 0\<rparr>, st)
      | Some (GBalance _) \<Rightarrow> (Ok \<lparr>rStatus = StatusOK, rBody = Some (GText (itoa (undefinedInt env []))), rXFee = 0\<rparr>, st)
      | None \<Rightarrow> (Err KeyNotFound, st))"

section \<open>Invariant\<close>

text \<open>
  A balance has exactly the two lock types, and no lock exceeds the total. The recorded supply is
  the sum of all balances.
\<close>

definition bal_ok :: "GovernTokenBalance \<Rightarrow> bool" where
  "bal_ok b \<longleftrightarrow> map fst (LockedBalance b) = [GovernTokenTypeOrdinary, GovernTokenTypeTDPOS]
     \<and> (\<forall>v \<in> snd ` set (LockedBalance b). 0 \<le> v \<and> v \<le> TotalBalance b)"

definition total_of :: "GovVal option \<Rightarrow> int" where
  "total_of v = (case v of Some (GBalance b) \<Rightarrow> TotalBalance b | _ \<Rightarrow> 0)"

definition supplied :: "gov_store \<Rightarrow> int" where
  "supplied st = (\<Sum>k \<in> dom st. total_of (st k))"

definition gov_inv :: "gov_store \<Rightarrow> bool" where
  "gov_inv st \<longleftrightarrow> finite (dom st)
     \<and> (\<forall>a v. st (MakeAccountBalanceKey a) = Some v \<longrightarrow> (\<exists>b. v = GBalance b \<and> bal_ok b))
     \<and> (\<forall>k b. st k = Some (GBalance b) \<longrightarrow> bal_ok b)
     \<and> st MakeTotalSupplyKey = Some (GText (itoa (supplied st)))"

lemmas lock_types = GovernTokenTypeOrdinary_def GovernTokenTypeTDPOS_def

lemma balance_key_simps [simp]:
  "MakeAccountBalanceKey a = MakeAccountBalanceKey b \<longleftrightarrow> a = b"
  "MakeAccountBalanceKey a \<noteq> MakeTotalSupplyKey" "MakeTotalSupplyKey \<noteq> MakeAccountBalanceKey a"
  "MakeAccountBalanceKey a \<noteq> GetDistributedKey" "GetDistributedKey \<noteq> MakeAccountBalanceKey a"
  "MakeTotalSupplyKey \<noteq> GetDistributedKey"
  by (simp_all add: MakeAccountBalanceKey_def MakeTotalSupplyKey_def GetDistributedKey_def)

lemma total_of_simps [simp]: "total_of None = 0" "total_of (Some (GBalance b)) = TotalBalance b"
  "total_of (Some (GText s)) = 0"
  by (simp_all add: total_of_def)

lemma bal_ok_shape:
  assumes "bal_ok b"
  obtains x y where "LockedBalance b = [(GovernTokenTypeOrdinary, x), (GovernTokenTypeTDPOS, y)]"
    "0 \<le> x" "x \<le> TotalBalance b" "0 \<le> y" "y \<le> TotalBalance b"
proof -
  from assms have keys: "map fst (LockedBalance b) = [GovernTokenTypeOrdinary, GovernTokenTypeTDPOS]"
    by (simp add: bal_ok_def)
  then obtain p q where "LockedBalance b = [p, q]" "fst p = GovernTokenTypeOrdinary" "fst q = GovernTokenTypeTDPOS"
    by auto
  moreover from this assms have "\<forall>v \<in> {snd p, snd q}. 0 \<le> v \<and> v \<le> TotalBalance b" by (auto simp: bal_ok_def)
  ultimately show ?thesis using that [of "snd p" "snd q"] by (cases p, cases q) simp
qed

lemma bal_ok_New: "0 \<le> n \<Longrightarrow> bal_ok (NewGovernTokenBalance\<lparr>TotalBalance := n\<rparr>)"
  by (simp add: bal_ok_def NewGovernTokenBalance_def)

lemma bal_ok_setLocked:
  assumes "bal_ok b" and "validLockType t" and "0 \<le> v" and "v \<le> TotalBalance b"
  shows "bal_ok (setLocked b t v)"
proof -
  obtain x y where "LockedBalance b = [(GovernTokenTypeOrdinary, x), (GovernTokenTypeTDPOS, y)]"
    "0 \<le> x" "x \<le> TotalBalance b" "0 \<le> y" "y \<le> TotalBalance b" using bal_ok_shape [OF assms(1)] .
  with assms(2-4) show ?thesis
    by (auto simp: bal_ok_def setLocked_def validLockType_def lock_types)
qed

lemma lockedOf_setLocked [simp]:
  "lockedOf (setLocked b t v) u = (if u = t then v else lockedOf b u)"
  by (simp add: lockedOf_def setLocked_def update_conv')

lemma TotalBalance_setLocked [simp]: "TotalBalance (setLocked b t v) = TotalBalance b"
  by (simp add: setLocked_def)

lemma lockedOf_bounds: "bal_ok b \<Longrightarrow> 0 \<le> TotalBalance b \<Longrightarrow> 0 \<le> lockedOf b t \<and> lockedOf b t \<le> TotalBalance b"
  by (erule bal_ok_shape) (auto simp: lockedOf_def)

lemma balanceOf_key:
  assumes "gov_inv st"
  shows "balanceOf st a = Some b \<longleftrightarrow> st (MakeAccountBalanceKey a) = Some (GBalance b)"
proof (cases "st (MakeAccountBalanceKey a)")
  case None
  then show ?thesis by (simp add: balanceOf_def)
next
  case (Some v)
  with assms obtain c where c: "v = GBalance c" "bal_ok c" by (auto simp: gov_inv_def)
  obtain x y where xy: "LockedBalance c = [(GovernTokenTypeOrdinary, x), (GovernTokenTypeTDPOS, y)]"
    using bal_ok_shape [OF c(2)] by blast
  have "balanceOf st a = Some (c\<lparr>LockedBalance := LockedBalance c\<rparr>)"
    using Some c xy by (simp add: balanceOf_def NewGovernTokenBalance_def lock_types)
  with Some c show ?thesis by auto
qed

lemma gov_inv_balance:
  "gov_inv st \<Longrightarrow> st (MakeAccountBalanceKey a) = Some (GBalance b) \<Longrightarrow> bal_ok b"
  by (auto simp: gov_inv_def)

lemma supplied_upd:
  "finite (dom st) \<Longrightarrow> supplied (st(k \<mapsto> v)) = supplied st - total_of (st k) + total_of (Some v)"
  unfolding supplied_def by (rule sum_upd) simp_all

text \<open>Writing balances under account keys keeps the invariant when it keeps the sum.\<close>

lemma gov_inv_put:
  assumes "gov_inv st" and "bal_ok b" and "supplied (st(MakeAccountBalanceKey a \<mapsto> GBalance b)) = supplied st"
  shows "gov_inv (st(MakeAccountBalanceKey a \<mapsto> GBalance b))"
  using assms by (auto simp: gov_inv_def)

lemma gov_inv_put2:
  assumes "gov_inv st" and "bal_ok b" and "bal_ok c" and "a \<noteq> d"
    and "total_of (st (MakeAccountBalanceKey a)) + total_of (st (MakeAccountBalanceKey d)) = TotalBalance b + TotalBalance c"
  shows "gov_inv (st(MakeAccountBalanceKey a \<mapsto> GBalance b, MakeAccountBalanceKey d \<mapsto> GBalance c))"
proof -
  have "finite (dom st)" using assms(1) by (simp add: gov_inv_def)
  then have "supplied (st(MakeAccountBalanceKey a \<mapsto> GBalance b, MakeAccountBalanceKey d \<mapsto> GBalance c)) = supplied st"
    using assms(4,5) by (simp add: supplied_upd)
  then show ?thesis using assms(1-3) by (auto simp: gov_inv_def)
qed

subsection \<open>What each operation does when it succeeds\<close>

lemma Transfer_Ok:
  assumes "gov_inv st" and "TransferGovernTokens env ctx st = (Ok r, st')"
  obtains to amount buf b old where "kArgs ctx ''to'' = Some to" "kArgs ctx ''amount'' = Some buf"
    "parse_int buf = Some amount" "0 \<le> amount"
    "st (MakeAccountBalanceKey (kInitiator ctx)) = Some (GBalance b)" "bal_ok b"
    "\<forall>v \<in> snd ` set (LockedBalance b). amount \<le> TotalBalance b - v"
    "old = total_of (st (MakeAccountBalanceKey to))"
    "st' = st(MakeAccountBalanceKey (kInitiator ctx) \<mapsto> GBalance (b\<lparr>TotalBalance := TotalBalance b - amount\<rparr>),
              MakeAccountBalanceKey to \<mapsto> GBalance (NewGovernTokenBalance\<lparr>TotalBalance := amount + old\<rparr>))"
proof -
  from assms(2) obtain to buf amount b where *: "kArgs ctx ''to'' = Some to" "kArgs ctx ''amount'' = Some buf"
    "parse_int buf = Some amount" "0 \<le> amount" "balanceOf st (kInitiator ctx) = Some b"
    "\<not> list_ex (\<lambda>(_, v). TotalBalance b - v < amount) (LockedBalance b)"
    by (auto simp: TransferGovernTokens_def split: if_splits option.splits)
  then have key: "st (MakeAccountBalanceKey (kInitiator ctx)) = Some (GBalance b)"
    using balanceOf_key [OF assms(1)] by simp
  have "st' = st(MakeAccountBalanceKey (kInitiator ctx) \<mapsto> GBalance (b\<lparr>TotalBalance := TotalBalance b - amount\<rparr>),
      MakeAccountBalanceKey to \<mapsto> GBalance (NewGovernTokenBalance\<lparr>TotalBalance := amount + total_of (st (MakeAccountBalanceKey to))\<rparr>))"
    using assms(2) * by (auto simp: TransferGovernTokens_def total_of_def split: if_splits option.splits GovVal.splits)
  moreover have "\<forall>v \<in> snd ` set (LockedBalance b). amount \<le> TotalBalance b - v"
    using *(6) by (auto simp: list_ex_iff not_less)
  ultimately show ?thesis using that * key gov_inv_balance [OF assms(1) key] by blast
qed

lemma Lock_Ok:
  assumes "gov_inv st" and "LockGovernTokens env ctx st = (Ok r, st')"
  obtains account buf t b where "kArgs ctx ''from'' = Some account" "kArgs ctx ''amount'' = Some buf"
    "kArgs ctx ''lock_type'' = Some t" "validLockType t" "mayLock ctx"
    "st (MakeAccountBalanceKey account) = Some (GBalance b)" "bal_ok b"
    "setString env buf \<le> TotalBalance b - lockedOf b t"
    "st' = st(MakeAccountBalanceKey account \<mapsto> GBalance (setLocked b t (lockedOf b t + setString env buf)))"
proof -
  from assms(2) obtain account buf t b where *: "kArgs ctx ''from'' = Some account" "kArgs ctx ''amount'' = Some buf"
    "kArgs ctx ''lock_type'' = Some t" "validLockType t" "mayLock ctx" "balanceOf st account = Some b"
    "setString env buf \<le> TotalBalance b - lockedOf b t"
    "st' = st(MakeAccountBalanceKey account \<mapsto> GBalance (setLocked b t (lockedOf b t + setString env buf)))"
    by (auto simp: LockGovernTokens_def Let_def split: if_splits option.splits)
  then have "st (MakeAccountBalanceKey account) = Some (GBalance b)"
    using balanceOf_key [OF assms(1)] by simp
  with * gov_inv_balance [OF assms(1) this] that show ?thesis by blast
qed

lemma UnLock_Ok:
  assumes "gov_inv st" and "UnLockGovernTokens env ctx st = (Ok r, st')"
  obtains account buf t b where "kArgs ctx ''from'' = Some account" "kArgs ctx ''amount'' = Some buf"
    "kArgs ctx ''lock_type'' = Some t" "validLockType t" "mayLock ctx"
    "st (MakeAccountBalanceKey account) = Some (GBalance b)" "bal_ok b"
    "st' = st(MakeAccountBalanceKey account \<mapsto> GBalance (setLocked b t (lockedOf b t - setString env buf)))"
proof -
  from assms(2) obtain account buf t b where *: "kArgs ctx ''from'' = Some account" "kArgs ctx ''amount'' = Some buf"
    "kArgs ctx ''lock_type'' = Some t" "validLockType t" "mayLock ctx" "balanceOf st account = Some b"
    "st' = st(MakeAccountBalanceKey account \<mapsto> GBalance (setLocked b t (lockedOf b t - setString env buf)))"
    by (auto simp: UnLockGovernTokens_def Let_def split: if_splits option.splits)
  then have "st (MakeAccountBalanceKey account) = Some (GBalance b)"
    using balanceOf_key [OF assms(1)] by simp
  with * gov_inv_balance [OF assms(1) this] that show ?thesis by blast
qed

section \<open>The invariant over runs\<close>

lemma initLoop_inv:
  "initLoop env ps n st = (Ok m, st') \<Longrightarrow> finite (dom st) \<Longrightarrow> distinct (map fst ps) \<Longrightarrow>
   (\<And>a. a \<in> fst ` set ps \<Longrightarrow> st (MakeAccountBalanceKey a) = None) \<Longrightarrow>
   (\<And>a v. st (MakeAccountBalanceKey a) = Some v \<Longrightarrow> \<exists>b. v = GBalance b \<and> bal_ok b) \<Longrightarrow>
   (\<And>k b. st k = Some (GBalance b) \<Longrightarrow> bal_ok b) \<Longrightarrow>
   finite (dom st') \<and> supplied st' - m = supplied st - n
   \<and> (\<forall>a v. st' (MakeAccountBalanceKey a) = Some v \<longrightarrow> (\<exists>b. v = GBalance b \<and> bal_ok b))
   \<and> (\<forall>k b. st' k = Some (GBalance b) \<longrightarrow> bal_ok b)"
proof (induction env ps n st rule: initLoop.induct)
  case (1 env n st)
  then show ?case by auto
next
  case (2 env address quota ps n st)
  let ?n = "setString env quota"
  let ?st = "st(MakeAccountBalanceKey address \<mapsto> GBalance (NewGovernTokenBalance\<lparr>TotalBalance := ?n\<rparr>))"
  have pos: "\<not> ?n < 0" and rest: "initLoop env ps (n + ?n) ?st = (Ok m, st')"
    using "2.prems"(1) by (auto simp: Let_def split: if_splits)
  have "finite (dom ?st)" using "2.prems"(2) by simp
  moreover have "distinct (map fst ps)" using "2.prems"(3) by simp
  moreover have "?st (MakeAccountBalanceKey a) = None" if "a \<in> fst ` set ps" for a
    using "2.prems"(3,4) that by auto
  moreover have "\<exists>b. v = GBalance b \<and> bal_ok b" if "?st (MakeAccountBalanceKey a) = Some v" for a v
    using "2.prems"(5) that pos bal_ok_New [of ?n] by (auto split: if_splits)
  moreover have "bal_ok b" if "?st k = Some (GBalance b)" for k b
    using "2.prems"(6) that pos bal_ok_New [of ?n] by (auto split: if_splits)
  ultimately have ih: "finite (dom st') \<and> supplied st' - m = supplied ?st - (n + ?n)
      \<and> (\<forall>a v. st' (MakeAccountBalanceKey a) = Some v \<longrightarrow> (\<exists>b. v = GBalance b \<and> bal_ok b))
      \<and> (\<forall>k b. st' k = Some (GBalance b) \<longrightarrow> bal_ok b)"
    using "2.IH" [OF refl pos rest] by blast
  moreover have "st (MakeAccountBalanceKey address) = None" using "2.prems"(4) by simp
  then have "supplied ?st = supplied st + ?n" using "2.prems"(2) by (simp add: supplied_upd)
  ultimately show ?case by simp
qed

lemma supplied_text: "finite (dom st) \<Longrightarrow> total_of (st k) = 0 \<Longrightarrow> supplied (st(k \<mapsto> GText s)) = supplied st"
  by (simp add: supplied_upd)

lemma initLoop_other_key:
  "initLoop env ps n st = (r, st') \<Longrightarrow> (\<And>a. k \<noteq> MakeAccountBalanceKey a) \<Longrightarrow> st' k = st k"
  by (induction env ps n st rule: initLoop.induct) (auto simp: Let_def split: if_splits)

lemma Init_inv:
  assumes "InitGovernTokens env Map.empty = (Ok r, st)" and "distinct (map fst (Predistribution env))"
  shows "gov_inv st"
proof -
  obtain m st1 where l: "initLoop env (Predistribution env) 0 Map.empty = (Ok m, st1)"
    and st: "st = st1(MakeTotalSupplyKey \<mapsto> GText (itoa m), GetDistributedKey \<mapsto> GText ''true'')"
    using assms(1) by (auto simp: InitGovernTokens_def split: prod.splits result.splits)
  have fin: "finite (dom st1)" and sup: "supplied st1 = m"
    and ok: "\<forall>a v. st1 (MakeAccountBalanceKey a) = Some v \<longrightarrow> (\<exists>b. v = GBalance b \<and> bal_ok b)"
    and all: "\<forall>k b. st1 k = Some (GBalance b) \<longrightarrow> bal_ok b"
    using initLoop_inv [OF l _ assms(2)] by (simp_all add: supplied_def)
  have none: "st1 MakeTotalSupplyKey = None" "st1 GetDistributedKey = None"
    using initLoop_other_key [OF l] by simp_all
  have "supplied st = m"
    unfolding st using fin none sup by (subst supplied_text supplied_text; simp)+
  with fin ok all none show ?thesis unfolding gov_inv_def st by auto
qed

datatype gov_op = OpTransfer KCtx | OpLock KCtx | OpUnLock KCtx

fun gov_exec :: "GovEnv \<Rightarrow> gov_op \<Rightarrow> gov_store \<Rightarrow> gov_store" where
  "gov_exec env (OpTransfer ctx) st = committed st (TransferGovernTokens env ctx st)"
| "gov_exec env (OpLock ctx) st = committed st (LockGovernTokens env ctx st)"
| "gov_exec env (OpUnLock ctx) st = committed st (UnLockGovernTokens env ctx st)"

text \<open>
  What the invariant asks of an operation: transfers go to another account, locked amounts are
  not negative, and at most the locked amount is unlocked. The calling contracts see to the last
  two.
\<close>

fun gov_allowed :: "GovEnv \<Rightarrow> gov_op \<Rightarrow> gov_store \<Rightarrow> bool" where
  "gov_allowed env (OpTransfer ctx) st \<longleftrightarrow> kArgs ctx ''to'' \<noteq> Some (kInitiator ctx)"
| "gov_allowed env (OpLock ctx) st \<longleftrightarrow> 0 \<le> setString env (contents (kArgs ctx ''amount''))"
| "gov_allowed env (OpUnLock ctx) st \<longleftrightarrow>
     (let n = setString env (contents (kArgs ctx ''amount''))
      in 0 \<le> n \<and> (case balanceOf st (contents (kArgs ctx ''from'')) of
            None \<Rightarrow> True
          | Some b \<Rightarrow> n \<le> lockedOf b (contents (kArgs ctx ''lock_type''))))"

fun gov_run :: "GovEnv \<Rightarrow> gov_op list \<Rightarrow> gov_store \<Rightarrow> gov_store" where
  "gov_run env [] st = st"
| "gov_run env (p # ops) st = gov_run env ops (gov_exec env p st)"

fun gov_run_allowed :: "GovEnv \<Rightarrow> gov_op list \<Rightarrow> gov_store \<Rightarrow> bool" where
  "gov_run_allowed env [] st \<longleftrightarrow> True"
| "gov_run_allowed env (p # ops) st \<longleftrightarrow> gov_allowed env p st \<and> gov_run_allowed env ops (gov_exec env p st)"

lemma bal_ok_total_nonneg: "bal_ok b \<Longrightarrow> 0 \<le> TotalBalance b"
  by (erule bal_ok_shape) auto

lemma total_of_nonneg: "gov_inv st \<Longrightarrow> 0 \<le> total_of (st (MakeAccountBalanceKey a))"
  by (cases "st (MakeAccountBalanceKey a)") (fastforce simp: gov_inv_def dest: bal_ok_total_nonneg)+

lemma total_le_supplied:
  assumes "gov_inv st" and "st k = Some (GBalance b)"
  shows "TotalBalance b \<le> supplied st"
proof -
  have "0 \<le> total_of (st j)" for j
    using assms(1) bal_ok_total_nonneg unfolding gov_inv_def total_of_def
    by (auto split: option.splits GovVal.splits)
  then have "total_of (st k) \<le> supplied st"
    unfolding supplied_def using assms by (intro member_le_sum) (auto simp: gov_inv_def)
  with assms(2) show ?thesis by simp
qed

lemma Transfer_inv:
  assumes "gov_inv st" and "TransferGovernTokens env ctx st = (Ok r, st')" and "kArgs ctx ''to'' \<noteq> Some (kInitiator ctx)"
  shows "gov_inv st'"
proof -
  from assms(1,2) obtain to amount buf b old where t: "kArgs ctx ''to'' = Some to" "0 \<le> amount"
    "st (MakeAccountBalanceKey (kInitiator ctx)) = Some (GBalance b)" "bal_ok b"
    "\<forall>v \<in> snd ` set (LockedBalance b). amount \<le> TotalBalance b - v"
    "old = total_of (st (MakeAccountBalanceKey to))"
    "st' = st(MakeAccountBalanceKey (kInitiator ctx) \<mapsto> GBalance (b\<lparr>TotalBalance := TotalBalance b - amount\<rparr>),
              MakeAccountBalanceKey to \<mapsto> GBalance (NewGovernTokenBalance\<lparr>TotalBalance := amount + old\<rparr>))"
    by (rule Transfer_Ok) blast
  have "bal_ok (b\<lparr>TotalBalance := TotalBalance b - amount\<rparr>)" using t(4,5) by (auto simp: bal_ok_def)
  moreover have "bal_ok (NewGovernTokenBalance\<lparr>TotalBalance := amount + old\<rparr>)"
    using t(2,6) total_of_nonneg [OF assms(1)] by (intro bal_ok_New) simp
  moreover have "kInitiator ctx \<noteq> to" using t(1) assms(3) by auto
  ultimately show ?thesis
    unfolding t(7) using t(3,6) by (intro gov_inv_put2 [OF assms(1)]) simp_all
qed

lemma Lock_inv:
  assumes "gov_inv st" and "LockGovernTokens env ctx st = (Ok r, st')"
    and "0 \<le> setString env (contents (kArgs ctx ''amount''))"
  shows "gov_inv st'"
proof -
  from assms(1,2) obtain account buf t b where l: "kArgs ctx ''amount'' = Some buf" "validLockType t"
    "st (MakeAccountBalanceKey account) = Some (GBalance b)" "bal_ok b"
    "setString env buf \<le> TotalBalance b - lockedOf b t"
    "st' = st(MakeAccountBalanceKey account \<mapsto> GBalance (setLocked b t (lockedOf b t + setString env buf)))"
    by (rule Lock_Ok) blast
  have "bal_ok (setLocked b t (lockedOf b t + setString env buf))"
    using l assms(3) lockedOf_bounds [OF l(4) bal_ok_total_nonneg [OF l(4)], of t]
    by (intro bal_ok_setLocked) simp_all
  then show ?thesis
    unfolding l(6) using l(3) assms(1) by (intro gov_inv_put) (simp_all add: supplied_upd gov_inv_def)
qed

lemma UnLock_inv:
  assumes "gov_inv st" and "UnLockGovernTokens env ctx st = (Ok r, st')" and "gov_allowed env (OpUnLock ctx) st"
  shows "gov_inv st'"
proof -
  from assms(1,2) obtain account buf t b where l: "kArgs ctx ''from'' = Some account" "kArgs ctx ''amount'' = Some buf"
    "kArgs ctx ''lock_type'' = Some t" "validLockType t"
    "st (MakeAccountBalanceKey account) = Some (GBalance b)" "bal_ok b"
    "st' = st(MakeAccountBalanceKey account \<mapsto> GBalance (setLocked b t (lockedOf b t - setString env buf)))"
    by (rule UnLock_Ok) blast
  have "balanceOf st account = Some b" using balanceOf_key [OF assms(1)] l(5) by simp
  with assms(3) l(1-3) have "0 \<le> setString env buf" "setString env buf \<le> lockedOf b t" by (auto simp: Let_def)
  then have "bal_ok (setLocked b t (lockedOf b t - setString env buf))"
    using l(4,6) lockedOf_bounds [OF l(6) bal_ok_total_nonneg [OF l(6)], of t]
    by (intro bal_ok_setLocked) simp_all
  then show ?thesis
    unfolding l(7) using l(5) assms(1) by (intro gov_inv_put) (simp_all add: supplied_upd gov_inv_def)
qed

lemma gov_exec_inv: "gov_inv st \<Longrightarrow> gov_allowed env p st \<Longrightarrow> gov_inv (gov_exec env p st)"
proof (cases p)
  case (OpTransfer ctx)
  assume "gov_inv st" "gov_allowed env p st"
  with OpTransfer Transfer_inv show ?thesis
    by (cases rule: committed_cases [of st "TransferGovernTokens env ctx st"]) auto
next
  case (OpLock ctx)
  assume "gov_inv st" "gov_allowed env p st"
  with OpLock Lock_inv show ?thesis
    by (cases rule: committed_cases [of st "LockGovernTokens env ctx st"]) auto
next
  case (OpUnLock ctx)
  assume "gov_inv st" "gov_allowed env p st"
  with OpUnLock UnLock_inv show ?thesis
    by (cases rule: committed_cases [of st "UnLockGovernTokens env ctx st"]) auto
qed

lemma gov_run_inv: "gov_inv st \<Longrightarrow> gov_run_allowed env ops st \<Longrightarrow> gov_inv (gov_run env ops st)"
  by (induction ops arbitrary: st) (auto simp: gov_exec_inv)

lemma gov_exec_supply_key: "gov_inv st \<Longrightarrow> gov_exec env p st MakeTotalSupplyKey = st MakeTotalSupplyKey"
proof (cases p)
  case (OpTransfer ctx)
  assume inv: "gov_inv st"
  show ?thesis
  proof (cases rule: committed_cases [of st "TransferGovernTokens env ctx st"])
    case (changed b s')
    have "s' MakeTotalSupplyKey = st MakeTotalSupplyKey" by (rule Transfer_Ok [OF inv changed(1)]) simp
    with changed OpTransfer show ?thesis by simp
  qed (simp add: OpTransfer)
next
  case (OpLock ctx)
  assume inv: "gov_inv st"
  show ?thesis
  proof (cases rule: committed_cases [of st "LockGovernTokens env ctx st"])
    case (changed b s')
    have "s' MakeTotalSupplyKey = st MakeTotalSupplyKey" by (rule Lock_Ok [OF inv changed(1)]) simp
    with changed OpLock show ?thesis by simp
  qed (simp add: OpLock)
next
  case (OpUnLock ctx)
  assume inv: "gov_inv st"
  show ?thesis
  proof (cases rule: committed_cases [of st "UnLockGovernTokens env ctx st"])
    case (changed b s')
    have "s' MakeTotalSupplyKey = st MakeTotalSupplyKey" by (rule UnLock_Ok [OF inv changed(1)]) simp
    with changed OpUnLock show ?thesis by simp
  qed (simp add: OpUnLock)
qed

lemma gov_run_supply_key:
  "gov_inv st \<Longrightarrow> gov_run_allowed env ops st \<Longrightarrow> gov_run env ops st MakeTotalSupplyKey = st MakeTotalSupplyKey"
  by (induction ops arbitrary: st) (auto simp: gov_exec_inv gov_exec_supply_key)


definition gov_demo_env :: GovEnv where
  "gov_demo_env = \<lparr>NewGovResourceAmount = 1000, Predistribution = [(''a'', itoa 90), (''b'', itoa 10)],
     undefinedInt = \<lambda>_. 0\<rparr>"

definition gov_demo_ctx :: "string \<Rightarrow> string \<Rightarrow> (string \<times> bytes) list \<Rightarrow> KCtx" where
  "gov_demo_ctx from caller args = \<lparr>kArgs = map_of args, kInitiator = from, kAuthRequire = [],
     kCaller = caller, kXFeeLimit = 10000\<rparr>"

definition gov_demo_init :: gov_store where
  "gov_demo_init = snd (InitGovernTokens gov_demo_env Map.empty)"

lemma gov_demo_init_Ok: "\<exists>r. InitGovernTokens gov_demo_env Map.empty = (Ok r, gov_demo_init)"
  by (simp add: gov_demo_init_def InitGovernTokens_def gov_demo_env_def setString_def parse_int_itoa)

definition gov_demo_ops :: "gov_op list" where
  "gov_demo_ops =
     [OpTransfer (gov_demo_ctx ''a'' [] [(''to'', ''b''), (''amount'', itoa 5)]),
      OpLock (gov_demo_ctx ''a'' TDPOSKernelContract
        [(''from'', ''a''), (''amount'', itoa 7), (''lock_type'', GovernTokenTypeTDPOS)])]"


section \<open>Transfers that the invariant excludes\<close>

text \<open>
  The receiver's new balance is computed from the stored one before the sender's is written, and
  it is written last: a transfer to oneself adds the amount to the balance.
\<close>

lemma self_transfer_mints:
  assumes "gov_inv st" and "TransferGovernTokens env ctx st = (Ok r, st')" and "kArgs ctx ''to'' = Some (kInitiator ctx)"
    and "parse_int (contents (kArgs ctx ''amount'')) = Some n"
  shows "supplied st' = supplied st + n"
proof -
  from assms(1,2) obtain to amount buf b old where t: "kArgs ctx ''to'' = Some to" "kArgs ctx ''amount'' = Some buf"
    "parse_int buf = Some amount" "st (MakeAccountBalanceKey (kInitiator ctx)) = Some (GBalance b)"
    "old = total_of (st (MakeAccountBalanceKey to))"
    "st' = st(MakeAccountBalanceKey (kInitiator ctx) \<mapsto> GBalance (b\<lparr>TotalBalance := TotalBalance b - amount\<rparr>),
              MakeAccountBalanceKey to \<mapsto> GBalance (NewGovernTokenBalance\<lparr>TotalBalance := amount + old\<rparr>))"
    by (rule Transfer_Ok) blast
  with assms(3,4) have "to = kInitiator ctx" "amount = n" by simp_all
  moreover have "finite (dom st)" using assms(1) by (simp add: gov_inv_def)
  ultimately show ?thesis unfolding t(6) using t(4,5) by (simp add: supplied_upd)
qed

text \<open>The receiver's balance is written afresh, so a transfer clears all locks of the receiver.\<close>

lemma transfer_clears_locks:
  assumes "gov_inv st" and "TransferGovernTokens env ctx st = (Ok r, st')" and "kArgs ctx ''to'' = Some a"
  shows "\<exists>b. balanceOf st' a = Some b \<and> (\<forall>t. lockedOf b t = 0)"
proof -
  from assms(1,2) obtain to amount old where t: "kArgs ctx ''to'' = Some to"
    "st' (MakeAccountBalanceKey to) = Some (GBalance (NewGovernTokenBalance\<lparr>TotalBalance := amount + old\<rparr>))"
    by (rule Transfer_Ok) auto
  with assms(3) show ?thesis
    by (simp add: balanceOf_def NewGovernTokenBalance_def lock_types lockedOf_def)
qed

end
