(* ===== verification/Tdpos_Contract.thy ===== *)
theory Tdpos_Contract
  imports Govern_Token
begin

text \<open>
  The election contract of TDPoS (\<open>bcs/consensus/tdpos/kernel_contract.go\<close>): nominations, votes
  and their revocation, each of which locks or unlocks governance tokens of the caller. The
  main theorem connects it to the token: what an account has locked for elections is exactly
  what the nominations and votes record for it.
\<close>

section \<open>Data\<close>

record revokeItem =
  RevokeType :: string
  Ballot :: int
  TargetAddress :: string

type_synonym nominateValue = "(string \<times> (string \<times> int) list) list"
type_synonym voteValue = "(string \<times> int) list"
type_synonym revokeValue = "(string \<times> revokeItem list) list"

datatype TdposVal = TNominate nominateValue | TVote voteValue | TRevoke revokeValue

record TdposWorld =
  twGov :: gov_store
  twKv :: "TdposVal bucket"

text \<open>
  The instance: its name and version, its bucket (which is also its contract name), the token's
  configuration, and whether the bridge refuses a nested call, for lack of permission or gas.
\<close>

record TdposEnv =
  tpName :: string
  tpVersion :: int
  bindContractBucket :: string
  tpGov :: GovEnv
  callRefused :: "KCtx \<Rightarrow> string \<Rightarrow> bool"

datatype tdpos_error =
  ErrNominateAddr | ErrVoteNominate | ErrAmount | ErrAuth | ErrRepeatNominate | ErrEmptyNominateKey
  | ErrValueNotFound | KeyMissing | Unmarshal | CallRefused | CallFailed gov_error

type_synonym tdpos_result = "(tdpos_error, TdposVal Response) result \<times> TdposWorld"

definition tdposFee :: int where "tdposFee = 1000"
definition NOMINATETYPE :: string where "NOMINATETYPE = ''nominate''"
definition VOTETYPE :: string where "VOTETYPE = ''vote''"

definition nomKey :: "TdposEnv \<Rightarrow> string" where
  "nomKey tp = tpName tp @ ''_'' @ itoa (tpVersion tp) @ ''_'' @ ''nominate''"

definition voteKey :: "TdposEnv \<Rightarrow> string \<Rightarrow> string" where
  "voteKey tp candidate = tpName tp @ ''_'' @ itoa (tpVersion tp) @ ''_'' @ ''vote_'' @ candidate"

definition revKey :: "TdposEnv \<Rightarrow> string" where
  "revKey tp = tpName tp @ ''_'' @ itoa (tpVersion tp) @ ''_'' @ ''revoke''"

definition okReply :: "TdposVal Response" where
  "okReply = \<lparr>rStatus = StatusOK, rBody = None, rXFee = tdposFee\<rparr>"

section \<open>Operations\<close>

definition checkArgs :: "KCtx \<Rightarrow> string option" where
  "checkArgs ctx = (let candidateName = contents (kArgs ctx ''candidate'') in
     if candidateName = [] then None else Some candidateName)"

definition amountArg :: "KCtx \<Rightarrow> int option" where
  "amountArg ctx =
     (case parse_i64 (contents (kArgs ctx ''amount'')) of
        Some amount \<Rightarrow> if amount \<le> 0 then None else Some amount
      | None \<Rightarrow> None)"

definition hasSuffix :: "string \<Rightarrow> string \<Rightarrow> bool" where
  "hasSuffix s t \<longleftrightarrow> length t \<le> length s \<and> drop (length s - length t) s = t"

definition isAuthAddress :: "string \<Rightarrow> string \<Rightarrow> string list \<Rightarrow> bool" where
  "isAuthAddress candidate initiator authRequire \<longleftrightarrow>
     hasSuffix initiator candidate \<or> list_ex (\<lambda>v. hasSuffix v candidate) authRequire"

definition tokenCtx :: "TdposEnv \<Rightarrow> KCtx \<Rightarrow> int \<Rightarrow> KCtx" where
  "tokenCtx tp ctx amount = callCtx ctx (bindContractBucket tp)
     [(''from'', kInitiator ctx), (''amount'', itoa amount), (''lock_type'', GovernTokenTypeTDPOS)]"

definition callLock :: "TdposEnv \<Rightarrow> KCtx \<Rightarrow> int \<Rightarrow> TdposWorld \<Rightarrow> tdpos_result" where
  "callLock tp ctx amount w =
     (if callRefused tp ctx ''Lock'' then (Err CallRefused, w)
      else case LockGovernTokens (tpGov tp) (tokenCtx tp ctx amount) (twGov w) of
          (Ok r, g) \<Rightarrow> (Ok okReply, w\<lparr>twGov := g\<rparr>)
        | (Err e, g) \<Rightarrow> (Err (CallFailed e), w\<lparr>twGov := g\<rparr>)
        | (Panic, g) \<Rightarrow> (Panic, w\<lparr>twGov := g\<rparr>))"

definition callUnLock :: "TdposEnv \<Rightarrow> KCtx \<Rightarrow> int \<Rightarrow> TdposWorld \<Rightarrow> tdpos_result" where
  "callUnLock tp ctx amount w =
     (if callRefused tp ctx ''UnLock'' then (Err CallRefused, w)
      else case UnLockGovernTokens (tpGov tp) (tokenCtx tp ctx amount) (twGov w) of
          (Ok r, g) \<Rightarrow> (Ok okReply, w\<lparr>twGov := g\<rparr>)
        | (Err e, g) \<Rightarrow> (Err (CallFailed e), w\<lparr>twGov := g\<rparr>)
        | (Panic, g) \<Rightarrow> (Panic, w\<lparr>twGov := g\<rparr>))"

text \<open>Reading one of the stored maps: missing (\<open>None\<close>) and of the wrong shape (\<open>Some None\<close>).\<close>

definition loadNominate :: "TdposEnv \<Rightarrow> TdposWorld \<Rightarrow> nominateValue option option" where
  "loadNominate tp w = map_option (\<lambda>v. case v of TNominate n \<Rightarrow> Some n | _ \<Rightarrow> None) (twKv w (nomKey tp))"

definition loadVote :: "TdposEnv \<Rightarrow> TdposWorld \<Rightarrow> string \<Rightarrow> voteValue option option" where
  "loadVote tp w c = map_option (\<lambda>v. case v of TVote n \<Rightarrow> Some n | _ \<Rightarrow> None) (twKv w (voteKey tp c))"

definition loadRevoke :: "TdposEnv \<Rightarrow> TdposWorld \<Rightarrow> revokeValue option option" where
  "loadRevoke tp w = map_option (\<lambda>v. case v of TRevoke n \<Rightarrow> Some n | _ \<Rightarrow> None) (twKv w (revKey tp))"

definition putKv :: "TdposWorld \<Rightarrow> string \<Rightarrow> TdposVal \<Rightarrow> TdposWorld" where
  "putKv w k v = w\<lparr>twKv := (twKv w)(k \<mapsto> v)\<rparr>"

text \<open>The map a handler works with when a missing key is not an error.\<close>

definition orEmpty :: "'a list option option \<Rightarrow> 'a list option" where
  "orEmpty x = (case x of None \<Rightarrow> Some [] | Some y \<Rightarrow> y)"

definition runNominateCandidate :: "TdposEnv \<Rightarrow> KCtx \<Rightarrow> TdposWorld \<Rightarrow> tdpos_result" where
  "runNominateCandidate tp ctx w =
     (case checkArgs ctx of
        None \<Rightarrow> (Err ErrNominateAddr, w)
      | Some candidateName \<Rightarrow>
          (case amountArg ctx of
             None \<Rightarrow> (Err ErrAmount, w)
           | Some amount \<Rightarrow>
               if \<not> isAuthAddress candidateName (kInitiator ctx) (kAuthRequire ctx) then (Err ErrAuth, w)
               else case callLock tp ctx amount w of
                   (Ok _, w1) \<Rightarrow>
                     (case orEmpty (loadNominate tp w1) of
                        None \<Rightarrow> (Err Unmarshal, w1)
                      | Some nominateValue \<Rightarrow>
                          if map_of nominateValue candidateName \<noteq> None then (Err ErrRepeatNominate, w1)
                          else (Ok okReply, putKv w1 (nomKey tp)
                                 (TNominate (AList.update candidateName [(kInitiator ctx, amount)] nominateValue))))
                 | r \<Rightarrow> r))"

definition appendRevoke :: "revokeValue \<Rightarrow> string \<Rightarrow> revokeItem \<Rightarrow> revokeValue" where
  "appendRevoke rv initiator item =
     AList.update initiator (contents_list (map_of rv initiator) @ [item]) rv"

definition runRevokeCandidate :: "TdposEnv \<Rightarrow> KCtx \<Rightarrow> TdposWorld \<Rightarrow> tdpos_result" where
  "runRevokeCandidate tp ctx w =
     (case checkArgs ctx of
        None \<Rightarrow> (Err ErrNominateAddr, w)
      | Some candidateName \<Rightarrow>
          (case loadNominate tp w of
             None \<Rightarrow> (Err KeyMissing, w)
           | Some None \<Rightarrow> (Err Unmarshal, w)
           | Some (Some nominateValue) \<Rightarrow>
               (case map_of nominateValue candidateName of
                  None \<Rightarrow> (Err ErrEmptyNominateKey, w)
                | Some v \<Rightarrow>
                    (case map_of v (kInitiator ctx) of
                       None \<Rightarrow> (Err ErrValueNotFound, w)
                     | Some ballot \<Rightarrow>
                         (case callUnLock tp ctx ballot w of
                            (Ok _, w1) \<Rightarrow>
                              (case orEmpty (loadRevoke tp w1) of
                                 None \<Rightarrow> (Err Unmarshal, w1)
                               | Some revokeValue \<Rightarrow>
                                   (Ok okReply,
                                    putKv (putKv w1 (revKey tp)
                                        (TRevoke (appendRevoke revokeValue (kInitiator ctx)
                                           \<lparr>RevokeType = NOMINATETYPE, Ballot = ballot, TargetAddress = candidateName\<rparr>)))
                                      (nomKey tp) (TNominate (AList.delete candidateName nominateValue))))
                          | r \<Rightarrow> r)))))"

definition runVote :: "TdposEnv \<Rightarrow> KCtx \<Rightarrow> TdposWorld \<Rightarrow> tdpos_result" where
  "runVote tp ctx w =
     (case checkArgs ctx of
        None \<Rightarrow> (Err ErrNominateAddr, w)
      | Some candidateName \<Rightarrow>
          (case amountArg ctx of
             None \<Rightarrow> (Err ErrAmount, w)
           | Some amount \<Rightarrow>
               (case callLock tp ctx amount w of
                  (Ok _, w1) \<Rightarrow>
                    (case loadNominate tp w1 of
                       None \<Rightarrow> (Err KeyMissing, w1)
                     | Some None \<Rightarrow> (Err Unmarshal, w1)
                     | Some (Some nominateValue) \<Rightarrow>
                         if map_of nominateValue candidateName = None then (Err ErrVoteNominate, w1)
                         else (case orEmpty (loadVote tp w1 candidateName) of
                                 None \<Rightarrow> (Err Unmarshal, w1)
                               | Some voteValue \<Rightarrow>
                                   let old = (case map_of voteValue (kInitiator ctx) of None \<Rightarrow> 0 | Some v \<Rightarrow> v)
                                   in (Ok okReply, putKv w1 (voteKey tp candidateName)
                                        (TVote (AList.update (kInitiator ctx) (i64 (old + amount)) voteValue)))))
                | r \<Rightarrow> r)))"

definition runRevokeVote :: "TdposEnv \<Rightarrow> KCtx \<Rightarrow> TdposWorld \<Rightarrow> tdpos_result" where
  "runRevokeVote tp ctx w =
     (case checkArgs ctx of
        None \<Rightarrow> (Err ErrNominateAddr, w)
      | Some candidateName \<Rightarrow>
          (case amountArg ctx of
             None \<Rightarrow> (Err ErrAmount, w)
           | Some amount \<Rightarrow>
               (case callUnLock tp ctx amount w of
                  (Ok _, w1) \<Rightarrow>
                    (case loadVote tp w1 candidateName of
                       None \<Rightarrow> (Err KeyMissing, w1)
                     | Some None \<Rightarrow> (Err Unmarshal, w1)
                     | Some (Some voteValue) \<Rightarrow>
                         (case map_of voteValue (kInitiator ctx) of
                            None \<Rightarrow> (Err ErrValueNotFound, w1)
                          | Some v \<Rightarrow>
                              if v < amount then (Err ErrEmptyNominateKey, w1)
                              else (case orEmpty (loadRevoke tp w1) of
                                      None \<Rightarrow> (Err Unmarshal, w1)
                                    | Some revokeValue \<Rightarrow>
                                        (Ok okReply,
                                         putKv (putKv w1 (revKey tp)
                                             (TRevoke (appendRevoke revokeValue (kInitiator ctx)
                                                \<lparr>RevokeType = VOTETYPE, Ballot = amount, TargetAddress = candidateName\<rparr>)))
                                           (voteKey tp candidateName)
                                           (TVote (if i64 (v - amount) = 0 then AList.delete (kInitiator ctx) voteValue
                                                   else AList.update (kInitiator ctx) (i64 (v - amount)) voteValue))))))
                | r \<Rightarrow> r)))"

text \<open>
  The query: \<open>None\<close> stands for the empty object that is returned before the first nomination;
  votes that cannot be read are skipped.
\<close>

record TdposInfos =
  tiNominate :: nominateValue
  tiVote :: "(string \<times> voteValue) list"
  tiRevoke :: revokeValue

definition runGetTdposInfos :: "TdposEnv \<Rightarrow> TdposWorld \<Rightarrow> (tdpos_error, TdposInfos option) result" where
  "runGetTdposInfos tp w =
     (case loadNominate tp w of
        None \<Rightarrow> Ok None
      | Some None \<Rightarrow> Err Unmarshal
      | Some (Some nominateValue) \<Rightarrow>
          (case orEmpty (loadRevoke tp w) of
             None \<Rightarrow> Err Unmarshal
           | Some revokeValue \<Rightarrow>
               Ok (Some \<lparr>tiNominate = nominateValue,
                 tiVote = concat (map (\<lambda>(c, _). case loadVote tp w c of Some (Some v) \<Rightarrow> [(c, v)] | _ \<Rightarrow> []) nominateValue),
                 tiRevoke = revokeValue\<rparr>)))"

section \<open>Ballots\<close>

definition amt :: "(string \<times> int) list \<Rightarrow> string \<Rightarrow> int" where
  "amt m a = (case map_of m a of Some n \<Rightarrow> n | None \<Rightarrow> 0)"

fun contrib :: "string \<Rightarrow> TdposVal option \<Rightarrow> int" where
  "contrib a None = 0"
| "contrib a (Some (TNominate nv)) = (\<Sum>(c, m) \<leftarrow> nv. amt m a)"
| "contrib a (Some (TVote vv)) = amt vv a"
| "contrib a (Some (TRevoke rv)) = 0"

definition ballots :: "TdposVal bucket \<Rightarrow> string \<Rightarrow> int" where
  "ballots kv a = (\<Sum>k \<in> dom kv. contrib a (kv k))"

fun val_ok :: "TdposVal \<Rightarrow> bool" where
  "val_ok (TNominate nv) \<longleftrightarrow> distinct (map fst nv) \<and> (\<forall>(c, m) \<in> set nv. \<exists>i n. m = [(i, n)] \<and> 0 < n)"
| "val_ok (TVote vv) \<longleftrightarrow> (\<forall>a n. map_of vv a = Some n \<longrightarrow> 0 < n)"
| "val_ok (TRevoke rv) \<longleftrightarrow> True"

definition lockedTdpos :: "gov_store \<Rightarrow> string \<Rightarrow> int" where
  "lockedTdpos g a = (case balanceOf g a of Some b \<Rightarrow> lockedOf b GovernTokenTypeTDPOS | None \<Rightarrow> 0)"

definition tdpos_inv :: "TdposWorld \<Rightarrow> bool" where
  "tdpos_inv w \<longleftrightarrow> gov_inv (twGov w) \<and> finite (dom (twKv w))
     \<and> (\<forall>k v. twKv w k = Some v \<longrightarrow> val_ok v)
     \<and> (\<forall>a. lockedTdpos (twGov w) a = ballots (twKv w) a)"

lemma ballots_upd:
  "finite (dom kv) \<Longrightarrow> ballots (kv(k \<mapsto> v)) a = ballots kv a - contrib a (kv k) + contrib a (Some v)"
  unfolding ballots_def by (rule sum_upd) simp_all

lemma amt_nonneg: "(\<And>n. map_of m a = Some n \<Longrightarrow> 0 < n) \<Longrightarrow> 0 \<le> amt m a"
  by (cases "map_of m a") (auto simp: amt_def less_imp_le)

lemma contrib_nonneg: "val_ok v \<Longrightarrow> 0 \<le> contrib a (Some v)"
proof (cases v)
  case (TNominate nv)
  assume "val_ok v"
  with TNominate have "0 \<le> amt m a" if "(c, m) \<in> set nv" for c m
    using that by (fastforce simp: amt_def)
  with TNominate show ?thesis by (auto intro!: sum_list_nonneg)
qed (auto intro: amt_nonneg)

lemma contrib_le_ballots:
  assumes "finite (dom kv)" and "\<And>k v. kv k = Some v \<Longrightarrow> val_ok v"
  shows "contrib a (kv k) \<le> ballots kv a"
proof (cases "k \<in> dom kv")
  case True
  have "0 \<le> contrib a (kv j)" for j using assms(2) contrib_nonneg by (cases "kv j") auto
  with True assms(1) show ?thesis unfolding ballots_def by (intro member_le_sum) auto
next
  case False
  have "0 \<le> contrib a (kv j)" for j using assms(2) contrib_nonneg by (cases "kv j") auto
  then have "0 \<le> ballots kv a" unfolding ballots_def by (intro sum_nonneg) auto
  moreover from False have "kv k = None" by auto
  ultimately show ?thesis by simp
qed

lemma update_new: "map_of xs k = None \<Longrightarrow> AList.update k v xs = xs @ [(k, v)]"
  by (induction xs) (auto split: if_splits)

lemma amt_single [simp]: "amt [(i, n)] a = (if a = i then n else 0)"
  by (simp add: amt_def)

lemma contrib_nominate:
  "map_of nv c = None \<Longrightarrow>
   contrib a (Some (TNominate (AList.update c [(i, n)] nv))) = contrib a (Some (TNominate nv)) + (if a = i then n else 0)"
  by (simp add: update_new)

lemma contrib_revoke_nominate:
  assumes "distinct (map fst nv)" and "map_of nv c = Some m"
  shows "contrib a (Some (TNominate (AList.delete c nv))) = contrib a (Some (TNominate nv)) - amt m a"
  using assms
proof (induction nv)
  case (Cons p nv)
  obtain d m' where p: "p = (d, m')" by (cases p)
  show ?case
  proof (cases "d = c")
    case True
    with Cons.prems p have "AList.delete c nv = nv" by (auto intro!: delete_idem simp: image_iff) 
    with True Cons.prems p show ?thesis by simp
  next
    case False
    with Cons p show ?thesis by simp
  qed
qed simp

lemma amt_update [simp]: "amt (AList.update i x m) a = (if a = i then x else amt m a)"
  by (simp add: amt_def update_conv')

lemma amt_delete [simp]: "amt (AList.delete i m) a = (if a = i then 0 else amt m a)"
  by (simp add: amt_def delete_conv')

lemma val_ok_nominate: "val_ok (TNominate nv) \<Longrightarrow> map_of nv c = None \<Longrightarrow> 0 < n \<Longrightarrow> val_ok (TNominate (AList.update c [(i, n)] nv))"
  by (auto simp: update_new map_of_eq_None_iff)

lemma val_ok_delete: "val_ok (TNominate nv) \<Longrightarrow> val_ok (TNominate (AList.delete c nv))"
  by (auto simp: AList.delete_eq distinct_map_filter)

lemma val_ok_vote: "val_ok (TVote vv) \<Longrightarrow> 0 < x \<Longrightarrow> val_ok (TVote (AList.update i x vv))"
  by (auto simp: update_conv')

lemma val_ok_unvote: "val_ok (TVote vv) \<Longrightarrow> val_ok (TVote (AList.delete i vv))"
  by (auto simp: delete_conv' split: if_splits)

lemma key_distinct [simp]:
  "revKey tp \<noteq> nomKey tp" "nomKey tp \<noteq> revKey tp" "voteKey tp c \<noteq> revKey tp" "revKey tp \<noteq> voteKey tp c"
  "voteKey tp c \<noteq> nomKey tp" "nomKey tp \<noteq> voteKey tp c" "voteKey tp c = voteKey tp d \<longleftrightarrow> c = d"
  by (simp_all add: revKey_def nomKey_def voteKey_def)

subsection \<open>The nested calls\<close>

lemma setString_itoa [simp]: "setString env (itoa n) = n"
  by (simp add: setString_def parse_int_itoa)

lemma tokenCtx_args [simp]:
  "kArgs (tokenCtx tp ctx n) ''from'' = Some (kInitiator ctx)" "kArgs (tokenCtx tp ctx n) ''amount'' = Some (itoa n)"
  "kArgs (tokenCtx tp ctx n) ''lock_type'' = Some GovernTokenTypeTDPOS"
  by (simp_all add: tokenCtx_def callCtx_def)

lemma lockedTdpos_put:
  assumes "gov_inv g" and "gov_inv (g(MakeAccountBalanceKey i \<mapsto> GBalance b))"
  shows "lockedTdpos (g(MakeAccountBalanceKey i \<mapsto> GBalance b)) a
    = (if a = i then lockedOf b GovernTokenTypeTDPOS else lockedTdpos g a)"
proof (cases "a = i")
  case True
  then have "balanceOf (g(MakeAccountBalanceKey i \<mapsto> GBalance b)) a = Some b"
    using balanceOf_key [OF assms(2)] by simp
  with True show ?thesis by (simp add: lockedTdpos_def)
next
  case False
  then show ?thesis by (simp add: lockedTdpos_def balanceOf_def)
qed

lemma supplied_put:
  "gov_inv g \<Longrightarrow> g (MakeAccountBalanceKey i) = Some (GBalance b) \<Longrightarrow> TotalBalance c = TotalBalance b \<Longrightarrow>
   supplied (g(MakeAccountBalanceKey i \<mapsto> GBalance c)) = supplied g"
  by (simp add: supplied_upd gov_inv_def)

lemma callLock_Ok:
  assumes "gov_inv (twGov w)" and "callLock tp ctx n w = (Ok r, w1)" and "0 \<le> n"
  shows "twKv w1 = twKv w \<and> gov_inv (twGov w1) \<and> supplied (twGov w1) = supplied (twGov w)
    \<and> (\<forall>a. lockedTdpos (twGov w1) a = lockedTdpos (twGov w) a + (if a = kInitiator ctx then n else 0))
    \<and> lockedTdpos (twGov w1) (kInitiator ctx) \<le> supplied (twGov w)"
proof -
  obtain q g where l: "LockGovernTokens (tpGov tp) (tokenCtx tp ctx n) (twGov w) = (Ok q, g)"
    and w1: "w1 = w\<lparr>twGov := g\<rparr>"
    using assms(2) by (auto simp: callLock_def split: if_splits prod.splits result.splits)
  have inv: "gov_inv g" using Lock_inv [OF assms(1) l] assms(3) by simp
  from assms(1) l obtain b where b: "twGov w (MakeAccountBalanceKey (kInitiator ctx)) = Some (GBalance b)" "bal_ok b"
    "n \<le> TotalBalance b - lockedOf b GovernTokenTypeTDPOS"
    "g = (twGov w)(MakeAccountBalanceKey (kInitiator ctx) \<mapsto>
        GBalance (setLocked b GovernTokenTypeTDPOS (lockedOf b GovernTokenTypeTDPOS + n)))"
    by (rule Lock_Ok) auto
  have "balanceOf (twGov w) (kInitiator ctx) = Some b" using balanceOf_key [OF assms(1)] b(1) by blast
  then have "lockedTdpos (twGov w) (kInitiator ctx) = lockedOf b GovernTokenTypeTDPOS" by (simp add: lockedTdpos_def)
  moreover have "TotalBalance b \<le> supplied (twGov w)" using total_le_supplied [OF assms(1) b(1)] .
  ultimately show ?thesis
    using w1 inv b lockedTdpos_put [OF assms(1), of "kInitiator ctx"] supplied_put [OF assms(1) b(1)] by auto
qed

lemma callUnLock_Ok:
  assumes "gov_inv (twGov w)" and "callUnLock tp ctx n w = (Ok r, w1)" and "0 \<le> n"
    and "n \<le> lockedTdpos (twGov w) (kInitiator ctx)"
  shows "gov_inv (twGov w1) \<and> supplied (twGov w1) = supplied (twGov w)
    \<and> (\<forall>a. lockedTdpos (twGov w1) a = lockedTdpos (twGov w) a - (if a = kInitiator ctx then n else 0))"
proof -
  obtain q g where l: "UnLockGovernTokens (tpGov tp) (tokenCtx tp ctx n) (twGov w) = (Ok q, g)"
    and w1: "w1 = w\<lparr>twGov := g\<rparr>"
    using assms(2) by (auto simp: callUnLock_def split: if_splits prod.splits result.splits)
  from assms(1) l obtain b where b: "twGov w (MakeAccountBalanceKey (kInitiator ctx)) = Some (GBalance b)" "bal_ok b"
    "g = (twGov w)(MakeAccountBalanceKey (kInitiator ctx) \<mapsto>
        GBalance (setLocked b GovernTokenTypeTDPOS (lockedOf b GovernTokenTypeTDPOS - n)))"
    by (rule UnLock_Ok) auto
  have bal: "balanceOf (twGov w) (kInitiator ctx) = Some b" using balanceOf_key [OF assms(1)] b(1) by simp
  then have lk: "lockedTdpos (twGov w) (kInitiator ctx) = lockedOf b GovernTokenTypeTDPOS" by (simp add: lockedTdpos_def)
  have "gov_inv g" using UnLock_inv [OF assms(1) l] assms(3,4) bal lk by simp
  then show ?thesis
    using w1 b lk lockedTdpos_put [OF assms(1), of "kInitiator ctx"] supplied_put [OF assms(1) b(1)] by auto
qed

lemma lockedTdpos_le:
  assumes "gov_inv g"
  shows "lockedTdpos g a \<le> supplied g"
proof (cases "balanceOf g a")
  case None
  have "0 \<le> supplied g"
    unfolding supplied_def using assms bal_ok_total_nonneg
    by (intro sum_nonneg) (auto simp: gov_inv_def total_of_def split: option.splits GovVal.splits)
  with None show ?thesis by (simp add: lockedTdpos_def)
next
  case (Some b)
  then have key: "g (MakeAccountBalanceKey a) = Some (GBalance b)" using balanceOf_key [OF assms] by simp
  have "lockedOf b GovernTokenTypeTDPOS \<le> TotalBalance b"
    using gov_inv_balance [OF assms key] lockedOf_bounds bal_ok_total_nonneg by blast
  with total_le_supplied [OF assms key] Some show ?thesis by (simp add: lockedTdpos_def)
qed

lemma callUnLock_kv: "callUnLock tp ctx n w = (Ok r, w1) \<Longrightarrow> twKv w1 = twKv w"
  by (auto simp: callUnLock_def split: if_splits prod.splits result.splits)

lemma callLock_kv: "callLock tp ctx n w = (Ok r, w1) \<Longrightarrow> twKv w1 = twKv w"
  by (auto simp: callLock_def split: if_splits prod.splits result.splits)

subsection \<open>Each operation keeps the books\<close>

lemma amountArg_pos: "amountArg ctx = Some n \<Longrightarrow> 0 < n"
  by (auto simp: amountArg_def split: option.splits if_splits)

lemma tdpos_invD:
  assumes "tdpos_inv w"
  shows "gov_inv (twGov w)" "finite (dom (twKv w))" "twKv w k = Some v \<Longrightarrow> val_ok v"
    "lockedTdpos (twGov w) a = ballots (twKv w) a"
  using assms by (auto simp: tdpos_inv_def)

lemma orEmpty_nominate:
  assumes "orEmpty (loadNominate tp w) = Some nv" and "tdpos_inv w"
  shows "contrib a (twKv w (nomKey tp)) = contrib a (Some (TNominate nv))" "val_ok (TNominate nv)"
  using assms tdpos_invD(3) [OF assms(2), of "nomKey tp"]
  by (auto simp: orEmpty_def loadNominate_def split: option.splits TdposVal.splits)

lemma orEmpty_vote:
  assumes "orEmpty (loadVote tp w c) = Some vv" and "tdpos_inv w"
  shows "contrib a (twKv w (voteKey tp c)) = contrib a (Some (TVote vv))" "val_ok (TVote vv)"
  using assms tdpos_invD(3) [OF assms(2), of "voteKey tp c"]
  by (auto simp: orEmpty_def loadVote_def amt_def split: option.splits TdposVal.splits)

lemma orEmpty_revoke:
  "orEmpty (loadRevoke tp w) = Some rv \<Longrightarrow> contrib a (twKv w (revKey tp)) = 0"
  by (auto simp: orEmpty_def loadRevoke_def split: option.splits TdposVal.splits)

lemma load_kv:
  assumes "twKv w1 = twKv w"
  shows "loadNominate tp w1 = loadNominate tp w" "loadVote tp w1 c = loadVote tp w c" "loadRevoke tp w1 = loadRevoke tp w"
  using assms by (simp_all add: loadNominate_def loadVote_def loadRevoke_def)

text \<open>Locked tokens and a stored map that change by the same amount for the same account.\<close>

lemma tdpos_inv_put:
  assumes "tdpos_inv w" and "twKv w1 = twKv w" and "gov_inv (twGov w1)" and "val_ok v"
    and "\<And>a. lockedTdpos (twGov w1) a - lockedTdpos (twGov w) a = contrib a (Some v) - contrib a (twKv w k)"
  shows "tdpos_inv (putKv w1 k v)"
proof -
  have "lockedTdpos (twGov w1) a = ballots ((twKv w1)(k \<mapsto> v)) a" for a
    using assms(5) [of a] tdpos_invD(2,4) [OF assms(1)] assms(2) by (simp add: ballots_upd)
  then show ?thesis using assms(1-4) by (auto simp: tdpos_inv_def putKv_def)
qed

lemma tdpos_inv_put2:
  assumes "tdpos_inv w" and "twKv w1 = twKv w" and "gov_inv (twGov w1)" and "val_ok v" and "val_ok u" and "j \<noteq> k"
    and "\<And>a. contrib a (Some u) = contrib a (twKv w j)"
    and "\<And>a. lockedTdpos (twGov w1) a - lockedTdpos (twGov w) a = contrib a (Some v) - contrib a (twKv w k)"
  shows "tdpos_inv (putKv (putKv w1 j u) k v)"
proof -
  have "lockedTdpos (twGov w1) a = ballots ((twKv w1)(j \<mapsto> u, k \<mapsto> v)) a" for a
    using assms(6,7) assms(8) [of a] tdpos_invD(2,4) [OF assms(1)] assms(2) by (simp add: ballots_upd)
  then show ?thesis using assms(1-5) by (auto simp: tdpos_inv_def putKv_def)
qed

lemma putKv_gov [simp]: "twGov (putKv w k v) = twGov w"
  by (simp add: putKv_def)

lemma runNominateCandidate_inv:
  assumes "tdpos_inv w" and "runNominateCandidate tp ctx w = (Ok r, w')"
  shows "tdpos_inv w' \<and> supplied (twGov w') = supplied (twGov w)"
proof -
  obtain c n w1 q nv where s: "amountArg ctx = Some n" "callLock tp ctx n w = (Ok q, w1)"
    "orEmpty (loadNominate tp w1) = Some nv" "map_of nv c = None"
    "w' = putKv w1 (nomKey tp) (TNominate (AList.update c [(kInitiator ctx, n)] nv))"
    using assms(2) unfolding runNominateCandidate_def
    by (auto split: option.splits if_splits prod.splits result.splits)
  have pos: "0 < n" using amountArg_pos [OF s(1)] .
  note L = callLock_Ok [OF tdpos_invD(1) [OF assms(1)] s(2)]
  have kv: "twKv w1 = twKv w" using callLock_kv [OF s(2)] .
  note nv = orEmpty_nominate [OF s(3) [unfolded load_kv [OF kv]] assms(1)]
  have "tdpos_inv w'"
    unfolding s(5)
  proof (rule tdpos_inv_put [OF assms(1) kv])
    show "val_ok (TNominate (AList.update c [(kInitiator ctx, n)] nv))" using val_ok_nominate [OF nv(2) s(4) pos] .
    show "lockedTdpos (twGov w1) a - lockedTdpos (twGov w) a
        = contrib a (Some (TNominate (AList.update c [(kInitiator ctx, n)] nv))) - contrib a (twKv w (nomKey tp))" for a
      using L pos nv(1) contrib_nominate [OF s(4)] by simp
  qed (use L pos in simp)
  with L pos s(5) show ?thesis by simp
qed

lemma runRevokeCandidate_inv:
  assumes "tdpos_inv w" and "runRevokeCandidate tp ctx w = (Ok r, w')"
  shows "tdpos_inv w' \<and> supplied (twGov w') = supplied (twGov w)"
proof -
  obtain c nv m n q w1 rv item where s: "loadNominate tp w = Some (Some nv)" "map_of nv c = Some m"
    "map_of m (kInitiator ctx) = Some n" "callUnLock tp ctx n w = (Ok q, w1)" "orEmpty (loadRevoke tp w1) = Some rv"
    "w' = putKv (putKv w1 (revKey tp) (TRevoke (appendRevoke rv (kInitiator ctx) item)))
            (nomKey tp) (TNominate (AList.delete c nv))"
    using assms(2) unfolding runRevokeCandidate_def
    by (auto split: option.splits if_splits prod.splits result.splits)
  have kv: "twKv w1 = twKv w" using callUnLock_kv [OF s(4)] .
  have nv: "contrib a (twKv w (nomKey tp)) = contrib a (Some (TNominate nv))" "val_ok (TNominate nv)" for a
    using orEmpty_nominate [of tp w nv] s(1) assms(1) by (simp_all add: orEmpty_def)
  then obtain i k where "m = [(i, k)]" "0 < k" using map_of_SomeD [OF s(2)] by auto
  with s(3) have m: "m = [(kInitiator ctx, n)]" "0 < n" by (auto split: if_splits)
  note del = contrib_revoke_nominate [of nv c m, OF _ s(2)]
  have "n \<le> contrib (kInitiator ctx) (twKv w (nomKey tp))"
    using del [of "kInitiator ctx"] nv contrib_nonneg [OF val_ok_delete [OF nv(2)], of "kInitiator ctx" c] m by simp
  also have "\<dots> \<le> lockedTdpos (twGov w) (kInitiator ctx)"
    using contrib_le_ballots [of "twKv w"] tdpos_invD [OF assms(1)] by metis
  finally have L: "gov_inv (twGov w1) \<and> supplied (twGov w1) = supplied (twGov w)
    \<and> (\<forall>a. lockedTdpos (twGov w1) a = lockedTdpos (twGov w) a - (if a = kInitiator ctx then n else 0))"
    using callUnLock_Ok [OF tdpos_invD(1) [OF assms(1)] s(4)] m(2) by simp
  have "tdpos_inv w'"
    unfolding s(6)
  proof (rule tdpos_inv_put2 [OF assms(1) kv])
    show "val_ok (TNominate (AList.delete c nv))" using val_ok_delete [OF nv(2)] .
    show "lockedTdpos (twGov w1) a - lockedTdpos (twGov w) a
        = contrib a (Some (TNominate (AList.delete c nv))) - contrib a (twKv w (nomKey tp))" for a
      using L nv del m by simp
    show "contrib a (Some (TRevoke (appendRevoke rv (kInitiator ctx) item))) = contrib a (twKv w (revKey tp))" for a
      using orEmpty_revoke [OF s(5)] kv by simp
  qed (use L in simp_all)
  with L s(6) show ?thesis by simp
qed

lemma runVote_Ok:
  assumes "tdpos_inv w" and "supplied (twGov w) < 2 ^ 63" and "runVote tp ctx w = (Ok r, w')"
  obtains c n wl q vv where "checkArgs ctx = Some c" "amountArg ctx = Some n" "callLock tp ctx n w = (Ok q, wl)"
    "orEmpty (loadVote tp wl c) = Some vv" "0 \<le> amt vv (kInitiator ctx)" "amt vv (kInitiator ctx) + n < 2 ^ 63"
    "w' = putKv wl (voteKey tp c) (TVote (AList.update (kInitiator ctx) (amt vv (kInitiator ctx) + n) vv))"
proof -
  obtain c n w1 q vv where s: "checkArgs ctx = Some c" "amountArg ctx = Some n" "callLock tp ctx n w = (Ok q, w1)"
    "orEmpty (loadVote tp w1 c) = Some vv"
    "w' = putKv w1 (voteKey tp c) (TVote (AList.update (kInitiator ctx) (i64 (amt vv (kInitiator ctx) + n)) vv))"
    using assms(3) unfolding runVote_def
    by (auto simp: Let_def amt_def split: option.splits if_splits prod.splits result.splits)
  have pos: "0 < n" using amountArg_pos [OF s(2)] .
  have kv: "twKv w1 = twKv w" using callLock_kv [OF s(3)] .
  note vv = orEmpty_vote [OF s(4) [unfolded load_kv [OF kv]] assms(1)]
  note L = callLock_Ok [OF tdpos_invD(1) [OF assms(1)] s(3) less_imp_le [OF pos]]
  let ?old = "amt vv (kInitiator ctx)"
  have old: "0 \<le> ?old" using vv(2) by (intro amt_nonneg) simp
  have "?old \<le> lockedTdpos (twGov w) (kInitiator ctx)"
    using contrib_le_ballots [of "twKv w" "kInitiator ctx" "voteKey tp c"] tdpos_invD [OF assms(1)] vv(1) by simp
  moreover have "lockedTdpos (twGov w1) (kInitiator ctx) = lockedTdpos (twGov w) (kInitiator ctx) + n" using L by simp
  moreover have "lockedTdpos (twGov w1) (kInitiator ctx) \<le> supplied (twGov w)" using L by blast
  ultimately have lt: "?old + n < 2 ^ 63" using assms(2) by linarith
  with old pos have "i64 (?old + n) = ?old + n" by (intro i64_id) (simp add: is_i64_def)
  with that s old lt show ?thesis by simp
qed

lemma runVote_inv:
  assumes "tdpos_inv w" and "supplied (twGov w) < 2 ^ 63" and "runVote tp ctx w = (Ok r, w')"
  shows "tdpos_inv w' \<and> supplied (twGov w') = supplied (twGov w)"
proof -
  obtain c n w1 q vv where s: "amountArg ctx = Some n" "callLock tp ctx n w = (Ok q, w1)"
    "orEmpty (loadVote tp w1 c) = Some vv" "0 \<le> amt vv (kInitiator ctx)"
    "w' = putKv w1 (voteKey tp c) (TVote (AList.update (kInitiator ctx) (amt vv (kInitiator ctx) + n) vv))"
    using runVote_Ok [OF assms] by metis
  have pos: "0 < n" using amountArg_pos [OF s(1)] .
  have kv: "twKv w1 = twKv w" using callLock_kv [OF s(2)] .
  note vv = orEmpty_vote [OF s(3) [unfolded load_kv [OF kv]] assms(1)]
  note L = callLock_Ok [OF tdpos_invD(1) [OF assms(1)] s(2) less_imp_le [OF pos]]
  let ?old = "amt vv (kInitiator ctx)"
  have "tdpos_inv w'"
    unfolding s(5)
  proof (rule tdpos_inv_put [OF assms(1) kv])
    show "val_ok (TVote (AList.update (kInitiator ctx) (?old + n) vv))"
      using s(4) pos by (intro val_ok_vote [OF vv(2)]) simp
    show "lockedTdpos (twGov w1) a - lockedTdpos (twGov w) a
        = contrib a (Some (TVote (AList.update (kInitiator ctx) (?old + n) vv))) - contrib a (twKv w (voteKey tp c))" for a
      using L vv(1) [of a] by simp
  qed (use L in simp)
  with L s(5) show ?thesis by simp
qed

lemma runRevokeVote_inv:
  assumes "tdpos_inv w" and "supplied (twGov w) < 2 ^ 63" and "runRevokeVote tp ctx w = (Ok r, w')"
  shows "tdpos_inv w' \<and> supplied (twGov w') = supplied (twGov w)"
proof -
  obtain c n w1 q vv v rv item where s: "amountArg ctx = Some n" "callUnLock tp ctx n w = (Ok q, w1)"
    "loadVote tp w1 c = Some (Some vv)" "map_of vv (kInitiator ctx) = Some v" "\<not> v < n"
    "orEmpty (loadRevoke tp w1) = Some rv"
    "w' = putKv (putKv w1 (revKey tp) (TRevoke (appendRevoke rv (kInitiator ctx) item))) (voteKey tp c)
            (TVote (if i64 (v - n) = 0 then AList.delete (kInitiator ctx) vv
                    else AList.update (kInitiator ctx) (i64 (v - n)) vv))"
    using assms(3) unfolding runRevokeVote_def
    by (auto split: option.splits if_splits prod.splits result.splits)
  have pos: "0 < n" using amountArg_pos [OF s(1)] .
  have kv: "twKv w1 = twKv w" using callUnLock_kv [OF s(2)] .
  have vv: "contrib a (twKv w (voteKey tp c)) = contrib a (Some (TVote vv))" "val_ok (TVote vv)" for a
    using orEmpty_vote [of tp w c vv] s(3) load_kv [OF kv] assms(1) by (simp_all add: orEmpty_def)
  have v: "v = amt vv (kInitiator ctx)" using s(4) by (simp add: amt_def)
  have le: "v \<le> lockedTdpos (twGov w) (kInitiator ctx)"
    using contrib_le_ballots [of "twKv w" "kInitiator ctx" "voteKey tp c"] tdpos_invD [OF assms(1)] vv(1) v by simp
  have L: "gov_inv (twGov w1) \<and> supplied (twGov w1) = supplied (twGov w)
    \<and> (\<forall>a. lockedTdpos (twGov w1) a = lockedTdpos (twGov w) a - (if a = kInitiator ctx then n else 0))"
    using callUnLock_Ok [OF tdpos_invD(1) [OF assms(1)] s(2)] pos le s(5) by simp
  have "lockedTdpos (twGov w) (kInitiator ctx) \<le> supplied (twGov w)"
    using lockedTdpos_le [OF tdpos_invD(1) [OF assms(1)]] .
  with le assms(2) s(5) pos have i: "i64 (v - n) = v - n" by (intro i64_id) (simp add: is_i64_def)
  let ?v = "TVote (if v - n = 0 then AList.delete (kInitiator ctx) vv else AList.update (kInitiator ctx) (v - n) vv)"
  have "tdpos_inv w'"
    unfolding s(7) i
  proof (rule tdpos_inv_put2 [OF assms(1) kv])
    show "val_ok ?v"
      using val_ok_vote [OF vv(2), of "v - n" "kInitiator ctx"] val_ok_unvote [OF vv(2), of "kInitiator ctx"] s(5)
      by (cases "v = n") (simp_all del: val_ok.simps)
    show "lockedTdpos (twGov w1) a - lockedTdpos (twGov w) a = contrib a (Some ?v) - contrib a (twKv w (voteKey tp c))" for a
      using L vv(1) [of a] v by (cases "v - n = 0") simp_all
    show "contrib a (Some (TRevoke (appendRevoke rv (kInitiator ctx) item))) = contrib a (twKv w (revKey tp))" for a
      using orEmpty_revoke [OF s(6)] kv by simp
  qed (use L in simp_all)
  with L s(7) show ?thesis by simp
qed

section \<open>Runs\<close>

datatype tdpos_op =
    Nominate KCtx | RevokeNominate KCtx | Vote KCtx | RevokeVote KCtx | Transfer KCtx

definition transferGov :: "TdposEnv \<Rightarrow> KCtx \<Rightarrow> TdposWorld \<Rightarrow> TdposWorld" where
  "transferGov tp ctx w = w\<lparr>twGov := committed (twGov w) (TransferGovernTokens (tpGov tp) ctx (twGov w))\<rparr>"

fun tdpos_exec :: "TdposEnv \<Rightarrow> tdpos_op \<Rightarrow> TdposWorld \<Rightarrow> TdposWorld" where
  "tdpos_exec tp (Nominate ctx) w = committed w (runNominateCandidate tp ctx w)"
| "tdpos_exec tp (RevokeNominate ctx) w = committed w (runRevokeCandidate tp ctx w)"
| "tdpos_exec tp (Vote ctx) w = committed w (runVote tp ctx w)"
| "tdpos_exec tp (RevokeVote ctx) w = committed w (runRevokeVote tp ctx w)"
| "tdpos_exec tp (Transfer ctx) w = transferGov tp ctx w"

text \<open>Transfers go to other accounts that have nothing locked for elections.\<close>

fun tdpos_allowed :: "tdpos_op \<Rightarrow> TdposWorld \<Rightarrow> bool" where
  "tdpos_allowed (Transfer ctx) w \<longleftrightarrow> kArgs ctx ''to'' \<noteq> Some (kInitiator ctx)
     \<and> lockedTdpos (twGov w) (contents (kArgs ctx ''to'')) = 0"
| "tdpos_allowed _ w \<longleftrightarrow> True"

fun tdpos_run :: "TdposEnv \<Rightarrow> tdpos_op list \<Rightarrow> TdposWorld \<Rightarrow> TdposWorld" where
  "tdpos_run tp [] w = w"
| "tdpos_run tp (p # ops) w = tdpos_run tp ops (tdpos_exec tp p w)"

fun tdpos_run_allowed :: "TdposEnv \<Rightarrow> tdpos_op list \<Rightarrow> TdposWorld \<Rightarrow> bool" where
  "tdpos_run_allowed tp [] w \<longleftrightarrow> True"
| "tdpos_run_allowed tp (p # ops) w \<longleftrightarrow> tdpos_allowed p w \<and> tdpos_run_allowed tp ops (tdpos_exec tp p w)"

lemma transferGov_inv:
  assumes "tdpos_inv w" and "tdpos_allowed (Transfer ctx) w"
  shows "tdpos_inv (transferGov tp ctx w) \<and> supplied (twGov (transferGov tp ctx w)) = supplied (twGov w)"
proof (cases rule: committed_cases [of "twGov w" "TransferGovernTokens (tpGov tp) ctx (twGov w)"])
  case kept
  with assms(1) show ?thesis by (simp add: transferGov_def)
next
  case (changed r g)
  note inv = tdpos_invD(1) [OF assms(1)]
  have g: "gov_inv g" using Transfer_inv [OF inv changed(1)] assms(2) by simp
  from inv changed(1) obtain to amount b old where t: "kArgs ctx ''to'' = Some to"
    "twGov w (MakeAccountBalanceKey (kInitiator ctx)) = Some (GBalance b)"
    "old = total_of (twGov w (MakeAccountBalanceKey to))"
    "g = (twGov w)(MakeAccountBalanceKey (kInitiator ctx) \<mapsto> GBalance (b\<lparr>TotalBalance := TotalBalance b - amount\<rparr>),
                  MakeAccountBalanceKey to \<mapsto> GBalance (NewGovernTokenBalance\<lparr>TotalBalance := amount + old\<rparr>))"
    by (rule Transfer_Ok) blast
  have ne: "to \<noteq> kInitiator ctx" and z: "lockedTdpos (twGov w) to = 0" using assms(2) t(1) by auto
  have "lockedTdpos g a = lockedTdpos (twGov w) a" for a
  proof -
    have at: "g (MakeAccountBalanceKey to) = Some (GBalance (NewGovernTokenBalance\<lparr>TotalBalance := amount + old\<rparr>))"
      "g (MakeAccountBalanceKey (kInitiator ctx)) = Some (GBalance (b\<lparr>TotalBalance := TotalBalance b - amount\<rparr>))"
      using t(4) ne by simp_all
    have new: "balanceOf g to = Some (NewGovernTokenBalance\<lparr>TotalBalance := amount + old\<rparr>)"
      "balanceOf g (kInitiator ctx) = Some (b\<lparr>TotalBalance := TotalBalance b - amount\<rparr>)"
      "balanceOf (twGov w) (kInitiator ctx) = Some b"
      using at t(2) balanceOf_key [OF g] balanceOf_key [OF inv] by blast+
    show ?thesis
    proof (cases "a = to \<or> a = kInitiator ctx")
      case True
      then show ?thesis
      proof
        assume "a = to"
        with new z show ?thesis by (simp add: lockedTdpos_def lockedOf_def NewGovernTokenBalance_def)
      next
        assume "a = kInitiator ctx"
        with new show ?thesis by (simp add: lockedTdpos_def lockedOf_def)
      qed
    next
      case False
      then show ?thesis using t(4) by (simp add: lockedTdpos_def balanceOf_def)
    qed
  qed
  moreover have "supplied g = supplied (twGov w)"
    unfolding t(4) using inv t(2,3) ne by (simp add: supplied_upd gov_inv_def)
  ultimately show ?thesis
    using g changed assms(1) by (simp add: transferGov_def tdpos_inv_def)
qed

lemma tdpos_exec_inv:
  assumes "tdpos_inv w" and "supplied (twGov w) < 2 ^ 63" and "tdpos_allowed p w"
  shows "tdpos_inv (tdpos_exec tp p w) \<and> supplied (twGov (tdpos_exec tp p w)) = supplied (twGov w)"
proof -
  note keep = committed_pres [where P = "\<lambda>w'. tdpos_inv w' \<and> supplied (twGov w') = supplied (twGov w)" and s = w]
  show ?thesis
  proof (cases p)
    case (Nominate ctx)
    show ?thesis unfolding Nominate tdpos_exec.simps
      by (rule keep) (use assms(1) runNominateCandidate_inv [OF assms(1)] in blast)+
  next
    case (RevokeNominate ctx)
    show ?thesis unfolding RevokeNominate tdpos_exec.simps
      by (rule keep) (use assms(1) runRevokeCandidate_inv [OF assms(1)] in blast)+
  next
    case (Vote ctx)
    show ?thesis unfolding Vote tdpos_exec.simps
      by (rule keep) (use assms(1) runVote_inv [OF assms(1,2)] in blast)+
  next
    case (RevokeVote ctx)
    show ?thesis unfolding RevokeVote tdpos_exec.simps
      by (rule keep) (use assms(1) runRevokeVote_inv [OF assms(1,2)] in blast)+
  next
    case (Transfer ctx)
    then show ?thesis using assms(1,3) transferGov_inv by simp
  qed
qed

lemma tdpos_run_inv:
  "tdpos_inv w \<Longrightarrow> supplied (twGov w) < 2 ^ 63 \<Longrightarrow> tdpos_run_allowed tp ops w \<Longrightarrow>
   tdpos_inv (tdpos_run tp ops w) \<and> supplied (twGov (tdpos_run tp ops w)) = supplied (twGov w)"
proof (induction ops arbitrary: w)
  case (Cons p ops)
  then show ?case using tdpos_exec_inv [of w p tp] by simp
qed simp

lemma initLoop_unlocked:
  "initLoop env ps n st = (Ok m, st') \<Longrightarrow>
   (\<And>k b. st k = Some (GBalance b) \<Longrightarrow> lockedOf b t = 0) \<Longrightarrow> st' k = Some (GBalance b) \<Longrightarrow> lockedOf b t = 0"
proof (induction env ps n st rule: initLoop.induct)
  case (2 env address quota ps n st)
  let ?st = "st(MakeAccountBalanceKey address \<mapsto> GBalance (NewGovernTokenBalance\<lparr>TotalBalance := setString env quota\<rparr>))"
  have pos: "\<not> setString env quota < 0" and rest: "initLoop env ps (n + setString env quota) ?st = (Ok m, st')"
    using "2.prems"(1) by (auto simp: Let_def split: if_splits)
  have "lockedOf b t = 0" if "?st k = Some (GBalance b)" for k b
    using that "2.prems"(2) by (auto simp: lockedOf_def NewGovernTokenBalance_def split: if_splits)
  then show ?case using "2.IH" [OF refl pos rest] "2.prems"(3) by blast
qed auto

lemma Init_tdpos_inv:
  assumes "InitGovernTokens env Map.empty = (Ok r, g)" and "distinct (map fst (Predistribution env))"
  shows "tdpos_inv \<lparr>twGov = g, twKv = Map.empty\<rparr>"
proof -
  note inv = Init_inv [OF assms]
  obtain m st1 where l: "initLoop env (Predistribution env) 0 Map.empty = (Ok m, st1)"
    and g: "g = st1(MakeTotalSupplyKey \<mapsto> GText (itoa m), GetDistributedKey \<mapsto> GText ''true'')"
    using assms(1) by (auto simp: InitGovernTokens_def split: prod.splits result.splits)
  have "lockedTdpos g a = 0" for a
  proof (cases "balanceOf g a")
    case (Some b)
    then have "st1 (MakeAccountBalanceKey a) = Some (GBalance b)" using balanceOf_key [OF inv] g by simp
    then have "lockedOf b GovernTokenTypeTDPOS = 0" using initLoop_unlocked [OF l] by simp
    with Some show ?thesis by (simp add: lockedTdpos_def)
  qed (simp add: lockedTdpos_def)
  with inv show ?thesis by (simp add: tdpos_inv_def ballots_def)
qed


definition tdpos_demo :: TdposEnv where
  "tdpos_demo = \<lparr>tpName = ''tdpos'', tpVersion = 1, bindContractBucket = TDPOSKernelContract,
     tpGov = gov_demo_env, callRefused = \<lambda>_ _. False\<rparr>"

definition tdpos_demo_ops :: "tdpos_op list" where
  "tdpos_demo_ops =
     [Nominate (gov_demo_ctx ''a'' [] [(''candidate'', ''a''), (''amount'', itoa 10)]),
      Vote (gov_demo_ctx ''b'' [] [(''candidate'', ''a''), (''amount'', itoa 4)])]"

lemma gov_demo_supplied: "supplied gov_demo_init < 2 ^ 63"
proof -
  obtain r where r: "InitGovernTokens gov_demo_env Map.empty = (Ok r, gov_demo_init)" using gov_demo_init_Ok by blast
  have "gov_inv gov_demo_init" by (rule Init_inv [OF r]) (simp add: gov_demo_env_def)
  then have "gov_demo_init MakeTotalSupplyKey = Some (GText (itoa (supplied gov_demo_init)))" by (simp add: gov_inv_def)
  moreover have "gov_demo_init MakeTotalSupplyKey = Some (GText (itoa 100))"
    by (simp add: gov_demo_init_def InitGovernTokens_def gov_demo_env_def setString_def parse_int_itoa)
  ultimately show ?thesis by (simp add: itoa_inj)
qed


section \<open>A vote can be taken back\<close>

lemma callUnLock_succeeds:
  assumes "gov_inv (twGov w)" and "\<not> callRefused tp ctx ''UnLock''" and "mayLock (tokenCtx tp ctx n)"
    and "balanceOf (twGov w) (kInitiator ctx) = Some b"
  shows "\<exists>w1. callUnLock tp ctx n w = (Ok okReply, w1)"
  using assms by (simp add: callUnLock_def UnLockGovernTokens_def validLockType_def)

lemma callLock_allowed:
  assumes "gov_inv (twGov w)" and "callLock tp ctx n w = (Ok r, w1)" and "0 \<le> n"
  shows "mayLock (tokenCtx tp ctx n) \<and> balanceOf (twGov w1) (kInitiator ctx) \<noteq> None"
proof -
  obtain q g where l: "LockGovernTokens (tpGov tp) (tokenCtx tp ctx n) (twGov w) = (Ok q, g)"
    and w1: "w1 = w\<lparr>twGov := g\<rparr>"
    using assms(2) by (auto simp: callLock_def split: if_splits prod.splits result.splits)
  have inv: "gov_inv g" using Lock_inv [OF assms(1) l] assms(3) by simp
  from assms(1) l obtain b where "mayLock (tokenCtx tp ctx n)"
    "g (MakeAccountBalanceKey (kInitiator ctx)) = Some (GBalance b)"
    by (rule Lock_Ok) auto
  with w1 balanceOf_key [OF inv] show ?thesis by (metis TdposWorld.select_convs(1) TdposWorld.surjective TdposWorld.update_convs(1) option.distinct(1))
qed


lemma tdpos_demo_inv: "tdpos_inv \<lparr>twGov = gov_demo_init, twKv = Map.empty\<rparr>"
proof -
  obtain r where r: "InitGovernTokens gov_demo_env Map.empty = (Ok r, gov_demo_init)" using gov_demo_init_Ok by blast
  show ?thesis by (rule Init_tdpos_inv [OF r]) (simp add: gov_demo_env_def)
qed

definition tdpos_demo_w :: TdposWorld where
  "tdpos_demo_w = tdpos_exec tdpos_demo (hd tdpos_demo_ops) \<lparr>twGov = gov_demo_init, twKv = Map.empty\<rparr>"

definition tdpos_demo_vote :: KCtx where
  "tdpos_demo_vote = gov_demo_ctx ''b'' [] [(''candidate'', ''a''), (''amount'', itoa 4)]"

lemma gov_demo_init_eval:
  "gov_demo_init = [MakeAccountBalanceKey ''a'' \<mapsto> GBalance (NewGovernTokenBalance\<lparr>TotalBalance := 90\<rparr>),
     MakeAccountBalanceKey ''b'' \<mapsto> GBalance (NewGovernTokenBalance\<lparr>TotalBalance := 10\<rparr>),
     MakeTotalSupplyKey \<mapsto> GText (itoa 100), GetDistributedKey \<mapsto> GText ''true'']"
  by (simp add: gov_demo_init_def InitGovernTokens_def gov_demo_env_def setString_def parse_int_itoa)

lemma tdpos_demo_eval:
  "fst (runVote tdpos_demo tdpos_demo_vote tdpos_demo_w) = Ok okReply" "loadRevoke tdpos_demo tdpos_demo_w = None"
  "supplied (twGov tdpos_demo_w) < 2 ^ 63" "tdpos_inv tdpos_demo_w"
proof -
  have w: "tdpos_inv tdpos_demo_w \<and> supplied (twGov tdpos_demo_w) = supplied gov_demo_init"
    unfolding tdpos_demo_w_def using tdpos_exec_inv [OF tdpos_demo_inv, of "hd tdpos_demo_ops" tdpos_demo] gov_demo_supplied
    by (simp add: tdpos_demo_ops_def)
  with gov_demo_supplied show "tdpos_inv tdpos_demo_w" "supplied (twGov tdpos_demo_w) < 2 ^ 63" by simp_all
  have amount: "parse_i64 (itoa 10) = Some 10" "parse_i64 (itoa 4) = Some 4"
    by (simp_all add: parse_i64_itoa is_i64_def)
  note defs = tdpos_demo_vote_def tdpos_demo_w_def tdpos_demo_ops_def tdpos_demo_def gov_demo_ctx_def gov_demo_init_eval
    runNominateCandidate_def runVote_def checkArgs_def amountArg_def amount isAuthAddress_def hasSuffix_def
    callLock_def LockGovernTokens_def tokenCtx_def callCtx_def mayLock_def validLockType_def balanceOf_def
    NewGovernTokenBalance_def lockedOf_def loadNominate_def loadVote_def loadRevoke_def orEmpty_def putKv_def lock_types
  show "fst (runVote tdpos_demo tdpos_demo_vote tdpos_demo_w) = Ok okReply" "loadRevoke tdpos_demo tdpos_demo_w = None"
    by (simp_all add: defs setLocked_def)
qed


end
