(* ===== verification/Tdpos_Schedule.thy ===== *)
theory Tdpos_Schedule
  imports Consensus_Common Tdpos_Contract "HOL-Library.Product_Lexorder"
begin

text \<open>
  The election and the timetable of TDPoS (\<open>bcs/consensus/tdpos/schedule.go\<close>): which proposer of
  which term may produce which block at a time, and who the proposers are, from the nominations
  and votes of a snapshot three blocks back. The theorems say that the timetable assigns every
  instant to at most one slot and every slot a non-empty interval, that the elected proposers are
  the best candidates in an order that does not depend on map iteration, and that the binary
  search finds the block before a term.
\<close>

section \<open>State\<close>

record tdposSchedule =
  schAddress :: string
  period :: int
  blockNum :: int
  proposerNum :: int
  alternateInterval :: int
  termInterval :: int
  initTimestamp :: int
  enableChainedBFT :: bool
  validators :: "string list"
  initValidators :: "string list"
  curTerm :: int
  schMiner :: string
  startHeight :: int
  consensusName :: string
  consensusVersion :: int
  schBucket :: string

text \<open>
  The ledger as the election sees it: headers by height, the tip, and snapshots. A snapshot is
  missing when it cannot be created; reading a key of it may fail, or find nothing.
\<close>

record TdposLedger =
  headerByHeight :: "int \<Rightarrow> BlockInfo option"
  tipHeader :: BlockInfo
  snapshot :: "slice \<Rightarrow> (string \<Rightarrow> string \<Rightarrow> (TdposVal option) option) option"
  ledgerCodec :: StorageCodec

datatype sched_error =
  ErrHeightTooLow | ErrQueryBlock | ErrSnapshot | ErrSnapshotGet | ErrJson | ErrStorage storage_error | ErrParse

section \<open>The timetable\<close>

text \<open>
  Go divides by zero with a panic. A configuration in milliseconds, timestamps in nanoseconds;
  the results are the term, the position of the proposer and the position of its block.
\<close>

definition goQuot :: "int \<Rightarrow> int \<Rightarrow> (sched_error, int) result" where
  "goQuot a b = (if b = 0 then Panic else Ok (i64 (go_div a b)))"

definition termTime :: "tdposSchedule \<Rightarrow> int" where
  "termTime s = i64 (i64 (termInterval s + i64 (i64 (i64 (blockNum s - 1) * proposerNum s) * period s))
     + i64 (i64 (proposerNum s - 1) * alternateInterval s))"

definition posTime :: "tdposSchedule \<Rightarrow> int" where
  "posTime s = i64 (alternateInterval s + i64 (period s * i64 (blockNum s - 1)))"

definition schedBlock :: "tdposSchedule \<Rightarrow> int \<Rightarrow> int \<Rightarrow> int \<Rightarrow> int \<Rightarrow> (sched_error, int \<times> int \<times> int) result" where
  "schedBlock s T term termBegin pos =
     (let proposerBegin = i64 (i64 (i64 (termBegin + i64 (pos * posTime s)) + alternateInterval s) - period s)
      in if T \<le> proposerBegin then Ok (term, pos, -1)
         else bind_result (goQuot (i64 (T - proposerBegin)) (period s)) (\<lambda>blockPos. Ok (term, pos, blockPos)))"

definition schedPos :: "tdposSchedule \<Rightarrow> int \<Rightarrow> int \<Rightarrow> int \<Rightarrow> (sched_error, int \<times> int \<times> int) result" where
  "schedPos s T initT term =
     (let termBegin = i64 (i64 (i64 (initT + i64 (i64 (term - 1) * termTime s)) + termInterval s) - alternateInterval s)
      in if T \<le> termBegin then Ok (term, 0, -1)
         else bind_result (goQuot (i64 (T - termBegin)) (posTime s)) (schedBlock s T term termBegin))"

definition minerScheduling :: "tdposSchedule \<Rightarrow> int \<Rightarrow> (sched_error, int \<times> int \<times> int) result" where
  "minerScheduling s timestamp =
     (if timestamp < initTimestamp s then Ok (0, 0, 0)
      else let T = go_div timestamp 1000000; initT = go_div (initTimestamp s) 1000000
           in bind_result (goQuot (i64 (T - initT)) (termTime s)) (\<lambda>q. schedPos s T initT (i64 (q + 1))))"

section \<open>Snapshots\<close>

definition getSnapshotKey :: "tdposSchedule \<Rightarrow> TdposLedger \<Rightarrow> int \<Rightarrow> string \<Rightarrow> (sched_error, TdposVal option) result" where
  "getSnapshotKey s l height key =
     (if height \<le> 0 then Err ErrHeightTooLow
      else case headerByHeight l height of
          None \<Rightarrow> Err ErrQueryBlock
        | Some block \<Rightarrow>
            (case snapshot l (blkBlockid block) of
               None \<Rightarrow> Err ErrSnapshot
             | Some reader \<Rightarrow>
                 (case reader (schBucket s) key of
                    None \<Rightarrow> Err ErrSnapshotGet
                  | Some v \<Rightarrow> Ok v)))"

definition getTerm :: "TdposLedger \<Rightarrow> int \<Rightarrow> (sched_error, int) result" where
  "getTerm l pos =
     (case headerByHeight l pos of
        None \<Rightarrow> Err ErrQueryBlock
      | Some b \<Rightarrow>
          (case ParseOldQCStorage (ledgerCodec l) (blkStorage b) of
             None \<Rightarrow> Err ErrParse
           | Some storage \<Rightarrow> Ok (csCurTerm storage)))"

lemma mid_bounds: "b < e \<Longrightarrow> b \<le> b + go_div (e - b) 2 \<and> b + go_div (e - b) 2 < e"
  by (simp add: go_div_nonneg)

text \<open>
  The search for the last block before a term. It halves an interval, so it ends; the loop reads
  two terms per round and fails with the first error. Heights are not negative, so the sum that
  gives the middle stays between its ends and does not overflow.
\<close>

function binarySearch :: "TdposLedger \<Rightarrow> int \<Rightarrow> int \<Rightarrow> int \<Rightarrow> (sched_error, int) result" where
  "binarySearch l begin' end' term =
     (if begin' < end'
      then let mid = begin' + go_div (end' - begin') 2
           in bind_result (getTerm l mid) (\<lambda>midTerm.
                bind_result (getTerm l (mid + 1)) (\<lambda>nextMidTerm.
                  if midTerm < term \<and> nextMidTerm = term then Ok mid
                  else if midTerm < term then binarySearch l (mid + 1) end' term
                  else binarySearch l begin' mid term))
      else Ok begin')"
  by auto

termination
proof (relation "measure (\<lambda>(_, b, e, _). nat (e - b))", goal_cases)
  case (2 l b e t mid x y)
  then show ?case using mid_bounds [of b e] by auto
next
  case (3 l b e t mid x y)
  then show ?case using mid_bounds [of b e] by auto
qed simp

declare binarySearch.simps [simp del]

section \<open>The election\<close>

record termBallots =
  tbAddress :: string
  tbBallots :: int

definition tbKey :: "termBallots \<Rightarrow> int \<times> string" where
  "tbKey t = (tbBallots t, tbAddress t)"

text \<open>
  \<open>sort.Stable\<close> with the comparison of \<open>termBallotsSlice\<close>: more ballots first, then the greater
  address. A stable descending sort is the reversal of a stable ascending one of the reversed list.
\<close>

definition sortBallots :: "termBallots list \<Rightarrow> termBallots list" where
  "sortBallots tv = rev (sort_key tbKey (rev tv))"

definition schNomKey :: "tdposSchedule \<Rightarrow> string" where
  "schNomKey s = consensusName s @ ''_'' @ itoa (consensusVersion s) @ ''_'' @ ''nominate''"

definition schVoteKey :: "tdposSchedule \<Rightarrow> string \<Rightarrow> string" where
  "schVoteKey s candidate = consensusName s @ ''_'' @ itoa (consensusVersion s) @ ''_'' @ ''vote_'' @ candidate"

definition sumVotes :: "voteValue \<Rightarrow> int" where
  "sumVotes vv = fold (\<lambda>(_, ballot) acc. i64 (acc + ballot)) vv 0"

text \<open>
  The ballots of the candidates, in the order in which the map of nominations is ranged over:
  candidates without votes are skipped.
\<close>

fun collectBallots :: "tdposSchedule \<Rightarrow> TdposLedger \<Rightarrow> int \<Rightarrow> string list \<Rightarrow> (sched_error, termBallots list) result" where
  "collectBallots s l height [] = Ok []"
| "collectBallots s l height (candidate # cs) =
     bind_result (getSnapshotKey s l (height - 3) (schVoteKey s candidate)) (\<lambda>res.
       case res of
         None \<Rightarrow> collectBallots s l height cs
       | Some (TVote vv) \<Rightarrow>
           if sumVotes vv \<le> 0 then collectBallots s l height cs
           else bind_result (collectBallots s l height cs) (\<lambda>rest.
                  Ok (\<lparr>tbAddress = candidate, tbBallots = sumVotes vv\<rparr> # rest))
       | Some _ \<Rightarrow> Err ErrJson)"

definition topK :: "tdposSchedule \<Rightarrow> termBallots list \<Rightarrow> string list" where
  "topK s tv =
     (if int (length tv) < proposerNum s then initValidators s
      else map tbAddress (take (nat (proposerNum s)) (sortBallots tv)))"

definition calTopKNominator :: "tdposSchedule \<Rightarrow> TdposLedger \<Rightarrow> int \<Rightarrow> (sched_error, string list) result" where
  "calTopKNominator s l height =
     (if height < startHeight s + 3 then Ok (initValidators s)
      else bind_result (getSnapshotKey s l (height - 3) (schNomKey s)) (\<lambda>res.
             case res of
               None \<Rightarrow> Ok (initValidators s)
             | Some (TNominate nv) \<Rightarrow>
                 bind_result (collectBallots s l height (map fst nv)) (\<lambda>tv. Ok (topK s tv))
             | Some _ \<Rightarrow> Err ErrJson))"

definition calHisValidators :: "tdposSchedule \<Rightarrow> TdposLedger \<Rightarrow> int \<Rightarrow> (sched_error, string list) result" where
  "calHisValidators s l height =
     (case headerByHeight l height of
        None \<Rightarrow> Err ErrQueryBlock
      | Some block \<Rightarrow>
          bind_result (minerScheduling s (blkTimestamp block)) (\<lambda>(term, pos, blockPos).
            let internal = i64 (i64 (pos * blockNum s) + blockPos);
                begin0 = i64 (i64 (blkHeight block - internal) - 1);
                begin' = (if begin0 \<le> startHeight s then startHeight s else begin0)
            in bind_result (binarySearch l begin' (blkHeight block) term) (\<lambda>targetHeight.
                 calTopKNominator s l targetHeight)))"

text \<open>
  The proposers of a block that was produced at a given time. A block that repeats a height after
  a rollback carries the height of the tip of its producer as \<open>TargetBits\<close>.
\<close>

definition CalOldProposers :: "tdposSchedule \<Rightarrow> TdposLedger \<Rightarrow> int \<Rightarrow> int \<Rightarrow> slice \<Rightarrow> (sched_error, string list) result" where
  "CalOldProposers s l height timestamp storage =
     (if height < startHeight s + 3 then Ok (initValidators s)
      else let tipHeight = blkHeight (tipHeader l)
           in if height < tipHeight then calHisValidators s l height
              else bind_result (getTerm l tipHeight) (\<lambda>tipTerm.
                   bind_result (minerScheduling s timestamp) (\<lambda>(inputTerm, _, _).
                   if tipTerm = inputTerm then calHisValidators s l tipHeight
                   else if enableChainedBFT s \<and> storage \<noteq> None
                   then (case ParseOldQCStorage (ledgerCodec l) storage of
                           None \<Rightarrow> Err (ErrStorage StorageUnmarshal)
                         | Some justify \<Rightarrow>
                             calTopKNominator s l (if csTargetBits justify \<noteq> 0 then csTargetBits justify else tipHeight))
                   else calTopKNominator s l tipHeight)))"

text \<open>The readings of the clock, in order, are the arguments \<open>now1\<close>, \<open>now2\<close> and so on.\<close>

definition calAddTime :: "tdposSchedule \<Rightarrow> int \<Rightarrow> int \<Rightarrow> int \<Rightarrow> (sched_error, int) result" where
  "calAddTime s now1 round' tipHeight =
     bind_result (minerScheduling s now1) (\<lambda>(_, nowPos, nowBlockPos).
       if round' \<le> tipHeight then Ok 0
       else if nowPos = i64 (proposerNum s - 1) \<and> nowBlockPos = i64 (blockNum s - 1) then Ok (i64 (termInterval s * 1000000))
       else if nowBlockPos = i64 (blockNum s - 1) then Ok (i64 (alternateInterval s * 1000000))
       else Ok (i64 (period s * 1000000)))"

definition CalculateProposers :: "tdposSchedule \<Rightarrow> TdposLedger \<Rightarrow> int \<Rightarrow> int \<Rightarrow> int \<Rightarrow> (sched_error, string list) result" where
  "CalculateProposers s l now1 now2 height =
     (if height < startHeight s + 3 then Ok (initValidators s)
      else bind_result (calAddTime s now1 height (blkHeight (tipHeader l))) (\<lambda>addTime.
           bind_result (minerScheduling s (i64 (now2 + addTime))) (\<lambda>(inputTerm, _, _).
           if curTerm s = inputTerm then Ok (validators s) else calTopKNominator s l height)))"

text \<open>\<open>None\<close> is the nil list that an error leaves; a panic stays one.\<close>

definition nilOnError :: "(sched_error, 'a) result \<Rightarrow> (sched_error, 'a option) result" where
  "nilOnError r = (case r of Ok a \<Rightarrow> Ok (Some a) | Err _ \<Rightarrow> Ok None | Panic \<Rightarrow> Panic)"

definition schGetValidators :: "tdposSchedule \<Rightarrow> TdposLedger \<Rightarrow> int \<Rightarrow> int \<Rightarrow> int \<Rightarrow> (sched_error, string list option) result" where
  "schGetValidators s l now1 now2 round' =
     (if round' < startHeight s + 3 then Ok (Some (initValidators s))
      else case headerByHeight l round' of
          None \<Rightarrow> nilOnError (CalculateProposers s l now1 now2 round')
        | Some block \<Rightarrow> nilOnError (CalOldProposers s l round' (blkTimestamp block) (blkStorage block)))"

definition index :: "string list \<Rightarrow> int \<Rightarrow> (sched_error, string) result" where
  "index xs i = (if 0 \<le> i \<and> i < int (length xs) then Ok (xs ! nat i) else Panic)"

definition schGetLeader :: "tdposSchedule \<Rightarrow> TdposLedger \<Rightarrow> int \<Rightarrow> int \<Rightarrow> int \<Rightarrow> int \<Rightarrow> int \<Rightarrow> (sched_error, string) result" where
  "schGetLeader s l now1 now2 now3 now4 round' =
     (case headerByHeight l round' of
        Some b \<Rightarrow> Ok (contents (blkProposer b))
      | None \<Rightarrow>
          bind_result (schGetValidators s l now1 now2 round') (\<lambda>proposers.
            case proposers of
              None \<Rightarrow> Ok []
            | Some ps \<Rightarrow>
                bind_result (calAddTime s now3 round' (blkHeight (tipHeader l))) (\<lambda>addTime.
                bind_result (minerScheduling s (i64 (now4 + addTime))) (\<lambda>(_, pos, _).
                if proposerNum s \<le> pos then Ok [] else index ps pos))))"

definition UpdateProposers :: "tdposSchedule \<Rightarrow> TdposLedger \<Rightarrow> int \<Rightarrow> int \<Rightarrow> int \<Rightarrow> (sched_error, tdposSchedule \<times> bool) result" where
  "UpdateProposers s l now1 now2 height =
     (if height < startHeight s + 3 then Ok (s, False)
      else bind_result (nilOnError (CalculateProposers s l now1 now2 height)) (\<lambda>next.
             case next of
               None \<Rightarrow> Ok (s, False)
             | Some nextProposers \<Rightarrow>
                 if nextProposers = [] then Ok (s, False)
                 else if \<not> AddressEqual nextProposers (validators s) then Ok (s\<lparr>validators := nextProposers\<rparr>, True)
                 else Ok (s, False)))"

record tdposConfig =
  cfgVersion :: int
  cfgProposerNum :: int
  cfgPeriod :: int
  cfgAlternateInterval :: int
  cfgTermInterval :: int
  cfgBlockNum :: int
  cfgInitTimestamp :: int
  cfgInitProposer :: "(string \<times> string list) list"
  cfgEnableBFT :: "(string \<times> bool) list option"

text \<open>The constructor: \<open>Ok None\<close> is the nil instance it returns on an error.\<close>

definition NewSchedule :: "tdposConfig \<Rightarrow> TdposLedger \<Rightarrow> int \<Rightarrow> (sched_error, tdposSchedule option) result" where
  "NewSchedule c l start =
     (let vs = contents_list (map_of (cfgInitProposer c) ''1'');
          s = \<lparr>schAddress = [], period = cfgPeriod c, blockNum = cfgBlockNum c, proposerNum = cfgProposerNum c,
               alternateInterval = cfgAlternateInterval c, termInterval = cfgTermInterval c,
               initTimestamp = cfgInitTimestamp c, enableChainedBFT = False, validators = vs, initValidators = vs,
               curTerm = 0, schMiner = [], startHeight = start, consensusName = ''tdpos'',
               consensusVersion = cfgVersion c, schBucket = ''$tdpos''\<rparr>;
          tip = tipHeader l;
          finish = (\<lambda>s. if cfgEnableBFT c \<noteq> None
                        then s\<lparr>enableChainedBFT := True, consensusName := ''xpos'', schBucket := ''$xpos''\<rparr> else s)
      in case CalOldProposers s l (blkHeight tip) (blkTimestamp tip) (blkStorage tip) of
           Ok refresh \<Rightarrow>
             Ok (Some (finish (if \<not> AddressEqual (validators s) refresh \<and> refresh \<noteq> []
                               then s\<lparr>validators := refresh\<rparr> else s)))
         | Err ErrHeightTooLow \<Rightarrow> Ok (Some (finish s))
         | Err _ \<Rightarrow> Ok None
         | Panic \<Rightarrow> Panic)"

section \<open>Slots\<close>

text \<open>
  A sensible configuration: the intervals the comment of \<open>minerScheduling\<close> asks for, at least one
  proposer and one block each, and a term far below the range of 64 bits.
\<close>

definition cfg_ok :: "tdposSchedule \<Rightarrow> bool" where
  "cfg_ok s \<longleftrightarrow> 0 < period s \<and> period s \<le> alternateInterval s \<and> alternateInterval s \<le> termInterval s
     \<and> 1 \<le> blockNum s \<and> 1 \<le> proposerNum s \<and> 0 \<le> initTimestamp s
     \<and> termInterval s < 2 ^ 40 \<and> blockNum s * proposerNum s * period s < 2 ^ 40
     \<and> proposerNum s * alternateInterval s < 2 ^ 40"

definition ms :: "int \<Rightarrow> int" where
  "ms t = t div 1000000"

text \<open>The millisecond at which a slot of a term begins.\<close>

definition slot_begin :: "tdposSchedule \<Rightarrow> int \<Rightarrow> int \<Rightarrow> int \<Rightarrow> int" where
  "slot_begin s term pos b = ms (initTimestamp s) + (term - 1) * termTime s + termInterval s
     + pos * posTime s - period s + b * period s"

lemma i64_pos: "0 \<le> x \<Longrightarrow> x < 4611686018427387904 \<Longrightarrow> i64 x = x"
  by (rule i64_small) simp

lemma div_between: "0 < c \<Longrightarrow> q * c \<le> x \<Longrightarrow> x < (q + 1) * c \<Longrightarrow> x div c = q" for x c q :: int
  by (intro int_div_pos_eq [of _ _ _ "x - q * c"]) (auto simp: algebra_simps)

lemma between_div: "0 < c \<Longrightarrow> x div c * c \<le> x \<and> x < (x div c + 1) * c" for x c :: int
proof -
  assume "0 < c"
  then have "0 \<le> x mod c" "x mod c < c" "x div c * c + x mod c = x" "(x div c + 1) * c = x div c * c + c"
    by (simp_all add: distrib_right)
  then show ?thesis by linarith
qed

lemma div_le_dividend_int: "0 \<le> x \<Longrightarrow> 0 < c \<Longrightarrow> x div c \<le> x" for x c :: int
  using between_div [of c x] mult_left_mono [of 1 c "x div c"] by (simp add: pos_imp_zdiv_nonneg_iff)

lemma cfg_products:
  assumes "cfg_ok s"
  shows "0 \<le> (blockNum s - 1) * proposerNum s" "(blockNum s - 1) * proposerNum s \<le> blockNum s * proposerNum s * period s"
    "0 \<le> (blockNum s - 1) * proposerNum s * period s"
    "(blockNum s - 1) * proposerNum s * period s \<le> blockNum s * proposerNum s * period s"
    "0 \<le> (proposerNum s - 1) * alternateInterval s" "(proposerNum s - 1) * alternateInterval s \<le> proposerNum s * alternateInterval s"
    "0 \<le> period s * (blockNum s - 1)" "period s * (blockNum s - 1) \<le> blockNum s * proposerNum s * period s"
    "blockNum s \<le> blockNum s * proposerNum s * period s" "proposerNum s \<le> proposerNum s * alternateInterval s"
    "alternateInterval s \<le> proposerNum s * alternateInterval s" "period s \<le> blockNum s * proposerNum s * period s"
proof -
  have pos: "0 < period s" "0 < alternateInterval s" "1 \<le> blockNum s" "1 \<le> proposerNum s" "1 \<le> alternateInterval s" "1 \<le> period s"
    using assms by (auto simp: cfg_ok_def)
  have bp: "1 \<le> blockNum s * proposerNum s" using pos mult_mono [of 1 "blockNum s" 1 "proposerNum s"] by simp
  show "0 \<le> (blockNum s - 1) * proposerNum s" "0 \<le> (blockNum s - 1) * proposerNum s * period s"
    "0 \<le> (proposerNum s - 1) * alternateInterval s" "0 \<le> period s * (blockNum s - 1)"
    using pos by simp_all
  have "(blockNum s - 1) * proposerNum s \<le> blockNum s * proposerNum s" using pos by (intro mult_right_mono) auto
  also have "\<dots> \<le> blockNum s * proposerNum s * period s" using bp pos by (simp add: mult_le_cancel_left1)
  finally show "(blockNum s - 1) * proposerNum s \<le> blockNum s * proposerNum s * period s" .
  show "(blockNum s - 1) * proposerNum s * period s \<le> blockNum s * proposerNum s * period s"
    using pos by (intro mult_right_mono) auto
  show "(proposerNum s - 1) * alternateInterval s \<le> proposerNum s * alternateInterval s" using pos by (intro mult_right_mono) auto
  have "period s * (blockNum s - 1) \<le> period s * (blockNum s * proposerNum s)"
  proof (rule mult_left_mono)
    have "blockNum s * 1 \<le> blockNum s * proposerNum s" using pos by (intro mult_left_mono) auto
    then show "blockNum s - 1 \<le> blockNum s * proposerNum s" by linarith
  qed (use pos in simp)
  then show "period s * (blockNum s - 1) \<le> blockNum s * proposerNum s * period s" by (simp add: mult.commute)
  have "blockNum s * 1 \<le> blockNum s * (proposerNum s * period s)"
    using pos mult_mono [of 1 "proposerNum s" 1 "period s"] by (intro mult_left_mono) auto
  then show "blockNum s \<le> blockNum s * proposerNum s * period s" by (simp add: mult.assoc)
  show "proposerNum s \<le> proposerNum s * alternateInterval s" using pos by (simp add: mult_le_cancel_left1)
  show "alternateInterval s \<le> proposerNum s * alternateInterval s" using pos by (simp add: mult_le_cancel_right1)
  show "period s \<le> blockNum s * proposerNum s * period s" using pos bp by (simp add: mult_le_cancel_right1)
qed

lemma times_exact:
  assumes "cfg_ok s"
  shows "termTime s = termInterval s + (blockNum s - 1) * proposerNum s * period s + (proposerNum s - 1) * alternateInterval s"
    "posTime s = alternateInterval s + period s * (blockNum s - 1)"
proof -
  note p = cfg_products [OF assms]
  have c: "0 < period s" "period s \<le> alternateInterval s" "alternateInterval s \<le> termInterval s" "1 \<le> blockNum s" "1 \<le> proposerNum s"
    "termInterval s < 1099511627776" "blockNum s * proposerNum s * period s < 1099511627776"
    "proposerNum s * alternateInterval s < 1099511627776"
    using assms by (auto simp: cfg_ok_def)
  have i: "i64 (blockNum s - 1) = blockNum s - 1" "i64 (proposerNum s - 1) = proposerNum s - 1"
    by (rule i64_pos; use c p in linarith)+
  have j: "i64 ((blockNum s - 1) * proposerNum s) = (blockNum s - 1) * proposerNum s"
    "i64 ((blockNum s - 1) * proposerNum s * period s) = (blockNum s - 1) * proposerNum s * period s"
    "i64 ((proposerNum s - 1) * alternateInterval s) = (proposerNum s - 1) * alternateInterval s"
    "i64 (period s * (blockNum s - 1)) = period s * (blockNum s - 1)"
    by (rule i64_pos; use c p in linarith)+
  have k: "i64 (termInterval s + (blockNum s - 1) * proposerNum s * period s) = termInterval s + (blockNum s - 1) * proposerNum s * period s"
    by (rule i64_pos; use c p in linarith)
  show "termTime s = termInterval s + (blockNum s - 1) * proposerNum s * period s + (proposerNum s - 1) * alternateInterval s"
    unfolding termTime_def i j k by (rule i64_pos; use c p in linarith)
  show "posTime s = alternateInterval s + period s * (blockNum s - 1)"
    unfolding posTime_def i j by (rule i64_pos; use c p in linarith)
qed

lemma times_bounds:
  assumes "cfg_ok s"
  shows "termTime s = termInterval s - alternateInterval s + proposerNum s * posTime s"
    "0 < termTime s" "termTime s < 4398046511104" "0 < posTime s" "posTime s \<le> termTime s"
    "posTime s = alternateInterval s - period s + period s * blockNum s"
proof -
  note p = cfg_products [OF assms] and e = times_exact [OF assms]
  have c: "0 < period s" "period s \<le> alternateInterval s" "alternateInterval s \<le> termInterval s" "1 \<le> blockNum s" "1 \<le> proposerNum s"
    "termInterval s < 1099511627776" "blockNum s * proposerNum s * period s < 1099511627776"
    "proposerNum s * alternateInterval s < 1099511627776"
    using assms by (auto simp: cfg_ok_def)
  show tt: "termTime s = termInterval s - alternateInterval s + proposerNum s * posTime s" unfolding e by (simp add: algebra_simps)
  show "0 < termTime s" "termTime s < 4398046511104" unfolding e(1) using c p by linarith+
  show pos: "0 < posTime s" unfolding e(2) using c p by linarith
  show "posTime s = alternateInterval s - period s + period s * blockNum s" unfolding e(2) by (simp add: algebra_simps)
  have "1 * posTime s \<le> proposerNum s * posTime s" using c pos by (intro mult_right_mono) auto
  then show "posTime s \<le> termTime s" unfolding tt using c by simp
qed

text \<open>The timetable without wrap-around: on a sensible configuration no intermediate result overflows.\<close>

lemma minerScheduling_exact:
  assumes "cfg_ok s" and "initTimestamp s \<le> t" and "t < 2 ^ 63"
  defines "I \<equiv> ms (initTimestamp s)" and "T \<equiv> ms t"
  defines "term \<equiv> (T - I) div termTime s + 1"
  defines "termBegin \<equiv> I + (term - 1) * termTime s + termInterval s - alternateInterval s"
  defines "pos \<equiv> (T - termBegin) div posTime s"
  defines "proposerBegin \<equiv> termBegin + pos * posTime s + alternateInterval s - period s"
  shows "minerScheduling s t =
    (if T \<le> termBegin then Ok (term, 0, -1)
     else if T \<le> proposerBegin then Ok (term, pos, -1)
     else Ok (term, pos, (T - proposerBegin) div period s))"
proof -
  have c: "0 < period s" "period s \<le> alternateInterval s" "alternateInterval s \<le> termInterval s" "termInterval s < 1099511627776" "0 \<le> initTimestamp s"
    using assms(1) by (auto simp: cfg_ok_def)
  note b = times_bounds [OF assms(1)]
  have g: "go_div t 1000000 = T" "go_div (initTimestamp s) 1000000 = I"
    using c assms(2) by (simp_all add: T_def I_def ms_def go_div_nonneg)
  have TI: "0 \<le> I" "I \<le> T" "T < 17592186044416"
    using c assms(2,3) by (simp_all add: T_def I_def ms_def zdiv_mono1)
  have q: "0 \<le> (T - I) div termTime s" "(T - I) div termTime s * termTime s \<le> T - I"
    using TI b(2) between_div [OF b(2), of "T - I"] by (simp_all add: pos_imp_zdiv_nonneg_iff)
  have qs: "(T - I) div termTime s \<le> T - I" using TI b(2) by (intro div_le_dividend_int) auto
  let ?q = "(T - I) div termTime s" and ?x = "(T - I) div termTime s * termTime s"
  have "i64 (T - I) = T - I" "i64 ?q = ?q" by (rule i64_pos; use TI q qs in linarith)+
  then have d1: "goQuot (i64 (T - I)) (termTime s) = Ok ?q"
    using b(2) TI by (simp add: goQuot_def go_div_nonneg)
  have x: "(term - 1) * termTime s = ?x" "term - 1 = ?q" by (simp_all add: term_def)
  have xb: "0 \<le> ?x" using q b(2) by simp
  have t1: "i64 (?q + 1) = term" unfolding term_def by (rule i64_pos; use TI q qs in linarith)
  have t2: "i64 (term - 1) = term - 1" unfolding x by (rule i64_pos; use TI q qs in linarith)
  have t3: "i64 ((term - 1) * termTime s) = (term - 1) * termTime s" unfolding x by (rule i64_pos; use TI q xb in linarith)
  have "i64 (I + ?x) = I + ?x" "i64 (I + ?x + termInterval s) = I + ?x + termInterval s"
    "i64 (I + ?x + termInterval s - alternateInterval s) = I + ?x + termInterval s - alternateInterval s"
    by (rule i64_pos; use TI q xb c in linarith)+
  then have t4: "i64 (i64 (i64 (I + (term - 1) * termTime s) + termInterval s) - alternateInterval s) = termBegin"
    unfolding termBegin_def x by simp
  have tb: "0 \<le> termBegin" unfolding termBegin_def x using TI xb c by linarith
  have start: "minerScheduling s t = schedPos s T I term"
    using assms(2) unfolding minerScheduling_def g Let_def d1 bind_result.simps t1 by simp
  show ?thesis
  proof (cases "T \<le> termBegin")
    case True
    then show ?thesis unfolding start schedPos_def t2 t3 t4 Let_def by simp
  next
    case False
    have r: "0 \<le> pos" "pos * posTime s \<le> T - termBegin"
      using False b(4) between_div [OF b(4), of "T - termBegin"] by (simp_all add: pos_def pos_imp_zdiv_nonneg_iff)
    have rs: "pos \<le> T - termBegin" unfolding pos_def using False b(4) by (intro div_le_dividend_int) auto
    let ?y = "pos * posTime s"
    have yb: "0 \<le> ?y" using r b(4) by simp
    have "i64 (T - termBegin) = T - termBegin" "i64 pos = pos" by (rule i64_pos; use TI tb False r rs in linarith)+
    then have d2: "goQuot (i64 (T - termBegin)) (posTime s) = Ok pos"
      using b(4) False by (simp add: goQuot_def go_div_nonneg pos_def)
    have u1: "i64 (pos * posTime s) = pos * posTime s" by (rule i64_pos; use TI tb r yb in linarith)
    have "i64 (termBegin + ?y) = termBegin + ?y" "i64 (termBegin + ?y + alternateInterval s) = termBegin + ?y + alternateInterval s"
      "i64 (termBegin + ?y + alternateInterval s - period s) = termBegin + ?y + alternateInterval s - period s"
      by (rule i64_pos; use TI tb r yb c in linarith)+
    then have u2: "i64 (i64 (i64 (termBegin + pos * posTime s) + alternateInterval s) - period s) = proposerBegin"
      unfolding proposerBegin_def by simp
    have pb: "0 \<le> proposerBegin" unfolding proposerBegin_def using tb yb c by linarith
    show ?thesis
    proof (cases "T \<le> proposerBegin")
      case True
      with False show ?thesis unfolding start schedPos_def t2 t3 t4 Let_def d2 bind_result.simps schedBlock_def u1 u2 by simp
    next
      case F: False
      have dv: "(T - proposerBegin) div period s \<le> T - proposerBegin" "0 \<le> (T - proposerBegin) div period s"
        using F c div_le_dividend_int [of "T - proposerBegin" "period s"] by (simp_all add: pos_imp_zdiv_nonneg_iff)
      have "i64 (T - proposerBegin) = T - proposerBegin"
        "i64 ((T - proposerBegin) div period s) = (T - proposerBegin) div period s"
        by (rule i64_pos; use TI pb F dv in linarith)+
      then have d3: "goQuot (i64 (T - proposerBegin)) (period s) = Ok ((T - proposerBegin) div period s)"
        using F c by (simp add: goQuot_def go_div_nonneg)
      from F False show ?thesis
        unfolding start schedPos_def t2 t3 t4 Let_def d2 bind_result.simps schedBlock_def u1 u2 d3 by simp
    qed
  qed
qed

lemma slot_begin_split:
  "slot_begin s term pos b = (ms (initTimestamp s) + (term - 1) * termTime s + termInterval s - alternateInterval s)
     + pos * posTime s + alternateInterval s - period s + b * period s"
  by (simp add: slot_begin_def)

lemma slot_inside_term:
  assumes "cfg_ok s" and "pos < proposerNum s" and "b < blockNum s"
  shows "alternateInterval s + pos * posTime s + b * period s \<le> (pos + 1) * posTime s"
    "termInterval s + pos * posTime s + b * period s \<le> termTime s"
proof -
  note t = times_bounds [OF assms(1)]
  have p: "0 < period s" using assms(1) by (auto simp: cfg_ok_def)
  have "b * period s \<le> (blockNum s - 1) * period s" using assms(3) p by (intro mult_right_mono) auto
  then have bp: "b * period s \<le> period s * blockNum s - period s" by (simp add: algebra_simps)
  have e: "(pos + 1) * posTime s = pos * posTime s + posTime s" by (simp add: distrib_right)
  show 1: "alternateInterval s + pos * posTime s + b * period s \<le> (pos + 1) * posTime s"
    unfolding e using bp t(6) by linarith
  have "(pos + 1) * posTime s \<le> proposerNum s * posTime s" using assms(2) t(4) by (intro mult_right_mono) auto
  with 1 show "termInterval s + pos * posTime s + b * period s \<le> termTime s" using t(1) by linarith
qed

text \<open>An instant lies in a slot when it is within the period that begins it.\<close>

definition in_slot :: "tdposSchedule \<Rightarrow> int \<Rightarrow> int \<Rightarrow> int \<Rightarrow> int \<Rightarrow> bool" where
  "in_slot s term pos b T \<longleftrightarrow> slot_begin s term pos b \<le> T \<and> T < slot_begin s term pos b + period s
     \<and> (b = 0 \<longrightarrow> T \<noteq> slot_begin s term pos b)"

lemma scheduled_in_slot:
  assumes "cfg_ok s" and "initTimestamp s \<le> t" and "t < 2 ^ 63" and "0 \<le> b" and m: "minerScheduling s t = Ok (term, pos, b)"
  shows "in_slot s term pos b (ms t)"
proof -
  have c: "0 < period s" using assms(1) by (auto simp: cfg_ok_def)
  let ?I = "ms (initTimestamp s)" and ?T = "ms t"
  have e: "(b + 1) * period s = b * period s + period s" by (simp add: distrib_right)
  define term' where "term' = (?T - ?I) div termTime s + 1"
  define tb where "tb = ?I + (term' - 1) * termTime s + termInterval s - alternateInterval s"
  define pos' where "pos' = (?T - tb) div posTime s"
  define pb where "pb = tb + pos' * posTime s + alternateInterval s - period s"
  note ex' = minerScheduling_exact [OF assms(1-3), folded term'_def, folded tb_def, folded pos'_def, folded pb_def]
  have "\<not> ?T \<le> tb" using m assms(4) unfolding ex' by (auto split: if_splits)
  moreover have "\<not> ?T \<le> pb" using m assms(4) calculation unfolding ex' by (auto split: if_splits)
  ultimately have r: "term' = term" "pos' = pos" "(?T - pb) div period s = b" "pb < ?T"
    using m unfolding ex' by (auto split: if_splits)
  have pb: "pb + b * period s = slot_begin s term pos b" unfolding slot_begin_split pb_def tb_def r(1,2) by simp
  have "b * period s \<le> ?T - pb \<and> ?T - pb < (b + 1) * period s" using between_div [OF c, of "?T - pb"] r(3) by simp
  with pb r(4) e show ?thesis by (auto simp: in_slot_def)
qed

lemma in_slot_scheduled:
  assumes "cfg_ok s" and "initTimestamp s \<le> t" and "t < 2 ^ 63"
    and "1 \<le> term" and "0 \<le> pos" and "pos < proposerNum s" and "0 \<le> b" and "b < blockNum s" and a: "in_slot s term pos b (ms t)"
  shows "minerScheduling s t = Ok (term, pos, b)"
proof -
  have c: "0 < period s" "period s \<le> alternateInterval s" "alternateInterval s \<le> termInterval s"
    using assms(1) by (auto simp: cfg_ok_def)
  note t = times_bounds [OF assms(1)] and inside = slot_inside_term [OF assms(1,6,8)]
  note ex = minerScheduling_exact [OF assms(1-3)] and a = a [unfolded in_slot_def]
  let ?I = "ms (initTimestamp s)" and ?T = "ms t"
  have e: "(b + 1) * period s = b * period s + period s" by (simp add: distrib_right)
  have pp: "0 \<le> pos * posTime s" "0 \<le> b * period s" using assms(5,7) t(4) c(1) by simp_all
  have tt: "(term - 1 + 1) * termTime s = (term - 1) * termTime s + termTime s" by (simp add: algebra_simps)
  have "(term - 1) * termTime s \<le> ?T - ?I" using a pp c unfolding slot_begin_def by linarith
  moreover have "?T - ?I < (term - 1 + 1) * termTime s" using a inside(2) unfolding slot_begin_def tt by linarith
  ultimately have q: "(?T - ?I) div termTime s = term - 1" by (intro div_between [OF t(2)])
  define tb where "tb = ?I + (term - 1) * termTime s + termInterval s - alternateInterval s"
  have sb: "slot_begin s term pos b = tb + pos * posTime s + alternateInterval s - period s + b * period s"
    by (simp add: slot_begin_split tb_def)
  have "pos * posTime s \<le> ?T - tb" using a pp c unfolding sb by linarith
  moreover have "?T - tb < (pos + 1) * posTime s" using a inside(1) unfolding sb by linarith
  ultimately have r: "(?T - tb) div posTime s = pos" by (intro div_between [OF t(4)])
  define pb where "pb = tb + pos * posTime s + alternateInterval s - period s"
  have late: "pb < ?T"
  proof (cases "b = 0")
    case True
    with a show ?thesis unfolding sb pb_def by auto
  next
    case False
    with assms(7) c(1) have "0 < b * period s" by simp
    with a show ?thesis unfolding sb pb_def by linarith
  qed
  then have "tb < ?T" using pp c unfolding pb_def by linarith
  moreover have "(?T - pb) div period s = b"
  proof (rule div_between [OF c(1)])
    show "b * period s \<le> ?T - pb" "?T - pb < (b + 1) * period s" using a e unfolding sb pb_def by linarith+
  qed
  moreover have "\<not> ?T \<le> tb" "\<not> ?T \<le> pb" using calculation(1) late by simp_all
  ultimately show ?thesis
    unfolding ex q add_diff_cancel_right' diff_add_cancel tb_def [symmetric] r pb_def [symmetric] by simp
qed

text \<open>
  C23: The timetable. Every slot of the schedule is a half-open interval of one period, counted
  from the start of its term (the first block of a proposer excludes the first millisecond), and
  a timestamp is scheduled to a slot exactly when it lies in that interval; hence at any time at
  most one proposer may produce, and every proposer gets every one of its slots.
\<close>

theorem minerScheduling_slot_iff:
  assumes "cfg_ok s" and "initTimestamp s \<le> t" and "t < 2 ^ 63"
    and "1 \<le> term" and "0 \<le> pos" and "pos < proposerNum s" and "0 \<le> b" and "b < blockNum s"
  shows "minerScheduling s t = Ok (term, pos, b) \<longleftrightarrow>
    slot_begin s term pos b \<le> ms t \<and> ms t < slot_begin s term pos b + period s
    \<and> (b = 0 \<longrightarrow> ms t \<noteq> slot_begin s term pos b)"
  using scheduled_in_slot [OF assms(1-3,7), of "term" pos] in_slot_scheduled [OF assms]
  unfolding in_slot_def by blast

text \<open>A term of two proposers with three blocks each, one second apart.\<close>

definition sched_demo :: tdposSchedule where
  "sched_demo = \<lparr>schAddress = ''a'', period = 1000, blockNum = 3, proposerNum = 2, alternateInterval = 2000,
     termInterval = 5000, initTimestamp = 0, enableChainedBFT = False, validators = [''a'', ''b''],
     initValidators = [''a'', ''b''], curTerm = 0, schMiner = [], startHeight = 0, consensusName = ''tdpos'',
     consensusVersion = 0, schBucket = ''$tdpos''\<rparr>"

lemma sched_demo_ok: "cfg_ok sched_demo"
  by (simp add: cfg_ok_def sched_demo_def)

theorem minerScheduling_slot_iff_witness:
  "minerScheduling sched_demo 10500000000 = Ok (1, 1, 2)"
proof -
  have "termTime sched_demo = 11000" "posTime sched_demo = 4000"
    by (simp_all add: times_exact [OF sched_demo_ok]) (simp_all add: sched_demo_def)
  then have "slot_begin sched_demo 1 1 2 = 10000" by (simp add: slot_begin_def ms_def) (simp add: sched_demo_def)
  then show ?thesis
    using minerScheduling_slot_iff [OF sched_demo_ok, of 10500000000 1 1 2] by (simp add: ms_def) (simp add: sched_demo_def)
qed

section \<open>No index is out of range\<close>

lemma minerScheduling_bounds:
  assumes "cfg_ok s" and "t < 2 ^ 63"
  obtains tm pos b where "minerScheduling s t = Ok (tm, pos, b)" "0 \<le> pos" "pos < proposerNum s" "-1 \<le> b" "b < blockNum s"
proof (cases "initTimestamp s \<le> t")
  case False
  with assms(1) that [of 0 0 0] show ?thesis by (auto simp: minerScheduling_def cfg_ok_def)
next
  case True
  note t = times_bounds [OF assms(1)]
  have c: "0 < period s" "1 \<le> proposerNum s" "1 \<le> blockNum s" using assms(1) by (auto simp: cfg_ok_def)
  let ?T = "ms t" and ?I = "ms (initTimestamp s)"
  define tm where "tm = (?T - ?I) div termTime s + 1"
  define tb where "tb = ?I + (tm - 1) * termTime s + termInterval s - alternateInterval s"
  define pos where "pos = (?T - tb) div posTime s"
  define pb where "pb = tb + pos * posTime s + alternateInterval s - period s"
  note ex = minerScheduling_exact [OF assms(1) True assms(2), folded tm_def, folded tb_def, folded pos_def, folded pb_def]
  show ?thesis
  proof (cases "?T \<le> tb")
    case True
    with ex c that [of tm 0 "-1"] show ?thesis by simp
  next
    case late: False
    have "?T - ?I < ((?T - ?I) div termTime s + 1) * termTime s" using between_div [OF t(2)] by blast
    then have "?T - ?I < (tm - 1) * termTime s + termTime s" by (simp add: tm_def algebra_simps)
    then have "?T - tb < proposerNum s * posTime s" using t(1) unfolding tb_def by linarith
    moreover have "pos * posTime s \<le> ?T - tb" using between_div [OF t(4)] unfolding pos_def by blast
    ultimately have "pos * posTime s < proposerNum s * posTime s" by linarith
    then have pos: "pos < proposerNum s" "0 \<le> pos"
      using t(4) late by (simp_all add: pos_def pos_imp_zdiv_nonneg_iff)
    show ?thesis
    proof (cases "?T \<le> pb")
      case True
      with late ex c pos that [of tm pos "-1"] show ?thesis by simp
    next
      case False
      have "?T - tb < (pos + 1) * posTime s" using between_div [OF t(4)] unfolding pos_def by blast
      then have "?T - pb < period s * blockNum s" using t(6) unfolding pb_def by (simp add: distrib_right)
      moreover have "(?T - pb) div period s * period s \<le> ?T - pb" using between_div [OF c(1)] by blast
      ultimately have "(?T - pb) div period s * period s < blockNum s * period s" by (simp add: mult.commute)
      then have "(?T - pb) div period s < blockNum s" "0 \<le> (?T - pb) div period s"
        using c False by (simp_all add: pos_imp_zdiv_nonneg_iff)
      with False late ex pos that [of tm pos "(?T - pb) div period s"] show ?thesis by simp
    qed
  qed
qed

definition enough :: "tdposSchedule \<Rightarrow> (sched_error, string list) result \<Rightarrow> bool" where
  "enough s r \<longleftrightarrow> r \<noteq> Panic \<and> (\<forall>ps. r = Ok ps \<longrightarrow> proposerNum s \<le> int (length ps))"

lemma enough_simps [simp]: "enough s (Ok ps) \<longleftrightarrow> proposerNum s \<le> int (length ps)" "enough s (Err e)" "\<not> enough s Panic"
  by (auto simp: enough_def)

lemma enough_bind:
  "safe r \<Longrightarrow> (\<And>a. r = Ok a \<Longrightarrow> enough s (f a)) \<Longrightarrow> enough s (bind_result r f)"
  by (cases r) auto

lemma getSnapshotKey_safe [simp]: "safe (getSnapshotKey s l h k)"
  by (auto simp: getSnapshotKey_def split: option.splits)

lemma getTerm_safe [simp]: "safe (getTerm l h)"
  by (auto simp: getTerm_def split: option.splits)

lemma collectBallots_safe [simp]: "safe (collectBallots s l h cs)"
  by (induction cs) (auto intro!: safe_bind split: option.splits TdposVal.splits)

lemma binarySearch_safe [simp]: "safe (binarySearch l b e t)"
proof (induction l b e t rule: binarySearch.induct)
  case (1 l b e t)
  show ?case
    by (subst binarySearch.simps) (auto simp: Let_def intro!: safe_bind "1.IH")
qed

lemma minerScheduling_safe: "cfg_ok s \<Longrightarrow> t < 2 ^ 63 \<Longrightarrow> safe (minerScheduling s t)"
  by (erule (1) minerScheduling_bounds) simp

lemma calTopKNominator_enough:
  assumes "proposerNum s \<le> int (length (initValidators s))"
  shows "enough s (calTopKNominator s l h)"
  using assms by (auto simp: calTopKNominator_def topK_def sortBallots_def intro!: enough_bind split: option.splits TdposVal.splits)

lemma calHisValidators_enough:
  assumes "cfg_ok s" and "proposerNum s \<le> int (length (initValidators s))"
    and "\<And>h b. headerByHeight l h = Some b \<Longrightarrow> blkTimestamp b < 2 ^ 63"
  shows "enough s (calHisValidators s l h)"
  using assms minerScheduling_safe [OF assms(1)]
  by (auto simp: calHisValidators_def Let_def intro!: enough_bind calTopKNominator_enough split: option.splits)

lemma CalOldProposers_enough:
  assumes "cfg_ok s" and "proposerNum s \<le> int (length (initValidators s))" and "t < 2 ^ 63"
    and "\<And>h b. headerByHeight l h = Some b \<Longrightarrow> blkTimestamp b < 2 ^ 63"
  shows "enough s (CalOldProposers s l h t st)"
  unfolding CalOldProposers_def Let_def
  using assms(2) minerScheduling_safe [OF assms(1,3)] calTopKNominator_enough [OF assms(2)] calHisValidators_enough [OF assms(1,2,4)]
  by (auto intro!: enough_bind split: option.splits)

lemma calAddTime_safe: "cfg_ok s \<Longrightarrow> now < 2 ^ 63 \<Longrightarrow> safe (calAddTime s now r h)"
  unfolding calAddTime_def by (rule safe_bind) (auto simp: minerScheduling_safe split: prod.splits)

lemma i64_lt: "i64 x < 2 ^ 63"
  using is_i64_i64 [of x] by (simp add: is_i64_def)

lemma CalculateProposers_enough:
  assumes "cfg_ok s" and "proposerNum s \<le> int (length (initValidators s))" and "proposerNum s \<le> int (length (validators s))" and "now1 < 2 ^ 63"
  shows "enough s (CalculateProposers s l now1 now2 h)"
  unfolding CalculateProposers_def
  using assms calAddTime_safe [OF assms(1,4)] minerScheduling_safe [OF assms(1) i64_lt] calTopKNominator_enough [OF assms(2)]
  by (auto intro!: enough_bind)

lemma enough_nil: "enough s r \<Longrightarrow> nilOnError r = Ok x \<Longrightarrow> x = Some ps \<Longrightarrow> proposerNum s \<le> int (length ps)"
  by (cases r) (auto simp: nilOnError_def)

lemma nilOnError_safe: "enough s r \<Longrightarrow> safe (nilOnError r)"
  by (cases r) (auto simp: nilOnError_def)

lemma schGetValidators_enough:
  assumes "cfg_ok s" and "proposerNum s \<le> int (length (initValidators s))" and "proposerNum s \<le> int (length (validators s))"
    and "now1 < 2 ^ 63" and "\<And>h b. headerByHeight l h = Some b \<Longrightarrow> blkTimestamp b < 2 ^ 63"
  shows "safe (schGetValidators s l now1 now2 r)
    \<and> (\<forall>ps. schGetValidators s l now1 now2 r = Ok (Some ps) \<longrightarrow> proposerNum s \<le> int (length ps))"
proof (cases "headerByHeight l r")
  case None
  have "enough s (CalculateProposers s l now1 now2 r)" using CalculateProposers_enough [OF assms(1-4)] .
  with None assms(2) show ?thesis
    by (auto simp: schGetValidators_def nilOnError_safe dest: enough_nil split: if_splits)
next
  case (Some b)
  have "enough s (CalOldProposers s l r (blkTimestamp b) (blkStorage b))"
    by (rule CalOldProposers_enough [OF assms(1,2)]) (use assms(5) Some in blast)+
  with Some assms(2) show ?thesis
    by (auto simp: schGetValidators_def nilOnError_safe dest: enough_nil split: if_splits)
qed

text \<open>
  C26: The leader of a round can always be computed: with a sensible configuration, at least as many
  initial and current proposers as the schedule elects, and timestamps of 64 bits, \<open>GetLeader\<close>
  divides by no zero and reads no list out of range, whatever the ledger, the votes and the clock.
\<close>

theorem schGetLeader_no_panic:
  assumes "cfg_ok s" and "proposerNum s \<le> int (length (initValidators s))" and "proposerNum s \<le> int (length (validators s))"
    and "now1 < 2 ^ 63" and "now3 < 2 ^ 63" and "\<forall>h b. headerByHeight l h = Some b \<longrightarrow> blkTimestamp b < 2 ^ 63"
  shows "schGetLeader s l now1 now2 now3 now4 r \<noteq> Panic"
proof (cases "headerByHeight l r")
  case (Some b)
  then show ?thesis by (simp add: schGetLeader_def)
next
  case None
  have v: "safe (schGetValidators s l now1 now2 r)"
    "\<And>ps. schGetValidators s l now1 now2 r = Ok (Some ps) \<Longrightarrow> proposerNum s \<le> int (length ps)"
    using schGetValidators_enough [OF assms(1-4)] assms(6) by blast+
  have "safe (index ps pos)" if "schGetValidators s l now1 now2 r = Ok (Some ps)" "minerScheduling s (i64 (now4 + d)) = Ok (t, pos, b)"
      "pos < proposerNum s" for ps d t pos b
  proof -
    obtain t' pos' b' where "minerScheduling s (i64 (now4 + d)) = Ok (t', pos', b')" "0 \<le> pos'"
      using minerScheduling_bounds [OF assms(1) i64_lt] by metis
    with that v(2) show ?thesis by (auto simp: index_def)
  qed
  then have found: "safe (case x of (_, pos, _) \<Rightarrow> if proposerNum s \<le> pos then Ok [] else index ps pos)"
    if "schGetValidators s l now1 now2 r = Ok (Some ps)" "minerScheduling s (i64 (now4 + d)) = Ok x" for ps d x
    using that by (cases x) (auto simp: not_le)
  have "safe (schGetLeader s l now1 now2 now3 now4 r)"
    unfolding schGetLeader_def None option.case
  proof (rule safe_bind [OF v(1)])
    fix proposers
    assume ps: "schGetValidators s l now1 now2 r = Ok proposers"
    show "safe (case proposers of None \<Rightarrow> Ok []
      | Some ps \<Rightarrow> bind_result (calAddTime s now3 r (blkHeight (tipHeader l))) (\<lambda>addTime.
          bind_result (minerScheduling s (i64 (now4 + addTime))) (\<lambda>(_, pos, _).
            if proposerNum s \<le> pos then Ok [] else index ps pos)))"
      using ps found minerScheduling_safe [OF assms(1) i64_lt] calAddTime_safe [OF assms(1,5)]
      by (cases proposers) (simp, auto intro!: safe_bind)
  qed
  then show ?thesis by (simp add: safe_def)
qed

definition demo_ledger :: TdposLedger where
  "demo_ledger = \<lparr>headerByHeight = (\<lambda>h. None),
     tipHeader = \<lparr>blkBlockid = None, blkHeight = 0, blkPreHash = None, blkTimestamp = 0, blkProposer = None, blkStorage = None\<rparr>,
     snapshot = (\<lambda>b. None),
     ledgerCodec = \<lparr>ParseOldQCStorage = (\<lambda>b. None), marshalStorage = (\<lambda>s. None), protoQC = (\<lambda>j. None), unprotoQC = (\<lambda>b. None)\<rparr>\<rparr>"

theorem schGetLeader_no_panic_witness:
  "schGetLeader sched_demo demo_ledger 0 0 0 7500000000 1 \<noteq> Panic"
  by (rule schGetLeader_no_panic [OF sched_demo_ok]) (simp_all add: sched_demo_def demo_ledger_def)

text \<open>
  The bound on the lists is needed: the configuration is only checked for a non-empty list of
  initial proposers, and with fewer of them than \<open>proposer_num\<close> the timetable points past its end.
\<close>

lemma few_proposers_panic:
  "schGetLeader (sched_demo\<lparr>initValidators := [''a''], validators := [''a'']\<rparr>) demo_ledger 0 0 0 7500000000 1 = Panic"
  by code_simp

section \<open>The search for the start of a term\<close>

text \<open>
  C25: On a stretch of blocks whose terms never decrease, that starts before a term and ends in it,
  the binary search returns, and it returns the last block before the term.
\<close>

theorem binarySearch_correct:
  assumes "\<forall>h\<in>{b..e}. getTerm l h = Ok (tm h)" and "mono_on {b..e} tm" and "b \<le> e" and "tm b < t" and "tm e = t"
  shows "\<exists>h. binarySearch l b e t = Ok h \<and> b \<le> h \<and> h < e \<and> tm h < t \<and> tm (h + 1) = t"
  using assms
proof (induction l b e t rule: binarySearch.induct)
  case (1 l b e t)
  define mid where "mid = b + go_div (e - b) 2"
  have be: "b < e" using "1.prems" by (cases "b = e") auto
  then have m: "b \<le> mid" "mid < e" using mid_bounds [of b e] by (auto simp: mid_def)
  then have g: "getTerm l mid = Ok (tm mid)" "getTerm l (mid + 1) = Ok (tm (mid + 1))" using "1.prems"(1) by auto
  have le: "tm mid \<le> t" "tm (mid + 1) \<le> t"
    using mono_onD [OF "1.prems"(2), of mid e] mono_onD [OF "1.prems"(2), of "mid + 1" e] m "1.prems"(5) by auto
  have unf: "binarySearch l b e t =
    (if tm mid < t \<and> tm (mid + 1) = t then Ok mid
     else if tm mid < t then binarySearch l (mid + 1) e t else binarySearch l b mid t)"
    using be by (subst binarySearch.simps) (simp add: mid_def [symmetric] Let_def g)
  consider (found) "tm mid < t" "tm (mid + 1) = t" | (right) "tm mid < t" "tm (mid + 1) < t" | (left) "tm mid = t"
    using le by linarith
  then show ?case
  proof cases
    case found
    with m show ?thesis by (auto simp: unf)
  next
    case right
    have "\<exists>h. binarySearch l (mid + 1) e t = Ok h \<and> mid + 1 \<le> h \<and> h < e \<and> tm h < t \<and> tm (h + 1) = t"
    proof (rule "1.IH"(1) [OF be mid_def, of "tm mid" "tm (mid + 1)"])
      show "mono_on {mid + 1..e} tm" by (rule mono_on_subset [OF "1.prems"(2)]) (use m in auto)
      show "tm (mid + 1) < t" "tm mid < t" "\<not> (tm mid < t \<and> tm (mid + 1) = t)" using right by simp_all
    qed (use m "1.prems" in simp_all)
    with right m show ?thesis by (auto simp: unf)
  next
    case left
    then have "mid \<noteq> b" using "1.prems"(4) by auto
    have "\<exists>h. binarySearch l b mid t = Ok h \<and> b \<le> h \<and> h < mid \<and> tm h < t \<and> tm (h + 1) = t"
    proof (rule "1.IH"(2) [OF be mid_def, of "tm mid" "tm (mid + 1)"])
      show "mono_on {b..mid} tm" by (rule mono_on_subset [OF "1.prems"(2)]) (use m in auto)
      show "\<not> tm mid < t" "\<not> (tm mid < t \<and> tm (mid + 1) = t)" "tm mid = t" using left by simp_all
    qed (use m "1.prems" in simp_all)
    with left m show ?thesis by (auto simp: unf)
  qed
qed

text \<open>A chain whose block \<open>h\<close> is of term \<open>h div 3\<close>, with the term as the storage.\<close>

definition term_ledger :: TdposLedger where
  "term_ledger = demo_ledger\<lparr>
     headerByHeight := (\<lambda>h. Some \<lparr>blkBlockid = None, blkHeight = h, blkPreHash = None, blkTimestamp = 0, blkProposer = None, blkStorage = Some (itoa (h div 3))\<rparr>),
     ledgerCodec := \<lparr>ParseOldQCStorage = (\<lambda>b. case parse_int (contents b) of None \<Rightarrow> None
         | Some t \<Rightarrow> Some \<lparr>csJustify = None, csCurTerm = t, csCurBlockNum = 0, csTargetBits = 0\<rparr>),
       marshalStorage = (\<lambda>s. None), protoQC = (\<lambda>j. None), unprotoQC = (\<lambda>b. None)\<rparr>\<rparr>"

theorem binarySearch_correct_witness:
  "\<exists>h. binarySearch term_ledger 4 10 3 = Ok h \<and> 4 \<le> h \<and> h < 10 \<and> h div 3 < 3 \<and> (h + 1) div 3 = 3"
  by (rule binarySearch_correct) (auto simp: term_ledger_def demo_ledger_def getTerm_def parse_int_itoa intro!: mono_onI zdiv_mono1)

section \<open>The elected proposers\<close>

definition okOr :: "'a \<Rightarrow> (sched_error, 'a) result \<Rightarrow> 'a" where
  "okOr d r = (case r of Ok a \<Rightarrow> a | _ \<Rightarrow> d)"

lemma collectBallots_Cons_Ok:
  "collectBallots s l h (c # cs) = Ok tv \<longleftrightarrow>
   (\<exists>x y. collectBallots s l h [c] = Ok x \<and> collectBallots s l h cs = Ok y \<and> tv = x @ y)"
  by (cases "getSnapshotKey s l (h - 3) (schVoteKey s c)"; cases "collectBallots s l h cs")
     (auto split: option.splits TdposVal.splits if_splits)

lemma collectBallots_Ok_iff:
  "collectBallots s l h cs = Ok tv \<longleftrightarrow>
   (\<forall>c\<in>set cs. \<exists>x. collectBallots s l h [c] = Ok x) \<and> tv = concat (map (\<lambda>c. okOr [] (collectBallots s l h [c])) cs)"
proof (induction cs arbitrary: tv)
  case (Cons c cs)
  show ?case
    unfolding collectBallots_Cons_Ok [of s l h c cs] Cons.IH by (auto simp: okOr_def simp del: collectBallots.simps(2))
qed auto

lemma collectBallots_single:
  "collectBallots s l h [c] = Ok x \<Longrightarrow> x = [] \<or> (\<exists>n. x = [\<lparr>tbAddress = c, tbBallots = n\<rparr>] \<and> 0 < n)"
  by (cases "getSnapshotKey s l (h - 3) (schVoteKey s c)") (auto split: option.splits TdposVal.splits if_splits)

lemma collectBallots_distinct:
  "collectBallots s l h cs = Ok tv \<Longrightarrow> distinct cs \<Longrightarrow> distinct (map tbAddress tv) \<and> tbAddress ` set tv \<subseteq> set cs \<and> (\<forall>b\<in>set tv. 0 < tbBallots b)"
proof (induction cs arbitrary: tv)
  case (Cons c cs)
  then obtain x y where xy: "collectBallots s l h [c] = Ok x" "collectBallots s l h cs = Ok y" "tv = x @ y"
    unfolding collectBallots_Cons_Ok [of s l h c cs] by blast
  have "distinct (map tbAddress y) \<and> tbAddress ` set y \<subseteq> set cs \<and> (\<forall>b\<in>set y. 0 < tbBallots b)"
    using Cons.IH [OF xy(2)] Cons.prems(2) by simp
  with collectBallots_single [OF xy(1)] xy(3) Cons.prems(2) show ?case by auto
qed simp

lemma mset_concat_map: "mset (concat (map f cs)) = (\<Sum>c\<in>#mset cs. mset (f c))"
  by (induction cs) simp_all

lemma inj_tbKey: "inj tbKey"
  by (rule injI) (simp add: tbKey_def)

lemma sortBallots_cong: "mset tv = mset tv' \<Longrightarrow> sortBallots tv = sortBallots tv'"
  unfolding sortBallots_def using inj_tbKey
  by (intro arg_cong [where f = rev] sort_key_inj_key_eq) (auto intro: inj_on_subset)

lemma topK_cong: "mset tv = mset tv' \<Longrightarrow> topK s tv = topK s tv'"
  using sortBallots_cong [of tv tv'] mset_eq_length [of tv tv'] by (simp add: topK_def)

lemma sorted_rev_take_drop:
  assumes "sorted (rev (map f xs))" and "x \<in> set (take n xs)" and "y \<in> set (drop n xs)"
  shows "f y \<le> f x"
proof -
  have "sorted (rev (map f (take n xs @ drop n xs)))" using assms(1) by (simp del: rev_map)
  then show ?thesis using assms(2,3) unfolding map_append rev_append sorted_append by auto
qed

lemma sortBallots_props:
  "mset (sortBallots tv) = mset tv" "sorted (rev (map tbKey (sortBallots tv)))" "set (sortBallots tv) = set tv" "length (sortBallots tv) = length tv"
  by (simp_all add: sortBallots_def rev_map)

text \<open>
  C24: The election. When enough candidates have votes, exactly \<open>proposer_num\<close> different addresses
  are elected, every elected candidate has more ballots than every other one (or as many and the
  greater address), and the outcome is the same in whatever order the candidates of the
  nomination map are visited, so all nodes elect the same list.
\<close>

theorem calTopK_best:
  assumes "collectBallots s l h cs = Ok tv" and "distinct cs" and "0 \<le> proposerNum s" and "proposerNum s \<le> int (length tv)"
    and "mset cs' = mset cs"
  shows "int (length (topK s tv)) = proposerNum s \<and> distinct (topK s tv) \<and> set (topK s tv) \<subseteq> set cs
    \<and> (\<forall>b c. b \<in> set tv \<and> c \<in> set tv \<and> tbAddress b \<in> set (topK s tv) \<and> tbAddress c \<notin> set (topK s tv) \<longrightarrow> tbKey c < tbKey b)
    \<and> (\<exists>tv'. collectBallots s l h cs' = Ok tv' \<and> topK s tv' = topK s tv)"
proof (intro conjI allI impI)
  let ?n = "nat (proposerNum s)" and ?s = "sortBallots tv"
  have top_eq: "topK s tv = map tbAddress (take ?n ?s)" using assms(4) by (simp add: topK_def)
  note d = collectBallots_distinct [OF assms(1,2)]
  show "int (length (topK s tv)) = proposerNum s" using assms(3,4) by (simp add: top_eq sortBallots_props)
  have ds: "distinct (map tbAddress ?s)"
    using d mset_eq_imp_distinct_iff [of "map tbAddress ?s" "map tbAddress tv"] by (simp add: sortBallots_props)
  then show "distinct (topK s tv)" by (simp add: top_eq take_map [symmetric])
  show "set (topK s tv) \<subseteq> set cs" using d set_take_subset [of ?n ?s] by (auto simp: top_eq sortBallots_props)
  show "tbKey c < tbKey b"
    if a: "b \<in> set tv \<and> c \<in> set tv \<and> tbAddress b \<in> set (topK s tv) \<and> tbAddress c \<notin> set (topK s tv)" for b c
  proof -
    have all: "set ?s = set (take ?n ?s) \<union> set (drop ?n ?s)" by (metis append_take_drop_id set_append)
    obtain b' where b': "b' \<in> set (take ?n ?s)" "tbAddress b' = tbAddress b" using a by (auto simp: top_eq)
    then have "b' \<in> set ?s" "b \<in> set ?s" using a all by (auto simp: sortBallots_props)
    then have "b' = b" using b'(2) ds by (auto simp: distinct_map dest: inj_onD)
    moreover have "c \<in> set (drop ?n ?s)" using a all by (auto simp: top_eq sortBallots_props)
    ultimately have "tbKey c \<le> tbKey b" using sorted_rev_take_drop [OF sortBallots_props(2)] b'(1) by blast
    moreover have "tbKey c \<noteq> tbKey b" using a by (auto simp: tbKey_def)
    ultimately show ?thesis by simp
  qed
  let ?f = "\<lambda>c. okOr [] (collectBallots s l h [c])"
  have set_eq: "set cs' = set cs" using assms(5) by (metis set_mset_mset)
  have ok: "\<forall>c\<in>set cs. \<exists>x. collectBallots s l h [c] = Ok x" and tv: "tv = concat (map ?f cs)"
    using iffD1 [OF collectBallots_Ok_iff assms(1)] by (rule conjunct1, rule conjunct2)
  have "collectBallots s l h cs' = Ok (concat (map ?f cs'))"
    by (rule iffD2 [OF collectBallots_Ok_iff]) (use ok set_eq in blast)
  moreover have "topK s (concat (map ?f cs')) = topK s tv"
    by (rule topK_cong) (simp only: tv mset_concat_map assms(5))
  ultimately show "\<exists>tv'. collectBallots s l h cs' = Ok tv' \<and> topK s tv' = topK s tv" by blast
qed

definition vote_ledger :: TdposLedger where
  "vote_ledger = demo_ledger\<lparr>
     headerByHeight := (\<lambda>h. Some (tipHeader demo_ledger)),
     snapshot := (\<lambda>b. Some (\<lambda>bucket key. Some (map_of [(''tdpos_0_vote_a'', TVote [(''x'', 3)]),
       (''tdpos_0_vote_b'', TVote [(''x'', 2), (''y'', 3)]), (''tdpos_0_vote_c'', TVote [(''y'', 5)])] key)))\<rparr>"

lemma vote_ledger_ballots:
  "collectBallots sched_demo vote_ledger 9 [''a'', ''b'', ''c'', ''d''] =
     Ok [\<lparr>tbAddress = ''a'', tbBallots = 3\<rparr>, \<lparr>tbAddress = ''b'', tbBallots = 5\<rparr>, \<lparr>tbAddress = ''c'', tbBallots = 5\<rparr>]"
  by code_simp

theorem calTopK_best_witness:
  "\<exists>tv'. collectBallots sched_demo vote_ledger 9 [''d'', ''c'', ''a'', ''b''] = Ok tv' \<and> topK sched_demo tv' = [''c'', ''b'']"
proof -
  let ?tv = "[\<lparr>tbAddress = ''a'', tbBallots = 3\<rparr>, \<lparr>tbAddress = ''b'', tbBallots = 5\<rparr>, \<lparr>tbAddress = ''c'', tbBallots = 5\<rparr>]"
  have "topK sched_demo ?tv = [''c'', ''b'']" by code_simp
  then show ?thesis
    using calTopK_best [OF vote_ledger_ballots, of "[''d'', ''c'', ''a'', ''b'']"] by (simp add: sched_demo_def)
qed

text \<open>
  A restarted node with chained BFT: \<open>NewSchedule\<close> recomputes the current proposers before it
  switches to the bucket and the key prefix of \<open>xpos\<close>, so nothing that was nominated or voted
  under \<open>xpos\<close> has an influence on the schedule it starts with.
\<close>

definition replaceXpos :: "(string \<Rightarrow> (TdposVal option) option) \<Rightarrow> TdposLedger \<Rightarrow> TdposLedger" where
  "replaceXpos f l = l\<lparr>snapshot := (\<lambda>b. case snapshot l b of None \<Rightarrow> None
     | Some reader \<Rightarrow> Some (\<lambda>bucket key. if bucket = ''$xpos'' then f key else reader bucket key))\<rparr>"

lemma replaceXpos_simps [simp]:
  "headerByHeight (replaceXpos f l) = headerByHeight l" "tipHeader (replaceXpos f l) = tipHeader l" "ledgerCodec (replaceXpos f l) = ledgerCodec l"
  by (simp_all add: replaceXpos_def)

lemma getSnapshotKey_replaceXpos: "schBucket s = ''$tdpos'' \<Longrightarrow> getSnapshotKey s (replaceXpos f l) h k = getSnapshotKey s l h k"
  by (auto simp: getSnapshotKey_def replaceXpos_def split: option.splits)

lemma collectBallots_replaceXpos: "schBucket s = ''$tdpos'' \<Longrightarrow> collectBallots s (replaceXpos f l) h cs = collectBallots s l h cs"
  by (induction cs) (auto simp: getSnapshotKey_replaceXpos intro!: bind_result_cong split: option.splits TdposVal.splits)

lemma calTopKNominator_replaceXpos: "schBucket s = ''$tdpos'' \<Longrightarrow> calTopKNominator s (replaceXpos f l) = calTopKNominator s l"
  by (rule ext) (simp add: calTopKNominator_def getSnapshotKey_replaceXpos collectBallots_replaceXpos)

lemma getTerm_replaceXpos: "getTerm (replaceXpos f l) h = getTerm l h"
  unfolding getTerm_def replaceXpos_simps ..

lemma binarySearch_replaceXpos: "binarySearch (replaceXpos f l) b e t = binarySearch l b e t"
proof (induction l b e t rule: binarySearch.induct)
  case (1 l b e t)
  have right: "binarySearch (replaceXpos f l) (b + go_div (e - b) 2 + 1) e t = binarySearch l (b + go_div (e - b) 2 + 1) e t"
    if "b < e" "x < t" "y \<noteq> t" for x y
    using "1.IH"(1) [OF that(1) refl, of x y] that by simp
  have left: "binarySearch (replaceXpos f l) b (b + go_div (e - b) 2) t = binarySearch l b (b + go_div (e - b) 2) t"
    if "b < e" "\<not> x < t" for x
    using "1.IH"(2) [OF that(1) refl, of x] that by blast
  show ?case
    by (subst (1 2) binarySearch.simps) (auto simp: Let_def getTerm_replaceXpos intro!: bind_result_cong intro: left right)
qed

lemma CalOldProposers_replaceXpos:
  assumes "schBucket s = ''$tdpos''"
  shows "CalOldProposers s (replaceXpos f l) h t st = CalOldProposers s l h t st"
  unfolding CalOldProposers_def calHisValidators_def calTopKNominator_replaceXpos [OF assms] getTerm_replaceXpos
    binarySearch_replaceXpos replaceXpos_simps ..

lemma NewSchedule_ignores_xpos: "NewSchedule c (replaceXpos f l) start = NewSchedule c l start"
  by (simp add: NewSchedule_def CalOldProposers_replaceXpos)

end
