(* ===== verification/Go_Float.thy ===== *)
theory Go_Float
  imports Complex_Main
begin

text \<open>
  The part of Go's \<open>float64\<close> that the weights of an access control list need: values, addition
  and comparison as IEEE 754 defines them for 64 bits. A finite value is the rational number it
  stands for (the sign of zero is not observable by addition and comparison); a sum is rounded
  to 53 significant bits, ties to the even neighbour.
\<close>

datatype float64 = Fin rat | PosInf | NegInf | NaN

fun bitlen :: "nat \<Rightarrow> nat" where
  "bitlen n = (if n = 0 then 0 else Suc (bitlen (n div 2)))"

declare bitlen.simps [simp del]

definition two_to :: "int \<Rightarrow> rat" where
  "two_to e = (if 0 \<le> e then 2 ^ nat e else 1 / 2 ^ nat (- e))"

text \<open>The exponent of the last bit kept of a positive number, at least that of the subnormals.\<close>

definition last_bit :: "rat \<Rightarrow> int" where
  "last_bit x = (let (p, q) = quotient_of x; e = int (bitlen (nat p)) - int (bitlen (nat q)) - 53
     in max (-1074) (if 2 ^ 53 \<le> x / two_to e then e + 1 else e))"

text \<open>The same on integers, which evaluate in binary.\<close>

function bitlen_int :: "int \<Rightarrow> int" where
  "bitlen_int n = (if n \<le> 0 then 0 else 1 + bitlen_int (n div 2))"
  by pat_completeness auto
termination by (relation "measure nat") auto

declare bitlen_int.simps [simp del]

lemma bitlen_int_eq: "int (bitlen (nat n)) = bitlen_int n"
proof (induction n rule: bitlen_int.induct)
  case (1 n)
  have "nat (n div 2) = nat n div 2" by (simp add: nat_div_distrib')
  then show ?case using 1 by (subst bitlen.simps, subst bitlen_int.simps) auto
qed

lemma last_bit_code [code]:
  "last_bit x = (let (p, q) = quotient_of x; e = bitlen_int p - bitlen_int q - 53
     in max (-1074) (if 2 ^ 53 \<le> x / two_to e then e + 1 else e))"
  by (simp add: last_bit_def bitlen_int_eq)

definition half_even :: "rat \<Rightarrow> int" where
  "half_even r = (let f = floor r; d = r - of_int f
     in if d < 1 / 2 \<or> (d = 1 / 2 \<and> even f) then f else f + 1)"

definition round64 :: "rat \<Rightarrow> float64" where
  "round64 x =
     (if x = 0 then Fin 0
      else let a = \<bar>x\<bar>; e = last_bit a; v = of_int (half_even (a / two_to e)) * two_to e
           in if 2 ^ 1024 \<le> v then (if x < 0 then NegInf else PosInf)
              else Fin (if x < 0 then - v else v))"

fun fadd :: "float64 \<Rightarrow> float64 \<Rightarrow> float64" where
  "fadd (Fin x) (Fin y) = round64 (x + y)"
| "fadd NaN _ = NaN"
| "fadd _ NaN = NaN"
| "fadd PosInf NegInf = NaN"
| "fadd NegInf PosInf = NaN"
| "fadd PosInf _ = PosInf"
| "fadd NegInf _ = NegInf"
| "fadd _ PosInf = PosInf"
| "fadd _ NegInf = NegInf"

fun fge :: "float64 \<Rightarrow> float64 \<Rightarrow> bool" where
  "fge (Fin x) (Fin y) \<longleftrightarrow> y \<le> x"
| "fge NaN _ \<longleftrightarrow> False"
| "fge _ NaN \<longleftrightarrow> False"
| "fge PosInf _ \<longleftrightarrow> True"
| "fge _ PosInf \<longleftrightarrow> False"
| "fge NegInf y \<longleftrightarrow> y = NegInf"
| "fge _ NegInf \<longleftrightarrow> True"

definition fsum :: "float64 list \<Rightarrow> float64" where
  "fsum ws = foldl fadd (Fin 0) ws"

section \<open>Sums of whole weights are exact\<close>

lemma bitlen_bounds: "0 < n \<Longrightarrow> 2 ^ (bitlen n - 1) \<le> n \<and> n < 2 ^ bitlen n \<and> 0 < bitlen n"
proof (induction n rule: bitlen.induct)
  case (1 n)
  show ?case
  proof (cases "n div 2 = 0")
    case True
    with "1.prems" have "n = 1" by simp
    then show ?thesis by (simp add: bitlen.simps)
  next
    case False
    with "1" have ih: "2 ^ (bitlen (n div 2) - 1) \<le> n div 2" "n div 2 < 2 ^ bitlen (n div 2)" "0 < bitlen (n div 2)" by auto
    have b: "bitlen n = Suc (bitlen (n div 2))" using "1.prems" by (subst bitlen.simps) simp
    have "(2::nat) ^ bitlen (n div 2) = 2 * 2 ^ (bitlen (n div 2) - 1)" using ih(3) by (cases "bitlen (n div 2)") auto
    moreover have "2 * (n div 2) \<le> n" "n < 2 * (n div 2) + 2" by presburger+
    ultimately have "2 ^ bitlen (n div 2) \<le> n" "n < 2 * 2 ^ bitlen (n div 2)" using ih(1,2) by linarith+
    then show ?thesis unfolding b by simp
  qed
qed

lemma half_even_int: "half_even (of_int n) = n"
  by (simp add: half_even_def)

lemma two_to_neg: "0 \<le> k \<Longrightarrow> x / two_to (- k) = x * 2 ^ nat k"
  by (simp add: two_to_def)

text \<open>Whole numbers up to the 53 bits of the significand are not rounded.\<close>

lemma round64_int:
  assumes "\<bar>n\<bar> \<le> 2 ^ 53"
  shows "round64 (of_int n) = Fin (of_int n)"
proof (cases "n = 0")
  case False
  define m where "m = nat \<bar>n\<bar>"
  have m: "0 < m" "m \<le> 2 ^ 53" "\<bar>of_int n\<bar> = (of_nat m :: rat)"
    using False assms by (auto simp: m_def simp flip: of_int_abs)
  have q: "quotient_of (of_nat m) = (int m, 1)" using quotient_of_int [of "int m"] by simp
  have b1: "bitlen (Suc 0) = 1" by (simp add: bitlen.simps)
  note bb = bitlen_bounds [OF m(1)]
  have bl: "bitlen m \<le> 54"
  proof (rule ccontr)
    assume "\<not> bitlen m \<le> 54"
    then have "(2::nat) ^ 54 \<le> 2 ^ (bitlen m - 1)" by (intro power_increasing) auto
    with bb m(2) show False by simp
  qed
  let ?e = "int (bitlen m) - 53"
  have ge: "2 ^ 53 \<le> of_nat m / two_to (?e - 1)"
  proof -
    have "(2 ^ 53 * two_to (?e - 1) :: rat) = 2 ^ (bitlen m - 1)"
    proof (cases "bitlen m = 54")
      case False
      let ?k = "nat (- (?e - 1))"
      from False have "(2::rat) ^ 53 = 2 ^ (bitlen m - 1) * 2 ^ ?k"
        using bl bb by (subst power_add [symmetric]) (rule arg_cong [where f = "\<lambda>k. 2 ^ k"], simp)
      moreover have "two_to (?e - 1) = 1 / 2 ^ ?k" using False bl by (auto simp: two_to_def)
      ultimately show ?thesis by (simp only: times_divide_eq_right mult_1_right nonzero_mult_div_cancel_right power_not_zero zero_neq_numeral [symmetric] not_False_eq_True)
    qed (simp add: two_to_def)
    also have "\<dots> \<le> of_nat m" using bb of_nat_mono [of "2 ^ (bitlen m - 1)" m] by simp
    finally show ?thesis by (simp add: two_to_def field_simps)
  qed
  then have e: "last_bit (of_nat m) = ?e"
    using bb bl by (simp add: last_bit_def q b1 Let_def)
  have v: "of_int (half_even (of_nat m / two_to ?e)) * two_to ?e = (of_nat m :: rat)"
  proof (cases "bitlen m = 54")
    case True
    then have "m = 2 ^ 53" using bb m(2) by auto
    with True half_even_int [of "2 ^ 52"] show ?thesis by (simp add: two_to_def)
  next
    case False
    with bl have "two_to ?e = 1 / 2 ^ nat (- ?e)" by (auto simp: two_to_def)
    then show ?thesis
      using half_even_int [of "int m * 2 ^ nat (- ?e)"] by simp
  qed
  have "(of_nat m :: rat) \<le> 2 ^ 53" using m(2) of_nat_mono [of m "2 ^ 53"] by simp
  also have "\<dots> < 2 ^ 1024" by (rule power_strict_increasing) auto
  finally show ?thesis
    using False v m(3) by (auto simp: round64_def Let_def e abs_if split: if_splits)
qed (simp add: round64_def)

lemma fsum_ints:
  assumes "\<forall>w\<in>set ws. 0 \<le> w" and "sum_list ws \<le> 2 ^ 53"
  shows "fsum (map (\<lambda>w. Fin (of_int w)) ws) = Fin (of_int (sum_list ws))"
proof -
  have "foldl fadd (Fin (of_int a)) (map (\<lambda>w. Fin (of_int w)) ws) = Fin (of_int (a + sum_list ws))"
    if "0 \<le> a" "\<forall>w\<in>set ws. 0 \<le> w" "a + sum_list ws \<le> 2 ^ 53" for a
    using that
  proof (induction ws arbitrary: a)
    case (Cons w ws)
    then have "0 \<le> sum_list ws" by (auto intro: sum_list_nonneg)
    with Cons.prems have "\<bar>a + w\<bar> \<le> 2 ^ 53" by auto
    then have "fadd (Fin (of_int a)) (Fin (of_int w)) = Fin (of_int (a + w))" using round64_int [of "a + w"] by simp
    with Cons.IH [of "a + w"] Cons.prems show ?case by (simp add: add.assoc)
  qed simp
  from this [of 0] assms show ?thesis by (simp add: fsum_def)
qed

end
