(* ===== verification/Acl_Tree.thy ===== *)
theory Acl_Tree
  imports Xledger_Types Go_Float
begin

text \<open>
  Access control: names of accounts and addresses (\<open>kernel/permission/acl/utils\<close>), the permission
  tree (\<open>acl/ptree\<close>), the threshold and address set rules (\<open>acl/rule\<close>) and the evaluation of the
  tree. The theorems compare the evaluation, which marks the nodes of a breadth-first list in
  reverse, with a definition by recursion on the paths of the signers, and say what an accepted
  account has been authorised by.
\<close>

section \<open>Names\<close>

fun splitOn :: "char \<Rightarrow> string \<Rightarrow> string list" where
  "splitOn c [] = [[]]"
| "splitOn c (x # xs) =
     (if x = c then [] # splitOn c xs
      else case splitOn c xs of y # ys \<Rightarrow> (x # y) # ys | [] \<Rightarrow> [[x]])"

definition hasPrefix :: "string \<Rightarrow> string \<Rightarrow> bool" where
  "hasPrefix s p \<longleftrightarrow> take (length p) s = p"

definition SplitAccountURI :: "string \<Rightarrow> string list" where
  "SplitAccountURI akuri = splitOn (CHR ''/'') akuri"

definition accountPrefix :: string where "accountPrefix = ''XC''"
definition accountSize :: nat where "accountSize = 16"
definition akLimit :: nat where "akLimit = 1024"

definition ValidRawAccount :: "string \<Rightarrow> bool" where
  "ValidRawAccount accountName \<longleftrightarrow> accountName \<noteq> [] \<and> length accountName = accountSize
     \<and> list_all (\<lambda>c. CHR ''0'' \<le> c \<and> c \<le> CHR ''9'') accountName"

definition IsAccount :: "string \<Rightarrow> int" where
  "IsAccount name =
     (if name = [] then -1
      else if \<not> hasPrefix name accountPrefix then 0
      else if ValidRawAccount (drop (length accountPrefix) (hd (splitOn (CHR ''@'') name))) then 1 else 0)"

definition MakeAccountKey :: "string \<Rightarrow> string \<Rightarrow> string" where
  "MakeAccountKey bcname accountName = accountPrefix @ accountName @ ''@'' @ bcname"

section \<open>Access control lists\<close>

datatype PermissionRule = RuleNull | SIGN_THRESHOLD | SIGN_AKSET | SIGN_RATE | SIGN_SUM | CA_SERVER | COMMUNITY_VOTE | RuleOther int

record PermissionModel =
  pmRule :: PermissionRule
  AcceptValue :: float64

text \<open>
  Maps are association lists in the order in which they are ranged over, \<open>None\<close> when nil; an
  element of the map of address sets is a pointer and may be nil.
\<close>

record Acl =
  aclPm :: "PermissionModel option"
  AksWeight :: "(string \<times> float64) list option"
  AkSets :: "((string \<times> string list option) list option) option"

definition aclSets :: "Acl \<Rightarrow> (string \<times> string list option) list" where
  "aclSets acl = (case AkSets acl of None \<Rightarrow> [] | Some sets \<Rightarrow> contents_list sets)"

datatype ValidateStatus = NotVerified | Success | Failed

datatype acl_error = AclQuery | InvalidName | EmptyPm | NotImplemented | UnknownRule | NilManager | SignNil | BadKey | AddressMismatch | BadSign

datatype ACLValidator = ThresholdValidator | AKSetsValidator

definition GetACLValidator :: "PermissionRule \<Rightarrow> (acl_error, ACLValidator) result" where
  "GetACLValidator pr =
     (case pr of
        SIGN_THRESHOLD \<Rightarrow> Ok ThresholdValidator
      | SIGN_AKSET \<Rightarrow> Ok AKSetsValidator
      | SIGN_RATE \<Rightarrow> Err NotImplemented
      | SIGN_SUM \<Rightarrow> Err NotImplemented
      | CA_SERVER \<Rightarrow> Err NotImplemented
      | COMMUNITY_VOTE \<Rightarrow> Err NotImplemented
      | _ \<Rightarrow> Err UnknownRule)"

text \<open>A validator sees the list of its node and the names and status of the children.\<close>

definition findWeightInACL :: "string \<Rightarrow> Acl \<Rightarrow> float64" where
  "findWeightInACL name acl =
     (if aclPm acl = None \<or> contents_list (AksWeight acl) = [] then Fin 0
      else case map_of (contents_list (AksWeight acl)) name of None \<Rightarrow> Fin 0 | Some w \<Rightarrow> w)"

definition thresholdValidate :: "Acl \<Rightarrow> (string \<times> ValidateStatus) list \<Rightarrow> (acl_error, bool) result" where
  "thresholdValidate acl children =
     (let weightSum = fsum (map (\<lambda>(name, _). findWeightInACL name acl) (filter (\<lambda>(_, st). st = Success) children))
      in case aclPm acl of None \<Rightarrow> Panic | Some pm \<Rightarrow> Ok (fge weightSum (AcceptValue pm)))"

definition findAkInNodeList :: "string \<Rightarrow> (string \<times> ValidateStatus) list \<Rightarrow> ValidateStatus option" where
  "findAkInNodeList name signedAks = map_of signedAks name"

definition validateAkSet :: "string list option \<Rightarrow> (string \<times> ValidateStatus) list \<Rightarrow> (acl_error, bool) result" where
  "validateAkSet set' signedAks =
     (case set' of
        None \<Rightarrow> Panic
      | Some aks \<Rightarrow>
          if aks = [] \<or> signedAks = [] then Ok False
          else Ok (list_all (\<lambda>ak. findAkInNodeList ak signedAks = Some Success) aks))"

fun akSetsLoop :: "(string \<times> string list option) list \<Rightarrow> (string \<times> ValidateStatus) list \<Rightarrow> (acl_error, bool) result" where
  "akSetsLoop [] signedAks = Ok False"
| "akSetsLoop ((_, set') # sets) signedAks =
     bind_result (validateAkSet set' signedAks) (\<lambda>isValid.
       if isValid then Ok True else akSetsLoop sets signedAks)"

definition akSetsValidate :: "Acl \<Rightarrow> (string \<times> ValidateStatus) list \<Rightarrow> (acl_error, bool) result" where
  "akSetsValidate acl children =
     (case AkSets acl of
        None \<Rightarrow> Ok False
      | Some sets \<Rightarrow> if contents_list sets = [] then Ok False else akSetsLoop (contents_list sets) children)"

definition Validate :: "ACLValidator \<Rightarrow> Acl \<Rightarrow> (string \<times> ValidateStatus) list \<Rightarrow> (acl_error, bool) result" where
  "Validate v acl children =
     (case v of ThresholdValidator \<Rightarrow> thresholdValidate acl children | AKSetsValidator \<Rightarrow> akSetsValidate acl children)"

section \<open>The permission tree\<close>

text \<open>
  The status of a node is kept apart, in a map from the address of the node, which is the list
  of child positions that leads to it: the code reaches a node both through its parent and
  through the breadth-first list, and marks it through the latter.
\<close>

datatype PermNode = PermNode (pnName: string) (pnACL: "Acl option") (pnChildren: "PermNode list")

definition NewPermNode :: "string \<Rightarrow> Acl option \<Rightarrow> PermNode" where
  "NewPermNode akName acl = PermNode akName acl []"

fun FindChild :: "string \<Rightarrow> PermNode list \<Rightarrow> nat option" where
  "FindChild name [] = None"
| "FindChild name (node # ns) = (if pnName node = name then Some 0 else map_option Suc (FindChild name ns))"

fun addPath :: "(string \<Rightarrow> (acl_error, Acl option) result) \<Rightarrow> string list \<Rightarrow> PermNode \<Rightarrow> (acl_error, PermNode) result" where
  "addPath get [] pnode = Ok pnode"
| "addPath get (akname # aks) (PermNode nm acl cs) =
     (case FindChild akname cs of
        Some i \<Rightarrow> bind_result (addPath get aks (cs ! i)) (\<lambda>c. Ok (PermNode nm acl (cs[i := c])))
      | None \<Rightarrow>
          bind_result (get akname) (\<lambda>accountACL.
          bind_result (addPath get aks (NewPermNode akname accountACL)) (\<lambda>c.
            Ok (PermNode nm acl (cs @ [c])))))"

fun buildPermTree :: "(string \<Rightarrow> (acl_error, Acl option) result) \<Rightarrow> string list \<Rightarrow> bool \<Rightarrow> PermNode \<Rightarrow> (acl_error, PermNode) result" where
  "buildPermTree get [] rootIsAccount r = Ok r"
| "buildPermTree get (akuri # aksuri) rootIsAccount r =
     (let aklist = SplitAccountURI akuri
      in if rootIsAccount \<and> (length aklist < 2 \<or> hd aklist \<noteq> pnName r)
         then buildPermTree get aksuri rootIsAccount r
         else bind_result (addPath get (if rootIsAccount then tl aklist else aklist) r)
                (buildPermTree get aksuri rootIsAccount))"

record AclManager =
  GetAccountACL :: "string \<Rightarrow> (acl_error, Acl option) result"
  GetContractMethodACL :: "string \<Rightarrow> string \<Rightarrow> (acl_error, Acl option) result"

definition BuildAccountPermTree :: "AclManager \<Rightarrow> string \<Rightarrow> string list \<Rightarrow> (acl_error, PermNode) result" where
  "BuildAccountPermTree aclMgr account aksuri =
     bind_result (GetAccountACL aclMgr account) (\<lambda>accountACL.
       buildPermTree (GetAccountACL aclMgr) aksuri True (NewPermNode account accountACL))"

definition BuildMethodPermTree :: "AclManager \<Rightarrow> string \<Rightarrow> string \<Rightarrow> string list \<Rightarrow> (acl_error, PermNode) result" where
  "BuildMethodPermTree aclMgr contractName methodName aksuri =
     bind_result (GetContractMethodACL aclMgr contractName methodName) (\<lambda>methodACL.
       buildPermTree (GetAccountACL aclMgr) aksuri False (NewPermNode methodName methodACL))"

subsection \<open>The breadth-first list\<close>

type_synonym addr_node = "nat list \<times> PermNode"

fun nodeCount :: "PermNode \<Rightarrow> nat" where
  "nodeCount (PermNode _ _ cs) = Suc (sum_list (map nodeCount cs))"

definition childAddrs :: "addr_node \<Rightarrow> addr_node list" where
  "childAddrs x = map (\<lambda>i. (fst x @ [i], pnChildren (snd x) ! i)) [0..<length (pnChildren (snd x))]"

lemma nodeCount_children: "sum_list (map (\<lambda>y. nodeCount (snd y)) (childAddrs x)) < nodeCount (snd x)"
proof -
  have "map (\<lambda>y. nodeCount (snd y)) (childAddrs x) = map nodeCount (pnChildren (snd x))"
    by (rule nth_equalityI) (simp_all add: childAddrs_def)
  then show ?thesis by (cases "snd x") simp
qed

text \<open>
  The list grows while an index runs over it; what is still to be visited is the queue here. It
  ends because a node is replaced by its children, which have fewer nodes.
\<close>

function bfs :: "addr_node list \<Rightarrow> addr_node list" where
  "bfs [] = []"
| "bfs (x # queue) = x # bfs (queue @ childAddrs x)"
  by pat_completeness auto

termination
proof (relation "measure (\<lambda>q. sum_list (map (\<lambda>y. nodeCount (snd y)) q))", goal_cases)
  case (2 x queue)
  then show ?case using nodeCount_children [of x] by simp
qed simp

definition GetPermTreeList :: "PermNode \<Rightarrow> addr_node list" where
  "GetPermTreeList r = bfs [([], r)]"

subsection \<open>The evaluation\<close>

definition childStatuses :: "(nat list \<Rightarrow> ValidateStatus) \<Rightarrow> addr_node \<Rightarrow> (string \<times> ValidateStatus) list" where
  "childStatuses st x = map (\<lambda>(a, n). (pnName n, st a)) (childAddrs x)"

definition validateNode :: "bool \<Rightarrow> (nat list \<Rightarrow> ValidateStatus) \<Rightarrow> addr_node \<Rightarrow> (acl_error, bool) result" where
  "validateNode isAccount st x =
     (if IsAccount (pnName (snd x)) < 0 \<or> IsAccount (pnName (snd x)) > 1 then Err InvalidName
      else let nameCheck = (if fst x = [] \<and> \<not> isAccount then 1 else IsAccount (pnName (snd x)))
           in if nameCheck = 0 then Ok True
              else case pnACL (snd x) of
                  None \<Rightarrow> Ok True
                | Some acl \<Rightarrow>
                    (case aclPm acl of
                       None \<Rightarrow> Err EmptyPm
                     | Some pm \<Rightarrow> bind_result (GetACLValidator (pmRule pm)) (\<lambda>validator.
                         Validate validator acl (childStatuses st x))))"

text \<open>From the last node of the list to the first.\<close>

fun validateLoop :: "bool \<Rightarrow> addr_node list \<Rightarrow> (nat list \<Rightarrow> ValidateStatus) \<Rightarrow> (acl_error, nat list \<Rightarrow> ValidateStatus) result" where
  "validateLoop isAccount [] st = Ok st"
| "validateLoop isAccount (x # xs) st =
     bind_result (validateLoop isAccount xs st) (\<lambda>st.
       bind_result (validateNode isAccount st x) (\<lambda>checkResult.
         Ok (st(fst x := if checkResult then Success else Failed))))"

definition validatePermTree :: "PermNode \<Rightarrow> bool \<Rightarrow> (acl_error, bool) result" where
  "validatePermTree r isAccount =
     bind_result (validateLoop isAccount (GetPermTreeList r) (\<lambda>_. NotVerified)) (\<lambda>st. Ok (st [] = Success))"

definition IdentifyAccount :: "AclManager option \<Rightarrow> string \<Rightarrow> string list \<Rightarrow> (acl_error, bool) result" where
  "IdentifyAccount aclMgr account aksuri =
     (case aclMgr of
        None \<Rightarrow> Err NilManager
      | Some mgr \<Rightarrow> bind_result (BuildAccountPermTree mgr account aksuri) (\<lambda>pnode. validatePermTree pnode True))"

definition CheckContractMethodPerm :: "AclManager option \<Rightarrow> string list \<Rightarrow> string \<Rightarrow> string \<Rightarrow> (acl_error, bool) result" where
  "CheckContractMethodPerm aclMgr aksuri contractName methodName =
     (case aclMgr of
        None \<Rightarrow> Err NilManager
      | Some mgr \<Rightarrow> bind_result (BuildMethodPermTree mgr contractName methodName aksuri) (\<lambda>pnode. validatePermTree pnode False))"

subsection \<open>Signatures\<close>

text \<open>
  The crypto client that belongs to a public key: the key it reads, whether an address belongs
  to a key, and the check of a signature (Go's pair of a verdict and an error).
\<close>

record KeyClient =
  keyOf :: "string \<Rightarrow> string option"
  VerifyAddressUsingPublicKey :: "string \<Rightarrow> string \<Rightarrow> bool"
  verifyECDSA :: "string \<Rightarrow> slice \<Rightarrow> bytes \<Rightarrow> bool \<times> acl_error option"

type_synonym KeyClients = "string \<Rightarrow> KeyClient option"

definition VerifySign :: "KeyClients \<Rightarrow> string \<Rightarrow> SignatureInfo \<Rightarrow> bytes \<Rightarrow> bool \<times> acl_error option" where
  "VerifySign clients ak si data =
     (case clients (siPublicKey si) of
        None \<Rightarrow> (False, Some BadKey)
      | Some xcc \<Rightarrow>
          (case keyOf xcc (siPublicKey si) of
             None \<Rightarrow> (False, Some BadKey)
           | Some ecdsaKey \<Rightarrow>
               if \<not> VerifyAddressUsingPublicKey xcc ak ecdsaKey then (False, Some AddressMismatch)
               else verifyECDSA xcc ecdsaKey (siSign si) data))"

definition IdentifyAK :: "KeyClients \<Rightarrow> string \<Rightarrow> SignatureInfo option \<Rightarrow> bytes \<Rightarrow> bool \<times> acl_error option" where
  "IdentifyAK clients akuri sign msg =
     (case sign of
        None \<Rightarrow> (False, Some SignNil)
      | Some si \<Rightarrow> VerifySign clients (last (SplitAccountURI akuri)) si msg)"

section \<open>The value of a tree\<close>

text \<open>The rules over the verdicts of the children.\<close>

definition rule_holds :: "Acl \<Rightarrow> (string \<times> bool) list \<Rightarrow> bool" where
  "rule_holds acl cs =
     (case aclPm acl of
        None \<Rightarrow> False
      | Some pm \<Rightarrow>
          (case pmRule pm of
             SIGN_THRESHOLD \<Rightarrow> fge (fsum (map (\<lambda>(c, _). findWeightInACL c acl) (filter snd cs))) (AcceptValue pm)
           | SIGN_AKSET \<Rightarrow>
               (\<exists>s\<in>set (aclSets acl). contents_list (snd s) \<noteq> []
                  \<and> (\<forall>ak\<in>set (contents_list (snd s)). map_of cs ak = Some True))
           | _ \<Rightarrow> False))"

fun evalTree :: "bool \<Rightarrow> PermNode \<Rightarrow> bool" where
  "evalTree forced (PermNode nm acl cs) =
     ((IsAccount nm = 0 \<and> \<not> forced) \<or>
      (case acl of None \<Rightarrow> True | Some a \<Rightarrow> rule_holds a (map (\<lambda>c. (pnName c, evalTree False c)) cs)))"

text \<open>A list with a permission model, an implemented rule and no nil address set.\<close>

definition acl_usable :: "Acl \<Rightarrow> bool" where
  "acl_usable a \<longleftrightarrow> (\<exists>pm. aclPm a = Some pm \<and> (pmRule pm = SIGN_THRESHOLD
     \<or> pmRule pm = SIGN_AKSET \<and> (\<forall>s\<in>set (aclSets a). snd s \<noteq> None)))"

fun nodes_usable :: "PermNode \<Rightarrow> bool" where
  "nodes_usable (PermNode nm acl cs) \<longleftrightarrow> nm \<noteq> [] \<and> (\<forall>a. acl = Some a \<longrightarrow> acl_usable a) \<and> (\<forall>c\<in>set cs. nodes_usable c)"

abbreviation status_of :: "bool \<Rightarrow> ValidateStatus" where
  "status_of b \<equiv> (if b then Success else Failed)"

lemma status_of_iff [simp]: "status_of b = Success \<longleftrightarrow> b"
  by simp

lemma map_of_status:
  "map_of (map (\<lambda>(c, b). (c, status_of b)) cs) ak = Some Success \<longleftrightarrow> map_of cs ak = Some True"
  by (induction cs) auto

lemma akSetsLoop_eq:
  "\<forall>s\<in>set sets. snd s \<noteq> None \<Longrightarrow> akSetsLoop sets (map (\<lambda>(c, b). (c, status_of b)) cs) =
     Ok (\<exists>s\<in>set sets. contents_list (snd s) \<noteq> [] \<and> (\<forall>ak\<in>set (contents_list (snd s)). map_of cs ak = Some True))"
proof (induction sets)
  case (Cons s sets)
  then obtain k aks where s: "s = (k, Some aks)" by (cases s) auto
  have "validateAkSet (Some aks) (map (\<lambda>(c, b). (c, status_of b)) cs) = Ok (aks \<noteq> [] \<and> (\<forall>ak\<in>set aks. map_of cs ak = Some True))"
    by (auto simp: validateAkSet_def findAkInNodeList_def map_of_status list_all_iff)
  with Cons s show ?case by auto
qed simp

lemma Validate_eq:
  assumes "acl_usable acl" and "aclPm acl = Some pm"
  shows "bind_result (GetACLValidator (pmRule pm)) (\<lambda>v. Validate v acl (map (\<lambda>(c, b). (c, status_of b)) cs)) = Ok (rule_holds acl cs)"
proof -
  have w: "map (\<lambda>(c, _). findWeightInACL c acl) (filter (\<lambda>(_, st). st = Success) (map (\<lambda>(c, b). (c, status_of b)) cs))
      = map (\<lambda>(c, _). findWeightInACL c acl) (filter snd cs)"
    by (induction cs) auto
  consider (threshold) "pmRule pm = SIGN_THRESHOLD"
    | (akset) "pmRule pm = SIGN_AKSET" "\<forall>s\<in>set (aclSets acl). snd s \<noteq> None"
    using assms by (auto simp: acl_usable_def)
  then show ?thesis
  proof cases
    case threshold
    with assms(2) w show ?thesis by (simp add: GetACLValidator_def Validate_def thresholdValidate_def rule_holds_def)
  next
    case akset
    then have "akSetsValidate acl (map (\<lambda>(c, b). (c, status_of b)) cs) = Ok (rule_holds acl cs)"
      using assms(2) akSetsLoop_eq [of "aclSets acl" cs]
      by (auto simp: akSetsValidate_def rule_holds_def aclSets_def split: option.splits)
    with akset show ?thesis by (simp add: GetACLValidator_def Validate_def)
  qed
qed

lemma IsAccount_range: "nm \<noteq> [] \<Longrightarrow> IsAccount nm = 0 \<or> IsAccount nm = 1"
  by (simp add: IsAccount_def)

lemma validateNode_eq:
  assumes "nodes_usable (snd x)" and "\<forall>y\<in>set (childAddrs x). st (fst y) = status_of (evalTree False (snd y))"
  shows "validateNode isAccount st x = Ok (evalTree (fst x = [] \<and> \<not> isAccount) (snd x))"
proof -
  obtain p nm acl cs where x: "x = (p, PermNode nm acl cs)" by (metis PermNode.exhaust surj_pair)
  have "map snd (childAddrs x) = cs" by (rule nth_equalityI) (simp_all add: childAddrs_def x)
  then have kids: "map (\<lambda>c. (pnName c, status_of (evalTree False c))) cs = map (\<lambda>y. (pnName (snd y), status_of (evalTree False (snd y)))) (childAddrs x)"
    by (metis (no_types, lifting) list.map_comp comp_apply map_eq_conv)
  have cst: "childStatuses st x = map (\<lambda>(c, b). (c, status_of b)) (map (\<lambda>c. (pnName c, evalTree False c)) cs)"
    using assms(2) kids by (simp add: childStatuses_def case_prod_beta comp_def)
  have nm: "IsAccount nm = 0 \<or> IsAccount nm = 1" using assms(1) x by (intro IsAccount_range) simp
  show ?thesis
  proof (cases acl)
    case None
    with nm x show ?thesis by (auto simp: validateNode_def)
  next
    case (Some a)
    then have a: "acl_usable a" using assms(1) x by simp
    then obtain pm where pm: "aclPm a = Some pm" by (auto simp: acl_usable_def)
    have "bind_result (GetACLValidator (pmRule pm)) (\<lambda>v. Validate v a (childStatuses st x))
        = Ok (rule_holds a (map (\<lambda>c. (pnName c, evalTree False c)) cs))"
      unfolding cst by (rule Validate_eq [OF a pm])
    with Some pm nm x show ?thesis by (auto simp: validateNode_def)
  qed
qed

section \<open>Marking the list in reverse\<close>

fun kids_after :: "addr_node list \<Rightarrow> bool" where
  "kids_after [] \<longleftrightarrow> True"
| "kids_after (x # xs) \<longleftrightarrow> set (childAddrs x) \<subseteq> set xs \<and> kids_after xs"

lemma bfs_contains: "set q \<subseteq> set (bfs q)"
  by (induction q rule: bfs.induct) auto

lemma bfs_kids_after: "kids_after (bfs q)"
proof (induction q rule: bfs.induct)
  case (2 x queue)
  then show ?case using bfs_contains [of "queue @ childAddrs x"] by auto
qed simp

text \<open>The node at an address of the tree.\<close>

fun nodeAt :: "PermNode \<Rightarrow> nat list \<Rightarrow> PermNode option" where
  "nodeAt n [] = Some n"
| "nodeAt n (i # p) = (if i < length (pnChildren n) then nodeAt (pnChildren n ! i) p else None)"

lemma nodeAt_snoc:
  "nodeAt n (p @ [i]) = (case nodeAt n p of None \<Rightarrow> None
     | Some m \<Rightarrow> if i < length (pnChildren m) then Some (pnChildren m ! i) else None)"
  by (induction p arbitrary: n) auto

lemma bfs_nodeAt:
  "\<forall>x\<in>set q. nodeAt r (fst x) = Some (snd x) \<Longrightarrow> x \<in> set (bfs q) \<Longrightarrow> nodeAt r (fst x) = Some (snd x)"
proof (induction q rule: bfs.induct)
  case (2 y queue)
  have "\<forall>z\<in>set (queue @ childAddrs y). nodeAt r (fst z) = Some (snd z)"
    using 2 by (auto simp: childAddrs_def nodeAt_snoc)
  with 2 show ?case by auto
qed simp

lemma nodeAt_usable: "nodes_usable n \<Longrightarrow> nodeAt n p = Some m \<Longrightarrow> nodes_usable m"
proof (induction p arbitrary: n)
  case (Cons i p)
  then show ?case by (cases n) (auto split: if_splits dest: nth_mem)
qed auto

lemma validateLoop_eq:
  assumes "kids_after L" and "\<forall>x\<in>set L. nodeAt r (fst x) = Some (snd x)" and "nodes_usable r"
  shows "\<exists>st'. validateLoop isAccount L st = Ok st'
    \<and> (\<forall>x\<in>set L. st' (fst x) = status_of (evalTree (fst x = [] \<and> \<not> isAccount) (snd x)))"
  using assms(1,2)
proof (induction L)
  case (Cons x xs)
  then obtain st' where st': "validateLoop isAccount xs st = Ok st'"
    "\<forall>y\<in>set xs. st' (fst y) = status_of (evalTree (fst y = [] \<and> \<not> isAccount) (snd y))" by auto
  have kids: "\<forall>y\<in>set (childAddrs x). fst y \<noteq> [] \<and> y \<in> set xs" using Cons.prems(1) by (auto simp: childAddrs_def)
  have "nodes_usable (snd x)" using nodeAt_usable [OF assms(3)] Cons.prems(2) by auto
  then have "validateNode isAccount st' x = Ok (evalTree (fst x = [] \<and> \<not> isAccount) (snd x))"
    using st'(2) kids by (intro validateNode_eq) auto
  moreover have "snd y = snd x" if "y \<in> set xs" "fst y = fst x" for y
    using Cons.prems(2) that by (metis list.set_intros option.inject)
  ultimately show ?case using st' by auto
qed simp

lemma validatePermTree_eq:
  assumes "nodes_usable r"
  shows "validatePermTree r isAccount = Ok (evalTree (\<not> isAccount) r)"
proof -
  let ?L = "GetPermTreeList r"
  have "kids_after ?L" unfolding GetPermTreeList_def by (rule bfs_kids_after)
  moreover have "\<forall>x\<in>set ?L. nodeAt r (fst x) = Some (snd x)"
    unfolding GetPermTreeList_def using bfs_nodeAt [of "[([], r)]" r] by auto
  ultimately obtain st where st: "validateLoop isAccount ?L (\<lambda>_. NotVerified) = Ok st"
    "\<forall>x\<in>set ?L. st (fst x) = status_of (evalTree (fst x = [] \<and> \<not> isAccount) (snd x))"
    using validateLoop_eq [OF _ _ assms, of ?L isAccount "\<lambda>_. NotVerified"] by blast
  have "([], r) \<in> set ?L" unfolding GetPermTreeList_def using bfs_contains [of "[([], r)]"] by auto
  with st(2) have "st [] = status_of (evalTree (\<not> isAccount) r)" by force
  with st(1) show ?thesis by (simp add: validatePermTree_def)
qed

section \<open>The tree of a list of paths\<close>

fun insPath :: "(string \<Rightarrow> Acl option) \<Rightarrow> string list \<Rightarrow> PermNode \<Rightarrow> PermNode" where
  "insPath acl_of [] n = n"
| "insPath acl_of (a # as) (PermNode nm acl cs) =
     (case FindChild a cs of
        Some i \<Rightarrow> PermNode nm acl (cs[i := insPath acl_of as (cs ! i)])
      | None \<Rightarrow> PermNode nm acl (cs @ [insPath acl_of as (NewPermNode a (acl_of a))]))"

lemma NewPermNode_name [simp]: "pnName (NewPermNode a acl) = a"
  by (simp add: NewPermNode_def)

lemma addPath_ins: "\<forall>a. get a = Ok (acl_of a) \<Longrightarrow> addPath get p n = Ok (insPath acl_of p n)"
  by (induction get p n rule: addPath.induct) (auto split: option.splits)

lemma ins_name [simp]: "pnName (insPath acl_of p n) = pnName n"
  by (cases "(acl_of, p, n)" rule: insPath.cases) (auto split: option.splits)

definition heads :: "'a list list \<Rightarrow> 'a list" where
  "heads ps = rev (remdups (rev (map hd (filter (\<lambda>p. p \<noteq> []) ps))))"

definition suffixes :: "'a \<Rightarrow> 'a list list \<Rightarrow> 'a list list" where
  "suffixes c ps = map tl (filter (\<lambda>p. p \<noteq> [] \<and> hd p = c) ps)"

abbreviation treeOf :: "(string \<Rightarrow> Acl option) \<Rightarrow> PermNode \<Rightarrow> string list list \<Rightarrow> PermNode" where
  "treeOf acl_of \<equiv> foldl (\<lambda>n p. insPath acl_of p n)"

lemma treeOf_name [simp]: "pnName (treeOf acl_of n ps) = pnName n"
  by (induction ps arbitrary: n) auto

lemma FindChild_Some: "FindChild c ns = Some i \<Longrightarrow> i < length ns \<and> pnName (ns ! i) = c"
  by (induction ns arbitrary: i) (auto split: if_splits)

lemma FindChild_None: "FindChild c ns = None \<longleftrightarrow> c \<notin> pnName ` set ns"
  by (induction ns) auto

lemma distinct_heads [simp]: "distinct (heads ps)"
  by (simp add: heads_def)

lemma heads_snoc:
  "heads (ps @ [[]]) = heads ps"
  "heads (ps @ [c # p]) = (if c \<in> set (heads ps) then heads ps else heads ps @ [c])"
  by (simp_all add: heads_def)

lemma suffixes_snoc:
  "suffixes x (ps @ [[]]) = suffixes x ps"
  "suffixes x (ps @ [c # p]) = (if x = c then suffixes x ps @ [p] else suffixes x ps)"
  by (simp_all add: suffixes_def)

lemma suffixes_no_head: "c \<notin> set (heads ps) \<Longrightarrow> suffixes c ps = []"
  by (auto simp: heads_def suffixes_def filter_empty_conv)

lemma map_update_one:
  assumes "distinct xs" "i < length xs" "\<And>x. x \<in> set xs \<Longrightarrow> x \<noteq> xs ! i \<Longrightarrow> g x = f x"
  shows "map g xs = (map f xs)[i := g (xs ! i)]"
proof (rule nth_equalityI)
  fix j assume "j < length (map g xs)"
  then show "map g xs ! j = (map f xs)[i := g (xs ! i)] ! j"
    using assms by (cases "j = i") (auto simp: nth_eq_iff_index_eq)
qed simp

text \<open>The children of a node are the first steps of its paths, each with the rest of its own.\<close>

lemma treeOf_children:
  "treeOf acl_of (PermNode nm acl []) ps =
     PermNode nm acl (map (\<lambda>c. treeOf acl_of (NewPermNode c (acl_of c)) (suffixes c ps)) (heads ps))"
proof (induction ps rule: rev_induct)
  case Nil
  show ?case by (simp add: heads_def)
next
  case (snoc p ps)
  let ?t = "\<lambda>ps c. treeOf acl_of (NewPermNode c (acl_of c)) (suffixes c ps)"
  show ?case
  proof (cases p)
    case Nil
    with snoc show ?thesis by (simp add: heads_snoc suffixes_snoc)
  next
    case (Cons c rest)
    have names: "pnName (?t qs x) = x" for qs x by (simp add: NewPermNode_def)
    have same: "?t (ps @ [c # rest]) x = ?t ps x" if "x \<noteq> c" for x using that by (simp add: suffixes_snoc)
    have new: "?t (ps @ [c # rest]) c = insPath acl_of rest (?t ps c)" by (simp add: suffixes_snoc)
    show ?thesis
    proof (cases "FindChild c (map (?t ps) (heads ps))")
      case None
      then have c: "c \<notin> set (heads ps)" by (simp add: FindChild_None image_image NewPermNode_def)
      then have "?t ps c = NewPermNode c (acl_of c)" by (simp add: suffixes_no_head)
      moreover have "map (?t (ps @ [c # rest])) (heads ps) = map (?t ps) (heads ps)"
        by (intro map_cong refl same) (use c in auto)
      ultimately show ?thesis using None c Cons snoc new by (simp add: heads_snoc)
    next
      case (Some i)
      then have i: "i < length (heads ps)" "heads ps ! i = c" using FindChild_Some [OF Some] by (auto simp: names)
      then have c: "c \<in> set (heads ps)" by (metis nth_mem)
      have "map (?t (ps @ [c # rest])) (heads ps) = (map (?t ps) (heads ps))[i := ?t (ps @ [c # rest]) (heads ps ! i)]"
        by (rule map_update_one) (use i same in auto)
      with i c Cons snoc Some new show ?thesis by (simp add: heads_snoc)
    qed
  qed
qed

lemma ins_usable:
  "nodes_usable n \<Longrightarrow> [] \<notin> set p \<Longrightarrow> (\<forall>a x. acl_of a = Some x \<longrightarrow> acl_usable x) \<Longrightarrow> nodes_usable (insPath acl_of p n)"
proof (induction acl_of p n rule: insPath.induct)
  case (2 acl_of a as nm acl cs)
  have new: "nodes_usable (NewPermNode a (acl_of a))" using "2.prems" by (auto simp: NewPermNode_def)
  show ?case
  proof (cases "FindChild a cs")
    case None
    with 2 new show ?thesis by auto
  next
    case (Some i)
    then have "i < length cs" using FindChild_Some by blast
    then have "nodes_usable (cs ! i)" using 2 by simp
    with 2 Some have "nodes_usable (insPath acl_of as (cs ! i))" by simp
    with "2.prems" Some show ?thesis by (auto dest!: subsetD [OF set_update_subset_insert])
  qed
qed simp

lemma treeOf_usable:
  "nodes_usable n \<Longrightarrow> \<forall>p\<in>set ps. [] \<notin> set p \<Longrightarrow> (\<forall>a x. acl_of a = Some x \<longrightarrow> acl_usable x) \<Longrightarrow> nodes_usable (treeOf acl_of n ps)"
  by (induction ps arbitrary: n) (auto intro: ins_usable)

lemma in_set_tl: "x \<in> set (tl xs) \<Longrightarrow> x \<in> set xs"
  by (cases xs) auto

definition account_paths :: "string \<Rightarrow> string list \<Rightarrow> string list list" where
  "account_paths account uris = map tl (filter (\<lambda>p. 2 \<le> length p \<and> hd p = account) (map SplitAccountURI uris))"

lemma buildPermTree_account:
  "\<forall>a. get a = Ok (acl_of a) \<Longrightarrow> buildPermTree get uris True n = Ok (treeOf acl_of n (account_paths (pnName n) uris))"
  by (induction uris arbitrary: n) (auto simp: account_paths_def addPath_ins [where acl_of = acl_of] Let_def)

lemma buildPermTree_method:
  "\<forall>a. get a = Ok (acl_of a) \<Longrightarrow> buildPermTree get uris False n = Ok (treeOf acl_of n (map SplitAccountURI uris))"
  by (induction uris arbitrary: n) (auto simp: addPath_ins [where acl_of = acl_of] Let_def)

section \<open>What a list of paths grants\<close>

lemma suffixes_shorter:
  assumes "c \<in> set (heads ps)"
  shows "sum_list (map length (suffixes c ps)) < sum_list (map length ps)"
proof -
  have le: "sum_list (map length (suffixes c qs)) \<le> sum_list (map length qs)" for qs :: "'a list list"
    by (induction qs) (auto simp: suffixes_def)
  from assms show ?thesis
  proof (induction ps)
    case (Cons p ps)
    show ?case
    proof (cases "p \<noteq> [] \<and> hd p = c")
      case True
      then have "length (tl p) < length p" by (cases p) auto
      moreover have "suffixes c (p # ps) = tl p # suffixes c ps" using True by (simp add: suffixes_def)
      ultimately show ?thesis using le [of ps] by simp
    next
      case False
      with Cons.prems have "c \<in> set (heads ps)" by (auto simp: heads_def split: if_splits)
      with Cons.IH False show ?thesis by (auto simp: suffixes_def)
    qed
  qed (simp add: heads_def)
qed

text \<open>
  An address is granted; an account without a list is granted; any other account is granted when
  its rule holds of the accounts and addresses that its paths lead to. The method of a contract
  is treated like an account whatever its name is.
\<close>

function grants :: "(string \<Rightarrow> Acl option) \<Rightarrow> bool \<Rightarrow> string \<Rightarrow> Acl option \<Rightarrow> string list list \<Rightarrow> bool" where
  "grants acl_of forced name acl paths =
     ((IsAccount name = 0 \<and> \<not> forced) \<or>
      (case acl of
         None \<Rightarrow> True
       | Some a \<Rightarrow> rule_holds a (map (\<lambda>c. (c, grants acl_of False c (acl_of c) (suffixes c paths))) (heads paths))))"
  by auto

termination
proof (relation "measure (\<lambda>(_, _, _, _, ps). sum_list (map length ps))", goal_cases)
  case (2 acl_of forced name acl paths a c)
  then show ?case using suffixes_shorter by simp
qed simp

declare grants.simps [simp del]

lemma evalTree_treeOf: "evalTree forced (treeOf acl_of (PermNode nm acl []) ps) = grants acl_of forced nm acl ps"
proof (induction acl_of forced nm acl ps rule: grants.induct)
  case (1 acl_of forced nm acl ps)
  let ?kid = "\<lambda>c. treeOf acl_of (NewPermNode c (acl_of c)) (suffixes c ps)"
  show ?case
  proof (cases "IsAccount nm = 0 \<and> \<not> forced \<or> acl = None")
    case True
    then show ?thesis unfolding treeOf_children grants.simps [of acl_of forced nm acl ps] by auto
  next
    case False
    then obtain a where a: "acl = Some a" "\<not> (IsAccount nm = 0 \<and> \<not> forced)" by auto
    have "evalTree False (?kid c) = grants acl_of False c (acl_of c) (suffixes c ps)" if "c \<in> set (heads ps)" for c
      using "1.IH" [OF a(1) that] by (simp add: NewPermNode_def)
    then have m: "map (\<lambda>c. (pnName c, evalTree False c)) (map ?kid (heads ps))
        = map (\<lambda>c. (c, grants acl_of False c (acl_of c) (suffixes c ps))) (heads ps)"
      by simp
    show ?thesis
      unfolding a(1) treeOf_children grants.simps [of acl_of forced nm "Some a" ps] evalTree.simps option.case m ..
  qed
qed

lemma IdentifyAccount_grants:
  assumes "\<forall>a. GetAccountACL mgr a = Ok (acl_of a)" and "\<forall>a x. acl_of a = Some x \<longrightarrow> acl_usable x"
    and "account \<noteq> []" and "\<forall>p\<in>set (account_paths account uris). [] \<notin> set p"
  shows "IdentifyAccount (Some mgr) account uris = Ok (grants acl_of False account (acl_of account) (account_paths account uris))"
proof -
  let ?t = "treeOf acl_of (NewPermNode account (acl_of account)) (account_paths account uris)"
  have get: "GetAccountACL mgr account = Ok (acl_of account)" using assms(1) by blast
  have "nodes_usable ?t" using assms(2-4) by (intro treeOf_usable) (auto simp: NewPermNode_def)
  then have "validatePermTree ?t True = Ok (grants acl_of False account (acl_of account) (account_paths account uris))"
    by (simp only: validatePermTree_eq NewPermNode_def evalTree_treeOf not_True_eq_False)
  moreover have "BuildAccountPermTree mgr account uris = Ok ?t"
    unfolding BuildAccountPermTree_def get bind_result.simps
    by (rule buildPermTree_account [OF assms(1), of uris "NewPermNode account (acl_of account)", unfolded NewPermNode_name])
  ultimately show ?thesis by (simp add: IdentifyAccount_def)
qed

lemma CheckContractMethodPerm_grants:
  assumes "\<forall>a. GetAccountACL mgr a = Ok (acl_of a)" and "\<forall>a x. acl_of a = Some x \<longrightarrow> acl_usable x"
    and "GetContractMethodACL mgr contract method = Ok macl" and "\<forall>x. macl = Some x \<longrightarrow> acl_usable x"
    and "method \<noteq> []" and "\<forall>u\<in>set uris. [] \<notin> set (SplitAccountURI u)"
  shows "CheckContractMethodPerm (Some mgr) uris contract method = Ok (grants acl_of True method macl (map SplitAccountURI uris))"
proof -
  let ?t = "treeOf acl_of (NewPermNode method macl) (map SplitAccountURI uris)"
  have "nodes_usable ?t" using assms(2,4-6) by (intro treeOf_usable) (auto simp: NewPermNode_def)
  then have "validatePermTree ?t False = Ok (grants acl_of True method macl (map SplitAccountURI uris))"
    by (simp only: validatePermTree_eq NewPermNode_def evalTree_treeOf not_False_eq_True)
  moreover have "BuildMethodPermTree mgr contract method uris = Ok ?t"
    unfolding BuildMethodPermTree_def assms(3) bind_result.simps by (rule buildPermTree_method [OF assms(1)])
  ultimately show ?thesis by (simp add: CheckContractMethodPerm_def)
qed

lemma account_paths_nonempty: "\<forall>u\<in>set uris. [] \<notin> set (SplitAccountURI u) \<Longrightarrow> \<forall>p\<in>set (account_paths account uris). [] \<notin> set p"
  by (force simp: account_paths_def dest: in_set_tl)

text \<open>
  C27: Permission checks compute what they should. For an account the paths are those of the
  signers that start with it, for a method all of them; building the tree, listing it breadth
  first and marking its nodes in reverse gives exactly the verdict of the recursive definition,
  where every member counts once, however many of the paths lead through it.
\<close>

theorem permission_reference:
  assumes "\<forall>a. GetAccountACL mgr a = Ok (acl_of a)" and "\<forall>a x. acl_of a = Some x \<longrightarrow> acl_usable x"
    and "GetContractMethodACL mgr contract method = Ok macl" and "\<forall>x. macl = Some x \<longrightarrow> acl_usable x"
    and "account \<noteq> []" and "method \<noteq> []" and "\<forall>u\<in>set uris. [] \<notin> set (SplitAccountURI u)"
  shows "IdentifyAccount (Some mgr) account uris =
      Ok (grants acl_of False account (acl_of account) (account_paths account uris))
    \<and> CheckContractMethodPerm (Some mgr) uris contract method =
      Ok (grants acl_of True method macl (map SplitAccountURI uris))"
  using IdentifyAccount_grants [OF assms(1,2,5) account_paths_nonempty [OF assms(7)]]
    CheckContractMethodPerm_grants [OF assms(1-4,6,7)] by blast

text \<open>An account that two of three addresses control, with whole weights.\<close>

definition acl_demo :: Acl where
  "acl_demo = \<lparr>aclPm = Some \<lparr>pmRule = SIGN_THRESHOLD, AcceptValue = Fin 2\<rparr>,
     AksWeight = Some [(''a'', Fin 1), (''b'', Fin 1), (''c'', Fin 1)], AkSets = None\<rparr>"

definition acct_demo :: string where "acct_demo = ''XC1111111111111111@x''"

definition acl_of_demo :: "string \<Rightarrow> Acl option" where
  "acl_of_demo n = (if n = acct_demo then Some acl_demo else None)"

definition mgr_demo :: AclManager where
  "mgr_demo = \<lparr>GetAccountACL = (\<lambda>n. Ok (acl_of_demo n)), GetContractMethodACL = (\<lambda>c m. Ok (Some acl_demo))\<rparr>"

lemma acl_demo_usable: "acl_usable acl_demo"
  by (simp add: acl_usable_def acl_demo_def)

lemma acl_demo_pm: "aclPm acl_demo = Some \<lparr>pmRule = SIGN_THRESHOLD, AcceptValue = Fin 2\<rparr>"
  by (simp add: acl_demo_def)

lemma demo_addrs: "grants acl_of_demo False ''a'' acl ps" "grants acl_of_demo False ''c'' acl ps"
  by (simp_all add: grants.simps [of acl_of_demo False "''a''"] grants.simps [of acl_of_demo False "''c''"] IsAccount_def hasPrefix_def accountPrefix_def)

lemma demo_heads: "heads [[''a''], [''a''], [''c'']] = [''a'', ''c'']" "heads [acct_demo # p, acct_demo # q, acct_demo # r] = [acct_demo]"
  by (simp_all add: heads_def)

lemma demo_weights: "findWeightInACL ''a'' acl_demo = Fin 1" "findWeightInACL ''c'' acl_demo = Fin 1" "findWeightInACL acct_demo acl_demo = Fin 0"
    "fsum [Fin 1, Fin 1] = Fin 2" "fsum [Fin 0] = Fin 0" "fsum [] = Fin 0"
  using fsum_ints [of "[1, 1]"] fsum_ints [of "[0]"] fsum_ints [of "[]"]
  by (simp_all add: findWeightInACL_def acl_demo_def acct_demo_def)

theorem permission_reference_witness:
  "IdentifyAccount (Some mgr_demo) acct_demo [acct_demo @ ''/a'', acct_demo @ ''/a'', acct_demo @ ''/c''] = Ok True
   \<and> CheckContractMethodPerm (Some mgr_demo) [acct_demo @ ''/a'', acct_demo @ ''/a'', acct_demo @ ''/c''] ''k'' ''m'' = Ok False"
proof -
  let ?uris = "[acct_demo @ ''/a'', acct_demo @ ''/a'', acct_demo @ ''/c'']"
  have "IdentifyAccount (Some mgr_demo) acct_demo ?uris =
      Ok (grants acl_of_demo False acct_demo (acl_of_demo acct_demo) (account_paths acct_demo ?uris))
    \<and> CheckContractMethodPerm (Some mgr_demo) ?uris ''k'' ''m'' =
      Ok (grants acl_of_demo True ''m'' (Some acl_demo) (map SplitAccountURI ?uris))"
    by (rule permission_reference)
       (auto simp: mgr_demo_def acl_of_demo_def acl_demo_usable acct_demo_def SplitAccountURI_def split: if_splits)
  moreover have "account_paths acct_demo ?uris = [[''a''], [''a''], [''c'']]"
    "map SplitAccountURI ?uris = [[acct_demo, ''a''], [acct_demo, ''a''], [acct_demo, ''c'']]"
    by (simp_all add: account_paths_def acct_demo_def SplitAccountURI_def)
  moreover have "grants acl_of_demo False acct_demo (acl_of_demo acct_demo) [[''a''], [''a''], [''c'']]"
    by (simp add: grants.simps [of acl_of_demo False acct_demo] demo_addrs demo_heads demo_weights rule_holds_def acl_of_demo_def acl_demo_pm)
  moreover have "\<not> grants acl_of_demo True ''m'' (Some acl_demo) [[acct_demo, ''a''], [acct_demo, ''a''], [acct_demo, ''c'']]"
    by (simp add: grants.simps [of acl_of_demo True "''m''"] demo_heads demo_weights rule_holds_def acl_demo_pm)
  ultimately show ?thesis by simp
qed

section \<open>Who has authorised an account\<close>

text \<open>
  The least set of names that the signatures of a set of addresses authorise: the signers, the
  accounts without a list, and the accounts whose rule authorised members satisfy.
\<close>

inductive authorized :: "(string \<Rightarrow> Acl option) \<Rightarrow> string set \<Rightarrow> string \<Rightarrow> bool" for acl_of signed where
  ak: "IsAccount n = 0 \<Longrightarrow> n \<in> signed \<Longrightarrow> authorized acl_of signed n"
| no_list: "IsAccount n = 1 \<Longrightarrow> acl_of n = None \<Longrightarrow> authorized acl_of signed n"
| threshold: "IsAccount n = 1 \<Longrightarrow> acl_of n = Some a \<Longrightarrow> aclPm a = Some pm \<Longrightarrow> pmRule pm = SIGN_THRESHOLD
    \<Longrightarrow> distinct cs \<Longrightarrow> \<forall>c\<in>set cs. authorized acl_of signed c
    \<Longrightarrow> fge (fsum (map (\<lambda>c. findWeightInACL c a) cs)) (AcceptValue pm) \<Longrightarrow> authorized acl_of signed n"
| akset: "IsAccount n = 1 \<Longrightarrow> acl_of n = Some a \<Longrightarrow> aclPm a = Some pm \<Longrightarrow> pmRule pm = SIGN_AKSET
    \<Longrightarrow> (k, Some aks) \<in> set (aclSets a) \<Longrightarrow> aks \<noteq> [] \<Longrightarrow> \<forall>c\<in>set aks. authorized acl_of signed c
    \<Longrightarrow> authorized acl_of signed n"

text \<open>A path of accounts that ends in a signer.\<close>

definition proper_path :: "string set \<Rightarrow> string list \<Rightarrow> bool" where
  "proper_path signed p \<longleftrightarrow> p \<noteq> [] \<and> [] \<notin> set p \<and> (\<forall>x\<in>set (butlast p). IsAccount x = 1) \<and> last p \<in> signed"

lemma proper_path_tl: "proper_path signed (n # c # q) \<Longrightarrow> proper_path signed (c # q) \<and> (IsAccount c = 1 \<or> c \<in> signed)"
  by (cases q) (auto simp: proper_path_def)

lemma heads_in: "c \<in> set (heads ps) \<longleftrightarrow> (\<exists>q. c # q \<in> set ps)"
proof
  assume "c \<in> set (heads ps)"
  then obtain p where "p \<in> set ps" "p \<noteq> []" "hd p = c" by (auto simp: heads_def)
  then show "\<exists>q. c # q \<in> set ps" by (intro exI [of _ "tl p"]) auto
qed (force simp: heads_def)

lemma suffixes_in: "q \<in> set (suffixes c ps) \<longleftrightarrow> c # q \<in> set ps"
proof -
  have "q \<in> set (suffixes c ps) \<longleftrightarrow> (\<exists>p\<in>set ps. p \<noteq> [] \<and> hd p = c \<and> q = tl p)" by (auto simp: suffixes_def)
  also have "\<dots> \<longleftrightarrow> c # q \<in> set ps" by (metis list.collapse list.distinct(1) list.sel(1,3))
  finally show ?thesis .
qed

lemma grants_authorized:
  "grants acl_of forced n acl ps \<Longrightarrow> \<not> forced \<Longrightarrow> acl = acl_of n \<Longrightarrow> n \<noteq> [] \<Longrightarrow> IsAccount n = 1 \<or> n \<in> signed
     \<Longrightarrow> \<forall>p\<in>set ps. proper_path signed (n # p) \<Longrightarrow> authorized acl_of signed n"
proof (induction acl_of forced n acl ps rule: grants.induct)
  case (1 acl_of forced n acl ps)
  show ?case
  proof (cases "IsAccount n = 0 \<or> acl_of n = None")
    case True
    then show ?thesis using "1.prems"(4,5) IsAccount_range [of n] by (auto intro: authorized.ak authorized.no_list)
  next
    case False
    then obtain a where a: "acl_of n = Some a" "acl = Some a" using "1.prems"(3) by auto
    have acc: "IsAccount n = 1" using False IsAccount_range [of n] "1.prems"(4) by auto
    let ?g = "\<lambda>c. grants acl_of False c (acl_of c) (suffixes c ps)"
    have kid: "authorized acl_of signed c" if "c \<in> set (heads ps)" "?g c" for c
    proof -
      obtain q where q: "c # q \<in> set ps" using \<open>c \<in> set (heads ps)\<close> by (auto simp: heads_in)
      then have pp: "proper_path signed (n # c # q)" using "1.prems"(6) by simp
      from proper_path_tl [OF pp] have "c \<noteq> []" "IsAccount c = 1 \<or> c \<in> signed" by (auto simp: proper_path_def)
      moreover have "\<forall>p\<in>set (suffixes c ps). proper_path signed (c # p)"
      proof
        fix p assume "p \<in> set (suffixes c ps)"
        then have "proper_path signed (n # c # p)" using "1.prems"(6) by (simp add: suffixes_in)
        then show "proper_path signed (c # p)" using proper_path_tl by blast
      qed
      ultimately show ?thesis by (intro "1.IH" [OF a(2) that(1) that(2)]) simp_all
    qed
    have rule: "rule_holds a (map (\<lambda>c. (c, ?g c)) (heads ps))"
      using "1.prems"(1) acc a by (simp add: grants.simps [of acl_of forced n])
    then obtain pm where pm: "aclPm a = Some pm" by (auto simp: rule_holds_def split: option.splits)
    have w: "map (\<lambda>(c, _). findWeightInACL c a) (filter snd (map (\<lambda>c. (c, ?g c)) (heads ps))) = map (\<lambda>c. findWeightInACL c a) (filter ?g (heads ps))"
      by (simp add: filter_map comp_def)
    have mem: "c \<in> set (heads ps) \<and> ?g c" if "map_of (map (\<lambda>c. (c, ?g c)) (heads ps)) c = Some True" for c
      using map_of_SomeD [OF that] by auto
    show ?thesis
    proof (cases "pmRule pm = SIGN_THRESHOLD")
      case True
      with rule pm have "fge (fsum (map (\<lambda>c. findWeightInACL c a) (filter ?g (heads ps)))) (AcceptValue pm)"
        unfolding rule_holds_def w by simp
      then show ?thesis 
        by (intro authorized.threshold [where acl_of = acl_of and n = n and a = a and pm = pm, OF acc a(1) pm True]) (auto intro: kid)
    next
      case False
      with rule pm obtain s where s: "pmRule pm = SIGN_AKSET" "s \<in> set (aclSets a)" "contents_list (snd s) \<noteq> []"
          "\<forall>ak\<in>set (contents_list (snd s)). map_of (map (\<lambda>c. (c, ?g c)) (heads ps)) ak = Some True"
        unfolding rule_holds_def by (auto split: PermissionRule.splits)
      obtain k aks where aks: "s = (k, Some aks)" "aks \<noteq> []" using s(3) by (cases s; cases "snd s") auto
      have "\<forall>ak\<in>set aks. authorized acl_of signed ak"
      proof
        fix ak assume "ak \<in> set aks"
        with s(4) aks(1) have "map_of (map (\<lambda>c. (c, ?g c)) (heads ps)) ak = Some True" by simp
        from mem [OF this] show "authorized acl_of signed ak" using kid by blast
      qed
      with aks s(1,2) show ?thesis by (intro authorized.akset [where acl_of = acl_of and n = n and a = a and pm = pm, OF acc a(1) pm]) auto
    qed
  qed
qed

text \<open>
  The verdict on a list with a nil address set, which the decoder makes of a JSON \<open>null\<close> and which
  \<open>validACL\<close> lets pass, is a nil dereference.
\<close>

lemma nil_akset_panics:
  assumes "GetAccountACL mgr acct_demo = Ok (Some \<lparr>aclPm = Some \<lparr>pmRule = SIGN_AKSET, AcceptValue = w\<rparr>, AksWeight = None,
    AkSets = Some (Some [(k, None)])\<rparr>)"
  shows "IdentifyAccount (Some mgr) acct_demo [] = Panic"
proof -
  have "IsAccount acct_demo = 1" by code_simp
  with assms show ?thesis
    by (simp add: IdentifyAccount_def BuildAccountPermTree_def validatePermTree_def GetPermTreeList_def NewPermNode_def
        childAddrs_def validateNode_def GetACLValidator_def Validate_def akSetsValidate_def childStatuses_def validateAkSet_def)
qed

end
