(* ===== verification/Tx_Hash.thy ===== *)
theory Tx_Hash
  imports Xledger_Types Go_Bytes Go_Json
begin

text \<open>
  The id of a transaction and the digest its signers sign (\<open>state/utxo/txhash\<close>). Version 3
  prefixes every field with its length; the older versions write a JSON value per line and leave
  out empty fields. The hash is the parameter \<open>sha256\<close>; the JSON of strings and messages is the
  parameter \<open>TxJson\<close>. The theorems say that a version 3 id determines everything but the block a
  transaction is in, and that an older id does not.
\<close>

section \<open>Version 3\<close>

definition encBytes :: "slice \<Rightarrow> bytes" where
  "encBytes s = encString (contents s)"

definition encMap :: "(string \<times> slice) list \<Rightarrow> bytes" where
  "encMap m = encInt64 (int (length m)) @ concat (map (\<lambda>(k, v). encString k @ encBytes v) (sort_key fst m))"

definition encTxInput :: "TxInput \<Rightarrow> bytes" where
  "encTxInput i = encBytes (tiRefTxid i) @ encInt64 (tiRefOffset i) @ encBytes (tiFromAddr i)
     @ encBytes (tiAmount i) @ encInt64 (tiFrozenHeight i)"

definition encTxOutput :: "TxOutput \<Rightarrow> bytes" where
  "encTxOutput o' = encBytes (toAmount o') @ encBytes (toToAddr o') @ encInt64 (toFrozenHeight o')"

definition encTxInputExt :: "TxInputExt \<Rightarrow> bytes" where
  "encTxInputExt i = encString (ieBucket i) @ encBytes (ieKey i) @ encBytes (ieRefTxid i) @ encInt64 (ieRefOffset i)"

definition encTxOutputExt :: "TxOutputExt \<Rightarrow> bytes" where
  "encTxOutputExt o' = encString (oeBucket o') @ encBytes (oeKey o') @ encBytes (oeValue o')"

definition encRequest :: "InvokeRequest \<Rightarrow> bytes" where
  "encRequest r = encString (irModuleName r) @ encString (irContractName r) @ encString (irMethodName r)
     @ encMap (irArgs r) @ encList (\<lambda>(ty, limit). encInt64 ty @ encInt64 limit) (irResourceLimits r)
     @ encString (irAmount r)"

definition encSigs :: "SignatureInfo list \<Rightarrow> bytes" where
  "encSigs sigs = encList (\<lambda>s. encString (siPublicKey s) @ encBytes (siSign s)) sigs"

definition xuperKeys :: "Transaction \<Rightarrow> slice list" where
  "xuperKeys tx = (case txXuperSign tx of None \<Rightarrow> [] | Some x \<Rightarrow> xsPublicKeys x)"

definition xuperSignature :: "Transaction \<Rightarrow> slice" where
  "xuperSignature tx = (case txXuperSign tx of None \<Rightarrow> None | Some x \<Rightarrow> xsSignature x)"

definition encSigned :: "Transaction \<Rightarrow> bytes" where
  "encSigned tx = encSigs (txInitiatorSigns tx) @ encSigs (txAuthRequireSigns tx)
     @ encList encBytes (xuperKeys tx) @ encBytes (xuperSignature tx)"

definition encBody :: "Transaction \<Rightarrow> bytes" where
  "encBody tx = encList encTxInput (txInputs tx) @ encList encTxOutput (txOutputs tx)
     @ encBytes (txDesc tx) @ encBool (txCoinbase tx) @ encString (txNonce tx) @ encInt64 (txTimestamp tx)
     @ encInt64 (txVersion tx) @ encBool (txAutogen tx)
     @ encList encTxInputExt (txInputsExt tx) @ encList encTxOutputExt (txOutputsExt tx)
     @ encList encRequest (contents_list (txContractRequests tx))
     @ encString (txInitiator tx) @ encList encString (txAuthRequire tx)"

definition hdKey :: "Transaction \<Rightarrow> slice" where
  "hdKey tx = (case txHDInfo tx of None \<Rightarrow> None | Some h \<Rightarrow> hdPublicKey h)"

definition hdHash :: "Transaction \<Rightarrow> slice" where
  "hdHash tx = (case txHDInfo tx of None \<Rightarrow> None | Some h \<Rightarrow> hdOriginalHash h)"

definition txEncodeV2 :: "Transaction \<Rightarrow> bool \<Rightarrow> bytes" where
  "txEncodeV2 tx includeSigns =
     encBody tx @ (if includeSigns then encSigned tx else []) @ encBytes (hdKey tx) @ encBytes (hdHash tx)"

definition txDigestHashV2 :: "(bytes \<Rightarrow> bytes) \<Rightarrow> Transaction \<Rightarrow> bool \<Rightarrow> bytes" where
  "txDigestHashV2 sha256 tx includeSigns = sha256 (sha256 (txEncodeV2 tx includeSigns))"

section \<open>Older versions\<close>

record TxJson =
  jsString :: "string \<Rightarrow> string"
  jsOutputs :: "TxOutput list \<Rightarrow> string"
  jsRequests :: "InvokeRequest list option \<Rightarrow> string"
  jsStrings :: "string list \<Rightarrow> string"
  jsSigns :: "SignatureInfo list \<Rightarrow> string"
  jsXuperSign :: "XuperSignature \<Rightarrow> string"
  jsHDInfo :: "HDInfo option \<Rightarrow> string"

definition json_bool :: "bool \<Rightarrow> string" where
  "json_bool b = (if b then ''true'' else ''false'')"

definition line :: "string \<Rightarrow> string" where
  "line s = s @ [CHR 0x0A]"

definition bytesLine :: "slice \<Rightarrow> string" where
  "bytesLine s = (if contents s = [] then [] else line (json_bytes s))"

definition encodeTxData :: "TxJson \<Rightarrow> Transaction \<Rightarrow> bool \<Rightarrow> bytes" where
  "encodeTxData js tx includeSigns =
     concat (map (\<lambda>i. bytesLine (tiRefTxid i) @ line (json_int (tiRefOffset i)) @ bytesLine (tiFromAddr i)
       @ bytesLine (tiAmount i) @ line (json_int (tiFrozenHeight i))) (txInputs tx))
     @ line (jsOutputs js (txOutputs tx)) @ bytesLine (txDesc tx) @ line (jsString js (txNonce tx))
     @ line (json_int (txTimestamp tx)) @ line (json_int (txVersion tx))
     @ concat (map (\<lambda>i. line (jsString js (ieBucket i)) @ bytesLine (ieKey i) @ bytesLine (ieRefTxid i)
         @ line (json_int (ieRefOffset i))) (txInputsExt tx))
     @ concat (map (\<lambda>o'. line (jsString js (oeBucket o')) @ bytesLine (oeKey o') @ bytesLine (oeValue o')) (txOutputsExt tx))
     @ line (jsRequests js (txContractRequests tx)) @ line (jsString js (txInitiator tx)) @ line (jsStrings js (txAuthRequire tx))
     @ (if includeSigns
        then line (jsSigns js (txInitiatorSigns tx)) @ line (jsSigns js (txAuthRequireSigns tx))
          @ (case txXuperSign tx of None \<Rightarrow> [] | Some x \<Rightarrow> line (jsXuperSign js x))
        else [])
     @ line (json_bool (txCoinbase tx)) @ line (json_bool (txAutogen tx))
     @ (if 2 \<le> txVersion tx then line (jsHDInfo js (txHDInfo tx)) else [])"

definition MakeTransactionID :: "(bytes \<Rightarrow> bytes) \<Rightarrow> TxJson \<Rightarrow> Transaction \<Rightarrow> bytes" where
  "MakeTransactionID sha256 js tx =
     (if 3 \<le> txVersion tx then txDigestHashV2 sha256 tx True else sha256 (sha256 (encodeTxData js tx True)))"

definition MakeTxDigestHash :: "(bytes \<Rightarrow> bytes) \<Rightarrow> TxJson \<Rightarrow> Transaction \<Rightarrow> bytes" where
  "MakeTxDigestHash sha256 js tx =
     (if 3 \<le> txVersion tx then txDigestHashV2 sha256 tx False else sha256 (sha256 (encodeTxData js tx False)))"

text \<open>Signing: the private key and the signature are the crypto client's.\<close>

definition ProcessSignTx :: "(string \<Rightarrow> 'e + 'k) \<Rightarrow> ('k \<Rightarrow> bytes \<Rightarrow> 'e + slice) \<Rightarrow> (bytes \<Rightarrow> bytes) \<Rightarrow> TxJson \<Rightarrow> Transaction \<Rightarrow> string \<Rightarrow> 'e + slice" where
  "ProcessSignTx getKey signECDSA sha256 js tx jsonSK =
     (case getKey jsonSK of
        Inl e \<Rightarrow> Inl e
      | Inr privateKey \<Rightarrow> signECDSA privateKey (MakeTxDigestHash sha256 js tx))"

section \<open>What a version 3 hash determines\<close>

text \<open>
  The contents of a transaction, up to the difference of nil and empty slices and to the order
  of the arguments of a call, as nested pairs along the encoder.
\<close>

definition argsOf :: "InvokeRequest \<Rightarrow> (string \<times> string) list" where
  "argsOf r = map (\<lambda>(k, v). (k, contents v)) (sort_key fst (irArgs r))"

definition bodyOf where
  "bodyOf tx =
     (map (\<lambda>i. (contents (tiRefTxid i), tiRefOffset i, contents (tiFromAddr i), contents (tiAmount i), tiFrozenHeight i)) (txInputs tx),
      map (\<lambda>o'. (contents (toAmount o'), contents (toToAddr o'), toFrozenHeight o')) (txOutputs tx),
      contents (txDesc tx), txCoinbase tx, txNonce tx, txTimestamp tx, txVersion tx, txAutogen tx,
      map (\<lambda>i. (ieBucket i, contents (ieKey i), contents (ieRefTxid i), ieRefOffset i)) (txInputsExt tx),
      map (\<lambda>o'. (oeBucket o', contents (oeKey o'), contents (oeValue o'))) (txOutputsExt tx),
      map (\<lambda>r. (irModuleName r, irContractName r, irMethodName r, argsOf r, irResourceLimits r, irAmount r))
        (contents_list (txContractRequests tx)),
      txInitiator tx, txAuthRequire tx)"

definition signsOf where
  "signsOf tx =
     (map (\<lambda>s. (siPublicKey s, contents (siSign s))) (txInitiatorSigns tx),
      map (\<lambda>s. (siPublicKey s, contents (siSign s))) (txAuthRequireSigns tx),
      map contents (xuperKeys tx), contents (xuperSignature tx))"

definition hdOf where
  "hdOf tx = (contents (hdKey tx), contents (hdHash tx))"

definition encInputs where
  "encInputs = encList (encPair encString (encPair encInt64 (encPair encString (encPair encString encInt64))))"

definition encOutputs where
  "encOutputs = encList (encPair encString (encPair encString encInt64))"

definition encInputsExt where
  "encInputsExt = encList (encPair encString (encPair encString (encPair encString encInt64)))"

definition encOutputsExt where
  "encOutputsExt = encList (encPair encString (encPair encString encString))"

definition encRequests where
  "encRequests = encList (encPair encString (encPair encString (encPair encString
     (encPair (encList (encPair encString encString)) (encPair (encList (encPair encInt64 encInt64)) encString)))))"

definition encBodyOf where
  "encBodyOf = encPair encInputs (encPair encOutputs (encPair encString (encPair encBool (encPair encString
     (encPair encInt64 (encPair encInt64 (encPair encBool (encPair encInputsExt (encPair encOutputsExt
     (encPair encRequests (encPair encString (encList encString))))))))))))"

definition encSignsOf where
  "encSignsOf = encPair (encList (encPair encString encString)) (encPair (encList (encPair encString encString))
     (encPair (encList encString) encString))"

lemma encList_map: "encList e (map f xs) = encList (\<lambda>x. e (f x)) xs"
  by (simp add: encList_def comp_def)

lemma encMap_argsOf: "encMap (irArgs r) = encList (encPair encString encString) (argsOf r)"
  by (simp add: encMap_def argsOf_def encList_def encPair_def encBytes_def comp_def split_def)

lemma encBody_eq: "encBody tx = encBodyOf (bodyOf tx)"
  unfolding encBody_def encBodyOf_def bodyOf_def encInputs_def encOutputs_def encInputsExt_def encOutputsExt_def encRequests_def
    encTxInput_def [abs_def] encTxOutput_def [abs_def] encTxInputExt_def [abs_def] encTxOutputExt_def [abs_def]
    encRequest_def [abs_def] encMap_argsOf encList_map
  by (simp add: encPair_def [abs_def] encBytes_def split_def encList_map)

lemma encSigned_eq: "encSigned tx = encSignsOf (signsOf tx)"
  unfolding encSigned_def encSignsOf_def signsOf_def encSigs_def encList_map
  by (simp add: encPair_def [abs_def] encBytes_def [abs_def] encList_map)

text \<open>What Go's types guarantee: lengths and integers are below \<open>2^63\<close>.\<close>

definition body_ok :: "Transaction \<Rightarrow> bool" where
  "body_ok tx \<longleftrightarrow>
     go_len (txInputs tx) \<and> (\<forall>i\<in>set (txInputs tx). go_len (contents (tiRefTxid i)) \<and> is_i64 (tiRefOffset i)
       \<and> go_len (contents (tiFromAddr i)) \<and> go_len (contents (tiAmount i)) \<and> is_i64 (tiFrozenHeight i)) \<and>
     go_len (txOutputs tx) \<and> (\<forall>o'\<in>set (txOutputs tx). go_len (contents (toAmount o')) \<and> go_len (contents (toToAddr o'))
       \<and> is_i64 (toFrozenHeight o')) \<and>
     go_len (contents (txDesc tx)) \<and> go_len (txNonce tx) \<and> is_i64 (txTimestamp tx) \<and> is_i64 (txVersion tx) \<and>
     go_len (txInputsExt tx) \<and> (\<forall>i\<in>set (txInputsExt tx). go_len (ieBucket i) \<and> go_len (contents (ieKey i))
       \<and> go_len (contents (ieRefTxid i)) \<and> is_i64 (ieRefOffset i)) \<and>
     go_len (txOutputsExt tx) \<and> (\<forall>o'\<in>set (txOutputsExt tx). go_len (oeBucket o') \<and> go_len (contents (oeKey o'))
       \<and> go_len (contents (oeValue o'))) \<and>
     go_len (contents_list (txContractRequests tx)) \<and> (\<forall>r\<in>set (contents_list (txContractRequests tx)).
       go_len (irModuleName r) \<and> go_len (irContractName r) \<and> go_len (irMethodName r)
       \<and> go_len (irArgs r) \<and> (\<forall>a\<in>set (irArgs r). go_len (fst a) \<and> go_len (contents (snd a)))
       \<and> go_len (irResourceLimits r) \<and> (\<forall>l\<in>set (irResourceLimits r). is_i64 (fst l) \<and> is_i64 (snd l)) \<and> go_len (irAmount r)) \<and>
     go_len (txInitiator tx) \<and> go_len (txAuthRequire tx) \<and> (\<forall>a\<in>set (txAuthRequire tx). go_len a) \<and>
     go_len (contents (hdKey tx)) \<and> go_len (contents (hdHash tx))"

definition signs_ok :: "Transaction \<Rightarrow> bool" where
  "signs_ok tx \<longleftrightarrow>
     go_len (txInitiatorSigns tx) \<and> (\<forall>s\<in>set (txInitiatorSigns tx). go_len (siPublicKey s) \<and> go_len (contents (siSign s))) \<and>
     go_len (txAuthRequireSigns tx) \<and> (\<forall>s\<in>set (txAuthRequireSigns tx). go_len (siPublicKey s) \<and> go_len (contents (siSign s))) \<and>
     go_len (xuperKeys tx) \<and> (\<forall>k\<in>set (xuperKeys tx). go_len (contents k)) \<and> go_len (contents (xuperSignature tx))"

lemma go_len_map [simp]: "go_len (map f xs) = go_len xs"
  by (simp add: go_len_def)

lemma argsOf_len [simp]: "go_len (argsOf r) = go_len (irArgs r)"
  by (simp add: argsOf_def go_len_def)

lemma argsOf_all: "(\<forall>a\<in>set (argsOf r). go_len (fst a) \<and> go_len (snd a)) \<longleftrightarrow> (\<forall>a\<in>set (irArgs r). go_len (fst a) \<and> go_len (contents (snd a)))"
  by (auto simp: argsOf_def)

lemmas delim_inputs = delim_list [OF delim_pair [OF delim_string delim_pair [OF delim_int delim_pair [OF delim_string
  delim_pair [OF delim_string delim_int]]]], folded encInputs_def]
lemmas delim_outputs = delim_list [OF delim_pair [OF delim_string delim_pair [OF delim_string delim_int]], folded encOutputs_def]
lemmas delim_inputs_ext = delim_list [OF delim_pair [OF delim_string delim_pair [OF delim_string
  delim_pair [OF delim_string delim_int]]], folded encInputsExt_def]
lemmas delim_outputs_ext = delim_list [OF delim_pair [OF delim_string delim_pair [OF delim_string delim_string]],
  folded encOutputsExt_def]
lemmas delim_requests = delim_list [OF delim_pair [OF delim_string delim_pair [OF delim_string delim_pair [OF delim_string
  delim_pair [OF delim_list [OF delim_pair [OF delim_string delim_string]]
    delim_pair [OF delim_list [OF delim_pair [OF delim_int delim_int]] delim_string]]]]], folded encRequests_def]
lemmas delim_body = delim_pair [OF delim_inputs delim_pair [OF delim_outputs delim_pair [OF delim_string delim_pair [OF delim_bool
  delim_pair [OF delim_string delim_pair [OF delim_int delim_pair [OF delim_int delim_pair [OF delim_bool
  delim_pair [OF delim_inputs_ext delim_pair [OF delim_outputs_ext delim_pair [OF delim_requests delim_pair [OF delim_string
  delim_list [OF delim_string]]]]]]]]]]]], folded encBodyOf_def]
lemmas delim_signs = delim_pair [OF delim_list [OF delim_pair [OF delim_string delim_string]]
  delim_pair [OF delim_list [OF delim_pair [OF delim_string delim_string]] delim_pair [OF delim_list [OF delim_string] delim_string]],
  folded encSignsOf_def]

lemma encBody_cut:
  assumes "body_ok tx" "body_ok tx'" "encBody tx @ r = encBody tx' @ r'"
  shows "bodyOf tx = bodyOf tx' \<and> r = r'"
  using assms unfolding encBody_eq
  by (intro self_delimD [OF delim_body]) (auto simp: body_ok_def bodyOf_def argsOf_all)

lemma encSigned_cut:
  assumes "signs_ok tx" "signs_ok tx'" "encSigned tx @ r = encSigned tx' @ r'"
  shows "signsOf tx = signsOf tx' \<and> r = r'"
  using assms unfolding encSigned_eq
  by (intro self_delimD [OF delim_signs]) (auto simp: signs_ok_def signsOf_def)

lemma encHd_inj:
  assumes "body_ok tx" "body_ok tx'" "encBytes (hdKey tx) @ encBytes (hdHash tx) = encBytes (hdKey tx') @ encBytes (hdHash tx')"
  shows "hdOf tx = hdOf tx'"
proof -
  have l: "go_len (contents (hdKey tx))" "go_len (contents (hdHash tx))" "go_len (contents (hdKey tx'))" "go_len (contents (hdHash tx'))"
    using assms(1,2) by (simp_all add: body_ok_def)
  have "contents (hdKey tx) = contents (hdKey tx') \<and> encBytes (hdHash tx) = encBytes (hdHash tx')"
    using assms(3) unfolding encBytes_def by (intro self_delimD [OF delim_string l(1,3)])
  then show ?thesis using self_delim_inj [OF delim_string l(2,4)] by (simp add: hdOf_def encBytes_def)
qed

lemma txEncodeV2_inj:
  assumes "body_ok tx" "body_ok tx'" "b \<longrightarrow> signs_ok tx \<and> signs_ok tx'" "txEncodeV2 tx b = txEncodeV2 tx' b"
  shows "bodyOf tx = bodyOf tx' \<and> hdOf tx = hdOf tx' \<and> (b \<longrightarrow> signsOf tx = signsOf tx')"
proof -
  have 1: "bodyOf tx = bodyOf tx'" "(if b then encSigned tx else []) @ encBytes (hdKey tx) @ encBytes (hdHash tx)
      = (if b then encSigned tx' else []) @ encBytes (hdKey tx') @ encBytes (hdHash tx')"
    using encBody_cut [OF assms(1,2)] assms(4) unfolding txEncodeV2_def by blast+
  show ?thesis
  proof (cases b)
    case True
    with 1(2) assms(3) have "signsOf tx = signsOf tx'" "encBytes (hdKey tx) @ encBytes (hdHash tx) = encBytes (hdKey tx') @ encBytes (hdHash tx')"
      using encSigned_cut [of tx tx'] by auto
    with 1(1) encHd_inj [OF assms(1,2)] show ?thesis by blast
  next
    case False
    with 1 encHd_inj [OF assms(1,2)] show ?thesis by simp
  qed
qed

definition collides :: "(bytes \<Rightarrow> bytes) \<Rightarrow> bytes \<Rightarrow> bytes \<Rightarrow> bool" where
  "collides h a b \<longleftrightarrow> a \<noteq> b \<and> h a = h b"

lemma double_hash_eq: "h (h a) = h (h b) \<Longrightarrow> a = b \<or> collides h a b \<or> collides h (h a) (h b)"
  by (auto simp: collides_def)

text \<open>
  C28: The id of a version 3 transaction determines its inputs, outputs, contract reads, writes
  and calls, initiator, required signers, signatures and all other fields but the block it is in
  and its modification mark, and the digest that is signed determines all of these but the
  signatures: any two transactions that agree on a hash and differ in one of the fields give a
  collision of the hash function, at the encodings or at their hashes.
\<close>

theorem txid_binds:
  assumes "3 \<le> txVersion tx" and "3 \<le> txVersion tx'" and "body_ok tx" and "body_ok tx'" and "signs_ok tx" and "signs_ok tx'"
  shows "(MakeTransactionID sha js tx = MakeTransactionID sha js tx' \<longrightarrow>
      bodyOf tx = bodyOf tx' \<and> hdOf tx = hdOf tx' \<and> signsOf tx = signsOf tx'
      \<or> collides sha (txEncodeV2 tx True) (txEncodeV2 tx' True)
      \<or> collides sha (sha (txEncodeV2 tx True)) (sha (txEncodeV2 tx' True)))
    \<and> (MakeTxDigestHash sha js tx = MakeTxDigestHash sha js tx' \<longrightarrow>
      bodyOf tx = bodyOf tx' \<and> hdOf tx = hdOf tx'
      \<or> collides sha (txEncodeV2 tx False) (txEncodeV2 tx' False)
      \<or> collides sha (sha (txEncodeV2 tx False)) (sha (txEncodeV2 tx' False)))"
  using double_hash_eq [of sha "txEncodeV2 tx True" "txEncodeV2 tx' True"] double_hash_eq [of sha "txEncodeV2 tx False" "txEncodeV2 tx' False"]
    txEncodeV2_inj [OF assms(3,4), of True] txEncodeV2_inj [OF assms(3,4), of False] assms
  by (simp add: MakeTransactionID_def MakeTxDigestHash_def txDigestHashV2_def) blast

definition hash_demo :: "Transaction" where
  "hash_demo = (bare_tx ''t'')\<lparr>txVersion := 3, txInitiator := ''alice'', txOutputs := [\<lparr>toAmount = Some ''1'', toToAddr = Some ''bob'', toFrozenHeight = 0\<rparr>]\<rparr>"

theorem txid_binds_witness:
  "\<forall>js. MakeTransactionID (\<lambda>b. b) js hash_demo \<noteq> MakeTransactionID (\<lambda>b. b) js (hash_demo\<lparr>txOutputs := []\<rparr>)"
proof (rule allI, rule notI)
  fix js
  assume eq: "MakeTransactionID (\<lambda>b. b) js hash_demo = MakeTransactionID (\<lambda>b. b) js (hash_demo\<lparr>txOutputs := []\<rparr>)"
  have ok: "body_ok hash_demo" "signs_ok hash_demo" "body_ok (hash_demo\<lparr>txOutputs := []\<rparr>)" "signs_ok (hash_demo\<lparr>txOutputs := []\<rparr>)"
    "3 \<le> txVersion hash_demo" "3 \<le> txVersion (hash_demo\<lparr>txOutputs := []\<rparr>)"
    by (simp_all add: hash_demo_def bare_tx_def body_ok_def signs_ok_def go_len_def is_i64_def xuperKeys_def xuperSignature_def hdKey_def hdHash_def)
  from txid_binds [OF ok(5,6,1,3,2,4), of "\<lambda>b. b" js] eq have "bodyOf hash_demo = bodyOf (hash_demo\<lparr>txOutputs := []\<rparr>)"
    by (simp add: collides_def)
  then show False by (simp add: bodyOf_def hash_demo_def bare_tx_def)
qed

text \<open>
  The older encoding leaves out empty fields without a mark: a write of an empty value under a
  key and a write of that key as the value under the empty key have the same id and digest.
\<close>

lemma old_hash_ambiguous:
  fixes b :: string and tx :: Transaction
  assumes "txVersion tx < 3"
  defines "w \<equiv> (\<lambda>k v. tx\<lparr>txOutputsExt := [\<lparr>oeBucket = b, oeKey = Some k, oeValue = Some v\<rparr>]\<rparr>)"
  shows "MakeTransactionID sha js (w k []) = MakeTransactionID sha js (w [] k) \<and> MakeTxDigestHash sha js (w k []) = MakeTxDigestHash sha js (w [] k)"
  using assms(1) by (simp add: w_def MakeTransactionID_def MakeTxDigestHash_def encodeTxData_def bytesLine_def)

end
