(* ===== verification/Kv_Store.thy ===== *)
theory Kv_Store
  imports Xuper_Base "HOL-Library.AList"
begin

text \<open>
  The key-value database below the ledger and the state (\<open>lib/storage/kvdb\<close>): an association
  list with one entry per key, batches that are applied at once, the tables that share the
  database by a prefix of their keys, and iterators, which run in the order of the keys. Reads
  and writes do not fail; the storage engines themselves are not modelled.
\<close>

type_synonym kv = "(string \<times> bytes) list"

datatype kvop = KvPut string bytes | KvDelete string

definition kvGet :: "kv \<Rightarrow> string \<Rightarrow> bytes option" where
  "kvGet db k = map_of db k"

fun kvApply :: "kvop \<Rightarrow> kv \<Rightarrow> kv" where
  "kvApply (KvPut k v) db = AList.update k v db"
| "kvApply (KvDelete k) db = AList.delete k db"

definition kvWrite :: "kvop list \<Rightarrow> kv \<Rightarrow> kv" where
  "kvWrite ops db = fold kvApply ops db"

text \<open>The entries whose keys have a prefix, or lie in a range, in order.\<close>

definition kvPrefix :: "kv \<Rightarrow> string \<Rightarrow> (string \<times> bytes) list" where
  "kvPrefix db p = sort_key fst (filter (\<lambda>(k, _). take (length p) k = p) db)"

definition kvRange :: "kv \<Rightarrow> string \<Rightarrow> string \<Rightarrow> (string \<times> bytes) list" where
  "kvRange db start limit = sort_key fst (filter (\<lambda>(k, _). start \<le> k \<and> k < limit) db)"

text \<open>\<open>kvdb.NewTable\<close>: the keys of a table carry its prefix.\<close>

definition tableGet :: "string \<Rightarrow> kv \<Rightarrow> string \<Rightarrow> bytes option" where
  "tableGet prefix db k = kvGet db (prefix @ k)"

definition UTXOTablePrefix :: string where "UTXOTablePrefix = ''U''"
definition UnconfirmedTablePrefix :: string where "UnconfirmedTablePrefix = ''N''"
definition MetaTablePrefix :: string where "MetaTablePrefix = ''M''"
definition ExtUtxoDelTablePrefix :: string where "ExtUtxoDelTablePrefix = ''ZD''"
definition ExtUtxoTablePrefix :: string where "ExtUtxoTablePrefix = ''ZU''"

lemmas table_prefixes = UTXOTablePrefix_def UnconfirmedTablePrefix_def MetaTablePrefix_def
  ExtUtxoDelTablePrefix_def ExtUtxoTablePrefix_def

section \<open>What a batch leaves\<close>

lemma kvGet_apply [simp]:
  "kvGet (AList.update k v db) j = (if j = k then Some v else kvGet db j)"
  "kvGet (AList.delete k db) j = (if j = k then None else kvGet db j)"
  by (simp_all add: kvGet_def update_conv' delete_conv')

lemma kvWrite_simps [simp]: "kvWrite [] db = db" "kvWrite (x # ops) db = kvWrite ops (kvApply x db)"
  "kvWrite (ops @ ops') db = kvWrite ops' (kvWrite ops db)"
  by (simp_all add: kvWrite_def)

definition op_key_of :: "kvop \<Rightarrow> string" where
  "op_key_of x = (case x of KvPut k _ \<Rightarrow> k | KvDelete k \<Rightarrow> k)"

lemma kvGet_write_other: "k \<notin> op_key_of ` set ops \<Longrightarrow> kvGet (kvWrite ops db) k = kvGet db k"
proof (induction ops arbitrary: db)
  case (Cons x ops)
  then show ?case by (cases x) (auto simp: op_key_of_def)
qed simp

definition kv_ok :: "kv \<Rightarrow> bool" where
  "kv_ok db \<longleftrightarrow> distinct (map fst db)"

lemma kv_ok_write: "kv_ok db \<Longrightarrow> kv_ok (kvWrite ops db)"
proof (induction ops arbitrary: db)
  case (Cons x ops)
  then show ?case by (cases x) (auto simp: kv_ok_def distinct_update distinct_delete)
qed simp

end
