(* ===== verification/Xmodel.thy ===== *)
theory Xmodel
  imports Xledger_Types Kv_Store Lru_Cache
begin

text \<open>
  The versioned key-value model of the contracts (\<open>state/xmodel\<close>): a table from raw keys to the
  version of their latest write, a table of deleted keys, the versions written by the current
  batch, and a cache of values by version. A version names an output of a transaction, so the
  values themselves are read from the transactions. The theorems say that executing transactions
  and undoing them in reverse order restores every version, that equal write sets are the same
  set of writes, and what a read at an older block returns.
\<close>

section \<open>Data\<close>

record PureData =
  pdBucket :: string
  pdKey :: slice
  pdValue :: slice

record VersionedData =
  vdPureData :: "PureData option"
  vdRefTxid :: slice
  vdRefOffset :: int

definition BucketSeperator :: string where "BucketSeperator = ''/''"
definition DelFlag :: bytes where "DelFlag = [CHR 0x00]"

definition isDelFlag :: "slice \<Rightarrow> bool" where
  "isDelFlag value \<longleftrightarrow> contents value = DelFlag"

definition makeRawKey :: "string \<Rightarrow> slice \<Rightarrow> string" where
  "makeRawKey bucket key = bucket @ BucketSeperator @ contents key"

subsection \<open>Write sets\<close>

text \<open>
  \<open>Less\<close> orders by the raw key and then by the value, which together are what \<open>equal\<close> compares:
  sorting with it is sorting by the pair.
\<close>

definition pdKeyOf :: "PureData \<Rightarrow> string list" where
  "pdKeyOf pd = [makeRawKey (pdBucket pd) (pdKey pd), contents (pdValue pd)]"

definition pdEqual :: "PureData \<Rightarrow> PureData \<Rightarrow> bool" where
  "pdEqual pd vpd \<longleftrightarrow> makeRawKey (pdBucket pd) (pdKey pd) = makeRawKey (pdBucket vpd) (pdKey vpd)
     \<and> contents (pdValue pd) = contents (pdValue vpd)"

definition xmEqual :: "PureData list \<Rightarrow> PureData list \<Rightarrow> bool" where
  "xmEqual pd vpd \<longleftrightarrow> length pd = length vpd
     \<and> list_all (\<lambda>(v, w). pdEqual v w) (zip (sort_key pdKeyOf pd) (sort_key pdKeyOf vpd))"

subsection \<open>Versions\<close>

definition MakeVersion :: "slice \<Rightarrow> int \<Rightarrow> string" where
  "MakeVersion txid offset = utils_F txid @ ''_'' @ itoa offset"

definition GetVersion :: "VersionedData \<Rightarrow> string" where
  "GetVersion vd = (if vdRefTxid vd = None then [] else MakeVersion (vdRefTxid vd) (vdRefOffset vd))"

definition GetVersionOfTxInput :: "TxInputExt \<Rightarrow> string" where
  "GetVersionOfTxInput txIn = (if ieRefTxid txIn = None then [] else MakeVersion (ieRefTxid txIn) (ieRefOffset txIn))"

text \<open>\<open>Sscanf\<close> with \<open>%x_%d\<close>: pairs of hexadecimal digits, an underscore, a sign and digits.\<close>

definition hexVal :: "char \<Rightarrow> nat option" where
  "hexVal c =
     (let n = of_char c in
      if 48 \<le> n \<and> n \<le> 57 then Some (n - 48)
      else if 97 \<le> n \<and> n \<le> 102 then Some (n - 87)
      else if 65 \<le> n \<and> n \<le> 70 then Some (n - 55)
      else None)"

fun scanHex :: "string \<Rightarrow> (bytes \<times> string) option" where
  "scanHex (c # d # cs) =
     (case hexVal c of
        None \<Rightarrow> Some ([], c # d # cs)
      | Some h \<Rightarrow>
          (case hexVal d of
             None \<Rightarrow> None
           | Some l \<Rightarrow> map_option (\<lambda>(bs, r). (char_of (16 * h + l) # bs, r)) (scanHex cs)))"
| "scanHex [c] = (if hexVal c = None then Some ([], [c]) else None)"
| "scanHex [] = Some ([], [])"

definition scanInt :: "string \<Rightarrow> int option" where
  "scanInt s =
     (let sign = takeWhile (\<lambda>c. c = CHR ''-'' \<or> c = CHR ''+'') (take 1 s);
          digits = takeWhile (\<lambda>c. 48 \<le> (of_char c :: nat) \<and> of_char c \<le> (57 :: nat)) (drop (length sign) s)
      in parse_i64 (sign @ digits))"

definition parseVersion :: "string \<Rightarrow> (bytes \<times> int) option" where
  "parseVersion version =
     (case scanHex version of
        Some (txid, CHR ''_'' # rest) \<Rightarrow>
          if txid = [] then None else map_option (\<lambda>offset. (txid, offset)) (scanInt rest)
      | _ \<Rightarrow> None)"

definition GetTxidFromVersion :: "string \<Rightarrow> bytes" where
  "GetTxidFromVersion version = (case parseVersion version of None \<Rightarrow> [] | Some (txid, _) \<Rightarrow> txid)"

definition GetTxOutputs :: "PureData list \<Rightarrow> TxOutputExt list" where
  "GetTxOutputs pds = map (\<lambda>pd. \<lparr>oeBucket = pdBucket pd, oeKey = pdKey pd, oeValue = pdValue pd\<rparr>) pds"

definition GetTxInputs :: "VersionedData list \<Rightarrow> TxInputExt list" where
  "GetTxInputs vds = map (\<lambda>vd. \<lparr>ieBucket = (case vdPureData vd of None \<Rightarrow> [] | Some pd \<Rightarrow> pdBucket pd),
     ieKey = (case vdPureData vd of None \<Rightarrow> None | Some pd \<Rightarrow> pdKey pd), ieRefTxid = vdRefTxid vd, ieRefOffset = vdRefOffset vd\<rparr>) vds"

definition IsEmptyVersionedData :: "VersionedData \<Rightarrow> bool" where
  "IsEmptyVersionedData vd \<longleftrightarrow> vdRefTxid vd = None \<and> vdRefOffset vd = 0"

definition makeEmptyVersionedData :: "string \<Rightarrow> slice \<Rightarrow> VersionedData" where
  "makeEmptyVersionedData bucket key =
     \<lparr>vdPureData = Some \<lparr>pdBucket = bucket, pdKey = key, pdValue = None\<rparr>, vdRefTxid = None, vdRefOffset = 0\<rparr>"

section \<open>The model\<close>

datatype xm_error = BadVersion | TxDecode | LedgerErr string | OffsetOverflow | VersionMismatch | NotInInputs | NullValue
  | SnapshotParam | NoPrevOutput

text \<open>The decoder of stored transactions, and the ledger.\<close>

record XmEnv =
  xeDecodeTx :: "bytes \<Rightarrow> Transaction option"
  xeQueryTransaction :: "bytes \<Rightarrow> (string, Transaction) result"
  xeHasTransaction :: "slice \<Rightarrow> (string, bool) result"
  xeBlockHeight :: "slice \<Rightarrow> (string, int) result"

text \<open>
  The database, the versions written by the last batch (empty for a removed key), the identity of
  that batch (\<open>None\<close> for nil) and a cache of values by version for each bucket.
\<close>

record XModel =
  xmDB :: kv
  batchCache :: "string \<Rightarrow> string option"
  lastBatch :: "nat option"
  extUtxoCache :: "string \<Rightarrow> (string, VersionedData) LRUCache option"

definition bucketExtUTXOCacheSize :: int where "bucketExtUTXOCacheSize = 1024"

definition NewXModel :: "kv \<Rightarrow> XModel" where
  "NewXModel db = \<lparr>xmDB = db, batchCache = Map.empty, lastBatch = None, extUtxoCache = Map.empty\<rparr>"

definition bucketCache :: "string \<Rightarrow> XModel \<Rightarrow> (string, VersionedData) LRUCache" where
  "bucketCache bucket s =
     (case extUtxoCache s bucket of Some c \<Rightarrow> c | None \<Rightarrow> NewLRUCache bucketExtUTXOCacheSize)"

definition bucketCacheStore :: "string \<Rightarrow> string \<Rightarrow> VersionedData \<Rightarrow> XModel \<Rightarrow> XModel" where
  "bucketCacheStore bucket version value s =
     s\<lparr>extUtxoCache := (extUtxoCache s)(bucket \<mapsto> fst (lruAdd (bucketCache bucket s) version value))\<rparr>"

definition bucketCacheGet :: "string \<Rightarrow> string \<Rightarrow> XModel \<Rightarrow> VersionedData option \<times> XModel" where
  "bucketCacheGet bucket version s =
     (let (c, v) = lruGet (bucketCache bucket s) version in (v, s\<lparr>extUtxoCache := (extUtxoCache s)(bucket \<mapsto> c)\<rparr>))"

definition BucketCacheDelete :: "string \<Rightarrow> string \<Rightarrow> XModel \<Rightarrow> XModel" where
  "BucketCacheDelete bucket version s =
     s\<lparr>extUtxoCache := (extUtxoCache s)(bucket \<mapsto> lruDel (bucketCache bucket s) version)\<rparr>"

definition cleanCache :: "nat option \<Rightarrow> XModel \<Rightarrow> XModel" where
  "cleanCache newBatch s = (if newBatch \<noteq> lastBatch s then s\<lparr>batchCache := Map.empty, lastBatch := newBatch\<rparr> else s)"

definition CleanCache :: "XModel \<Rightarrow> XModel" where
  "CleanCache s = cleanCache None s"

definition queryUnconfirmTx :: "XmEnv \<Rightarrow> bytes \<Rightarrow> kv \<Rightarrow> (xm_error, Transaction option) result" where
  "queryUnconfirmTx env txid db =
     (case tableGet UnconfirmedTablePrefix db txid of
        None \<Rightarrow> Ok None
      | Some pbBuf \<Rightarrow> (case xeDecodeTx env pbBuf of None \<Rightarrow> Err TxDecode | Some tx \<Rightarrow> Ok (Some tx)))"

text \<open>The transaction and whether it is confirmed.\<close>

definition queryTx :: "XmEnv \<Rightarrow> bytes \<Rightarrow> kv \<Rightarrow> (xm_error, Transaction \<times> bool) result" where
  "queryTx env txid db =
     bind_result (queryUnconfirmTx env txid db) (\<lambda>u.
       case u of
         Some tx \<Rightarrow> Ok (tx, False)
       | None \<Rightarrow>
           (case xeQueryTransaction env txid of
              Ok tx \<Rightarrow> Ok (tx, True) | Err e \<Rightarrow> Err (LedgerErr e) | Panic \<Rightarrow> Panic))"

definition i32 :: "int \<Rightarrow> int" where
  "i32 x = (x + 2 ^ 31) mod 2 ^ 32 - 2 ^ 31"

definition outputData :: "slice \<Rightarrow> int \<Rightarrow> TxOutputExt \<Rightarrow> VersionedData" where
  "outputData txid offset out =
     \<lparr>vdPureData = Some \<lparr>pdBucket = oeBucket out, pdKey = oeKey out, pdValue = oeValue out\<rparr>,
      vdRefTxid = txid, vdRefOffset = offset\<rparr>"

text \<open>The value of a version, read from its transaction: the part of a fetch behind the cache.\<close>

definition readVersion :: "XmEnv \<Rightarrow> kv \<Rightarrow> string \<Rightarrow> (xm_error, VersionedData) result" where
  "readVersion env db version =
     (case parseVersion version of
        None \<Rightarrow> Err BadVersion
      | Some (txid, offset) \<Rightarrow>
          bind_result (queryTx env txid db) (\<lambda>(tx, _).
            if int (length (txOutputsExt tx)) \<le> offset then Err OffsetOverflow
            else if offset < 0 then Panic
            else Ok (outputData (Some txid) (i32 offset) (txOutputsExt tx ! nat offset))))"

definition fetchVersionedData :: "XmEnv \<Rightarrow> string \<Rightarrow> string \<Rightarrow> XModel \<Rightarrow> (xm_error, VersionedData) result \<times> XModel" where
  "fetchVersionedData env bucket version s =
     (case bucketCacheGet bucket version s of
        (Some value, s1) \<Rightarrow> (Ok value, s1)
      | (None, s1) \<Rightarrow>
          (case readVersion env (xmDB s1) version of
             Ok value \<Rightarrow> (Ok value, bucketCacheStore bucket version value s1)
           | r \<Rightarrow> (r, s1)))"

definition xmGet :: "XmEnv \<Rightarrow> string \<Rightarrow> slice \<Rightarrow> XModel \<Rightarrow> (xm_error, VersionedData) result \<times> XModel" where
  "xmGet env bucket key s =
     (let rawKey = makeRawKey bucket key in
      case tableGet ExtUtxoTablePrefix (xmDB s) rawKey of
        Some version \<Rightarrow> fetchVersionedData env bucket version s
      | None \<Rightarrow>
          (case tableGet ExtUtxoDelTablePrefix (xmDB s) rawKey of
             None \<Rightarrow> (Ok (makeEmptyVersionedData bucket key), s)
           | Some version \<Rightarrow> fetchVersionedData env bucket version s))"

definition GetUncommited :: "XmEnv \<Rightarrow> string \<Rightarrow> slice \<Rightarrow> XModel \<Rightarrow> (xm_error, VersionedData) result \<times> XModel" where
  "GetUncommited env bucket key s =
     (case batchCache s (makeRawKey bucket key) of
        Some version \<Rightarrow>
          if version = [] then (Ok (makeEmptyVersionedData bucket key), s)
          else fetchVersionedData env bucket version s
      | None \<Rightarrow> xmGet env bucket key s)"

definition GetFromLedger :: "XmEnv \<Rightarrow> TxInputExt \<Rightarrow> XModel \<Rightarrow> (xm_error, VersionedData) result \<times> XModel" where
  "GetFromLedger env txin s =
     (if ieRefTxid txin = None then (Ok (makeEmptyVersionedData (ieBucket txin) (ieKey txin)), s)
      else fetchVersionedData env (ieBucket txin) (MakeVersion (ieRefTxid txin) (ieRefOffset txin)) s)"

definition GetWithTxStatus :: "XmEnv \<Rightarrow> string \<Rightarrow> slice \<Rightarrow> XModel \<Rightarrow> (xm_error, VersionedData \<times> bool) result \<times> XModel" where
  "GetWithTxStatus env bucket key s =
     (case xmGet env bucket key s of
        (Ok data, s1) \<Rightarrow>
          ((case xeHasTransaction env (vdRefTxid data) of
              Ok exists \<Rightarrow> Ok (data, exists) | Err e \<Rightarrow> Err (LedgerErr e) | Panic \<Rightarrow> Panic), s1)
      | (Err e, s1) \<Rightarrow> (Err e, s1)
      | (Panic, s1) \<Rightarrow> (Panic, s1))"

subsection \<open>Executing a transaction\<close>

fun verifyInputs :: "XmEnv \<Rightarrow> TxInputExt list \<Rightarrow> XModel \<Rightarrow> (xm_error, unit) result \<times> XModel" where
  "verifyInputs env [] s = (Ok (), s)"
| "verifyInputs env (txIn # ins) s =
     (case GetUncommited env (ieBucket txIn) (ieKey txIn) s of
        (Ok verData, s1) \<Rightarrow>
          if GetVersion verData \<noteq> GetVersionOfTxInput txIn then (Err VersionMismatch, s1)
          else verifyInputs env ins s1
      | (Err e, s1) \<Rightarrow> (Err e, s1)
      | (Panic, s1) \<Rightarrow> (Panic, s1))"

fun verifyOutputs :: "string set \<Rightarrow> TxOutputExt list \<Rightarrow> (xm_error, unit) result" where
  "verifyOutputs inputKeys [] = Ok ()"
| "verifyOutputs inputKeys (txOut # outs) =
     (if oeBucket txOut = TransientBucket then verifyOutputs inputKeys outs
      else if makeRawKey (oeBucket txOut) (oeKey txOut) \<notin> inputKeys then Err NotInInputs
      else if oeValue txOut = None then Err NullValue
      else verifyOutputs inputKeys outs)"

definition inputKeysOf :: "Transaction \<Rightarrow> string set" where
  "inputKeysOf tx = set (map (\<lambda>i. makeRawKey (ieBucket i) (ieKey i)) (txInputsExt tx))"

text \<open>The operations are appended to the batch.\<close>

fun updateLoop :: "Transaction \<Rightarrow> nat \<Rightarrow> TxOutputExt list \<Rightarrow> XModel \<Rightarrow> kvop list \<Rightarrow> XModel \<times> kvop list" where
  "updateLoop tx offset [] s batch = (s, batch)"
| "updateLoop tx offset (txOut # outs) s batch =
     (if oeBucket txOut = TransientBucket then updateLoop tx (Suc offset) outs s batch
      else
        let bucketAndKey = makeRawKey (oeBucket txOut) (oeKey txOut);
            valueVersion = MakeVersion (txTxid tx) (i32 (int offset));
            batch1 = batch @ (if isDelFlag (oeValue txOut)
                       then [KvDelete (ExtUtxoTablePrefix @ bucketAndKey), KvPut (ExtUtxoDelTablePrefix @ bucketAndKey) valueVersion]
                       else [KvPut (ExtUtxoTablePrefix @ bucketAndKey) valueVersion]);
            s1 = (if contents (txBlockid tx) \<noteq> [] then s\<lparr>batchCache := (batchCache s)(bucketAndKey \<mapsto> valueVersion)\<rparr> else s)
        in updateLoop tx (Suc offset) outs
             (bucketCacheStore (oeBucket txOut) valueVersion (outputData (txTxid tx) (i32 (int offset)) txOut) s1) batch1)"

definition updateExtUtxo :: "Transaction \<Rightarrow> XModel \<Rightarrow> kvop list \<Rightarrow> XModel \<times> kvop list" where
  "updateExtUtxo tx s batch = updateLoop tx 0 (txOutputsExt tx) s batch"

text \<open>The batch is its identity and the operations in it.\<close>

definition xmDoTx :: "XmEnv \<Rightarrow> Transaction \<Rightarrow> nat \<Rightarrow> XModel \<Rightarrow> kvop list \<Rightarrow> (xm_error, unit) result \<times> XModel \<times> kvop list" where
  "xmDoTx env tx batchId s batch =
     (let s0 = (if contents (txBlockid tx) \<noteq> [] then cleanCache (Some batchId) s else s) in
      case verifyInputs env (txInputsExt tx) s0 of
        (Err e, s1) \<Rightarrow> (Err e, s1, batch)
      | (Panic, s1) \<Rightarrow> (Panic, s1, batch)
      | (Ok _, s1) \<Rightarrow>
          (case verifyOutputs (inputKeysOf tx) (txOutputsExt tx) of
             Err e \<Rightarrow> (Err e, s1, batch)
           | Panic \<Rightarrow> (Panic, s1, batch)
           | Ok _ \<Rightarrow> (case updateExtUtxo tx s1 batch of (s2, batch2) \<Rightarrow> (Ok (), s2, batch2))))"

subsection \<open>Undoing a transaction\<close>

definition inputVersionMap :: "Transaction \<Rightarrow> string \<Rightarrow> string" where
  "inputVersionMap tx = fold (\<lambda>txIn m. m(makeRawKey (ieBucket txIn) (ieKey txIn) := GetVersionOfTxInput txIn)) (txInputsExt tx) (\<lambda>_. [])"

fun undoLoop :: "XmEnv \<Rightarrow> (string \<Rightarrow> string) \<Rightarrow> TxOutputExt list \<Rightarrow> XModel \<Rightarrow> kvop list \<Rightarrow> (xm_error, unit) result \<times> XModel \<times> kvop list" where
  "undoLoop env versions [] s batch = (Ok (), s, batch)"
| "undoLoop env versions (txOut # outs) s batch =
     (if oeBucket txOut = TransientBucket then undoLoop env versions outs s batch
      else
        let bucketAndKey = makeRawKey (oeBucket txOut) (oeKey txOut); previousVersion = versions bucketAndKey
        in if previousVersion = []
           then undoLoop env versions outs (s\<lparr>batchCache := (batchCache s)(bucketAndKey \<mapsto> [])\<rparr>)
                  (batch @ [KvDelete (ExtUtxoTablePrefix @ bucketAndKey)])
           else
             (case fetchVersionedData env (oeBucket txOut) previousVersion s of
                (Err e, s1) \<Rightarrow> (Err e, s1, batch)
              | (Panic, s1) \<Rightarrow> (Panic, s1, batch)
              | (Ok verData, s1) \<Rightarrow>
                  (case vdPureData verData of
                     None \<Rightarrow> (Panic, s1, batch)
                   | Some pd \<Rightarrow>
                       undoLoop env versions outs (s1\<lparr>batchCache := (batchCache s1)(bucketAndKey \<mapsto> previousVersion)\<rparr>)
                         (batch @ (if isDelFlag (pdValue pd)
                            then [KvPut (ExtUtxoDelTablePrefix @ bucketAndKey) previousVersion, KvDelete (ExtUtxoTablePrefix @ bucketAndKey)]
                            else KvPut (ExtUtxoTablePrefix @ bucketAndKey) previousVersion #
                              (if isDelFlag (oeValue txOut) then [KvDelete (ExtUtxoDelTablePrefix @ bucketAndKey)] else []))))))"

definition xmUndoTx :: "XmEnv \<Rightarrow> Transaction \<Rightarrow> nat \<Rightarrow> XModel \<Rightarrow> kvop list \<Rightarrow> (xm_error, unit) result \<times> XModel \<times> kvop list" where
  "xmUndoTx env tx batchId s batch =
     undoLoop env (inputVersionMap tx) (txOutputsExt tx) (cleanCache (Some batchId) s) batch"

subsection \<open>Iterators and snapshots\<close>

text \<open>An iterator over a bucket: the versions of the live keys in a range are fetched in order, up to the first error.\<close>

fun xmIterate :: "XmEnv \<Rightarrow> string \<Rightarrow> bytes list \<Rightarrow> XModel \<Rightarrow> (VersionedData list \<times> (xm_error, unit) result) \<times> XModel" where
  "xmIterate env bucket [] s = (([], Ok ()), s)"
| "xmIterate env bucket (version # vs) s =
     (case fetchVersionedData env bucket version s of
        (Ok v, s1) \<Rightarrow> (case xmIterate env bucket vs s1 of ((ds, r), s2) \<Rightarrow> ((v # ds, r), s2))
      | (Err e, s1) \<Rightarrow> (([], Err e), s1)
      | (Panic, s1) \<Rightarrow> (([], Panic), s1))"

definition xmSelect :: "XmEnv \<Rightarrow> string \<Rightarrow> slice \<Rightarrow> slice \<Rightarrow> XModel \<Rightarrow> (VersionedData list \<times> (xm_error, unit) result) \<times> XModel" where
  "xmSelect env bucket startKey endKey s =
     xmIterate env bucket (map snd (kvRange (xmDB s) (ExtUtxoTablePrefix @ makeRawKey bucket startKey)
       (ExtUtxoTablePrefix @ makeRawKey bucket endKey))) s"

record xModSnapshot =
  blkHeight :: int
  blkId :: slice

definition CreateSnapshot :: "XmEnv \<Rightarrow> slice \<Rightarrow> (xm_error, xModSnapshot) result" where
  "CreateSnapshot env blk = (case xeBlockHeight env blk of
     Ok h \<Rightarrow> Ok \<lparr>blkHeight = h, blkId = blk\<rparr> | Err e \<Rightarrow> Err (LedgerErr e) | Panic \<Rightarrow> Panic)"

definition snapInit :: "xModSnapshot \<Rightarrow> bool" where
  "snapInit t \<longleftrightarrow> contents (blkId t) \<noteq> [] \<and> 0 \<le> blkHeight t"

definition genVerDataByTx :: "Transaction \<Rightarrow> int \<Rightarrow> VersionedData option" where
  "genVerDataByTx tx offset =
     (if int (length (txOutputsExt tx)) \<le> offset \<or> offset < 0 then None
      else Some (outputData (txTxid tx) offset (txOutputsExt tx ! nat offset)))"

fun getPreOutExt :: "TxInputExt list \<Rightarrow> string \<Rightarrow> slice \<Rightarrow> (slice \<times> int) option" where
  "getPreOutExt [] bucket key = None"
| "getPreOutExt (inExt # ins) bucket key =
     (if ieBucket inExt = bucket \<and> contents (ieKey inExt) = contents key then Some (ieRefTxid inExt, ieRefOffset inExt)
      else getPreOutExt ins bucket key)"

text \<open>Following the versions of a key backwards; \<open>None\<close> when the walk does not end.\<close>

partial_function (option) snapWalk :: "XmEnv \<Rightarrow> kv \<Rightarrow> xModSnapshot \<Rightarrow> string \<Rightarrow> slice \<Rightarrow> slice \<Rightarrow> int \<Rightarrow> (xm_error, VersionedData option) result option" where
  "snapWalk env db t bucket key txid offset =
     (if contents txid = [] then Some (Ok None)
      else case queryTx env (contents txid) db of
          Err e \<Rightarrow> Some (Err e)
        | Panic \<Rightarrow> Some Panic
        | Ok (txInfo, _) \<Rightarrow>
            (case getPreOutExt (txInputsExt txInfo) bucket key of
               None \<Rightarrow> Some (Err NoPrevOutput)
             | Some (txid', offset') \<Rightarrow>
                 if txBlockid txInfo = None then snapWalk env db t bucket key txid' offset'
                 else case xeBlockHeight env (txBlockid txInfo) of
                     Err e \<Rightarrow> Some (Err (LedgerErr e))
                   | Panic \<Rightarrow> Some Panic
                   | Ok h \<Rightarrow>
                       if h \<le> blkHeight t then Some (Ok (genVerDataByTx txInfo offset))
                       else snapWalk env db t bucket key txid' offset'))"

definition snapGet :: "XmEnv \<Rightarrow> xModSnapshot \<Rightarrow> string \<Rightarrow> slice \<Rightarrow> XModel \<Rightarrow> (xm_error, VersionedData) result option \<times> XModel" where
  "snapGet env t bucket key s =
     (if \<not> snapInit t \<or> bucket = [] \<or> contents key = [] then (Some (Err SnapshotParam), s)
      else case xmGet env bucket key s of
          (Err e, s1) \<Rightarrow> (Some (Err e), s1)
        | (Panic, s1) \<Rightarrow> (Some Panic, s1)
        | (Ok newestVD, s1) \<Rightarrow>
            (map_option (\<lambda>r. bind_result r (\<lambda>verValue.
               Ok (case verValue of None \<Rightarrow> makeEmptyVersionedData bucket key | Some v \<Rightarrow> v)))
               (snapWalk env (xmDB s1) t bucket key (vdRefTxid newestVD) (vdRefOffset newestVD)), s1))"

definition readerGet :: "XmEnv \<Rightarrow> xModSnapshot \<Rightarrow> string \<Rightarrow> slice \<Rightarrow> XModel \<Rightarrow> (xm_error, slice) result option \<times> XModel" where
  "readerGet env t bucket key s =
     (case snapGet env t bucket key s of
        (r, s1) \<Rightarrow> (map_option (\<lambda>r. bind_result r (\<lambda>verData.
           case vdPureData verData of None \<Rightarrow> Panic | Some pd \<Rightarrow> Ok (pdValue pd))) r, s1))"

section \<open>Versions and write sets\<close>

lemma hexVal_digit: "n < 16 \<Longrightarrow> hexVal (hex_digit n) = Some n"
  by (auto simp: hexVal_def hex_digit_def Let_def)

lemma scanHex_print:
  assumes "hexVal c = None"
  shows "scanHex (concat (map hex_byte bs) @ c # r) = Some (bs, c # r)"
proof (induction bs)
  case Nil
  show ?case using assms by (cases r) simp_all
next
  case (Cons b bs)
  have lt: "(of_char b :: nat) < 256" by (metis of_char_mod_256 mod_less_divisor zero_less_numeral)
  then have "hexVal (hex_digit (of_char b div 16)) = Some (of_char b div 16)" "hexVal (hex_digit (of_char b mod 16)) = Some (of_char b mod 16)"
    by (simp_all add: hexVal_digit less_mult_imp_div_less)
  moreover have "char_of (16 * (of_char b div 16) + of_char b mod 16 :: nat) = b" by simp
  ultimately show ?case using Cons by (simp add: hex_byte_def)
qed

lemma show_nat_all_digits: "c \<in> set (show_nat n) \<Longrightarrow> 48 \<le> (of_char c :: nat) \<and> of_char c \<le> (57 :: nat)"
proof (induction n rule: show_nat.induct)
  case (1 n)
  then show ?case by (subst (asm) show_nat.simps) (auto split: if_splits)
qed

lemma show_nat_cons: "\<exists>c cs. show_nat n = c # cs"
  by (subst show_nat.simps) (auto simp: neq_Nil_conv split: if_splits intro: neq_Nil_conv [THEN iffD1])

lemma scanInt_itoa:
  assumes "is_i64 i"
  shows "scanInt (itoa i) = Some i"
proof -
  have digits: "takeWhile (\<lambda>c. 48 \<le> (of_char c :: nat) \<and> of_char c \<le> (57 :: nat)) (show_nat n) = show_nat n" for n
    using show_nat_all_digits by (intro takeWhile_eq_all_conv [THEN iffD2]) blast
  obtain c cs where c: "show_nat (nat i) = c # cs" using show_nat_cons by blast
  have "c \<noteq> CHR ''-''" "c \<noteq> CHR ''+''" using show_nat_all_digits [of c "nat i"] c by auto
  then have "i \<ge> 0 \<Longrightarrow> scanInt (itoa i) = parse_i64 (itoa i)"
    using digits [of "nat i"] c by (simp add: scanInt_def itoa_def)
  moreover have "i < 0 \<Longrightarrow> scanInt (itoa i) = parse_i64 (itoa i)"
    unfolding scanInt_def itoa_def by (simp add: digits)
  ultimately show ?thesis using parse_i64_itoa [OF assms] by (cases "i < 0") simp_all
qed

lemma parseVersion_Make: "txid \<noteq> [] \<Longrightarrow> is_i64 off \<Longrightarrow> parseVersion (MakeVersion (Some txid) off) = Some (txid, off)"
proof -
  assume "txid \<noteq> []" "is_i64 off"
  moreover have "hexVal (CHR ''_'') = None" by (simp add: hexVal_def)
  ultimately show ?thesis
    using scanHex_print [of "CHR ''_''" txid "itoa off"] scanInt_itoa by (simp add: parseVersion_def MakeVersion_def utils_F_def)
qed

lemma MakeVersion_nonempty [simp]: "MakeVersion t off \<noteq> []"
  by (simp add: MakeVersion_def)

lemma MakeVersion_contents: "contents t = contents t' \<Longrightarrow> MakeVersion t off = MakeVersion t' off"
  by (simp add: MakeVersion_def utils_F_def)

lemma pdEqual_iff: "pdEqual a b \<longleftrightarrow> pdKeyOf a = pdKeyOf b"
  by (simp add: pdEqual_def pdKeyOf_def)

lemma zip_same_keys:
  "length xs = length ys \<Longrightarrow> list_all (\<lambda>(v, w). pdEqual v w) (zip xs ys) \<longleftrightarrow> map pdKeyOf xs = map pdKeyOf ys"
  by (induction rule: list_induct2) (auto simp: pdEqual_iff)

lemma xmEqual_mset: "xmEqual pd vpd \<longleftrightarrow> mset (map pdKeyOf pd) = mset (map pdKeyOf vpd)"
proof -
  have keys: "map pdKeyOf (sort_key pdKeyOf xs) = sort (map pdKeyOf xs)" for xs
    by (rule properties_for_sort [symmetric]) simp_all
  have "xmEqual pd vpd \<longleftrightarrow> map pdKeyOf (sort_key pdKeyOf pd) = map pdKeyOf (sort_key pdKeyOf vpd)"
    using zip_same_keys [of "sort_key pdKeyOf pd" "sort_key pdKeyOf vpd"]
      map_eq_imp_length_eq [of pdKeyOf "sort_key pdKeyOf pd" pdKeyOf "sort_key pdKeyOf vpd"] by (auto simp: xmEqual_def)
  also have "\<dots> \<longleftrightarrow> sort (map pdKeyOf pd) = sort (map pdKeyOf vpd)" unfolding keys ..
  also have "\<dots> \<longleftrightarrow> mset (map pdKeyOf pd) = mset (map pdKeyOf vpd)"
  proof
    assume "sort (map pdKeyOf pd) = sort (map pdKeyOf vpd)"
    then have "mset (sort (map pdKeyOf pd)) = mset (sort (map pdKeyOf vpd))" by (rule arg_cong)
    then show "mset (map pdKeyOf pd) = mset (map pdKeyOf vpd)" unfolding mset_sort .
  next
    assume eq: "mset (map pdKeyOf pd) = mset (map pdKeyOf vpd)"
    show "sort (map pdKeyOf pd) = sort (map pdKeyOf vpd)"
      by (rule properties_for_sort) (use eq in \<open>unfold mset_sort, simp_all\<close>)
  qed
  finally show ?thesis .
qed

section \<open>The tables\<close>

text \<open>
  The live and the deleted keys, and the version that a read finds. A write changes the tables
  of its key, and an undo puts the version back that the transaction had read.
\<close>

type_synonym tables = "(string \<Rightarrow> string option) \<times> (string \<Rightarrow> string option)"

definition tabs :: "kv \<Rightarrow> tables" where
  "tabs db = (tableGet ExtUtxoTablePrefix db, tableGet ExtUtxoDelTablePrefix db)"

definition version_in :: "tables \<Rightarrow> string \<Rightarrow> string option" where
  "version_in t k = (case fst t k of Some v \<Rightarrow> Some v | None \<Rightarrow> snd t k)"

definition dbVersion :: "kv \<Rightarrow> string \<Rightarrow> string option" where
  "dbVersion db k = version_in (tabs db) k"

definition version_text :: "string option \<Rightarrow> string" where
  "version_text v = (case v of None \<Rightarrow> [] | Some v \<Rightarrow> v)"

definition stored :: "TxOutputExt \<Rightarrow> bool" where
  "stored out \<longleftrightarrow> oeBucket out \<noteq> TransientBucket"

definition rawKeyOf :: "TxOutputExt \<Rightarrow> string" where
  "rawKeyOf out = makeRawKey (oeBucket out) (oeKey out)"

fun writeTabs :: "slice \<Rightarrow> nat \<Rightarrow> TxOutputExt list \<Rightarrow> tables \<Rightarrow> tables" where
  "writeTabs txid n [] t = t"
| "writeTabs txid n (out # outs) t =
     writeTabs txid (Suc n) outs
       (if \<not> stored out then t
        else if isDelFlag (oeValue out) then ((fst t)(rawKeyOf out := None), (snd t)(rawKeyOf out \<mapsto> MakeVersion txid (i32 (int n))))
        else ((fst t)(rawKeyOf out \<mapsto> MakeVersion txid (i32 (int n))), snd t))"

fun undoTabs :: "(string \<Rightarrow> bool) \<Rightarrow> (string \<Rightarrow> string) \<Rightarrow> TxOutputExt list \<Rightarrow> tables \<Rightarrow> tables" where
  "undoTabs isDel versions [] t = t"
| "undoTabs isDel versions (out # outs) t =
     undoTabs isDel versions outs
       (if \<not> stored out then t
        else let p = versions (rawKeyOf out) in
          if p = [] then ((fst t)(rawKeyOf out := None), snd t)
          else if isDel p then ((fst t)(rawKeyOf out := None), (snd t)(rawKeyOf out \<mapsto> p))
          else ((fst t)(rawKeyOf out \<mapsto> p), if isDelFlag (oeValue out) then (snd t)(rawKeyOf out := None) else snd t))"

definition writers :: "string \<Rightarrow> TxOutputExt list \<Rightarrow> TxOutputExt list" where
  "writers k outs = filter (\<lambda>out. stored out \<and> rawKeyOf out = k) outs"

lemma writers_simps [simp]: "writers k [] = []"
  "writers k (out # outs) = (if stored out \<and> rawKeyOf out = k then out # writers k outs else writers k outs)"
  by (simp_all add: writers_def)

lemma writeTabs_other: "writers k outs = [] \<Longrightarrow> fst (writeTabs txid n outs t) k = fst t k \<and> snd (writeTabs txid n outs t) k = snd t k"
  by (induction txid n outs t rule: writeTabs.induct) (auto split: if_splits)

lemma writeTabs_deleted:
  "snd (writeTabs txid n outs t) k \<noteq> None \<Longrightarrow> snd t k \<noteq> None \<or> (\<exists>out\<in>set (writers k outs). isDelFlag (oeValue out))"
proof (induction txid n outs t rule: writeTabs.induct)
  case (2 txid n out outs t)
  then show ?case by (cases "stored out \<and> rawKeyOf out = k"; cases "stored out"; cases "isDelFlag (oeValue out)") auto
qed simp

lemma undoTabs_other: "writers k outs = [] \<Longrightarrow> fst (undoTabs D vs outs t) k = fst t k \<and> snd (undoTabs D vs outs t) k = snd t k"
  by (induction D vs outs t rule: undoTabs.induct) (auto simp: Let_def split: if_splits)

lemma undoTabs_written:
  "writers k outs \<noteq> [] \<Longrightarrow>
     fst (undoTabs D vs outs t) k = (if vs k = [] \<or> D (vs k) then None else Some (vs k)) \<and>
     snd (undoTabs D vs outs t) k =
       (if vs k = [] then snd t k else if D (vs k) then Some (vs k)
        else if \<exists>out\<in>set (writers k outs). isDelFlag (oeValue out) then None else snd t k)"
proof (induction D vs outs t rule: undoTabs.induct)
  case (2 D vs out outs t)
  show ?case
  proof (cases "stored out \<and> rawKeyOf out = k")
    case True
    then show ?thesis using "2.IH" undoTabs_other [of k outs D vs]
      by (cases "writers k outs = []") (auto simp: Let_def)
  next
    case False
    with "2.prems" have "writers k outs \<noteq> []" by auto
    with "2.IH" False show ?thesis by (auto simp: Let_def)
  qed
qed simp

text \<open>
  Live keys have no deletion as their version and deleted keys have one. Undoing leaves the same
  versions, and fewer entries in the table of deleted keys.
\<close>

definition sorted_tabs :: "(string \<Rightarrow> bool) \<Rightarrow> tables \<Rightarrow> bool" where
  "sorted_tabs isDel t \<longleftrightarrow> (\<forall>k v. fst t k = Some v \<longrightarrow> \<not> isDel v) \<and> (\<forall>k v. snd t k = Some v \<longrightarrow> isDel v)"

definition restores :: "tables \<Rightarrow> tables \<Rightarrow> bool" where
  "restores a c \<longleftrightarrow> (\<forall>k. version_in c k = version_in a k \<and> (snd c k \<noteq> None \<longrightarrow> snd a k \<noteq> None))"

lemma undo_restores:
  assumes sorted: "sorted_tabs D a" and later: "restores (writeTabs txid n outs a) b"
    and read: "\<forall>k. writers k outs \<noteq> [] \<longrightarrow> vs k = version_text (version_in a k)"
    and nonempty: "\<forall>k v. version_in a k = Some v \<longrightarrow> v \<noteq> []"
    and dels: "\<forall>k. \<forall>out\<in>set (writers k outs). isDelFlag (oeValue out) \<longrightarrow> vs k \<noteq> []"
  shows "restores a (undoTabs D vs outs b)"
  unfolding restores_def
proof (rule allI, cases)
  fix k
  assume none: "writers k outs = []"
  have "version_in (undoTabs D vs outs b) k = version_in b k" "snd (undoTabs D vs outs b) k = snd b k"
    using undoTabs_other [OF none, of D vs b] by (auto simp: version_in_def split: option.splits)
  moreover have "version_in (writeTabs txid n outs a) k = version_in a k" "snd (writeTabs txid n outs a) k = snd a k"
    using writeTabs_other [OF none, of txid n a] by (auto simp: version_in_def split: option.splits)
  moreover have "version_in b k = version_in (writeTabs txid n outs a) k" "snd b k \<noteq> None \<longrightarrow> snd (writeTabs txid n outs a) k \<noteq> None"
    using later by (simp_all add: restores_def)
  ultimately show "version_in (undoTabs D vs outs b) k = version_in a k \<and> (snd (undoTabs D vs outs b) k \<noteq> None \<longrightarrow> snd a k \<noteq> None)"
    by simp
next
  fix k
  assume some: "writers k outs \<noteq> []"
  note u = undoTabs_written [OF some, of D vs b]
  have vk: "vs k = version_text (version_in a k)" using read some by blast
  have "snd b k \<noteq> None \<longrightarrow> snd (writeTabs txid n outs a) k \<noteq> None" using later by (simp add: restores_def)
  with writeTabs_deleted [of txid n outs a k]
  have b: "snd b k = None \<or> snd a k \<noteq> None \<or> (\<exists>out\<in>set (writers k outs). isDelFlag (oeValue out))" by blast
  show "version_in (undoTabs D vs outs b) k = version_in a k \<and> (snd (undoTabs D vs outs b) k \<noteq> None \<longrightarrow> snd a k \<noteq> None)"
  proof (cases "version_in a k")
    case None
    then have a: "vs k = []" "snd a k = None" using vk by (auto simp: version_text_def version_in_def split: option.splits)
    with b dels have "snd b k = None" by blast
    with u a None show ?thesis by (simp add: version_in_def)
  next
    case (Some p)
    then have p: "vs k = p" "p \<noteq> []" using vk nonempty by (auto simp: version_text_def)
    show ?thesis
    proof (cases "D p")
      case True
      then have "fst a k = None" "snd a k = Some p"
        using Some sorted by (auto simp: version_in_def sorted_tabs_def split: option.splits)
      with u p True Some show ?thesis by (simp add: version_in_def)
    next
      case False
      then have "fst a k = Some p" using Some sorted by (auto simp: version_in_def sorted_tabs_def split: option.splits)
      moreover have "snd (undoTabs D vs outs b) k = None \<or> snd a k \<noteq> None" using u p False b by (simp split: if_splits) blast
      moreover have "fst (undoTabs D vs outs b) k = Some p" using u p False by simp
      ultimately show ?thesis using Some by (auto simp: version_in_def)
    qed
  qed
qed

section \<open>Reads\<close>

text \<open>
  The outputs of a transaction are determined by its id: \<open>outs\<close> gives them. A proper version
  names an output by a non-empty id and an offset that fits; what the caches hold for a version
  is the output it names.
\<close>

definition proper :: "string \<Rightarrow> bool" where
  "proper v \<longleftrightarrow> (\<exists>txid off. txid \<noteq> [] \<and> 0 \<le> off \<and> off < 2 ^ 31 \<and> v = MakeVersion (Some txid) off)"

definition verValue :: "(bytes \<Rightarrow> TxOutputExt list) \<Rightarrow> string \<Rightarrow> slice" where
  "verValue outs v =
     (case parseVersion v of
        None \<Rightarrow> None
      | Some (txid, off) \<Rightarrow> if nat off < length (outs txid) then oeValue (outs txid ! nat off) else None)"

abbreviation delVersion :: "(bytes \<Rightarrow> TxOutputExt list) \<Rightarrow> string \<Rightarrow> bool" where
  "delVersion outs v \<equiv> isDelFlag (verValue outs v)"

definition names :: "(bytes \<Rightarrow> TxOutputExt list) \<Rightarrow> string \<Rightarrow> VersionedData \<Rightarrow> bool" where
  "names outs v d \<longleftrightarrow> GetVersion d = v \<and> contents (vdRefTxid d) \<noteq> [] \<and> is_i64 (vdRefOffset d) \<and> (\<exists>pd. vdPureData d = Some pd \<and> pdValue pd = verValue outs v)"

definition caches_ok :: "(bytes \<Rightarrow> TxOutputExt list) \<Rightarrow> XModel \<Rightarrow> bool" where
  "caches_ok outs s \<longleftrightarrow> (\<forall>b c. extUtxoCache s b = Some c \<longrightarrow> lru_inv c \<and> (\<forall>(v, d)\<in>set (lru_abs c). names outs v d))"

definition ledger_ok :: "(bytes \<Rightarrow> TxOutputExt list) \<Rightarrow> XmEnv \<Rightarrow> kv \<Rightarrow> bool" where
  "ledger_ok outs env db \<longleftrightarrow> (\<forall>txid tx c. queryTx env txid db = Ok (tx, c) \<longrightarrow> txOutputsExt tx = outs txid)"

lemma is_i64_i32: "is_i64 (i32 x)"
proof -
  have "0 \<le> (x + 2 ^ 31) mod 2 ^ 32" "(x + 2 ^ 31) mod 2 ^ 32 < 2 ^ 32" by simp_all
  then show ?thesis unfolding i32_def is_i64_def by auto
qed

lemma proper_parse:
  assumes "proper v"
  obtains txid off where "txid \<noteq> []" "0 \<le> off" "off < 2 ^ 31" "v = MakeVersion (Some txid) off" "parseVersion v = Some (txid, off)" "i32 off = off"
proof -
  obtain txid off where "txid \<noteq> []" "0 \<le> off" "off < 2 ^ 31" "v = MakeVersion (Some txid) off"
    using assms by (auto simp: proper_def)
  moreover from this have "is_i64 off" by (simp add: is_i64_def)
  ultimately show thesis using that parseVersion_Make [of txid off] by (simp add: i32_def)
qed

lemma proper_nonempty: "proper v \<Longrightarrow> v \<noteq> []"
  by (auto simp: proper_def)

lemma readVersion_names:
  assumes "ledger_ok outs env db" and "proper v" and "readVersion env db v = Ok d"
  shows "names outs v d"
proof -
  obtain txid off where v: "txid \<noteq> []" "0 \<le> off" "v = MakeVersion (Some txid) off" "parseVersion v = Some (txid, off)" "i32 off = off"
    using proper_parse [OF assms(2)] by metis
  obtain tx c where q: "queryTx env txid db = Ok (tx, c)"
    using assms(3) v(4) by (auto simp: readVersion_def bind_result_Ok_iff)
  then have o: "txOutputsExt tx = outs txid" using assms(1) by (simp add: ledger_ok_def)
  have "off < int (length (outs txid))" "d = outputData (Some txid) off (outs txid ! nat off)"
    using assms(3) v q o by (auto simp: readVersion_def split: if_splits)
  then show ?thesis using v is_i64_i32 [of off] by (simp add: names_def outputData_def GetVersion_def verValue_def nat_less_iff)
qed

lemma bucketCache_ok:
  assumes "caches_ok outs s"
  shows "lru_inv (bucketCache b s)" and "\<forall>(v, d)\<in>set (lru_abs (bucketCache b s)). names outs v d"
  using assms by (auto simp: caches_ok_def bucketCache_def lru_inv_New split: option.splits)

lemma caches_ok_update:
  assumes "caches_ok outs s" and "lru_inv c" and "\<forall>(v, d)\<in>set (lru_abs c). names outs v d"
  shows "caches_ok outs (s\<lparr>extUtxoCache := (extUtxoCache s)(b \<mapsto> c)\<rparr>)"
  using assms by (simp add: caches_ok_def)

lemma spec_get_subset: "spec_get k xs = (ys, r) \<Longrightarrow> set ys \<subseteq> set xs \<and> (\<forall>d. r = Some d \<longrightarrow> (k, d) \<in> set xs)"
proof -
  assume s: "spec_get k xs = (ys, r)"
  show ?thesis
  proof (cases "map_of xs k")
    case (Some d)
    then have "(k, d) \<in> set xs" by (rule map_of_SomeD)
    then show ?thesis using s Some by (auto simp: spec_get_def spec_drop_def)
  qed (use s in \<open>simp add: spec_get_def\<close>)
qed

lemma spec_add_subset: "spec_add n k v xs = (ys, r) \<Longrightarrow> set ys \<subseteq> insert (k, v) (set xs)"
proof -
  assume "spec_add n k v xs = (ys, r)"
  then have "set ys \<subseteq> set ((k, v) # spec_drop k xs)"
    using in_set_butlastD [of _ "(k, v) # spec_drop k xs"] by (auto simp only: spec_add_def Let_def prod.inject split: if_splits)
  then show ?thesis by (auto simp: spec_drop_def)
qed

text \<open>Parts of the model that reads leave alone.\<close>

definition same_batch :: "XModel \<Rightarrow> XModel \<Rightarrow> bool" where
  "same_batch s s' \<longleftrightarrow> xmDB s' = xmDB s \<and> batchCache s' = batchCache s \<and> lastBatch s' = lastBatch s"

lemma bucketCacheGet_ok:
  assumes "caches_ok outs s" and "bucketCacheGet b v s = (r, s')"
  shows "caches_ok outs s' \<and> same_batch s s' \<and> (\<forall>d. r = Some d \<longrightarrow> names outs v d)"
proof -
  obtain c where c: "lruGet (bucketCache b s) v = (c, r)" "s' = s\<lparr>extUtxoCache := (extUtxoCache s)(b \<mapsto> c)\<rparr>"
    using assms(2) by (auto simp: bucketCacheGet_def Let_def split: prod.splits)
  note ok = bucketCache_ok [OF assms(1), of b]
  have law: "lru_inv c" "(lru_abs c, r) = spec_get v (lru_abs (bucketCache b s))"
    using lruc.get_law [OF ok(1), of v] c(1) by auto
  note sub = spec_get_subset [OF law(2) [symmetric]]
  have "\<forall>(v, d)\<in>set (lru_abs c). names outs v d" using sub ok(2) by blast
  moreover have "names outs v d" if "r = Some d" for d using sub ok(2) that by blast
  ultimately show ?thesis using caches_ok_update [OF assms(1) law(1)] c(2) by (simp add: same_batch_def)
qed

lemma bucketCacheStore_ok:
  assumes "caches_ok outs s" and "names outs v d"
  shows "caches_ok outs (bucketCacheStore b v d s)" and "same_batch s (bucketCacheStore b v d s)"
proof -
  note ok = bucketCache_ok [OF assms(1), of b]
  have law: "lru_inv (fst (lruAdd (bucketCache b s) v d))"
    "(lru_abs (fst (lruAdd (bucketCache b s) v d)), snd (lruAdd (bucketCache b s) v d)) = spec_add (capacity (bucketCache b s)) v d (lru_abs (bucketCache b s))"
    using lruc.put_law [OF ok(1), of v d] by blast+
  have "\<forall>(v, d)\<in>set (lru_abs (fst (lruAdd (bucketCache b s) v d))). names outs v d"
    using spec_add_subset [OF law(2) [symmetric]] ok(2) assms(2) by blast
  then show "caches_ok outs (bucketCacheStore b v d s)"
    unfolding bucketCacheStore_def by (intro caches_ok_update assms(1) law(1))
  show "same_batch s (bucketCacheStore b v d s)" by (simp add: same_batch_def bucketCacheStore_def)
qed

lemma fetch_ok:
  assumes "caches_ok outs s" and "ledger_ok outs env (xmDB s)" and "proper v" and "fetchVersionedData env b v s = (r, s')"
  shows "caches_ok outs s'" and "same_batch s s'" and "r = Ok d \<Longrightarrow> names outs v d"
    and "readVersion env (xmDB s) v = Ok d' \<Longrightarrow> \<exists>d. r = Ok d"
proof -
  obtain h s1 where g: "bucketCacheGet b v s = (h, s1)" by (cases "bucketCacheGet b v s")
  note get = bucketCacheGet_ok [OF assms(1) g]
  have db: "xmDB s1 = xmDB s" using get by (simp add: same_batch_def)
  have "caches_ok outs s' \<and> same_batch s s' \<and> (\<forall>d. r = Ok d \<longrightarrow> names outs v d) \<and> (\<forall>d'. readVersion env (xmDB s) v = Ok d' \<longrightarrow> (\<exists>d. r = Ok d))"
  proof (cases h)
    case (Some d)
    then show ?thesis using get g assms(4) by (auto simp: fetchVersionedData_def)
  next
    case None
    show ?thesis
    proof (cases "readVersion env (xmDB s) v")
      case (Ok d)
      then have n: "names outs v d" using readVersion_names assms(2,3) by blast
      have r: "Ok d = r" "s' = bucketCacheStore b v d s1"
        using None Ok g db assms(4) by (auto simp: fetchVersionedData_def)
      show ?thesis using get n bucketCacheStore_ok [OF _ n, of s1 b] Ok r by (auto simp: same_batch_def)
    qed (use None g db get assms(4) in \<open>auto simp: fetchVersionedData_def\<close>)
  qed
  then show "caches_ok outs s'" "same_batch s s'" "r = Ok d \<Longrightarrow> names outs v d" "readVersion env (xmDB s) v = Ok d' \<Longrightarrow> \<exists>d. r = Ok d"
    by blast+
qed

text \<open>The version of a key as the current batch sees it.\<close>

definition seen :: "XModel \<Rightarrow> string \<Rightarrow> string option" where
  "seen s k = (case batchCache s k of Some v \<Rightarrow> if v = [] then None else Some v | None \<Rightarrow> dbVersion (xmDB s) k)"

lemma seen_same: "same_batch s s' \<Longrightarrow> seen s' = seen s"
  by (rule ext) (auto simp: same_batch_def seen_def split: option.splits)

lemma same_batch_trans: "same_batch s s' \<Longrightarrow> same_batch s' s'' \<Longrightarrow> same_batch s s''"
  by (simp add: same_batch_def)

lemma GetUncommited_ok:
  assumes "caches_ok outs s" and "ledger_ok outs env (xmDB s)" and "\<forall>k v. seen s k = Some v \<longrightarrow> proper v"
    and "GetUncommited env b k s = (r, s')"
  shows "caches_ok outs s'" and "same_batch s s'" and "r = Ok d \<Longrightarrow> GetVersion d = version_text (seen s (makeRawKey b k))"
proof -
  have "caches_ok outs s' \<and> same_batch s s' \<and> (\<forall>d. r = Ok d \<longrightarrow> GetVersion d = version_text (seen s (makeRawKey b k)))"
  proof (cases "seen s (makeRawKey b k)")
    case None
    then have "r = Ok (makeEmptyVersionedData b k)" "s' = s"
      using assms(4) by (auto simp: GetUncommited_def seen_def dbVersion_def version_in_def tabs_def xmGet_def split: option.splits if_splits)
    then show ?thesis using None assms(1) by (simp add: same_batch_def makeEmptyVersionedData_def GetVersion_def version_text_def)
  next
    case (Some v)
    then have "fetchVersionedData env b v s = (r, s')"
      using assms(4) by (auto simp: GetUncommited_def seen_def dbVersion_def version_in_def tabs_def xmGet_def split: option.splits if_splits)
    moreover have "proper v" using assms(3) Some by blast
    ultimately have "caches_ok outs s'" "same_batch s s'" "r = Ok d \<Longrightarrow> names outs v d" for d
      using fetch_ok(1-3) [OF assms(1,2)] by blast+
    then show ?thesis using Some by (simp add: names_def version_text_def)
  qed
  then show "caches_ok outs s'" "same_batch s s'" "r = Ok d \<Longrightarrow> GetVersion d = version_text (seen s (makeRawKey b k))"
    by blast+
qed

lemma verifyInputs_ok:
  assumes "caches_ok outs s" and "ledger_ok outs env (xmDB s)" and "\<forall>k v. seen s k = Some v \<longrightarrow> proper v"
    and "verifyInputs env ins s = (Ok (), s')"
  shows "caches_ok outs s' \<and> same_batch s s' \<and>
    (\<forall>i\<in>set ins. GetVersionOfTxInput i = version_text (seen s (makeRawKey (ieBucket i) (ieKey i))))"
  using assms
proof (induction ins arbitrary: s)
  case Nil
  then show ?case by (simp add: same_batch_def)
next
  case (Cons i ins)
  obtain d s1 where g: "GetUncommited env (ieBucket i) (ieKey i) s = (Ok d, s1)" "GetVersion d = GetVersionOfTxInput i"
      "verifyInputs env ins s1 = (Ok (), s')"
    using Cons.prems(4) by (cases "GetUncommited env (ieBucket i) (ieKey i) s"; cases "fst (GetUncommited env (ieBucket i) (ieKey i) s)") (auto split: if_splits)
  note u = GetUncommited_ok(1,2) [OF Cons.prems(1-3) g(1)]
  have d: "GetVersion d = version_text (seen s (makeRawKey (ieBucket i) (ieKey i)))"
    by (rule GetUncommited_ok(3) [OF Cons.prems(1-3) g(1) refl])
  have s1: "seen s1 = seen s" "xmDB s1 = xmDB s" using u(2) seen_same [OF u(2)] by (simp_all add: same_batch_def)
  have "caches_ok outs s' \<and> same_batch s1 s' \<and> (\<forall>i\<in>set ins. GetVersionOfTxInput i = version_text (seen s1 (makeRawKey (ieBucket i) (ieKey i))))"
    using Cons.IH [OF u(1) _ _ g(3)] Cons.prems(2,3) unfolding s1 by blast
  then show ?case using same_batch_trans [OF u(2)] d g(2) unfolding s1 by simp
qed

section \<open>Writes\<close>

text \<open>
  A transaction of a block whose contract writes are those its id stands for; tables whose
  versions are proper, with the deletions in their own table; and a batch whose writes the model
  has noted.
\<close>

definition known_tx :: "(bytes \<Rightarrow> TxOutputExt list) \<Rightarrow> Transaction \<Rightarrow> bool" where
  "known_tx outs tx \<longleftrightarrow> contents (txBlockid tx) \<noteq> [] \<and> contents (txTxid tx) \<noteq> []
     \<and> outs (contents (txTxid tx)) = txOutputsExt tx \<and> length (txOutputsExt tx) < 2 ^ 31"

definition tables_ok :: "(bytes \<Rightarrow> TxOutputExt list) \<Rightarrow> tables \<Rightarrow> bool" where
  "tables_ok outs t \<longleftrightarrow> sorted_tabs (delVersion outs) t \<and> (\<forall>k v. fst t k = Some v \<longrightarrow> proper v) \<and> (\<forall>k v. snd t k = Some v \<longrightarrow> proper v)"

definition coherent :: "XModel \<Rightarrow> kvop list \<Rightarrow> bool" where
  "coherent s batch \<longleftrightarrow> seen s = version_in (tabs (kvWrite batch (xmDB s)))"

definition in_batch :: "nat \<Rightarrow> XModel \<Rightarrow> kvop list \<Rightarrow> bool" where
  "in_batch i s batch \<longleftrightarrow> (if lastBatch s = Some i then coherent s batch else batch = [])"

lemma tabs_apply [simp]:
  "tabs (AList.update (ExtUtxoTablePrefix @ k) v db) = ((fst (tabs db))(k \<mapsto> v), snd (tabs db))"
  "tabs (AList.update (ExtUtxoDelTablePrefix @ k) v db) = (fst (tabs db), (snd (tabs db))(k \<mapsto> v))"
  "tabs (AList.delete (ExtUtxoTablePrefix @ k) db) = ((fst (tabs db))(k := None), snd (tabs db))"
  "tabs (AList.delete (ExtUtxoDelTablePrefix @ k) db) = (fst (tabs db), (snd (tabs db))(k := None))"
  by (auto simp: tabs_def tableGet_def table_prefixes fun_eq_iff)

lemma version_in_write [simp]:
  "version_in ((fst t)(k := None), (snd t)(k \<mapsto> v)) = (version_in t)(k \<mapsto> v)"
  "version_in ((fst t)(k \<mapsto> v), snd t) = (version_in t)(k \<mapsto> v)"
  by (auto simp: version_in_def fun_eq_iff split: option.splits)

lemma version_in_proper: "tables_ok outs t \<Longrightarrow> version_in t k = Some v \<Longrightarrow> proper v"
  by (auto simp: tables_ok_def version_in_def split: option.splits)

lemma own_version:
  assumes "known_tx outs tx" and "n < length (txOutputsExt tx)"
  defines "v \<equiv> MakeVersion (txTxid tx) (i32 (int n))"
  shows "proper v" and "verValue outs v = oeValue (txOutputsExt tx ! n)"
    and "names outs v (outputData (txTxid tx) (i32 (int n)) (txOutputsExt tx ! n))"
proof -
  let ?t = "contents (txTxid tx)"
  have n: "int n < 2 ^ 31" "i32 (int n) = int n" using assms(1,2) by (simp_all add: known_tx_def i32_def)
  have t: "?t \<noteq> []" "txTxid tx = Some ?t" using assms(1) by (cases "txTxid tx"; simp add: known_tx_def)+
  have v: "v = MakeVersion (Some ?t) (int n)" unfolding v_def n(2) by (rule MakeVersion_contents) simp
  have "parseVersion v = Some (?t, int n)" unfolding v using t n(1) by (intro parseVersion_Make) (simp_all add: is_i64_def)
  then show val: "verValue outs v = oeValue (txOutputsExt tx ! n)"
    using assms(1,2) by (simp add: verValue_def known_tx_def)
  show "proper v" unfolding proper_def v using t(1) n(1) by (intro exI [of _ ?t] exI [of _ "int n"]) simp
  have "vdRefTxid (outputData (txTxid tx) (i32 (int n)) (txOutputsExt tx ! n)) \<noteq> None" unfolding outputData_def by (subst t(2)) simp
  then show "names outs v (outputData (txTxid tx) (i32 (int n)) (txOutputsExt tx ! n))"
    using val t(1) is_i64_i32 [of "int n"] by (auto simp: names_def GetVersion_def outputData_def v_def)
qed

lemma seen_write:
  assumes "v \<noteq> []"
  shows "seen (s\<lparr>batchCache := (batchCache s)(k \<mapsto> v)\<rparr>) = (seen s)(k \<mapsto> v)"
  using assms by (auto simp: seen_def fun_eq_iff split: option.splits)

lemma updateLoop_ok:
  assumes "known_tx outs tx" and "caches_ok outs s" and "coherent s batch" and "tables_ok outs (tabs (kvWrite batch (xmDB s)))"
    and "drop n (txOutputsExt tx) = os" and "updateLoop tx n os s batch = (s', batch')"
  shows "caches_ok outs s' \<and> xmDB s' = xmDB s \<and> lastBatch s' = lastBatch s \<and> coherent s' batch'
    \<and> tabs (kvWrite batch' (xmDB s)) = writeTabs (txTxid tx) n os (tabs (kvWrite batch (xmDB s)))
    \<and> tables_ok outs (tabs (kvWrite batch' (xmDB s)))"
  using assms(2-6)
proof (induction os arbitrary: n s batch)
  case Nil
  then show ?case by simp
next
  case (Cons out os)
  then have n: "n < length (txOutputsExt tx)" "out = txOutputsExt tx ! n" "drop (Suc n) (txOutputsExt tx) = os"
    by (metis drop_all list.distinct(1) not_le, metis Cons_nth_drop_Suc drop_all list.inject list.distinct(1) not_le,
        metis Cons_nth_drop_Suc drop_all list.inject list.distinct(1) not_le)
  show ?case
  proof (cases "stored out")
    case False
    then show ?thesis using Cons.IH [OF Cons.prems(1-3) n(3)] Cons.prems(5) by (auto simp: stored_def)
  next
    case True
    let ?v = "MakeVersion (txTxid tx) (i32 (int n))" and ?k = "rawKeyOf out"
    let ?s1 = "s\<lparr>batchCache := (batchCache s)(?k \<mapsto> ?v)\<rparr>"
    let ?s2 = "bucketCacheStore (oeBucket out) ?v (outputData (txTxid tx) (i32 (int n)) out) ?s1"
    let ?b = "batch @ (if isDelFlag (oeValue out) then [KvDelete (ExtUtxoTablePrefix @ ?k), KvPut (ExtUtxoDelTablePrefix @ ?k) ?v]
                       else [KvPut (ExtUtxoTablePrefix @ ?k) ?v])"
    note own = own_version [OF assms(1) n(1), folded n(2)]
    have step: "updateLoop tx (Suc n) os ?s2 ?b = (s', batch')"
      using Cons.prems(5) True assms(1) by (cases "isDelFlag (oeValue out)") (simp_all add: stored_def rawKeyOf_def known_tx_def Let_def)
    have c1: "caches_ok outs ?s1" using Cons.prems(1) by (simp add: caches_ok_def)
    have s2: "caches_ok outs ?s2" "same_batch ?s1 ?s2" using bucketCacheStore_ok [OF c1 own(3)] by auto
    then have db: "xmDB ?s2 = xmDB s" "lastBatch ?s2 = lastBatch s" by (simp_all add: same_batch_def)
    have t: "tabs (kvWrite ?b (xmDB s)) = (if isDelFlag (oeValue out)
        then ((fst (tabs (kvWrite batch (xmDB s))))(?k := None), (snd (tabs (kvWrite batch (xmDB s))))(?k \<mapsto> ?v))
        else ((fst (tabs (kvWrite batch (xmDB s))))(?k \<mapsto> ?v), snd (tabs (kvWrite batch (xmDB s)))))" by simp
    have "seen ?s2 = (seen s)(?k \<mapsto> ?v)" using seen_same [OF s2(2)] seen_write [of ?v s ?k] by simp
    then have coh: "coherent ?s2 ?b"
      using Cons.prems(2) unfolding coherent_def db(1) t by simp
    have ok: "tables_ok outs (tabs (kvWrite ?b (xmDB s)))"
      using Cons.prems(3) own(1,2) unfolding t by (auto simp: tables_ok_def sorted_tabs_def)
    show ?thesis using Cons.IH [OF s2(1) coh _ n(3) step] ok True unfolding db t by auto
  qed
qed

lemma verifyOutputs_ok: "verifyOutputs ks os = Ok () \<Longrightarrow> writers k os \<noteq> [] \<Longrightarrow> k \<in> ks"
  by (induction ks os rule: verifyOutputs.induct) (auto simp: stored_def rawKeyOf_def split: if_splits)

lemma inputVersionMap_eq:
  assumes "\<forall>i\<in>set (txInputsExt tx). GetVersionOfTxInput i = f (makeRawKey (ieBucket i) (ieKey i))"
  shows "inputVersionMap tx k = (if k \<in> inputKeysOf tx then f k else [])"
proof -
  let ?key = "\<lambda>i. makeRawKey (ieBucket i) (ieKey i)"
  have "\<forall>i\<in>set ins. GetVersionOfTxInput i = f (?key i) \<Longrightarrow>
      fold (\<lambda>txIn m. m(?key txIn := GetVersionOfTxInput txIn)) ins m k = (if k \<in> set (map ?key ins) then f k else m k)" for ins m
    by (induction ins arbitrary: m) auto
  from this [OF assms, of "\<lambda>_. []"] show ?thesis unfolding inputVersionMap_def inputKeysOf_def .
qed

lemma xmDoTx_ok:
  assumes "known_tx outs tx" and "caches_ok outs s" and "ledger_ok outs env (xmDB s)" and "in_batch i s batch"
    and "tables_ok outs (tabs (kvWrite batch (xmDB s)))" and "xmDoTx env tx i s batch = (Ok (), s', batch')"
  shows "caches_ok outs s'" and "xmDB s' = xmDB s" and "in_batch i s' batch'"
    and "tabs (kvWrite batch' (xmDB s)) = writeTabs (txTxid tx) 0 (txOutputsExt tx) (tabs (kvWrite batch (xmDB s)))"
    and "tables_ok outs (tabs (kvWrite batch' (xmDB s)))"
    and "\<forall>j\<in>set (txInputsExt tx). GetVersionOfTxInput j = version_text (version_in (tabs (kvWrite batch (xmDB s))) (makeRawKey (ieBucket j) (ieKey j)))"
    and "writers k (txOutputsExt tx) \<noteq> [] \<Longrightarrow> inputVersionMap tx k = version_text (version_in (tabs (kvWrite batch (xmDB s))) k)"
proof -
  let ?s0 = "cleanCache (Some i) s"
  have s0: "caches_ok outs ?s0" "xmDB ?s0 = xmDB s" "lastBatch ?s0 = Some i"
    using assms(2) by (simp_all add: cleanCache_def caches_ok_def)
  have coh: "coherent ?s0 batch"
    using assms(4) by (auto simp: in_batch_def cleanCache_def coherent_def seen_def fun_eq_iff dbVersion_def split: if_splits)
  obtain s1 where v: "verifyInputs env (txInputsExt tx) ?s0 = (Ok (), s1)" "verifyOutputs (inputKeysOf tx) (txOutputsExt tx) = Ok ()"
      "updateLoop tx 0 (txOutputsExt tx) s1 batch = (s', batch')"
    using assms(1,6) by (auto simp: xmDoTx_def known_tx_def updateExtUtxo_def Let_def split: prod.splits result.splits)
  have "\<forall>k v. seen ?s0 k = Some v \<longrightarrow> proper v" using coh s0(2) version_in_proper [OF assms(5)] by (simp add: coherent_def)
  note vi = verifyInputs_ok [OF s0(1) _ this v(1), unfolded s0(2), OF assms(3)]
  have s1: "caches_ok outs s1" "xmDB s1 = xmDB s" "lastBatch s1 = Some i" "coherent s1 batch"
    using vi s0 coh seen_same [of ?s0 s1] by (auto simp: same_batch_def coherent_def)
  note up = updateLoop_ok [OF assms(1) s1(1,4) _ _ v(3), unfolded s1(2), OF assms(5)]
  show "caches_ok outs s'" "xmDB s' = xmDB s" "in_batch i s' batch'"
    "tabs (kvWrite batch' (xmDB s)) = writeTabs (txTxid tx) 0 (txOutputsExt tx) (tabs (kvWrite batch (xmDB s)))"
    "tables_ok outs (tabs (kvWrite batch' (xmDB s)))"
    using up s1(3) by (auto simp: in_batch_def)
  show ins: "\<forall>j\<in>set (txInputsExt tx). GetVersionOfTxInput j = version_text (version_in (tabs (kvWrite batch (xmDB s))) (makeRawKey (ieBucket j) (ieKey j)))"
    using vi coh s0(2) by (simp add: coherent_def)
  show "inputVersionMap tx k = version_text (version_in (tabs (kvWrite batch (xmDB s))) k)" if "writers k (txOutputsExt tx) \<noteq> []"
    using inputVersionMap_eq [OF ins, of k] verifyOutputs_ok [OF v(2) that] by simp
qed

lemma undoLoop_ok:
  assumes "caches_ok outs s" and "ledger_ok outs env (xmDB s)"
    and "\<forall>k. writers k os \<noteq> [] \<longrightarrow> vs k = [] \<or> proper (vs k) \<and> is_ok (readVersion env (xmDB s) (vs k))"
  shows "\<exists>s' batch'. undoLoop env vs os s batch = (Ok (), s', batch') \<and> caches_ok outs s' \<and> xmDB s' = xmDB s
    \<and> tabs (kvWrite batch' (xmDB s)) = undoTabs (delVersion outs) vs os (tabs (kvWrite batch (xmDB s)))"
  using assms
proof (induction os arbitrary: s batch)
  case Nil
  then show ?case by simp
next
  case (Cons out os)
  let ?k = "rawKeyOf out"
  have rest: "\<forall>k. writers k os \<noteq> [] \<longrightarrow> vs k = [] \<or> proper (vs k) \<and> is_ok (readVersion env (xmDB s) (vs k))"
    using Cons.prems(3) by auto
  show ?case
  proof (cases "stored out")
    case False
    then show ?thesis using Cons.IH [OF Cons.prems(1,2) rest, of batch] by (simp add: stored_def)
  next
    case True
    then have k: "oeBucket out \<noteq> TransientBucket" "makeRawKey (oeBucket out) (oeKey out) = ?k" by (simp_all add: stored_def rawKeyOf_def)
    show ?thesis
    proof (cases "vs ?k = []")
      case e: True
      have "caches_ok outs (s\<lparr>batchCache := (batchCache s)(?k \<mapsto> [])\<rparr>)" using Cons.prems(1) by (simp add: caches_ok_def)
      from Cons.IH [OF this, of "batch @ [KvDelete (ExtUtxoTablePrefix @ ?k)]"] show ?thesis
        using Cons.prems(2) rest True k e by (simp add: Let_def)
    next
      case False
      have "writers ?k (out # os) \<noteq> []" using True by simp
      with Cons.prems(3) False obtain d where p: "proper (vs ?k)" "readVersion env (xmDB s) (vs ?k) = Ok d"
        by (metis is_ok.elims(2))
      obtain r s1 where f: "fetchVersionedData env (oeBucket out) (vs ?k) s = (r, s1)" by fastforce
      obtain d' where r: "r = Ok d'" using fetch_ok(4) [OF Cons.prems(1,2) p(1) f p(2)] by blast
      have s1: "caches_ok outs s1" "same_batch s s1" "names outs (vs ?k) d'"
        using fetch_ok(1-3) [OF Cons.prems(1,2) p(1) f] r by blast+
      obtain pd where pd: "vdPureData d' = Some pd" "pdValue pd = verValue outs (vs ?k)" using s1(3) by (auto simp: names_def)
      let ?s2 = "s1\<lparr>batchCache := (batchCache s1)(?k \<mapsto> vs ?k)\<rparr>"
      let ?b = "batch @ (if delVersion outs (vs ?k)
                then [KvPut (ExtUtxoDelTablePrefix @ ?k) (vs ?k), KvDelete (ExtUtxoTablePrefix @ ?k)]
                else KvPut (ExtUtxoTablePrefix @ ?k) (vs ?k) #
                  (if isDelFlag (oeValue out) then [KvDelete (ExtUtxoDelTablePrefix @ ?k)] else []))"
      have s2: "caches_ok outs ?s2" "xmDB ?s2 = xmDB s" using s1(1,2) by (simp_all add: caches_ok_def same_batch_def)
      have step: "undoLoop env vs (out # os) s batch = undoLoop env vs os ?s2 ?b"
        using k False f r pd by (simp add: Let_def)
      have t: "tabs (kvWrite ?b (xmDB s)) = (if delVersion outs (vs ?k)
          then ((fst (tabs (kvWrite batch (xmDB s))))(?k := None), (snd (tabs (kvWrite batch (xmDB s))))(?k \<mapsto> vs ?k))
          else ((fst (tabs (kvWrite batch (xmDB s))))(?k \<mapsto> vs ?k),
            if isDelFlag (oeValue out) then (snd (tabs (kvWrite batch (xmDB s))))(?k := None) else snd (tabs (kvWrite batch (xmDB s)))))"
        by simp
      show ?thesis using Cons.IH [OF s2(1), of ?b] Cons.prems(2) rest True False unfolding s2(2) step t by (simp add: Let_def)
    qed
  qed
qed

section \<open>Undoing a block\<close>

fun xmDoAll :: "XmEnv \<Rightarrow> Transaction list \<Rightarrow> nat \<Rightarrow> XModel \<Rightarrow> kvop list \<Rightarrow> (xm_error, unit) result \<times> XModel \<times> kvop list" where
  "xmDoAll env [] i s batch = (Ok (), s, batch)"
| "xmDoAll env (tx # txs) i s batch =
     (case xmDoTx env tx i s batch of (Ok _, s1, batch1) \<Rightarrow> xmDoAll env txs i s1 batch1 | r \<Rightarrow> r)"

fun xmUndoAll :: "XmEnv \<Rightarrow> Transaction list \<Rightarrow> nat \<Rightarrow> XModel \<Rightarrow> kvop list \<Rightarrow> (xm_error, unit) result \<times> XModel \<times> kvop list" where
  "xmUndoAll env [] i s batch = (Ok (), s, batch)"
| "xmUndoAll env (tx # txs) i s batch =
     (case xmUndoTx env tx i s batch of (Ok _, s1, batch1) \<Rightarrow> xmUndoAll env txs i s1 batch1 | r \<Rightarrow> r)"

text \<open>The versions a transaction has read can be read again, and it deletes only keys that had one.\<close>

definition undoable :: "XmEnv \<Rightarrow> kv \<Rightarrow> Transaction \<Rightarrow> bool" where
  "undoable env db tx \<longleftrightarrow>
     (\<forall>j\<in>set (txInputsExt tx). ieRefTxid j \<noteq> None \<longrightarrow> is_ok (readVersion env db (GetVersionOfTxInput j)))
     \<and> (\<forall>out\<in>set (txOutputsExt tx). stored out \<and> isDelFlag (oeValue out) \<longrightarrow> inputVersionMap tx (rawKeyOf out) \<noteq> [])"

lemma xmUndoAll_snoc:
  "xmUndoAll env xs i s batch = (Ok (), s1, batch1) \<Longrightarrow> xmUndoTx env tx i s1 batch1 = (Ok (), s2, batch2)
     \<Longrightarrow> xmUndoAll env (xs @ [tx]) i s batch = (Ok (), s2, batch2)"
proof (induction xs arbitrary: s batch)
  case (Cons x xs)
  obtain r s' b' where "xmUndoTx env x i s batch = (r, s', b')" by (metis prod_cases3)
  with Cons show ?case by (cases r) auto
qed simp

lemma xmUndoTx_restores:
  assumes "known_tx outs tx" and "tables_ok outs a" and "caches_ok outs s" and "ledger_ok outs env (xmDB s)"
    and read: "\<forall>k. writers k (txOutputsExt tx) \<noteq> [] \<longrightarrow> k \<in> inputKeysOf tx \<and> inputVersionMap tx k = version_text (version_in a k)"
    and ins: "\<forall>j\<in>set (txInputsExt tx). GetVersionOfTxInput j = version_text (version_in a (makeRawKey (ieBucket j) (ieKey j)))"
    and "undoable env (xmDB s) tx"
    and "restores (writeTabs (txTxid tx) 0 (txOutputsExt tx) a) (tabs (kvWrite batch (xmDB s)))"
  shows "\<exists>s' batch'. xmUndoTx env tx i s batch = (Ok (), s', batch') \<and> caches_ok outs s' \<and> xmDB s' = xmDB s
    \<and> restores a (tabs (kvWrite batch' (xmDB s)))"
proof -
  let ?s = "cleanCache (Some i) s" and ?vs = "inputVersionMap tx" and ?os = "txOutputsExt tx"
  have s: "caches_ok outs ?s" "xmDB ?s = xmDB s" using assms(3) by (simp_all add: cleanCache_def caches_ok_def)
  have readable: "\<forall>k. writers k ?os \<noteq> [] \<longrightarrow> ?vs k = [] \<or> proper (?vs k) \<and> is_ok (readVersion env (xmDB s) (?vs k))"
  proof (intro allI impI)
    fix k
    assume k: "writers k ?os \<noteq> []"
    with read obtain j where j: "j \<in> set (txInputsExt tx)" "makeRawKey (ieBucket j) (ieKey j) = k" by (auto simp: inputKeysOf_def)
    then have v: "GetVersionOfTxInput j = ?vs k" "?vs k = version_text (version_in a k)" using ins read k by auto
    show "?vs k = [] \<or> proper (?vs k) \<and> is_ok (readVersion env (xmDB s) (?vs k))"
    proof (cases "?vs k = []")
      case False
      then have "ieRefTxid j \<noteq> None" using v(1) by (auto simp: GetVersionOfTxInput_def split: if_splits)
      moreover have "version_in a k = Some (?vs k)" using v(2) False by (auto simp: version_text_def split: option.splits)
      ultimately show ?thesis using assms(7) j(1) v(1) version_in_proper [OF assms(2)] by (auto simp: undoable_def)
    qed simp
  qed
  obtain s' batch' where u: "undoLoop env ?vs ?os ?s batch = (Ok (), s', batch')" "caches_ok outs s'" "xmDB s' = xmDB s"
      "tabs (kvWrite batch' (xmDB s)) = undoTabs (delVersion outs) ?vs ?os (tabs (kvWrite batch (xmDB s)))"
    using undoLoop_ok [OF s(1), of env ?os ?vs batch] readable assms(4) unfolding s(2) by blast
  have "restores a (undoTabs (delVersion outs) ?vs ?os (tabs (kvWrite batch (xmDB s))))"
  proof (rule undo_restores [OF _ assms(8)])
    show "sorted_tabs (delVersion outs) a" using assms(2) by (simp add: tables_ok_def)
    show "\<forall>k. writers k ?os \<noteq> [] \<longrightarrow> ?vs k = version_text (version_in a k)" using read by blast
    show "\<forall>k v. version_in a k = Some v \<longrightarrow> v \<noteq> []" using version_in_proper [OF assms(2)] proper_nonempty by blast
    show "\<forall>k. \<forall>out\<in>set (writers k ?os). isDelFlag (oeValue out) \<longrightarrow> ?vs k \<noteq> []"
      using assms(7) by (auto simp: undoable_def writers_def)
  qed
  with u show ?thesis by (auto simp: xmUndoTx_def)
qed

lemma do_undo_all:
  assumes "xmDoAll env txs i s batch = (Ok (), s1, batch1)" and "\<forall>tx\<in>set txs. known_tx outs tx"
    and "caches_ok outs s" and "ledger_ok outs env (xmDB s)" and "in_batch i s batch" and "tables_ok outs (tabs (kvWrite batch (xmDB s)))"
    and "caches_ok outs s2" and "ledger_ok outs env (xmDB s2)" and "\<forall>tx\<in>set txs. undoable env (xmDB s2) tx"
    and "restores (tabs (kvWrite batch1 (xmDB s))) (tabs (kvWrite batch2 (xmDB s2)))"
  shows "\<exists>s3 batch3. xmUndoAll env (rev txs) j s2 batch2 = (Ok (), s3, batch3) \<and> caches_ok outs s3 \<and> xmDB s3 = xmDB s2
    \<and> restores (tabs (kvWrite batch (xmDB s))) (tabs (kvWrite batch3 (xmDB s2)))"
  using assms
proof (induction txs arbitrary: s batch)
  case Nil
  then show ?case by simp
next
  case (Cons tx txs)
  obtain s' b' where d: "xmDoTx env tx i s batch = (Ok (), s', b')" "xmDoAll env txs i s' b' = (Ok (), s1, batch1)"
    using Cons.prems(1) by (cases "xmDoTx env tx i s batch"; cases "fst (xmDoTx env tx i s batch)") auto
  have tx: "known_tx outs tx" "undoable env (xmDB s2) tx" using Cons.prems(2,9) by auto
  note ok = xmDoTx_ok [OF tx(1) Cons.prems(3-6) d(1)]
  obtain s3 b3 where u: "xmUndoAll env (rev txs) j s2 batch2 = (Ok (), s3, b3)" "caches_ok outs s3" "xmDB s3 = xmDB s2"
      "restores (tabs (kvWrite b' (xmDB s))) (tabs (kvWrite b3 (xmDB s2)))"
    using Cons.IH [OF d(2) _ ok(1) _ ok(3)] Cons.prems(2,4,7-10) ok(5) unfolding ok(2) by auto
  have w: "\<forall>k. writers k (txOutputsExt tx) \<noteq> [] \<longrightarrow> k \<in> inputKeysOf tx \<and> inputVersionMap tx k = version_text (version_in (tabs (kvWrite batch (xmDB s))) k)"
    using ok(7) verifyOutputs_ok [of "inputKeysOf tx" "txOutputsExt tx"] d(1) by (auto simp: xmDoTx_def Let_def split: prod.splits result.splits)
  from xmUndoTx_restores [OF tx(1) Cons.prems(6) u(2), of env batch3 j for batch3]
  obtain s4 b4 where "xmUndoTx env tx j s3 b3 = (Ok (), s4, b4)" "caches_ok outs s4" "xmDB s4 = xmDB s2"
      "restores (tabs (kvWrite batch (xmDB s))) (tabs (kvWrite b4 (xmDB s2)))"
    using w ok(6) tx(2) Cons.prems(8) u(4) unfolding u(3) ok(4) by blast
  then show ?case using xmUndoAll_snoc [OF u(1)] by auto
qed

section \<open>Reading at an older block\<close>

text \<open>A reference to an output, as the walk carries it, and the version it stands for.\<close>

definition refers :: "slice \<Rightarrow> int \<Rightarrow> string option \<Rightarrow> bool" where
  "refers txid off v \<longleftrightarrow> (case v of None \<Rightarrow> contents txid = [] | Some v \<Rightarrow> contents txid \<noteq> [] \<and> v = MakeVersion txid off)"

lemma writeTabs_version:
  "writers k os \<noteq> [] \<Longrightarrow> \<exists>m. version_in (writeTabs txid n os t) k = Some (MakeVersion txid (i32 (int m)))"
proof (induction txid n os t rule: writeTabs.induct)
  case (2 txid n out outs t)
  show ?case
  proof (cases "writers k outs = []")
    case True
    with "2.prems" have k: "stored out" "rawKeyOf out = k" by (auto split: if_splits)
    have "version_in (writeTabs txid (Suc n) outs u) k = version_in u k" for u
      using writeTabs_other [OF True, of txid "Suc n" u] by (auto simp: version_in_def split: option.splits)
    with k show ?thesis by (auto simp: version_in_def)
  qed (use "2.IH" in auto)
qed simp

lemma writeTabs_keeps: "writers k os = [] \<Longrightarrow> version_in (writeTabs txid n os t) k = version_in t k"
  using writeTabs_other [of k os txid n t] by (auto simp: version_in_def split: option.splits)

lemma MakeVersion_proper_inj:
  assumes "MakeVersion t off = MakeVersion t' off'" and "contents t \<noteq> []" and "contents t' \<noteq> []" and "is_i64 off" and "is_i64 off'"
  shows "contents t = contents t' \<and> off = off'"
proof -
  have "parseVersion (MakeVersion (Some (contents t)) off) = parseVersion (MakeVersion (Some (contents t')) off')"
    using assms(1) MakeVersion_contents [of t "Some (contents t)" off] MakeVersion_contents [of t' "Some (contents t')" off'] by simp
  then show ?thesis using parseVersion_Make assms(2-5) by simp
qed

text \<open>A transaction that can be looked up, in a block above a height, and that names a key as it is asked for.\<close>

definition after_block :: "XmEnv \<Rightarrow> kv \<Rightarrow> int \<Rightarrow> string \<Rightarrow> slice \<Rightarrow> Transaction \<Rightarrow> bool" where
  "after_block env db h bucket key tx \<longleftrightarrow>
     (\<exists>c. queryTx env (contents (txTxid tx)) db = Ok (tx, c))
     \<and> (\<exists>g. xeBlockHeight env (txBlockid tx) = Ok g \<and> h < g)
     \<and> (\<forall>j\<in>set (txInputsExt tx). is_i64 (ieRefOffset j) \<and> (ieRefTxid j \<noteq> None \<longrightarrow> contents (ieRefTxid j) \<noteq> []) \<and>
         (makeRawKey (ieBucket j) (ieKey j) = makeRawKey bucket key \<longrightarrow> ieBucket j = bucket \<and> contents (ieKey j) = contents key))"

lemma getPreOutExt_first:
  assumes "j \<in> set ins" and "ieBucket j = bucket" and "contents (ieKey j) = contents key"
  shows "\<exists>i\<in>set ins. ieBucket i = bucket \<and> contents (ieKey i) = contents key \<and> getPreOutExt ins bucket key = Some (ieRefTxid i, ieRefOffset i)"
  using assms by (induction ins) auto

lemma walk_over_tx:
  assumes tx: "after_block env db (blkHeight t) bucket key tx" "contents (txBlockid tx) \<noteq> []" "contents (txTxid tx) \<noteq> []"
    and ins: "\<forall>j\<in>set (txInputsExt tx). GetVersionOfTxInput j = version_text (version_in a (makeRawKey (ieBucket j) (ieKey j)))"
    and w: "writers (makeRawKey bucket key) (txOutputsExt tx) \<noteq> [] \<Longrightarrow> makeRawKey bucket key \<in> inputKeysOf tx"
    and ref: "refers txid off (version_in (writeTabs (txTxid tx) 0 (txOutputsExt tx) a) (makeRawKey bucket key))" "is_i64 off"
    and proper: "\<And>v. version_in a (makeRawKey bucket key) = Some v \<Longrightarrow> v \<noteq> []"
  shows "\<exists>txid' off'. refers txid' off' (version_in a (makeRawKey bucket key)) \<and> is_i64 off'
    \<and> snapWalk env db t bucket key txid off = snapWalk env db t bucket key txid' off'"
proof (cases "writers (makeRawKey bucket key) (txOutputsExt tx) = []")
  case True
  then show ?thesis using ref writeTabs_keeps [OF True] by auto
next
  case False
  let ?k = "makeRawKey bucket key"
  obtain m where m: "version_in (writeTabs (txTxid tx) 0 (txOutputsExt tx) a) ?k = Some (MakeVersion (txTxid tx) (i32 (int m)))"
    using writeTabs_version [OF False] by blast
  with ref have "contents txid \<noteq> []" "MakeVersion (txTxid tx) (i32 (int m)) = MakeVersion txid off" by (simp_all add: refers_def)
  then have id: "contents txid = contents (txTxid tx)" "contents txid \<noteq> []"
    using MakeVersion_proper_inj [of "txTxid tx" "i32 (int m)" txid off] tx(3) ref(2) is_i64_i32 by auto
  obtain j where "j \<in> set (txInputsExt tx)" "makeRawKey (ieBucket j) (ieKey j) = ?k" using w [OF False] by (auto simp: inputKeysOf_def)
  with tx(1) have "j \<in> set (txInputsExt tx)" "ieBucket j = bucket" "contents (ieKey j) = contents key" by (auto simp: after_block_def)
  then obtain i where i: "i \<in> set (txInputsExt tx)" "ieBucket i = bucket" "contents (ieKey i) = contents key"
      "getPreOutExt (txInputsExt tx) bucket key = Some (ieRefTxid i, ieRefOffset i)"
    using getPreOutExt_first by blast
  obtain c g where q: "queryTx env (contents (txTxid tx)) db = Ok (tx, c)" "xeBlockHeight env (txBlockid tx) = Ok g" "blkHeight t < g"
    using tx(1) by (auto simp: after_block_def)
  have "txBlockid tx \<noteq> None" using tx(2) by (cases "txBlockid tx") auto
  then have step: "snapWalk env db t bucket key txid off = snapWalk env db t bucket key (ieRefTxid i) (ieRefOffset i)"
    using id q i(4) by (subst snapWalk.simps) simp
  have "GetVersionOfTxInput i = version_text (version_in a ?k)" using ins i(1-3) by (metis makeRawKey_def)
  then have "refers (ieRefTxid i) (ieRefOffset i) (version_in a ?k)"
    using tx(1) i(1) proper by (auto simp: refers_def GetVersionOfTxInput_def version_text_def after_block_def split: option.splits if_splits)
  moreover have "is_i64 (ieRefOffset i)" using tx(1) i(1) by (simp add: after_block_def)
  ultimately show ?thesis using step by blast
qed

lemma walk_over_all:
  assumes "xmDoAll env txs i s batch = (Ok (), s1, batch1)" and "\<forall>tx\<in>set txs. known_tx outs tx"
    and "caches_ok outs s" and "ledger_ok outs env (xmDB s)" and "in_batch i s batch" and "tables_ok outs (tabs (kvWrite batch (xmDB s)))"
    and "\<forall>tx\<in>set txs. after_block env db (blkHeight t) bucket key tx"
    and "refers txid off (version_in (tabs (kvWrite batch1 (xmDB s))) (makeRawKey bucket key))" and "is_i64 off"
  shows "\<exists>txid' off'. refers txid' off' (version_in (tabs (kvWrite batch (xmDB s))) (makeRawKey bucket key)) \<and> is_i64 off'
    \<and> snapWalk env db t bucket key txid off = snapWalk env db t bucket key txid' off'"
  using assms
proof (induction txs arbitrary: s batch)
  case Nil
  then show ?case by auto
next
  case (Cons tx txs)
  obtain s' b' where d: "xmDoTx env tx i s batch = (Ok (), s', b')" "xmDoAll env txs i s' b' = (Ok (), s1, batch1)"
    using Cons.prems(1) by (cases "xmDoTx env tx i s batch"; cases "fst (xmDoTx env tx i s batch)") auto
  have tx: "known_tx outs tx" "after_block env db (blkHeight t) bucket key tx" using Cons.prems(2,7) by auto
  note ok = xmDoTx_ok [OF tx(1) Cons.prems(3-6) d(1)]
  obtain txid1 off1 where w: "refers txid1 off1 (version_in (tabs (kvWrite b' (xmDB s))) (makeRawKey bucket key))" "is_i64 off1"
      "snapWalk env db t bucket key txid off = snapWalk env db t bucket key txid1 off1"
    using Cons.IH [OF d(2) _ ok(1) _ ok(3)] Cons.prems(2,4,7-9) ok(5) unfolding ok(2) by auto
  have "makeRawKey bucket key \<in> inputKeysOf tx" if "writers (makeRawKey bucket key) (txOutputsExt tx) \<noteq> []"
    using verifyOutputs_ok [OF _ that] d(1) by (auto simp: xmDoTx_def Let_def split: prod.splits result.splits)
  from walk_over_tx [OF tx(2) _ _ ok(6) this w(1) [unfolded ok(4)] w(2)] tx(1) w(3) version_in_proper [OF Cons.prems(6)] proper_nonempty
  show ?case by (auto simp: known_tx_def)
qed

text \<open>The version a key had at a block: it was written in that block or before, and can be looked up.\<close>

definition at_block :: "XmEnv \<Rightarrow> kv \<Rightarrow> int \<Rightarrow> string \<Rightarrow> slice \<Rightarrow> string \<Rightarrow> bool" where
  "at_block env db h bucket key v \<longleftrightarrow>
     (\<exists>tx c off g. queryTx env (contents (txTxid tx)) db = Ok (tx, c) \<and> contents (txTxid tx) \<noteq> [] \<and> off < length (txOutputsExt tx)
        \<and> int off < 2 ^ 31 \<and> v = MakeVersion (txTxid tx) (int off) \<and> txBlockid tx \<noteq> None \<and> xeBlockHeight env (txBlockid tx) = Ok g
        \<and> g \<le> h \<and> getPreOutExt (txInputsExt tx) bucket key \<noteq> None)"

lemma walk_at_block:
  assumes "ledger_ok outs env db" and "refers txid off v" and "is_i64 off" and "\<forall>w. v = Some w \<longrightarrow> at_block env db (blkHeight t) bucket key w"
  shows "\<exists>r. snapWalk env db t bucket key txid off = Some (Ok r)
    \<and> (case v of None \<Rightarrow> r = None | Some w \<Rightarrow> \<exists>d. r = Some d \<and> names outs w d)"
proof (cases v)
  case None
  then show ?thesis using assms(2) by (subst snapWalk.simps) (simp add: refers_def)
next
  case (Some w)
  with assms(4) have "at_block env db (blkHeight t) bucket key w" by blast
  then obtain tx c n g where tx: "queryTx env (contents (txTxid tx)) db = Ok (tx, c)" "contents (txTxid tx) \<noteq> []" "n < length (txOutputsExt tx)"
      "int n < 2 ^ 31" "w = MakeVersion (txTxid tx) (int n)" "txBlockid tx \<noteq> None" "xeBlockHeight env (txBlockid tx) = Ok g"
      "g \<le> blkHeight t" "getPreOutExt (txInputsExt tx) bucket key \<noteq> None"
    by (auto simp: at_block_def)
  have n: "is_i64 (int n)" using tx(4) by (simp add: is_i64_def)
  have t: "contents txid \<noteq> []" "w = MakeVersion txid off" using assms(2) Some by (simp_all add: refers_def)
  then have id: "contents txid = contents (txTxid tx)" "off = int n"
    using MakeVersion_proper_inj [of txid off "txTxid tx" "int n"] tx(2,5) assms(3) n by auto
  obtain txid' off' where p: "getPreOutExt (txInputsExt tx) bucket key = Some (txid', off')" using tx(9) by auto
  have "snapWalk env db t bucket key txid off = Some (Ok (genVerDataByTx tx off))"
    using t id tx p by (subst snapWalk.simps) auto
  moreover have "genVerDataByTx tx off = Some (outputData (txTxid tx) (int n) (txOutputsExt tx ! n))"
    using id(2) tx(3) by (simp add: genVerDataByTx_def)
  moreover have "names outs w (outputData (txTxid tx) (int n) (txOutputsExt tx ! n))"
  proof -
    have "parseVersion w = Some (contents (txTxid tx), int n)"
      using parseVersion_Make [OF tx(2) n] MakeVersion_contents [of "txTxid tx" "Some (contents (txTxid tx))"] tx(5) by simp
    moreover have "txOutputsExt tx = outs (contents (txTxid tx))" using assms(1) tx(1) by (simp add: ledger_ok_def)
    moreover have "txTxid tx \<noteq> None" using tx(2) by (cases "txTxid tx") auto
    ultimately show ?thesis using tx(2,3,5) n by (auto simp: names_def outputData_def GetVersion_def verValue_def)
  qed
  ultimately show ?thesis using Some by auto
qed

lemma xmDoAll_ok:
  assumes "xmDoAll env txs i s batch = (Ok (), s1, batch1)" and "\<forall>tx\<in>set txs. known_tx outs tx"
    and "caches_ok outs s" and "ledger_ok outs env (xmDB s)" and "in_batch i s batch" and "tables_ok outs (tabs (kvWrite batch (xmDB s)))"
  shows "caches_ok outs s1" and "xmDB s1 = xmDB s" and "tables_ok outs (tabs (kvWrite batch1 (xmDB s)))"
proof -
  have "caches_ok outs s1 \<and> xmDB s1 = xmDB s \<and> tables_ok outs (tabs (kvWrite batch1 (xmDB s)))"
    using assms
  proof (induction txs arbitrary: s batch)
    case (Cons tx txs)
    obtain s' b' where d: "xmDoTx env tx i s batch = (Ok (), s', b')" "xmDoAll env txs i s' b' = (Ok (), s1, batch1)"
      using Cons.prems(1) by (cases "xmDoTx env tx i s batch"; cases "fst (xmDoTx env tx i s batch)") auto
    have "known_tx outs tx" using Cons.prems(2) by simp
    note ok = xmDoTx_ok [OF this Cons.prems(3-6) d(1)]
    show ?case using Cons.IH [OF d(2) _ ok(1) _ ok(3)] Cons.prems(2,4) ok(5) unfolding ok(2) by simp
  qed simp
  then show "caches_ok outs s1" "xmDB s1 = xmDB s" "tables_ok outs (tabs (kvWrite batch1 (xmDB s)))" by blast+
qed

lemma xmGet_refers:
  assumes "caches_ok outs s" and "ledger_ok outs env (xmDB s)" and "tables_ok outs (tabs (xmDB s))" and "xmGet env bucket key s = (Ok d, s')"
  shows "refers (vdRefTxid d) (vdRefOffset d) (version_in (tabs (xmDB s)) (makeRawKey bucket key))" and "is_i64 (vdRefOffset d)"
    and "xmDB s' = xmDB s"
proof -
  let ?k = "makeRawKey bucket key"
  have "refers (vdRefTxid d) (vdRefOffset d) (version_in (tabs (xmDB s)) ?k) \<and> is_i64 (vdRefOffset d) \<and> xmDB s' = xmDB s"
  proof (cases "version_in (tabs (xmDB s)) ?k")
    case None
    then show ?thesis using assms(4)
      by (auto simp: xmGet_def version_in_def tabs_def makeEmptyVersionedData_def refers_def is_i64_def Let_def split: option.splits)
  next
    case (Some v)
    have "fetchVersionedData env bucket v s = (Ok d, s')"
      using assms(4) Some by (auto simp: xmGet_def version_in_def tabs_def Let_def split: option.splits)
    then have "names outs v d" "same_batch s s'"
      using fetch_ok(2,3) [OF assms(1,2) version_in_proper [OF assms(3) Some]] by blast+
    then show ?thesis using Some by (auto simp: names_def refers_def GetVersion_def same_batch_def split: if_splits)
  qed
  then show "refers (vdRefTxid d) (vdRefOffset d) (version_in (tabs (xmDB s)) ?k)" "is_i64 (vdRefOffset d)" "xmDB s' = xmDB s" by blast+
qed

section \<open>Properties\<close>


definition demo_in :: "slice \<Rightarrow> TxInputExt" where
  "demo_in r = \<lparr>ieBucket = ''b'', ieKey = Some ''k'', ieRefTxid = r, ieRefOffset = 0\<rparr>"

definition demo_out :: "bytes \<Rightarrow> TxOutputExt" where
  "demo_out v = \<lparr>oeBucket = ''b'', oeKey = Some ''k'', oeValue = Some v\<rparr>"

definition demo_put :: Transaction where
  "demo_put = (bare_tx ''p'')\<lparr>txBlockid := Some ''P'', txInputsExt := [demo_in None], txOutputsExt := [demo_out ''v'']\<rparr>"

definition demo_del :: Transaction where
  "demo_del = (bare_tx ''d'')\<lparr>txBlockid := Some ''D'', txInputsExt := [demo_in (Some ''p'')], txOutputsExt := [demo_out DelFlag]\<rparr>"

definition demo_outs :: "bytes \<Rightarrow> TxOutputExt list" where
  "demo_outs i = (if i = ''p'' then [demo_out ''v''] else if i = ''d'' then [demo_out DelFlag] else [])"

definition demo_env :: XmEnv where
  "demo_env = \<lparr>xeDecodeTx = \<lambda>_. None,
     xeQueryTransaction = \<lambda>i. if i = ''p'' then Ok demo_put else if i = ''d'' then Ok demo_del else Err ''not found'',
     xeHasTransaction = \<lambda>_. Ok True,
     xeBlockHeight = \<lambda>b. if b = Some ''P'' then Ok 5 else Ok 9\<rparr>"

lemmas demo_defs = demo_put_def demo_del_def demo_in_def demo_out_def bare_tx_def demo_outs_def

lemma demo_ledger: "ledger_ok demo_outs demo_env db"
  by (auto simp: ledger_ok_def queryTx_def queryUnconfirmTx_def demo_env_def demo_defs bind_result_Ok_iff split: option.splits if_splits)

lemma demo_known: "known_tx demo_outs demo_put" "known_tx demo_outs demo_del"
  by (simp_all add: known_tx_def demo_defs)

lemma NewXModel_ok: "caches_ok outs (NewXModel db)" "lastBatch (NewXModel db) = None" "xmDB (NewXModel db) = db" "tables_ok outs (tabs [])"
  by (simp_all add: caches_ok_def NewXModel_def tables_ok_def sorted_tabs_def tabs_def tableGet_def kvGet_def)

lemma demo_do: "fst (xmDoAll demo_env [demo_put, demo_del] 0 (NewXModel []) []) = Ok ()"
  "snd (snd (xmDoAll demo_env [demo_put, demo_del] 0 (NewXModel []) [])) =
     [KvPut ''ZUb/k'' ''70_0'', KvDelete ''ZUb/k'', KvPut ''ZDb/k'' ''64_0'']"
  by code_simp+

lemma demo_undoable: "undoable demo_env (kvWrite [KvPut ''ZUb/k'' ''70_0'', KvDelete ''ZUb/k'', KvPut ''ZDb/k'' ''64_0''] []) demo_put"
  "undoable demo_env (kvWrite [KvPut ''ZUb/k'' ''70_0'', KvDelete ''ZUb/k'', KvPut ''ZDb/k'' ''64_0''] []) demo_del"
  by code_simp+



definition demo_snap :: xModSnapshot where
  "demo_snap = \<lparr>blkHeight = 5, blkId = Some ''P''\<rparr>"

lemma demo_snap_do: "fst (xmDoAll demo_env [demo_del] 0 (NewXModel [(''ZUb/k'', ''70_0'')]) []) = Ok ()"
  "snd (snd (xmDoAll demo_env [demo_del] 0 (NewXModel [(''ZUb/k'', ''70_0'')]) [])) = [KvDelete ''ZUb/k'', KvPut ''ZDb/k'' ''64_0'']"
  "is_ok (fst (xmGet demo_env ''b'' (Some ''k'') ((fst (snd (xmDoAll demo_env [demo_del] 0 (NewXModel [(''ZUb/k'', ''70_0'')]) [])))
     \<lparr>xmDB := kvWrite [KvDelete ''ZUb/k'', KvPut ''ZDb/k'' ''64_0''] [(''ZUb/k'', ''70_0'')]\<rparr>)))"
  "dbVersion [(''ZUb/k'', ''70_0'')] ''b/k'' = Some ''70_0''" "verValue demo_outs ''70_0'' = Some ''v''"
  "makeRawKey ''b'' (Some ''k'') = ''b/k''" "MakeVersion (Some ''p'') 0 = ''70_0''"
  by code_simp+

lemma demo_snap_tables: "tables_ok demo_outs (tabs [(''ZUb/k'', ''70_0'')])"
proof -
  have "proper ''70_0''" unfolding proper_def using demo_snap_do(7) by (intro exI [of _ "''p''"] exI [of _ 0]) simp
  moreover have "\<not> delVersion demo_outs ''70_0''" by (simp add: demo_snap_do(5) isDelFlag_def DelFlag_def)
  ultimately show ?thesis
    by (auto simp: tables_ok_def sorted_tabs_def tabs_def tableGet_def kvGet_def table_prefixes split: if_splits)
qed

lemma demo_blocks: "queryUnconfirmTx demo_env ''d'' db = Ok None \<Longrightarrow> after_block demo_env db 5 ''b'' (Some ''k'') demo_del"
  "queryUnconfirmTx demo_env ''p'' db = Ok None \<Longrightarrow> at_block demo_env db 5 ''b'' (Some ''k'') ''70_0''"
proof -
  assume "queryUnconfirmTx demo_env ''d'' db = Ok None"
  then have "queryTx demo_env ''d'' db = Ok (demo_del, True)" by (simp add: queryTx_def demo_env_def)
  then show "after_block demo_env db 5 ''b'' (Some ''k'') demo_del"
    by (auto simp: after_block_def demo_defs demo_env_def is_i64_def)
next
  assume "queryUnconfirmTx demo_env ''p'' db = Ok None"
  then have p: "queryTx demo_env ''p'' db = Ok (demo_put, True)" by (simp add: queryTx_def demo_env_def)
  show "at_block demo_env db 5 ''b'' (Some ''k'') ''70_0''"
    unfolding at_block_def
    by (rule exI [of _ demo_put], rule exI [of _ True], rule exI [of _ 0], rule exI [of _ 5])
      (use p demo_snap_do(7) in \<open>auto simp: demo_defs demo_env_def\<close>)
qed


section \<open>Where this fails\<close>

text \<open>
  Undoing the deletion of a key that never existed leaves the deletion in the table of deleted
  keys: the key then has the version of a transaction that is gone.
\<close>

definition demo_del_missing :: Transaction where
  "demo_del_missing = (bare_tx ''d'')\<lparr>txBlockid := Some ''D'', txInputsExt := [demo_in None], txOutputsExt := [demo_out DelFlag]\<rparr>"

lemma undo_keeps_deletion:
  "fst (xmDoTx demo_env demo_del_missing 0 (NewXModel []) []) = Ok ()
   \<and> fst (xmUndoTx demo_env demo_del_missing 1 (fst (snd (xmDoTx demo_env demo_del_missing 0 (NewXModel []) []))) []) = Ok ()
   \<and> dbVersion [] ''b/k'' = None
   \<and> dbVersion (kvWrite (snd (snd (xmUndoTx demo_env demo_del_missing 1 (fst (snd (xmDoTx demo_env demo_del_missing 0 (NewXModel []) []))) [])))
       (kvWrite (snd (snd (xmDoTx demo_env demo_del_missing 0 (NewXModel []) []))) [])) ''b/k'' = Some ''64_0''"
  by code_simp

text \<open>A read of a block's transaction at a negative offset of an existing transaction panics.\<close>

lemma negative_offset_panics:
  "fst (GetFromLedger demo_env \<lparr>ieBucket = ''b'', ieKey = Some ''k'', ieRefTxid = Some ''p'', ieRefOffset = -1\<rparr> (NewXModel [])) = Panic"
  by code_simp

text \<open>Write sets are compared by raw keys, which do not fix where the bucket ends.\<close>

lemma write_set_moves_bucket:
  "xmEqual [\<lparr>pdBucket = ''a'', pdKey = Some ''b/c'', pdValue = v\<rparr>] [\<lparr>pdBucket = ''a/b'', pdKey = Some ''c'', pdValue = v\<rparr>]"
  by (simp add: xmEqual_mset pdKeyOf_def makeRawKey_def BucketSeperator_def)

end
