(* ===== verification/Gas_Limits.thy ===== *)
theory Gas_Limits
  imports Xledger_Types
begin

text \<open>
  The resources a contract call may use and their price in gas (\<open>kernel/contract/resource.go\<close>),
  with 64-bit arithmetic.
\<close>

record Limits =
  Cpu :: int
  Memory :: int
  Disk :: int
  XFee :: int

record GasPrice =
  CpuRate :: int
  MemRate :: int
  DiskRate :: int
  XfeeRate :: int

definition maxResourceLimit :: int where "maxResourceLimit = 0xFFFFFFFF"

definition MaxLimits :: Limits where
  "MaxLimits = \<lparr>Cpu = maxResourceLimit, Memory = maxResourceLimit, Disk = maxResourceLimit, XFee = maxResourceLimit\<rparr>"

definition roundup :: "int \<Rightarrow> int \<Rightarrow> int" where
  "roundup n scale = (if scale = 0 then 0 else i64 (go_div (i64 (i64 (n + scale) - 1)) scale))"

definition TotalGas :: "Limits \<Rightarrow> GasPrice \<Rightarrow> int" where
  "TotalGas l gasPrice =
     i64 (i64 (i64 (roundup (Cpu l) (CpuRate gasPrice) + roundup (Memory l) (MemRate gasPrice))
       + roundup (Disk l) (DiskRate gasPrice)) + roundup (XFee l) (XfeeRate gasPrice))"

definition limAdd :: "Limits \<Rightarrow> Limits \<Rightarrow> Limits" where
  "limAdd l l1 = \<lparr>Cpu = i64 (Cpu l + Cpu l1), Memory = i64 (Memory l + Memory l1), Disk = i64 (Disk l + Disk l1), XFee = i64 (XFee l + XFee l1)\<rparr>"

definition limSub :: "Limits \<Rightarrow> Limits \<Rightarrow> Limits" where
  "limSub l l1 = \<lparr>Cpu = i64 (Cpu l - Cpu l1), Memory = i64 (Memory l - Memory l1), Disk = i64 (Disk l - Disk l1), XFee = i64 (XFee l - XFee l1)\<rparr>"

definition Exceed :: "Limits \<Rightarrow> Limits \<Rightarrow> bool" where
  "Exceed l l1 \<longleftrightarrow> Cpu l > Cpu l1 \<or> Memory l > Memory l1 \<or> Disk l > Disk l1 \<or> XFee l > XFee l1"

text \<open>The types of the resources are 0 to 3; a repeated one counts once, with its last limit.\<close>

definition FromPbLimits :: "(int \<times> int) list \<Rightarrow> Limits" where
  "FromPbLimits rlimits =
     fold (\<lambda>(ty, lim) l. if ty = 0 then l\<lparr>Cpu := lim\<rparr> else if ty = 1 then l\<lparr>Memory := lim\<rparr>
       else if ty = 2 then l\<lparr>Disk := lim\<rparr> else if ty = 3 then l\<lparr>XFee := lim\<rparr> else l)
       rlimits \<lparr>Cpu = 0, Memory = 0, Disk = 0, XFee = 0\<rparr>"

definition ToPbLimits :: "Limits \<Rightarrow> (int \<times> int) list" where
  "ToPbLimits limits = [(0, Cpu limits), (1, Memory limits), (2, Disk limits), (3, XFee limits)]"

section \<open>What the gas buys\<close>

text \<open>Limits and prices for which no operation wraps around.\<close>

definition limits_ok :: "Limits \<Rightarrow> bool" where
  "limits_ok l \<longleftrightarrow> (\<forall>x\<in>{Cpu l, Memory l, Disk l, XFee l}. 0 \<le> x \<and> x < 2 ^ 60)"

definition price_ok :: "GasPrice \<Rightarrow> bool" where
  "price_ok p \<longleftrightarrow> (\<forall>x\<in>{CpuRate p, MemRate p, DiskRate p, XfeeRate p}. 0 \<le> x \<and> x < 2 ^ 60)"

lemma roundtrip_limits: "FromPbLimits (ToPbLimits l) = l"
  by (simp add: FromPbLimits_def ToPbLimits_def)

lemma roundup_exact:
  assumes "0 \<le> n" "n < 2 ^ 60" "0 < c" "c < 2 ^ 60"
  shows "roundup n c = (n + c - 1) div c" and "n \<le> c * roundup n c" and "0 \<le> roundup n c" and "roundup n c < 2 ^ 60"
proof -
  have w: "i64 (n + c) = n + c" "i64 (n + c - 1) = n + c - 1" using assms by simp_all
  have d: "0 \<le> (n + c - 1) div c" using assms by (simp add: pos_imp_zdiv_nonneg_iff)
  have "n + c - 1 \<le> (c - 1) + n * c" using assms mult_left_mono [of 1 c n] by simp
  then have "(n + c - 1) div c \<le> ((c - 1) + n * c) div c" using assms(3) by (rule zdiv_mono1)
  then have le: "(n + c - 1) div c \<le> n" using assms(3) by simp
  show eq: "roundup n c = (n + c - 1) div c"
    using assms w d le by (simp add: roundup_def go_div_nonneg)
  show "0 \<le> roundup n c" "roundup n c < 2 ^ 60" unfolding eq using d le assms(2) by auto
  have "(n + c - 1) mod c < c" using assms(3) by simp
  moreover have "c * ((n + c - 1) div c) + (n + c - 1) mod c = n + c - 1" by (rule mult_div_mod_eq)
  ultimately show "n \<le> c * roundup n c" unfolding eq by linarith
qed

lemma roundup_bounds: "0 \<le> n \<Longrightarrow> n < 2 ^ 60 \<Longrightarrow> 0 \<le> c \<Longrightarrow> c < 2 ^ 60 \<Longrightarrow> 0 \<le> roundup n c \<and> roundup n c < 2 ^ 60"
  using roundup_exact(3,4) [of n c] by (cases "c = 0") (auto simp: roundup_def)

lemma TotalGas_exact:
  assumes "limits_ok l" and "price_ok p"
  shows "TotalGas l p = roundup (Cpu l) (CpuRate p) + roundup (Memory l) (MemRate p) + roundup (Disk l) (DiskRate p) + roundup (XFee l) (XfeeRate p)"
    and "0 \<le> TotalGas l p" and "TotalGas l p < 2 ^ 62"
proof -
  have b: "0 \<le> roundup (Cpu l) (CpuRate p)" "roundup (Cpu l) (CpuRate p) < 2 ^ 60" "0 \<le> roundup (Memory l) (MemRate p)" "roundup (Memory l) (MemRate p) < 2 ^ 60"
    "0 \<le> roundup (Disk l) (DiskRate p)" "roundup (Disk l) (DiskRate p) < 2 ^ 60" "0 \<le> roundup (XFee l) (XfeeRate p)" "roundup (XFee l) (XfeeRate p) < 2 ^ 60"
    using assms roundup_bounds by (simp_all add: limits_ok_def price_ok_def)
  then show eq: "TotalGas l p = roundup (Cpu l) (CpuRate p) + roundup (Memory l) (MemRate p) + roundup (Disk l) (DiskRate p) + roundup (XFee l) (XfeeRate p)"
    by (simp add: TotalGas_def)
  show "0 \<le> TotalGas l p" "TotalGas l p < 2 ^ 62" unfolding eq using b by auto
qed

end
