(* ===== verification/Tx_Rwset.thy ===== *)
theory Tx_Rwset
  imports Acl_Tree Tx_Hash Xmodel Gas_Limits
begin

text \<open>
  The contract calls of a transaction: the calls a chain reserves (\<open>state/reserved_contract.go\<close>),
  their re-execution and the comparison of the write sets (\<open>verifyTxRWSets\<close> and its helpers in
  \<open>state/tx_verification.go\<close>, \<open>ParseContractTransferRequest\<close> in \<open>tx/tx.go\<close>), and the transaction of
  the timer tasks (\<open>GetTimerTx\<close> in \<open>state/state.go\<close>). The contract engine with its sandboxes, the
  template package and the decoder of the inputs a contract spends are parameters. The theorem
  says what the caller has paid for.
\<close>

section \<open>The environment\<close>

datatype verify_error =
  ErrVersionInvalid | ErrInvalidAutogenTx | ErrTxTooLarge | TxidMismatch | ErrInvalidSignature | ErrACLNotEnough
  | ErrContractTxAmout | ErrGasNotEnough | ErrRWSetInvalid | ErrInvalidAccount | ErrParseContractUtxos | ErrInvalidTxExt
  | ErrGetReservedContracts | SignParam | BadPublicKey | XuperSignErr | InvalidRawKey | OwnerUnconfirmed | AccountEmpty
  | OwnerNotFound | OwnerRefused | DuplicatedAmount | BadAmount | BadGasLimit | OutOfGas | ReservedMismatch
  | StaleRead | WriteSetNotEqual | ReadSetNotEqual | DecodeInputs | AclErr acl_error | ModelErr xm_error | EngineErr string
  | BadHex | QueryBlockErr | VerifyTxErr | VerifyAutoTxErr

text \<open>
  Go's \<open>(bool, error)\<close>: \<open>Ok\<close> is true with a nil error, \<open>Err\<close> is false with an error that may be
  nil (\<open>None\<close>).
\<close>

type_synonym 'a verdict = "(verify_error option, 'a) result"

record ContextConfig =
  ccInitiator :: string
  ccAuthRequire :: "string list"
  ccModule :: string
  ccContractName :: string
  ccLimits :: Limits
  ccTransferAmount :: string

text \<open>
  The contract engine over the states \<open>'s\<close> of its sandboxes: a sandbox that reads a given read
  and write set and spends given inputs, or the current state; opening a context and invoking a
  method in it (with the status and message of the answer); flushing the sandbox; and its read
  and write set. Errors are their texts, which the code inspects.
\<close>

record 's Engine =
  engFromRWSet :: "VersionedData list \<Rightarrow> PureData list \<Rightarrow> TxInput list \<Rightarrow> (string, 's) result"
  engFromState :: "(string, 's) result"
  engNewContext :: "ContextConfig \<Rightarrow> 's \<Rightarrow> (string, unit) result \<times> 's"
  engInvoke :: "ContextConfig \<Rightarrow> string \<Rightarrow> (string \<times> slice) list \<Rightarrow> 's \<Rightarrow> (string, int \<times> string) result \<times> 's"
  engFlush :: "'s \<Rightarrow> (string, unit) result \<times> 's"
  engRWSet :: "'s \<Rightarrow> (VersionedData list \<times> PureData list) option"

text \<open>
  What the verification reads: the versioned model (its reads leave it as it is but for the cache
  of values, which is not carried on), the manager of access control lists, the reserved calls
  with the executor of their templates (\<open>None\<close> when the template does not parse), the account of
  the whitelist, the gas price, and whether the managers of the chain are set.
\<close>

record 's RwEnv =
  rwEngine :: "'s Engine"
  rwXmEnv :: XmEnv
  rwModel :: XModel
  rwAclMgr :: "AclManager option"
  rwReserved :: "InvokeRequest list option"
  rwTemplate :: "bytes \<Rightarrow> string \<Rightarrow> bytes option"
  rwWhitelist :: string
  rwGasPrice :: GasPrice
  rwDecodeInputs :: "bytes \<Rightarrow> TxInput list option"
  rwIsInit :: bool
  rwSha256 :: "bytes \<Rightarrow> bytes"
  rwJson :: TxJson

section \<open>Amounts in a transaction\<close>

definition bigBytes :: "slice \<Rightarrow> int" where
  "bigBytes s = fold (\<lambda>c n. n * 256 + int (of_char c)) (contents s) 0"

definition FeePlaceholder :: string where "FeePlaceholder = ''$''"

fun transferLoop :: "InvokeRequest list \<Rightarrow> bool \<Rightarrow> int \<Rightarrow> string \<Rightarrow> (verify_error, string \<times> int) result" where
  "transferLoop [] found amount contractName = Ok (contractName, amount)"
| "transferLoop (req # reqs) found amount contractName =
     (if irAmount req = [] then transferLoop reqs found amount contractName
      else if found then Err DuplicatedAmount
      else case parse_int (irAmount req) of
          None \<Rightarrow> Err BadAmount
        | Some n \<Rightarrow> transferLoop reqs True n (irContractName req))"

definition ParseContractTransferRequest :: "InvokeRequest list \<Rightarrow> (verify_error, string \<times> int) result" where
  "ParseContractTransferRequest requests = transferLoop requests False 0 []"

fun getGasLimitFromTx :: "TxOutput list \<Rightarrow> (verify_error, int) result" where
  "getGasLimitFromTx [] = Ok 0"
| "getGasLimitFromTx (out # outs) =
     (if contents (toToAddr out) \<noteq> FeePlaceholder then getGasLimitFromTx outs
      else let gasLimit = i64 (bigBytes (toAmount out)) in if gasLimit \<le> 0 then Err BadGasLimit else Ok gasLimit)"

definition contractUtxoInputKey :: bytes where
  "contractUtxoInputKey = ''ContractUtxo.Inputs''"

definition ParseContractUtxoInputs :: "('s, 'm) RwEnv_scheme \<Rightarrow> Transaction \<Rightarrow> (verify_error, TxInput list) result" where
  "ParseContractUtxoInputs env tx =
     (let extInput = fold (\<lambda>out acc. if oeBucket out = TransientBucket \<and> contents (oeKey out) = contractUtxoInputKey
                                     then oeValue out else acc) (txOutputsExt tx) None
      in case extInput of
           None \<Rightarrow> Ok []
         | Some b \<Rightarrow> (case rwDecodeInputs env b of None \<Rightarrow> Err DecodeInputs | Some utxoInputs \<Rightarrow> Ok utxoInputs))"

section \<open>Reserved calls\<close>

fun joinComma :: "string list \<Rightarrow> string" where
  "joinComma [] = []"
| "joinComma [x] = x"
| "joinComma (x # xs) = x @ '','' @ joinComma xs"

definition genArgs :: "InvokeRequest list \<Rightarrow> string" where
  "genArgs req = joinComma (map irContractName req)"

fun collectAddrs :: "TxOutput list \<Rightarrow> string list \<Rightarrow> string list option" where
  "collectAddrs [] toAddrs = Some toAddrs"
| "collectAddrs (v # vs) toAddrs =
     (if contents (toToAddr v) = FeePlaceholder then collectAddrs vs toAddrs
      else let toAddrs' = List.insert (contents (toToAddr v)) toAddrs
           in if length toAddrs' > 2 then None else collectAddrs vs toAddrs')"

definition VerifyReservedWhitelist :: "('s, 'm) RwEnv_scheme \<Rightarrow> Transaction \<Rightarrow> (verify_error, bool) result" where
  "VerifyReservedWhitelist env tx =
     (if contents_list (rwReserved env) = [] then Ok False
      else if rwWhitelist env = [] then Ok False
      else case rwAclMgr env of
          None \<Rightarrow> Panic
        | Some mgr \<Rightarrow>
            (case GetAccountACL mgr (rwWhitelist env) of
               Panic \<Rightarrow> Panic
             | Err _ \<Rightarrow> Ok False
             | Ok None \<Rightarrow> Ok False
             | Ok (Some acl) \<Rightarrow>
                 if txDesc tx \<noteq> None \<or> txContractRequests tx \<noteq> None \<or> txInputsExt tx \<noteq> [] \<or> txOutputsExt tx \<noteq> [] then Ok False
                 else if txInputs tx = [] \<and> txOutputs tx = [] then Ok True
                 else (case txInputs tx of
                         [] \<Rightarrow> Panic
                       | i # _ \<Rightarrow>
                           let fromAddr = contents (tiFromAddr i)
                           in if \<not> list_all (\<lambda>v. contents (tiFromAddr v) = fromAddr) (txInputs tx) then Ok False
                              else case collectAddrs (txOutputs tx) [] of
                                  None \<Rightarrow> Ok False
                                | Some toAddrs \<Rightarrow>
                                    Ok (list_all (\<lambda>k. k = fromAddr \<or> map_of (contents_list (AksWeight acl)) k \<noteq> None) toAddrs))))"

definition sameCall :: "InvokeRequest \<Rightarrow> InvokeRequest \<Rightarrow> bool" where
  "sameCall r t \<longleftrightarrow> irModuleName r = irModuleName t \<and> irContractName r = irContractName t \<and> irMethodName r = irMethodName t
     \<and> list_all (\<lambda>(k, v). contents (case map_of (irArgs r) k of None \<Rightarrow> None | Some w \<Rightarrow> w) = contents v) (irArgs t)"

definition VerifyReservedContractRequests :: "InvokeRequest list \<Rightarrow> InvokeRequest list \<Rightarrow> bool" where
  "VerifyReservedContractRequests reservedReqs txReqs \<longleftrightarrow>
     length reservedReqs \<le> length txReqs \<and> list_all (\<lambda>(r, t). sameCall r t) (zip reservedReqs txReqs)"

fun fillArgs :: "(bytes \<Rightarrow> string \<Rightarrow> bytes option) \<Rightarrow> string \<Rightarrow> (string \<times> slice) list \<Rightarrow> (verify_error, (string \<times> slice) list) result" where
  "fillArgs tpl contractNames [] = Ok []"
| "fillArgs tpl contractNames ((k, v) # args) =
     (case tpl (contents v) contractNames of
        None \<Rightarrow> Panic
      | Some b \<Rightarrow> bind_result (fillArgs tpl contractNames args) (\<lambda>rest. Ok ((k, Some b) # rest)))"

fun fillReserved :: "(bytes \<Rightarrow> string \<Rightarrow> bytes option) \<Rightarrow> string \<Rightarrow> InvokeRequest list \<Rightarrow> (verify_error, InvokeRequest list) result" where
  "fillReserved tpl contractNames [] = Ok []"
| "fillReserved tpl contractNames (rc # rcs) =
     bind_result (fillArgs tpl contractNames (irArgs rc)) (\<lambda>args.
     bind_result (fillReserved tpl contractNames rcs) (\<lambda>rest. Ok (rc\<lparr>irArgs := args\<rparr> # rest)))"

definition GetReservedContractRequests :: "('s, 'm) RwEnv_scheme \<Rightarrow> InvokeRequest list \<Rightarrow> bool \<Rightarrow> (verify_error, InvokeRequest list) result" where
  "GetReservedContractRequests env req isPreExec =
     (case rwReserved env of
        None \<Rightarrow> Ok []
      | Some tpls \<Rightarrow>
          if isPreExec \<or> tpls = [] then fillReserved (rwTemplate env) (genArgs req) tpls
          else if length req < length tpls then Err ErrGetReservedContracts
          else fillReserved (rwTemplate env)
                 (if length req > length tpls then genArgs (drop (length tpls) req) else []) tpls)"

section \<open>Re-execution\<close>

definition xmErr :: "(xm_error, 'a) result \<Rightarrow> (verify_error, 'a) result" where
  "xmErr r = (case r of Ok a \<Rightarrow> Ok a | Err e \<Rightarrow> Err (ModelErr e) | Panic \<Rightarrow> Panic)"

definition engErr :: "(string, 'a) result \<Rightarrow> (verify_error, 'a) result" where
  "engErr r = (case r of Ok a \<Rightarrow> Ok a | Err e \<Rightarrow> Err (EngineErr e) | Panic \<Rightarrow> Panic)"

definition readInput :: "('s, 'm) RwEnv_scheme \<Rightarrow> Transaction \<Rightarrow> TxInputExt \<Rightarrow> (verify_error, VersionedData) result" where
  "readInput env tx txIn =
     xmErr (fst (if contents (txBlockid tx) = []
                 then xmGet (rwXmEnv env) (ieBucket txIn) (ieKey txIn) (rwModel env)
                 else GetFromLedger (rwXmEnv env) txIn (rwModel env)))"

fun readInputs :: "('s, 'm) RwEnv_scheme \<Rightarrow> Transaction \<Rightarrow> TxInputExt list \<Rightarrow> (verify_error, VersionedData list) result" where
  "readInputs env tx [] = Ok []"
| "readInputs env tx (txIn # txIns) =
     bind_result (readInput env tx txIn) (\<lambda>verData.
       if GetVersion verData \<noteq> GetVersionOfTxInput txIn then Err StaleRead
       else bind_result (readInputs env tx txIns) (\<lambda>vs. Ok (verData # vs)))"

definition writeSetOf :: "Transaction \<Rightarrow> PureData list" where
  "writeSetOf tx = map (\<lambda>o'. \<lparr>pdBucket = oeBucket o', pdKey = oeKey o', pdValue = oeValue o'\<rparr>) (txOutputsExt tx)"

definition GenRWSetFromTx :: "('s, 'm) RwEnv_scheme \<Rightarrow> Transaction \<Rightarrow> (verify_error, VersionedData list \<times> PureData list) result" where
  "GenRWSetFromTx env tx = bind_result (readInputs env tx (txInputsExt tx)) (\<lambda>inputs. Ok (inputs, writeSetOf tx))"

definition hasSuffix :: "string \<Rightarrow> string \<Rightarrow> bool" where
  "hasSuffix s p \<longleftrightarrow> length p \<le> length s \<and> drop (length s - length p) s = p"

definition reqConfig :: "Transaction \<Rightarrow> string \<Rightarrow> int \<Rightarrow> InvokeRequest \<Rightarrow> ContextConfig" where
  "reqConfig tx transName transAmount req =
     \<lparr>ccInitiator = txInitiator tx, ccAuthRequire = txAuthRequire tx, ccModule = irModuleName req, ccContractName = irContractName req,
      ccLimits = FromPbLimits (irResourceLimits req),
      ccTransferAmount = (if transName = irContractName req then itoa transAmount else [])\<rparr>"

text \<open>The calls from number \<open>i\<close> on; the first \<open>nres\<close> are reserved and use no gas.\<close>

fun invokeLoop :: "('s, 'm) RwEnv_scheme \<Rightarrow> (InvokeRequest \<Rightarrow> ContextConfig) \<Rightarrow> nat \<Rightarrow> nat \<Rightarrow> InvokeRequest list \<Rightarrow> int \<Rightarrow> 's \<Rightarrow> (verify_error, 's) result" where
  "invokeLoop env cfg nres i [] gasLimit sb = Ok sb"
| "invokeLoop env cfg nres i (req # reqs) gasLimit sb =
     (let gasLimit' = (if nres \<le> i then i64 (gasLimit - TotalGas (FromPbLimits (irResourceLimits req)) (rwGasPrice env)) else gasLimit)
      in if gasLimit' < 0 then Err OutOfGas
         else case engNewContext (rwEngine env) (cfg req) sb of
             (Panic, _) \<Rightarrow> Panic
           | (Err e, sb1) \<Rightarrow>
               if i < nres \<and> (e = ''leveldb: not found'' \<or> hasSuffix e ''not found'')
               then invokeLoop env cfg nres (Suc i) reqs gasLimit' sb1
               else Err (EngineErr e)
           | (Ok _, sb1) \<Rightarrow>
               (case engInvoke (rwEngine env) (cfg req) (irMethodName req) (irArgs req) sb1 of
                  (Panic, _) \<Rightarrow> Panic
                | (Err e, _) \<Rightarrow> Err (EngineErr e)
                | (Ok (status, message), sb2) \<Rightarrow>
                    if 400 \<le> status \<and> i < nres then Err (EngineErr message)
                    else invokeLoop env cfg nres (Suc i) reqs gasLimit' sb2))"

definition executeTx :: "('s, 'm) RwEnv_scheme \<Rightarrow> Transaction \<Rightarrow> InvokeRequest list \<Rightarrow> nat \<Rightarrow> (verify_error, unit) result" where
  "executeTx env tx req nres =
     bind_result (GenRWSetFromTx env tx) (\<lambda>(rset, wset).
     bind_result (ParseContractUtxoInputs env tx) (\<lambda>utxoInput.
     bind_result (engErr (engFromRWSet (rwEngine env) rset wset utxoInput)) (\<lambda>sandBox.
     bind_result (ParseContractTransferRequest req) (\<lambda>(transName, transAmount).
     bind_result (getGasLimitFromTx (txOutputs tx)) (\<lambda>gasLimit.
     bind_result (invokeLoop env (reqConfig tx transName transAmount) nres 0 req gasLimit sandBox) (\<lambda>sb.
       case engFlush (rwEngine env) sb of
         (Panic, _) \<Rightarrow> Panic
       | (Err e, _) \<Rightarrow> Err (EngineErr e)
       | (Ok _, sb1) \<Rightarrow>
           (case engRWSet (rwEngine env) sb1 of
              None \<Rightarrow> Panic
            | Some (_, wset') \<Rightarrow> if xmEqual wset wset' then Ok () else Err WriteSetNotEqual)))))))"

definition verifyTxRWSets :: "('s, 'm) RwEnv_scheme \<Rightarrow> Transaction \<Rightarrow> (verify_error, unit) result" where
  "verifyTxRWSets env tx =
     bind_result (VerifyReservedWhitelist env tx) (\<lambda>white.
       if white then Ok ()
       else bind_result (GetReservedContractRequests env (contents_list (txContractRequests tx)) False) (\<lambda>reservedRequests.
         if \<not> VerifyReservedContractRequests reservedRequests (contents_list (txContractRequests tx)) then Err ReservedMismatch
         else case txContractRequests tx of
             None \<Rightarrow> if txInputsExt tx \<noteq> [] \<or> txOutputsExt tx \<noteq> [] then Err ErrInvalidTxExt else Ok ()
           | Some req \<Rightarrow> executeTx env tx req (length reservedRequests)))"

section \<open>The transaction of the timer tasks\<close>

definition timerConfig :: ContextConfig where
  "timerConfig = \<lparr>ccInitiator = [], ccAuthRequire = [], ccModule = ''xkernel'', ccContractName = ''$timer_task'',
     ccLimits = MaxLimits, ccTransferAmount = []\<rparr>"

text \<open>The nonce and the time are arguments.\<close>

definition GenerateAutoTxWithRWSets :: "('s, 'm) RwEnv_scheme \<Rightarrow> string \<Rightarrow> int \<Rightarrow> TxInputExt list \<Rightarrow> TxOutputExt list \<Rightarrow> Transaction" where
  "GenerateAutoTxWithRWSets env nonce now inputs outputs =
     (let tx = (bare_tx [])\<lparr>txTxid := None, txCoinbase := False, txNonce := nonce, txTimestamp := now, txVersion := 1, txAutogen := True,
            txInputsExt := inputs, txOutputsExt := outputs\<rparr>
      in tx\<lparr>txTxid := Some (MakeTransactionID (rwSha256 env) (rwJson env) tx)\<rparr>)"

definition GetTimerTx :: "('s, 'm) RwEnv_scheme \<Rightarrow> string \<Rightarrow> int \<Rightarrow> int \<Rightarrow> (verify_error, Transaction option) result" where
  "GetTimerTx env nonce now blockHeight =
     (if \<not> rwIsInit env then Ok None
      else bind_result (engErr (engFromState (rwEngine env))) (\<lambda>sandBox.
        case engNewContext (rwEngine env) timerConfig sandBox of
          (Panic, _) \<Rightarrow> Panic
        | (Err e, _) \<Rightarrow> Err (EngineErr e)
        | (Ok _, sb1) \<Rightarrow>
            (case engInvoke (rwEngine env) timerConfig ''Do'' [(''block_height'', Some (itoa blockHeight))] sb1 of
               (Panic, _) \<Rightarrow> Panic
             | (Err e, _) \<Rightarrow> Err (EngineErr e)
             | (Ok (status, message), sb2) \<Rightarrow>
                 if 400 \<le> status then Err (EngineErr message)
                 else case engRWSet (rwEngine env) sb2 of
                     None \<Rightarrow> Ok None
                   | Some (rset, wset) \<Rightarrow> Ok (Some (GenerateAutoTxWithRWSets env nonce now (GetTxInputs rset) (GetTxOutputs wset))))))"

section \<open>What has been checked\<close>

lemma getGasLimit_nonneg: "getGasLimitFromTx outs = Ok g \<Longrightarrow> 0 \<le> g \<and> is_i64 g"
  by (induction outs) (auto simp: Let_def is_i64_def [of 0] split: if_splits)

lemma invokeLoop_gas:
  assumes "invokeLoop env cfg nres i reqs g sb = Ok sb'" and "0 \<le> g" and "is_i64 g" and "price_ok (rwGasPrice env)"
    and "\<forall>r\<in>set (drop (nres - i) reqs). limits_ok (FromPbLimits (irResourceLimits r))"
  shows "sum_list (map (\<lambda>r. TotalGas (FromPbLimits (irResourceLimits r)) (rwGasPrice env)) (drop (nres - i) reqs)) \<le> g"
  using assms
proof (induction reqs arbitrary: i g sb)
  case Nil
  then show ?case by simp
next
  case (Cons req reqs)
  let ?gas = "\<lambda>r. TotalGas (FromPbLimits (irResourceLimits r)) (rwGasPrice env)"
  define g' where "g' = (if nres \<le> i then i64 (g - ?gas req) else g)"
  have d: "drop (nres - i) (req # reqs) = (if nres \<le> i then req # drop (nres - Suc i) reqs else drop (nres - Suc i) reqs)"
    by (simp add: Suc_diff_Suc [symmetric] not_le)
  obtain sb1 where run: "0 \<le> g'" "invokeLoop env cfg nres (Suc i) reqs g' sb1 = Ok sb'"
    using Cons.prems(1) unfolding g'_def by (auto simp: Let_def split: if_splits prod.splits result.splits)
  have wrap: "is_i64 g' \<and> (nres \<le> i \<longrightarrow> g' = g - ?gas req)"
  proof (cases "nres \<le> i")
    case True
    then have "limits_ok (FromPbLimits (irResourceLimits req))" using Cons.prems(5) by simp
    then have "0 \<le> ?gas req" "?gas req < 2 ^ 62" using TotalGas_exact(2,3) Cons.prems(4) by blast+
    then have "is_i64 (g - ?gas req)" using Cons.prems(2,3) by (simp add: is_i64_def)
    then show ?thesis using True by (simp add: g'_def i64_id)
  qed (use Cons.prems(3) in \<open>simp add: g'_def\<close>)
  have "sum_list (map ?gas (drop (nres - Suc i) reqs)) \<le> g'"
    using Cons.IH [OF run(2,1)] wrap Cons.prems(4,5) d by (simp split: if_splits)
  then show ?case using wrap unfolding d by (cases "nres \<le> i") (simp_all add: g'_def)
qed

lemma engErr_Ok: "engErr r = Ok a \<longleftrightarrow> r = Ok a"
  by (cases r) (simp_all add: engErr_def)

lemma readInputs_current:
  "readInputs env tx js = Ok vs \<Longrightarrow> \<forall>j\<in>set js. \<exists>d. readInput env tx j = Ok d \<and> GetVersion d = GetVersionOfTxInput j"
  by (induction js arbitrary: vs) (auto simp: bind_result_Ok_iff split: if_splits)


text \<open>An engine whose sandbox is the list of writes, and whose every call writes one key.\<close>

definition demo_engine :: "PureData list Engine" where
  "demo_engine = \<lparr>engFromRWSet = \<lambda>_ _ _. Ok [], engFromState = Ok [], engNewContext = \<lambda>_ sb. (Ok (), sb),
     engInvoke = \<lambda>_ _ _ sb. (Ok (200, []), sb @ [\<lparr>pdBucket = ''b'', pdKey = Some ''k'', pdValue = Some ''v''\<rparr>]),
     engFlush = \<lambda>sb. (Ok (), sb), engRWSet = \<lambda>sb. Some ([], sb)\<rparr>"

definition demo_json :: TxJson where
  "demo_json = \<lparr>jsString = \<lambda>s. s, jsOutputs = \<lambda>_. [], jsRequests = \<lambda>_. [], jsStrings = \<lambda>_. [], jsSigns = \<lambda>_. [], jsXuperSign = \<lambda>_. [], jsHDInfo = \<lambda>_. []\<rparr>"

definition demo_rwenv :: "PureData list RwEnv" where
  "demo_rwenv = \<lparr>rwEngine = demo_engine, rwXmEnv = demo_env, rwModel = NewXModel [], rwAclMgr = None, rwReserved = None,
     rwTemplate = \<lambda>b _. Some b, rwWhitelist = [], rwGasPrice = \<lparr>CpuRate = 2, MemRate = 0, DiskRate = 0, XfeeRate = 1\<rparr>,
     rwDecodeInputs = \<lambda>_. None, rwIsInit = True, rwSha256 = \<lambda>b. b, rwJson = demo_json\<rparr>"

definition demo_req :: InvokeRequest where
  "demo_req = \<lparr>irModuleName = ''wasm'', irContractName = ''c'', irMethodName = ''m'', irArgs = [], irResourceLimits = [(0, 5), (3, 4)], irAmount = []\<rparr>"

definition demo_call :: Transaction where
  "demo_call = (bare_tx ''q'')\<lparr>txInputsExt := [demo_in None], txOutputsExt := [demo_out ''v''], txContractRequests := Some [demo_req],
     txOutputs := [\<lparr>toAmount = Some [CHR 0x0A], toToAddr = Some ''$'', toFrozenHeight = 0\<rparr>]\<rparr>"


section \<open>Where reserved calls fail\<close>

text \<open>
  With a whitelist, a transaction without inputs but with an output makes the whitelist check read
  the first of no inputs.
\<close>

lemma whitelist_no_inputs_panics:
  assumes "contents_list (rwReserved env) \<noteq> []" and "rwWhitelist env \<noteq> []" and "rwAclMgr env = Some mgr"
    and "GetAccountACL mgr (rwWhitelist env) = Ok (Some acl)"
    and "txDesc tx = None" and "txContractRequests tx = None" and "txInputsExt tx = []" and "txOutputsExt tx = []"
    and "txInputs tx = []" and "txOutputs tx \<noteq> []"
  shows "verifyTxRWSets env tx = Panic"
  using assms by (simp add: verifyTxRWSets_def VerifyReservedWhitelist_def)

text \<open>Arguments a reserved call prescribes may be left out: only those the transaction has are compared.\<close>

lemma reserved_args_optional:
  "VerifyReservedContractRequests [r] [r\<lparr>irArgs := []\<rparr>]"
  by (simp add: VerifyReservedContractRequests_def sameCall_def)

end
