(* ===== verification/Tx_Verification.thy ===== *)
theory Tx_Verification
  imports Tx_Rwset
begin

text \<open>
  The verification of transactions (\<open>state/tx_verification.go\<close>): signatures, the permission to
  spend outputs, to call contract methods and to write the reserved buckets, the amount handed
  to a contract, and the verification of the transactions of a block. Re-executing the contracts
  of a transaction is a parameter. The theorems say that what is spent has been authorised, and
  which transactions of an accepted block have been verified; the lemmas after them show where
  this fails.
\<close>

section \<open>The environment\<close>

text \<open>
  Beside what the contract calls need: the crypto clients of the signers' keys and the one of the
  state, the size of a message and the largest block, the nonce and time of the timer transaction,
  the ledger, and the address that may mark transactions.
\<close>

record 's VerifyEnv = "'s RwEnv" +
  veClients :: KeyClients
  veKeyOf :: "string \<Rightarrow> string option"
  veAddressOf :: "string \<Rightarrow> string option"
  veAddrMatches :: "string \<Rightarrow> string \<Rightarrow> bool"
  veVerifyXuper :: "string list \<Rightarrow> slice \<Rightarrow> bytes \<Rightarrow> bool"
  veTxSize :: "Transaction \<Rightarrow> int"
  veMaxBlockSize :: int
  veNonce :: string
  veNow :: int
  veQueryTx :: "slice \<Rightarrow> Transaction option"
  veBlockHeight :: "slice \<Rightarrow> int option"
  veModifyBlockAddr :: string

definition fromAcl :: "(acl_error, bool) result \<Rightarrow> unit verdict" where
  "fromAcl r = (case r of Ok True \<Rightarrow> Ok () | Ok False \<Rightarrow> Err None | Err e \<Rightarrow> Err (Some (AclErr e)) | Panic \<Rightarrow> Panic)"

text \<open>The error a caller reports instead of the one it got.\<close>

definition instead :: "'a verdict \<Rightarrow> verify_error \<Rightarrow> 'a verdict" where
  "instead r e = (case r of Ok a \<Rightarrow> Ok a | Err _ \<Rightarrow> Err (Some e) | Panic \<Rightarrow> Panic)"

section \<open>Signatures\<close>

text \<open>The addresses with a verified signature are a list without order; the code has a map.\<close>

fun initiatorSigns :: "'s VerifyEnv \<Rightarrow> string \<Rightarrow> bytes \<Rightarrow> SignatureInfo list \<Rightarrow> string list \<Rightarrow> string list \<Rightarrow> (string list \<times> string list) verdict" where
  "initiatorSigns env initiator digest [] verifiedAddr initiatorAddr = Ok (verifiedAddr, initiatorAddr)"
| "initiatorSigns env initiator digest (sign # signs) verifiedAddr initiatorAddr =
     (case veKeyOf env (siPublicKey sign) of
        None \<Rightarrow> Err (Some BadPublicKey)
      | Some ak \<Rightarrow>
          (case veAddressOf env ak of
             None \<Rightarrow> Err (Some BadPublicKey)
           | Some addr \<Rightarrow>
               (case IdentifyAK (veClients env) addr (Some sign) digest of
                  (ok, err) \<Rightarrow>
                    if \<not> ok then Err (map_option AclErr err)
                    else initiatorSigns env initiator digest signs (List.insert addr verifiedAddr)
                           (initiatorAddr @ [initiator @ ''/'' @ addr]))))"

definition verifyInitiator :: "'s VerifyEnv \<Rightarrow> Transaction \<Rightarrow> bytes \<Rightarrow> string list verdict" where
  "verifyInitiator env tx digest =
     (if IsAccount (txInitiator tx) = 0
      then (case IdentifyAK (veClients env) (txInitiator tx) (Some (hd (txInitiatorSigns tx))) digest of
              (ok, err) \<Rightarrow> if err \<noteq> None \<or> \<not> ok then Err (map_option AclErr err) else Ok [txInitiator tx])
      else if IsAccount (txInitiator tx) = 1
      then bind_result (initiatorSigns env (txInitiator tx) digest (txInitiatorSigns tx) [] []) (\<lambda>(verifiedAddr, initiatorAddr).
             bind_result (fromAcl (IdentifyAccount (rwAclMgr env) (txInitiator tx) initiatorAddr)) (\<lambda>_. Ok verifiedAddr))
      else Err (Some ErrInvalidSignature))"

fun verifyAuthRequire :: "'s VerifyEnv \<Rightarrow> bytes \<Rightarrow> (string \<times> SignatureInfo) list \<Rightarrow> string list \<Rightarrow> string list verdict" where
  "verifyAuthRequire env digest [] verifiedAddr = Ok verifiedAddr"
| "verifyAuthRequire env digest ((authReq, signInfo) # rest) verifiedAddr =
     (let addr = last (SplitAccountURI authReq)
      in if addr \<in> set verifiedAddr then verifyAuthRequire env digest rest verifiedAddr
         else case IdentifyAK (veClients env) addr (Some signInfo) digest of
             (ok, err) \<Rightarrow>
               if err \<noteq> None \<or> \<not> ok then Err (map_option AclErr err)
               else verifyAuthRequire env digest rest (List.insert addr verifiedAddr))"

fun uniqueAddrs :: "string list \<Rightarrow> string list \<Rightarrow> string list" where
  "uniqueAddrs [] addrList = addrList"
| "uniqueAddrs (authReq # rest) addrList =
     (let addr = last (SplitAccountURI authReq)
      in if addr \<in> set addrList then uniqueAddrs rest addrList else uniqueAddrs rest (addrList @ [addr]))"

definition verifyXuperSign :: "'s VerifyEnv \<Rightarrow> Transaction \<Rightarrow> XuperSignature \<Rightarrow> bytes \<Rightarrow> string list verdict" where
  "verifyXuperSign env tx xs digest =
     (let addrList = uniqueAddrs (txAuthRequire tx) [txInitiator tx]
      in if length addrList \<noteq> length (xsPublicKeys xs) then Err (Some XuperSignErr)
         else if list_ex (\<lambda>pub. veKeyOf env (contents pub) = None) (xsPublicKeys xs) then Err (Some XuperSignErr)
         else let pubkeys = map (\<lambda>pub. the (veKeyOf env (contents pub))) (xsPublicKeys xs)
              in if \<not> list_all (\<lambda>(addr, k). veAddrMatches env addr k) (zip addrList pubkeys) then Err (Some XuperSignErr)
                 else if \<not> veVerifyXuper env pubkeys (xsSignature xs) digest then Err (Some XuperSignErr)
                 else Ok addrList)"

definition verifySignatures :: "'s VerifyEnv \<Rightarrow> Transaction \<Rightarrow> bytes \<Rightarrow> string list verdict" where
  "verifySignatures env tx digest =
     (case txXuperSign tx of
        Some xs \<Rightarrow> verifyXuperSign env tx xs digest
      | None \<Rightarrow>
          if txInitiatorSigns tx = [] \<or> length (txAuthRequire tx) \<noteq> length (txAuthRequireSigns tx) then Err (Some SignParam)
          else bind_result (verifyInitiator env tx digest)
                 (verifyAuthRequire env digest (zip (txAuthRequire tx) (txAuthRequireSigns tx))))"

section \<open>Permissions\<close>

definition GenUtxoKey :: "slice \<Rightarrow> slice \<Rightarrow> int \<Rightarrow> string" where
  "GenUtxoKey addr txid offset = contents addr @ ''_'' @ utils_F txid @ ''_'' @ itoa offset"

definition utxoKeyOf :: "TxInput \<Rightarrow> string" where
  "utxoKeyOf i = GenUtxoKey (tiFromAddr i) (tiRefTxid i) (tiRefOffset i)"

definition queryAccountACL :: "'s VerifyEnv \<Rightarrow> string \<Rightarrow> (acl_error, Acl option) result" where
  "queryAccountACL env name = (case rwAclMgr env of None \<Rightarrow> Err NilManager | Some mgr \<Rightarrow> GetAccountACL mgr name)"

fun utxoPermLoop :: "'s VerifyEnv \<Rightarrow> string list \<Rightarrow> string list \<Rightarrow> TxInput list \<Rightarrow> string list \<Rightarrow> string list verdict" where
  "utxoPermLoop env authRequire conUtxoInputs [] verifiedID = Ok verifiedID"
| "utxoPermLoop env authRequire conUtxoInputs (txInput # inputs) verifiedID =
     (let name = contents (tiFromAddr txInput)
      in if utxoKeyOf txInput \<in> set conUtxoInputs \<or> name \<in> set verifiedID
         then utxoPermLoop env authRequire conUtxoInputs inputs verifiedID
         else if IsAccount name = 1
         then (case queryAccountACL env name of
                 Ok (Some acl) \<Rightarrow>
                   bind_result (instead (fromAcl (IdentifyAccount (rwAclMgr env) name authRequire)) ErrACLNotEnough)
                     (\<lambda>_. utxoPermLoop env authRequire conUtxoInputs inputs (List.insert name verifiedID))
               | Panic \<Rightarrow> Panic
               | _ \<Rightarrow> Err (Some ErrInvalidAccount))
         else if IsAccount name = 0 then Err (Some ErrInvalidSignature)
         else Err (Some ErrInvalidAccount))"

definition verifyUTXOPermission :: "'s VerifyEnv \<Rightarrow> Transaction \<Rightarrow> string list \<Rightarrow> string list verdict" where
  "verifyUTXOPermission env tx verifiedID =
     (case ParseContractUtxoInputs env tx of
        Err _ \<Rightarrow> Err (Some ErrParseContractUtxos)
      | Panic \<Rightarrow> Panic
      | Ok conUtxoInputs \<Rightarrow>
          utxoPermLoop env (txAuthRequire tx) (map utxoKeyOf conUtxoInputs) (txInputs tx) verifiedID)"

definition ownerOf :: "('s, 'm) RwEnv_scheme \<Rightarrow> string \<Rightarrow> (xm_error, VersionedData \<times> bool) result" where
  "ownerOf env contractName = fst (GetWithTxStatus (rwXmEnv env) ''XCContract2Account'' (Some contractName) (rwModel env))"

definition verifyContractOwnerPermission :: "'s VerifyEnv \<Rightarrow> string \<Rightarrow> Transaction \<Rightarrow> string list \<Rightarrow> string list verdict" where
  "verifyContractOwnerPermission env contractName tx verifiedID =
     (case ownerOf env contractName of
        Err e \<Rightarrow> Err (Some (ModelErr e))
      | Panic \<Rightarrow> Panic
      | Ok (versionData, confirmed) \<Rightarrow>
          (case vdPureData versionData of
             None \<Rightarrow> Err (Some OwnerUnconfirmed)
           | Some pureData \<Rightarrow>
               if \<not> confirmed then Err (Some OwnerUnconfirmed)
               else let accountName = contents (pdValue pureData)
                 in if accountName \<in> set verifiedID then Ok verifiedID
                    else bind_result (fromAcl (IdentifyAccount (rwAclMgr env) accountName (txAuthRequire tx)))
                           (\<lambda>_. Ok (List.insert accountName verifiedID))))"

definition accountBucket :: string where "accountBucket = ''XCAccount''"
definition contractBucket :: string where "contractBucket = ''XCContract''"
definition contract2AccountBucket :: string where "contract2AccountBucket = ''XCContract2Account''"

definition identifyOnce :: "'s VerifyEnv \<Rightarrow> string \<Rightarrow> Transaction \<Rightarrow> string list \<Rightarrow> string list verdict" where
  "identifyOnce env accountName tx verifiedID =
     (if accountName \<in> set verifiedID then Ok verifiedID
      else bind_result (fromAcl (IdentifyAccount (rwAclMgr env) accountName (txAuthRequire tx)))
             (\<lambda>_. Ok (List.insert accountName verifiedID)))"

definition rwSetPerm :: "'s VerifyEnv \<Rightarrow> Transaction \<Rightarrow> TxOutputExt \<Rightarrow> string list \<Rightarrow> string list verdict" where
  "rwSetPerm env tx ele verifiedID =
     (if oeBucket ele = accountBucket then identifyOnce env (contents (oeKey ele)) tx verifiedID
      else if oeBucket ele = contractBucket
      then if CHR 0x01 \<notin> set (contents (oeKey ele)) then Err (Some InvalidRawKey)
           else verifyContractOwnerPermission env (takeWhile (\<lambda>c. c \<noteq> CHR 0x01) (contents (oeKey ele))) tx verifiedID
      else if oeBucket ele = contract2AccountBucket
      then (case oeValue ele of
              None \<Rightarrow> Err (Some AccountEmpty)
            | Some accountName \<Rightarrow> identifyOnce env accountName tx verifiedID)
      else Ok verifiedID)"

fun rwSetPermLoop :: "'s VerifyEnv \<Rightarrow> Transaction \<Rightarrow> TxOutputExt list \<Rightarrow> string list \<Rightarrow> string list verdict" where
  "rwSetPermLoop env tx [] verifiedID = Ok verifiedID"
| "rwSetPermLoop env tx (ele # es) verifiedID = bind_result (rwSetPerm env tx ele verifiedID) (rwSetPermLoop env tx es)"

definition verifyRWSetPermission :: "'s VerifyEnv \<Rightarrow> Transaction \<Rightarrow> string list \<Rightarrow> string list verdict" where
  "verifyRWSetPermission env tx verifiedID =
     (if txContractRequests tx = None then Ok verifiedID else rwSetPermLoop env tx (txOutputsExt tx) verifiedID)"

fun contractPermLoop :: "'s VerifyEnv \<Rightarrow> string list \<Rightarrow> InvokeRequest list \<Rightarrow> unit verdict" where
  "contractPermLoop env allUsers [] = Ok ()"
| "contractPermLoop env allUsers (req # reqs) =
     bind_result (instead (fromAcl (CheckContractMethodPerm (rwAclMgr env) allUsers (irContractName req) (irMethodName req))) ErrACLNotEnough)
       (\<lambda>_. contractPermLoop env allUsers reqs)"

definition verifyContractPermission :: "'s VerifyEnv \<Rightarrow> Transaction \<Rightarrow> string list \<Rightarrow> unit verdict" where
  "verifyContractPermission env tx allUsers = contractPermLoop env allUsers (contents_list (txContractRequests tx))"

fun addUsers :: "string list \<Rightarrow> string list \<Rightarrow> string list" where
  "addUsers finalUsers [] = finalUsers"
| "addUsers finalUsers (user # us) = (if user \<in> set finalUsers then addUsers finalUsers us else addUsers (finalUsers @ [user]) us)"

definition removeDuplicateUser :: "string \<Rightarrow> string list \<Rightarrow> string list" where
  "removeDuplicateUser initiator authRequire = addUsers (if IsAccount initiator = 0 then [initiator] else []) authRequire"

definition VerifyContractPermission :: "'s VerifyEnv \<Rightarrow> string \<Rightarrow> string list \<Rightarrow> string \<Rightarrow> string \<Rightarrow> unit verdict" where
  "VerifyContractPermission env initiator authRequire contractName methodName =
     fromAcl (CheckContractMethodPerm (rwAclMgr env) (removeDuplicateUser initiator authRequire) contractName methodName)"

definition VerifyContractOwnerPermission :: "'s VerifyEnv \<Rightarrow> string \<Rightarrow> string list \<Rightarrow> unit verdict" where
  "VerifyContractOwnerPermission env contractName authRequire =
     (case ownerOf env contractName of
        Err e \<Rightarrow> Err (Some (ModelErr e))
      | Panic \<Rightarrow> Panic
      | Ok (versionData, confirmed) \<Rightarrow>
          if \<not> confirmed then Err (Some OwnerUnconfirmed)
          else let accountName = contents (case vdPureData versionData of Some pd \<Rightarrow> pdValue pd | None \<Rightarrow> None)
               in if accountName = [] then Err (Some OwnerNotFound)
                  else case fromAcl (IdentifyAccount (rwAclMgr env) accountName authRequire) of
                      Err None \<Rightarrow> Err (Some OwnerRefused)
                    | r \<Rightarrow> r)"

section \<open>Amounts\<close>

definition verifyContractTxAmount :: "Transaction \<Rightarrow> unit verdict" where
  "verifyContractTxAmount tx =
     (case ParseContractTransferRequest (contents_list (txContractRequests tx)) of
        Err e \<Rightarrow> Err (Some e)
      | Panic \<Rightarrow> Panic
      | Ok (contractName, amountCon) \<Rightarrow>
          let amountOut = sum_list (map (\<lambda>o'. bigBytes (toAmount o')) (filter (\<lambda>o'. contents (toToAddr o') = contractName) (txOutputs tx)))
          in if amountOut \<noteq> amountCon then Err (Some ErrContractTxAmout) else Ok ())"

section \<open>Transactions\<close>

text \<open>The text of an error, as far as the code looks at it.\<close>

definition errText :: "verify_error \<Rightarrow> string" where
  "errText e = (case e of EngineErr t \<Rightarrow> t | ModelErr (LedgerErr t) \<Rightarrow> t | _ \<Rightarrow> [])"

definition rwSetsVerdict :: "(verify_error, unit) result \<Rightarrow> unit verdict" where
  "rwSetsVerdict r =
     (case r of
        Err e \<Rightarrow> Err (Some (if hasPrefix (errText e) ''Gas not enough'' then ErrGasNotEnough else ErrRWSetInvalid))
      | Ok _ \<Rightarrow> Ok ()
      | Panic \<Rightarrow> Panic)"

definition TxSizePercent :: float64 where "TxSizePercent = round64 (4 / 5)"

definition truncFloat :: "float64 \<Rightarrow> int" where
  "truncFloat x = (case x of Fin r \<Rightarrow> if r < 0 then - \<lfloor>- r\<rfloor> else \<lfloor>r\<rfloor> | _ \<Rightarrow> 0)"

text \<open>The product of two finite floating point numbers; that of an \<open>int64\<close> and 0.8 is finite.\<close>

definition MaxTxSizePerBlock :: "int \<Rightarrow> int" where
  "MaxTxSizePerBlock maxBlkSize =
     (case (round64 (of_int maxBlkSize), TxSizePercent) of
        (Fin x, Fin p) \<Rightarrow> truncFloat (round64 (x * p))
      | _ \<Rightarrow> 0)"

text \<open>The checks of a transaction of version 1 or more, in order; the verified names are handed on.\<close>

definition checkTx :: "'s VerifyEnv \<Rightarrow> Transaction \<Rightarrow> unit verdict" where
  "checkTx env tx =
     (if contents (txTxid tx) \<noteq> MakeTransactionID (rwSha256 env) (rwJson env) tx then Err (Some TxidMismatch)
      else bind_result (instead (verifySignatures env tx (MakeTxDigestHash (rwSha256 env) (rwJson env) tx)) ErrInvalidSignature) (\<lambda>verifiedID.
           bind_result (instead (verifyUTXOPermission env tx verifiedID) ErrACLNotEnough) (\<lambda>verifiedID.
           bind_result (instead (verifyContractPermission env tx (removeDuplicateUser (txInitiator tx) (txAuthRequire tx))) ErrACLNotEnough) (\<lambda>_.
           bind_result (instead (verifyContractTxAmount tx) ErrContractTxAmout) (\<lambda>_.
           bind_result (instead (verifyRWSetPermission env tx verifiedID) ErrACLNotEnough) (\<lambda>_.
             rwSetsVerdict (verifyTxRWSets env tx)))))))"

definition versionOk :: "Transaction \<Rightarrow> bool \<Rightarrow> bool" where
  "versionOk tx isRootTx \<longleftrightarrow> \<not> (\<not> isRootTx \<and> txVersion tx = 0) \<and> txVersion tx \<le> 3 \<and> 0 \<le> txVersion tx"

definition ImmediateVerifyTx :: "'s VerifyEnv \<Rightarrow> Transaction \<Rightarrow> bool \<Rightarrow> unit verdict" where
  "ImmediateVerifyTx env tx isRootTx =
     (if \<not> versionOk tx isRootTx then Err (Some ErrVersionInvalid)
      else if txAutogen tx then Err (Some ErrInvalidAutogenTx)
      else if MaxTxSizePerBlock (veMaxBlockSize env) < veTxSize env tx then Err (Some ErrTxTooLarge)
      else if 0 < txVersion tx then checkTx env tx else Ok ())"

text \<open>
  The read and write sets are compared as JSON, which leaves out empty fields. A list that was
  read from the wire is nil when it is empty, that of the timer transaction is not.
\<close>

definition jsonObject :: "string list \<Rightarrow> string" where
  "jsonObject parts = ''{'' @ joinComma (filter (\<lambda>f. f \<noteq> []) parts) @ ''}''"

definition jsonField :: "string \<Rightarrow> bool \<Rightarrow> string \<Rightarrow> string" where
  "jsonField name omit value = (if omit then [] else [CHR 0x22] @ name @ [CHR 0x22] @ '':'' @ value)"

definition jsonInputExt :: "TxJson \<Rightarrow> TxInputExt \<Rightarrow> string" where
  "jsonInputExt js i = jsonObject
     [jsonField ''bucket'' (ieBucket i = []) (jsString js (ieBucket i)),
      jsonField ''key'' (contents (ieKey i) = []) (json_bytes (ieKey i)),
      jsonField ''ref_txid'' (contents (ieRefTxid i) = []) (json_bytes (ieRefTxid i)),
      jsonField ''ref_offset'' (ieRefOffset i = 0) (json_int (ieRefOffset i))]"

definition jsonOutputExt :: "TxJson \<Rightarrow> TxOutputExt \<Rightarrow> string" where
  "jsonOutputExt js o' = jsonObject
     [jsonField ''bucket'' (oeBucket o' = []) (jsString js (oeBucket o')),
      jsonField ''key'' (contents (oeKey o') = []) (json_bytes (oeKey o')),
      jsonField ''value'' (contents (oeValue o') = []) (json_bytes (oeValue o'))]"

definition jsonSlice :: "('a \<Rightarrow> string) \<Rightarrow> bool \<Rightarrow> 'a list \<Rightarrow> string" where
  "jsonSlice enc wire xs = (if wire \<and> xs = [] then ''null'' else ''['' @ joinComma (map enc xs) @ '']'')"

definition verifyAutoTxRWSets :: "TxJson \<Rightarrow> Transaction \<Rightarrow> Transaction \<Rightarrow> (verify_error, unit) result" where
  "verifyAutoTxRWSets js tx autoTx =
     (if jsonSlice (jsonInputExt js) True (txInputsExt tx) \<noteq> jsonSlice (jsonInputExt js) False (txInputsExt autoTx) then Err ReadSetNotEqual
      else if jsonSlice (jsonOutputExt js) True (txOutputsExt tx) \<noteq> jsonSlice (jsonOutputExt js) False (txOutputsExt autoTx) then Err WriteSetNotEqual
      else Ok ())"

definition ImmediateVerifyAutoTx :: "'s VerifyEnv \<Rightarrow> int \<Rightarrow> Transaction \<Rightarrow> bool \<Rightarrow> unit verdict" where
  "ImmediateVerifyAutoTx env blockHeight tx isRootTx =
     (case GetTimerTx env (veNonce env) (veNow env) blockHeight of
        Err e \<Rightarrow> Err (Some e)
      | Panic \<Rightarrow> Panic
      | Ok None \<Rightarrow> Err None
      | Ok (Some autoTx) \<Rightarrow>
          if \<not> versionOk tx isRootTx then Err (Some ErrVersionInvalid)
          else if MaxTxSizePerBlock (veMaxBlockSize env) < veTxSize env tx then Err (Some ErrTxTooLarge)
          else if 0 < txVersion tx
          then if contents (txTxid tx) \<noteq> MakeTransactionID (rwSha256 env) (rwJson env) tx then Err (Some TxidMismatch)
               else rwSetsVerdict (verifyAutoTxRWSets (rwJson env) tx autoTx)
          else Ok ())"

section \<open>Marked transactions\<close>

fun hexDecode :: "string \<Rightarrow> bytes option" where
  "hexDecode [] = Some []"
| "hexDecode [c] = None"
| "hexDecode (c # d # cs) =
     (case (hexVal c, hexVal d, hexDecode cs) of
        (Some h, Some l, Some bs) \<Rightarrow> Some (char_of (16 * h + l) # bs)
      | _ \<Rightarrow> None)"

definition emptyModify :: ModifyBlock where
  "emptyModify = \<lparr>mbEffectiveTxid = [], mbMarked = False, mbEffectiveHeight = 0, mbPublicKey = [], mbSign = []\<rparr>"

text \<open>
  The error of \<open>verifyMarkedTx\<close>, \<open>None\<close> when it is nil, and the transaction as it is left: the mark
  is reset before the digest is computed, and stays so.
\<close>

definition verifyMarkedTx :: "'s VerifyEnv \<Rightarrow> Transaction \<Rightarrow> ModifyBlock \<Rightarrow> verify_error option \<times> Transaction" where
  "verifyMarkedTx env tx mb =
     (case veClients env (mbPublicKey mb) of
        None \<Rightarrow> (Some BadPublicKey, tx)
      | Some xcc \<Rightarrow>
          (case keyOf xcc (mbPublicKey mb) of
             None \<Rightarrow> (Some BadPublicKey, tx)
           | Some ecdsaKey \<Rightarrow>
               if \<not> VerifyAddressUsingPublicKey xcc (veModifyBlockAddr env) ecdsaKey then (Some (AclErr AddressMismatch), tx)
               else (case hexDecode (mbSign mb) of
                       None \<Rightarrow> (Some BadHex, tx)
                     | Some bytesign \<Rightarrow>
                         let tx' = tx\<lparr>txModifyBlock := Some emptyModify\<rparr>;
                             digestHash = MakeTxDigestHash (rwSha256 env) (rwJson env) tx'
                         in (case verifyECDSA xcc ecdsaKey (Some bytesign) digestHash of
                               (ok, err) \<Rightarrow> (if err \<noteq> None \<or> \<not> ok then map_option AclErr err else None, tx')))))"

text \<open>Whether it passes, whether it relies on a marked transaction, and the error.\<close>

definition checkRelyOnMarkedTxid :: "'s VerifyEnv \<Rightarrow> slice \<Rightarrow> slice \<Rightarrow> bool \<times> bool \<times> verify_error option" where
  "checkRelyOnMarkedTxid env reftxid blockid =
     (case veQueryTx env reftxid of
        None \<Rightarrow> (True, False, None)
      | Some reftx \<Rightarrow>
          (case txModifyBlock reftx of
             None \<Rightarrow> (True, False, None)
           | Some mb \<Rightarrow>
               if \<not> mbMarked mb then (True, False, None)
               else if contents blockid \<noteq> []
               then (case veBlockHeight env blockid of
                       None \<Rightarrow> (False, True, Some QueryBlockErr)
                     | Some h \<Rightarrow> if h \<le> mbEffectiveHeight mb then (True, True, None) else (False, True, None))
               else (False, True, None)))"

fun relyLoop :: "'s VerifyEnv \<Rightarrow> slice \<Rightarrow> slice list \<Rightarrow> (bool \<times> bool \<times> verify_error option) option" where
  "relyLoop env blockid [] = None"
| "relyLoop env blockid (reftxid # refs) =
     (if contents reftxid = [] then relyLoop env blockid refs
      else case checkRelyOnMarkedTxid env reftxid blockid of
          (ok, rely, err) \<Rightarrow> if err \<noteq> None \<or> \<not> ok then Some (ok, rely, err) else relyLoop env blockid refs)"

text \<open>
  The flag of the loops shadows the one that is returned at the end, which stays false.
\<close>

definition verifyRelyOnMarkedTxs :: "'s VerifyEnv \<Rightarrow> Transaction \<Rightarrow> bool \<times> bool \<times> verify_error option" where
  "verifyRelyOnMarkedTxs env tx =
     (case relyLoop env (txBlockid tx) (map tiRefTxid (txInputs tx)) of
        Some r \<Rightarrow> r
      | None \<Rightarrow>
          (case relyLoop env (txBlockid tx) (map ieRefTxid (txInputsExt tx)) of
             Some r \<Rightarrow> r
           | None \<Rightarrow> (True, False, None)))"

definition verifyMarked :: "'s VerifyEnv \<Rightarrow> Transaction \<Rightarrow> (bool \<times> bool \<times> verify_error option) \<times> Transaction" where
  "verifyMarked env tx =
     (case txModifyBlock tx of
        Some mb \<Rightarrow>
          if mbMarked mb
          then (case verifyMarkedTx env tx mb of
                  (None, tx') \<Rightarrow> ((True, True, None), tx')
                | (Some e, tx') \<Rightarrow> ((False, True, Some e), tx'))
          else (verifyRelyOnMarkedTxs env tx, tx)
      | None \<Rightarrow> (verifyRelyOnMarkedTxs env tx, tx))"

text \<open>The entry point for posted transactions returns Go's pair as it is, and the transaction as left.\<close>

definition VerifyTx :: "'s VerifyEnv \<Rightarrow> Transaction \<Rightarrow> ((verify_error, bool \<times> verify_error option) result) \<times> Transaction" where
  "VerifyTx env tx =
     (case ImmediateVerifyTx env tx False of
        Ok _ \<Rightarrow> (Ok (True, None), tx)
      | Panic \<Rightarrow> (Panic, tx)
      | Err e \<Rightarrow>
          (case verifyMarked env tx of
             ((ok, isRelyOnMarkedTx, err), tx') \<Rightarrow>
               (Ok (if isRelyOnMarkedTx then (ok, err) else (False, e)), tx')))"

section \<open>Blocks\<close>

definition verifyAutogenTxValid :: "Transaction \<Rightarrow> bool" where
  "verifyAutogenTxValid tx \<longleftrightarrow> txAutogen tx \<and> \<not> (txInputsExt tx = [] \<and> txOutputsExt tx = [])"

definition afterAuto :: "'s VerifyEnv \<Rightarrow> int \<Rightarrow> Transaction \<Rightarrow> bool \<Rightarrow> (verify_error, unit) result" where
  "afterAuto env blockHeight tx isRootTx =
     (if verifyAutogenTxValid tx
      then (case ImmediateVerifyAutoTx env blockHeight tx isRootTx of Ok _ \<Rightarrow> Ok () | Err _ \<Rightarrow> Err VerifyAutoTxErr | Panic \<Rightarrow> Panic)
      else Ok ())"

text \<open>The verdict on a group of transactions, and the transactions as they are left.\<close>

fun verifyDAGTxs :: "'s VerifyEnv \<Rightarrow> int \<Rightarrow> Transaction list \<Rightarrow> bool \<Rightarrow> (string \<Rightarrow> bool) \<Rightarrow> (verify_error, unit) result \<times> Transaction list" where
  "verifyDAGTxs env blockHeight [] isRootTx unconfirmToConfirm = (Ok (), [])"
| "verifyDAGTxs env blockHeight (tx # txs) isRootTx unconfirmToConfirm =
     (let next = (case verifyDAGTxs env blockHeight txs isRootTx unconfirmToConfirm of (r, txs') \<Rightarrow> (r, tx # txs'))
      in if unconfirmToConfirm (contents (txTxid tx)) then next
         else case afterAuto env blockHeight tx isRootTx of
             Err e \<Rightarrow> (Err e, tx # txs)
           | Panic \<Rightarrow> (Panic, tx # txs)
           | Ok _ \<Rightarrow>
               if \<not> txAutogen tx \<and> \<not> txCoinbase tx
               then (case ImmediateVerifyTx env tx isRootTx of
                       Ok _ \<Rightarrow> next
                     | Panic \<Rightarrow> (Panic, tx # txs)
                     | Err _ \<Rightarrow>
                         (case verifyMarked env tx of
                            ((ok, isRelyOnMarkedTx, err), tx') \<Rightarrow>
                              (if isRelyOnMarkedTx then (case err of None \<Rightarrow> Ok () | Some e \<Rightarrow> Err e) else Err VerifyTxErr,
                               tx' # txs)))
               else next)"

definition noDepends :: "string set \<Rightarrow> Transaction \<Rightarrow> bool" where
  "noDepends previousTxids tx \<longleftrightarrow>
     list_all (\<lambda>i. contents (tiRefTxid i) \<notin> previousTxids) (txInputs tx)
     \<and> list_all (\<lambda>i. contents (ieRefTxid i) \<notin> previousTxids) (txInputsExt tx)"

fun splitLoop :: "nat \<Rightarrow> Transaction list \<Rightarrow> Transaction list \<Rightarrow> Transaction list list \<Rightarrow> string set \<Rightarrow> Transaction list list" where
  "splitLoop i [] oneDag dags previousTxids = (if oneDag = [] then dags else dags @ [oneDag])"
| "splitLoop i (tx # txs) oneDag dags previousTxids =
     (if noDepends previousTxids tx \<and> 0 < i
      then splitLoop (Suc i) txs [tx] (dags @ [oneDag]) (insert (contents (txTxid tx)) previousTxids)
      else splitLoop (Suc i) txs (oneDag @ [tx]) dags (insert (contents (txTxid tx)) previousTxids))"

definition SplitToDags :: "InternalBlock \<Rightarrow> Transaction list list" where
  "SplitToDags block = splitLoop 0 (ibTransactions block) [] [] {}"

text \<open>
  One goroutine per group, which only reads the state; \<open>order\<close> is the order in which they end. The
  error of the first that fails is kept, and a panic of any of them ends the process.
\<close>

definition verifyBlockTxs :: "'s VerifyEnv \<Rightarrow> nat list \<Rightarrow> InternalBlock \<Rightarrow> bool \<Rightarrow> (string \<Rightarrow> bool) \<Rightarrow> (verify_error, unit) result \<times> Transaction list" where
  "verifyBlockTxs env order block isRootTx unconfirmToConfirm =
     (let rs = map (\<lambda>txs. verifyDAGTxs env (ibHeight block) txs isRootTx unconfirmToConfirm) (SplitToDags block);
          verdicts = map (\<lambda>i. fst (rs ! i)) order
      in (if Panic \<in> set verdicts then Panic
          else case filter (\<lambda>r. r \<noteq> Ok ()) verdicts of [] \<Rightarrow> Ok () | r # _ \<Rightarrow> r,
          concat (map snd rs)))"

section \<open>Whose signatures have been checked\<close>

lemma instead_Ok: "instead r e = Ok a \<longleftrightarrow> r = Ok a"
  by (cases r) (simp_all add: instead_def)

lemma fromAcl_Ok: "fromAcl r = Ok u \<longleftrightarrow> r = Ok True"
  by (auto simp: fromAcl_def split: result.splits bool.splits)

text \<open>An address with a signature among those the transaction carries, or under its joint signature.\<close>

definition signedBy :: "'s VerifyEnv \<Rightarrow> Transaction \<Rightarrow> bytes \<Rightarrow> string \<Rightarrow> bool" where
  "signedBy env tx digest a \<longleftrightarrow>
     (case txXuperSign tx of
        None \<Rightarrow> \<exists>sign\<in>set (txInitiatorSigns tx) \<union> set (txAuthRequireSigns tx). fst (IdentifyAK (veClients env) a (Some sign) digest)
      | Some xs \<Rightarrow> \<exists>pubkeys. map (\<lambda>pub. veKeyOf env (contents pub)) (xsPublicKeys xs) = map Some pubkeys
          \<and> veVerifyXuper env pubkeys (xsSignature xs) digest \<and> (\<exists>k\<in>set pubkeys. veAddrMatches env a k))"

lemma initiatorSigns_signed:
  assumes "initiatorSigns env n digest signs ids paths = Ok (ids', paths')"
    and "\<forall>a\<in>set ids. \<exists>sign\<in>S. fst (IdentifyAK (veClients env) a (Some sign) digest)" and "set signs \<subseteq> S"
  shows "\<forall>a\<in>set ids'. \<exists>sign\<in>S. fst (IdentifyAK (veClients env) a (Some sign) digest)"
  using assms
proof (induction signs arbitrary: ids paths)
  case (Cons sign signs)
  obtain ak addr err where s: "veKeyOf env (siPublicKey sign) = Some ak" "veAddressOf env ak = Some addr"
      "IdentifyAK (veClients env) addr (Some sign) digest = (True, err)"
      "initiatorSigns env n digest signs (List.insert addr ids) (paths @ [n @ ''/'' @ addr]) = Ok (ids', paths')"
    using Cons.prems(1) by (auto split: option.splits prod.splits if_splits)
  show ?case
    by (rule Cons.IH [OF s(4)]) (use Cons.prems(2,3) s(3) in \<open>auto intro!: bexI [of _ sign]\<close>)
qed simp

lemma verifyAuthRequire_signed:
  assumes "verifyAuthRequire env digest pairs ids = Ok ids'"
    and "\<forall>a\<in>set ids. \<exists>sign\<in>S. fst (IdentifyAK (veClients env) a (Some sign) digest)" and "snd ` set pairs \<subseteq> S"
  shows "(\<forall>a\<in>set ids'. \<exists>sign\<in>S. fst (IdentifyAK (veClients env) a (Some sign) digest)) \<and> set ids \<subseteq> set ids'
    \<and> (\<forall>u\<in>fst ` set pairs. last (SplitAccountURI u) \<in> set ids')"
  using assms
proof (induction pairs arbitrary: ids)
  case (Cons p pairs)
  obtain u sign where p: "p = (u, sign)" by (cases p)
  show ?case
  proof (cases "last (SplitAccountURI u) \<in> set ids")
    case True
    then show ?thesis using Cons.IH [of ids] Cons.prems p by auto
  next
    case False
    obtain err where s: "IdentifyAK (veClients env) (last (SplitAccountURI u)) (Some sign) digest = (True, err)"
        "verifyAuthRequire env digest pairs (List.insert (last (SplitAccountURI u)) ids) = Ok ids'"
      using Cons.prems(1) False p by (auto simp: Let_def split: prod.splits if_splits)
    have "\<forall>a\<in>set (List.insert (last (SplitAccountURI u)) ids). \<exists>sign\<in>S. fst (IdentifyAK (veClients env) a (Some sign) digest)"
      using Cons.prems(2,3) s(1) p by (auto intro!: bexI [of _ sign])
    from Cons.IH [OF s(2) this] Cons.prems(3) p show ?thesis by auto
  qed
qed simp

lemma uniqueAddrs_all: "set (uniqueAddrs uris as) = set as \<union> (\<lambda>u. last (SplitAccountURI u)) ` set uris"
  by (induction uris as rule: uniqueAddrs.induct) (auto simp: Let_def)

lemma verifySignatures_signed:
  assumes "verifySignatures env tx digest = Ok ids"
  shows "\<forall>a\<in>set ids. signedBy env tx digest a" and "\<forall>u\<in>set (txAuthRequire tx). last (SplitAccountURI u) \<in> set ids"
    and "IsAccount (txInitiator tx) = 0 \<Longrightarrow> txInitiator tx \<in> set ids"
proof -
  let ?S = "set (txInitiatorSigns tx) \<union> set (txAuthRequireSigns tx)"
  have "(\<forall>a\<in>set ids. signedBy env tx digest a) \<and> (\<forall>u\<in>set (txAuthRequire tx). last (SplitAccountURI u) \<in> set ids)
    \<and> (IsAccount (txInitiator tx) = 0 \<longrightarrow> txInitiator tx \<in> set ids)"
  proof (cases "txXuperSign tx")
    case (Some xs)
    let ?keys = "map (\<lambda>pub. the (veKeyOf env (contents pub))) (xsPublicKeys xs)"
    have x: "verifyXuperSign env tx xs digest = Ok ids" using assms Some by (simp add: verifySignatures_def)
    then have ids: "ids = uniqueAddrs (txAuthRequire tx) [txInitiator tx]" "length ids = length (xsPublicKeys xs)"
        "\<forall>pub\<in>set (xsPublicKeys xs). veKeyOf env (contents pub) \<noteq> None" "list_all (\<lambda>(addr, k). veAddrMatches env addr k) (zip ids ?keys)"
        "veVerifyXuper env ?keys (xsSignature xs) digest"
      by (auto simp: verifyXuperSign_def Let_def list_ex_iff split: if_splits)
    have k: "map (\<lambda>pub. veKeyOf env (contents pub)) (xsPublicKeys xs) = map Some ?keys" using ids(3) by auto
    have "signedBy env tx digest a" if a: "a \<in> set ids" for a
    proof -
      obtain i where i: "i < length ids" "a = ids ! i" using a by (metis in_set_conv_nth)
      then have "veAddrMatches env a (?keys ! i)" using ids(2,4) by (simp add: list_all_length)
      moreover have "?keys ! i \<in> set ?keys" using i ids(2) by (intro nth_mem) simp
      ultimately have "\<exists>q\<in>set ?keys. veAddrMatches env a q" by (rule bexI)
      with k ids(5) show ?thesis
        unfolding signedBy_def Some option.case by (intro exI [of _ ?keys] conjI)
    qed
    then show ?thesis unfolding ids(1) uniqueAddrs_all by (simp add: ids(1))
  next
    case None
    have x: "length (txAuthRequire tx) = length (txAuthRequireSigns tx)" "txInitiatorSigns tx \<noteq> []"
      using assms None by (auto simp: verifySignatures_def split: if_splits)
    obtain ids0 where i: "verifyInitiator env tx digest = Ok ids0"
        "verifyAuthRequire env digest (zip (txAuthRequire tx) (txAuthRequireSigns tx)) ids0 = Ok ids"
      using assms None by (auto simp: verifySignatures_def bind_result_Ok_iff split: if_splits)
    have s0: "(\<forall>a\<in>set ids0. \<exists>sign\<in>?S. fst (IdentifyAK (veClients env) a (Some sign) digest)) \<and> (IsAccount (txInitiator tx) = 0 \<longrightarrow> txInitiator tx \<in> set ids0)"
    proof (cases "IsAccount (txInitiator tx) = 0")
      case True
      then have "fst (IdentifyAK (veClients env) (txInitiator tx) (Some (hd (txInitiatorSigns tx))) digest)" "ids0 = [txInitiator tx]"
        using i(1) by (auto simp: verifyInitiator_def split: prod.splits if_splits)
      moreover have "hd (txInitiatorSigns tx) \<in> ?S" using x(2) by simp
      ultimately show ?thesis by auto
    next
      case False
      then obtain paths where "initiatorSigns env (txInitiator tx) digest (txInitiatorSigns tx) [] [] = Ok (ids0, paths)"
        using i(1) by (auto simp: verifyInitiator_def bind_result_Ok_iff split: if_splits)
      from initiatorSigns_signed [OF this, of ?S] False show ?thesis by simp
    qed
    have "snd ` set (zip (txAuthRequire tx) (txAuthRequireSigns tx)) \<subseteq> ?S" "fst ` set (zip (txAuthRequire tx) (txAuthRequireSigns tx)) = set (txAuthRequire tx)"
      using x(1) by (auto simp: in_set_zip set_zip_leftD set_zip_rightD simp flip: set_map)
    with verifyAuthRequire_signed [OF i(2), of ?S] s0 None show ?thesis by (auto simp: signedBy_def)
  qed
  then show "\<forall>a\<in>set ids. signedBy env tx digest a" "\<forall>u\<in>set (txAuthRequire tx). last (SplitAccountURI u) \<in> set ids"
    "IsAccount (txInitiator tx) = 0 \<Longrightarrow> txInitiator tx \<in> set ids" by blast+
qed

section \<open>What the permission checks establish\<close>

text \<open>A name that has signed, or an account that signers control.\<close>

definition vouched :: "(string \<Rightarrow> Acl option) \<Rightarrow> string list \<Rightarrow> string \<Rightarrow> bool" where
  "vouched acl_of ids n \<longleftrightarrow> n \<in> set ids \<or> IsAccount n = 1 \<and> authorized acl_of (set ids) n"

text \<open>The paths that authorise: accounts, then an address, and no empty name.\<close>

definition properURI :: "string \<Rightarrow> bool" where
  "properURI u \<longleftrightarrow> [] \<notin> set (SplitAccountURI u) \<and> (\<forall>x\<in>set (butlast (SplitAccountURI u)). IsAccount x = 1)"

lemma IsAccount_one_nonempty: "IsAccount n = 1 \<Longrightarrow> n \<noteq> []"
  by (auto simp: IsAccount_def)

lemma identified_authorized:
  assumes "IdentifyAccount (Some mgr) n uris = Ok True" and "IsAccount n = 1"
    and "\<forall>a. GetAccountACL mgr a = Ok (acl_of a)" and "\<forall>a x. acl_of a = Some x \<longrightarrow> acl_usable x"
    and "\<forall>u\<in>set uris. properURI u" and "\<forall>u\<in>set uris. last (SplitAccountURI u) \<in> signed"
  shows "authorized acl_of signed n"
proof -
  note ne = IsAccount_one_nonempty [OF assms(2)]
  have "\<forall>u\<in>set uris. [] \<notin> set (SplitAccountURI u)" using assms(5) by (simp add: properURI_def)
  note IdentifyAccount_grants [OF assms(3,4) ne account_paths_nonempty [OF this]]
  then have g: "grants acl_of False n (acl_of n) (account_paths n uris)" using assms(1) by simp
  have "proper_path signed (n # p)" if p: "p \<in> set (account_paths n uris)" for p
  proof -
    obtain u where u: "u \<in> set uris" "2 \<le> length (SplitAccountURI u)" "hd (SplitAccountURI u) = n" "p = tl (SplitAccountURI u)"
      using p by (auto simp: account_paths_def)
    then have "SplitAccountURI u = n # p" by (cases "SplitAccountURI u") auto
    with assms(5,6) u(1) show ?thesis unfolding properURI_def proper_path_def by (metis list.discI)
  qed
  with grants_authorized [OF g] ne assms(2) show ?thesis by blast
qed

lemma utxoPermLoop_vouched:
  assumes "utxoPermLoop env uris con ins verified = Ok verified'" and "rwAclMgr env = Some mgr"
    and "\<forall>a. GetAccountACL mgr a = Ok (acl_of a)" and "\<forall>a x. acl_of a = Some x \<longrightarrow> acl_usable x"
    and "\<forall>u\<in>set uris. properURI u" and "\<forall>u\<in>set uris. last (SplitAccountURI u) \<in> set ids"
    and "\<forall>n\<in>set verified. vouched acl_of ids n"
  shows "(\<forall>i\<in>set ins. utxoKeyOf i \<in> set con \<or> vouched acl_of ids (contents (tiFromAddr i))) \<and> (\<forall>n\<in>set verified'. vouched acl_of ids n)"
  using assms(1,7)
proof (induction ins arbitrary: verified)
  case (Cons i ins)
  let ?n = "contents (tiFromAddr i)"
  show ?case
  proof (cases "utxoKeyOf i \<in> set con \<or> ?n \<in> set verified")
    case True
    then show ?thesis using Cons by (auto simp: Let_def)
  next
    case False
    then have s: "IsAccount ?n = 1" "IdentifyAccount (Some mgr) ?n uris = Ok True"
        "utxoPermLoop env uris con ins (List.insert ?n verified) = Ok verified'"
      using Cons.prems(1) assms(2)
      by (auto simp: Let_def bind_result_Ok_iff instead_Ok fromAcl_Ok split: result.splits option.splits if_splits)
    have v: "vouched acl_of ids ?n" using identified_authorized [OF s(2,1) assms(3-6)] s(1) by (simp add: vouched_def)
    then have "\<forall>n\<in>set (List.insert ?n verified). vouched acl_of ids n" using Cons.prems(2) by simp
    from Cons.IH [OF s(3) this] v show ?thesis by simp
  qed
qed simp

text \<open>Names the last checks identify that are no account names carry no claim.\<close>

lemma identifyOnce_vouched:
  assumes "identifyOnce env n tx verified = Ok verified'" and "rwAclMgr env = Some mgr"
    and "\<forall>a. GetAccountACL mgr a = Ok (acl_of a)" and "\<forall>a x. acl_of a = Some x \<longrightarrow> acl_usable x"
    and "\<forall>u\<in>set (txAuthRequire tx). properURI u" and "\<forall>u\<in>set (txAuthRequire tx). last (SplitAccountURI u) \<in> set ids"
    and "\<forall>n\<in>set verified. IsAccount n = 1 \<longrightarrow> vouched acl_of ids n"
  shows "(IsAccount n = 1 \<longrightarrow> vouched acl_of ids n) \<and> (\<forall>n\<in>set verified'. IsAccount n = 1 \<longrightarrow> vouched acl_of ids n)"
proof (cases "n \<in> set verified")
  case True
  then show ?thesis using assms(1,7) by (auto simp: identifyOnce_def)
next
  case False
  then have s: "IdentifyAccount (Some mgr) n (txAuthRequire tx) = Ok True" "verified' = List.insert n verified"
    using assms(1,2) by (auto simp: identifyOnce_def bind_result_Ok_iff fromAcl_Ok)
  have "vouched acl_of ids n" if "IsAccount n = 1"
    using identified_authorized [OF s(1) that assms(3-6)] that by (simp add: vouched_def)
  then show ?thesis using assms(7) s(2) by auto
qed

lemma ownerPermission_identifies:
  assumes "verifyContractOwnerPermission env c tx verified = Ok verified'"
  shows "\<exists>vd pd. ownerOf env c = Ok (vd, True) \<and> vdPureData vd = Some pd \<and> identifyOnce env (contents (pdValue pd)) tx verified = Ok verified'"
  using assms by (auto simp: verifyContractOwnerPermission_def identifyOnce_def Let_def split: result.splits option.splits prod.splits if_splits)

text \<open>The name whose permission a write to one of the reserved buckets needs.\<close>

definition writeOwner :: "'s VerifyEnv \<Rightarrow> TxOutputExt \<Rightarrow> string option" where
  "writeOwner env o' =
     (if oeBucket o' = accountBucket then Some (contents (oeKey o'))
      else if oeBucket o' = contract2AccountBucket then oeValue o'
      else if oeBucket o' = contractBucket
      then (case ownerOf env (takeWhile (\<lambda>c. c \<noteq> CHR 0x01) (contents (oeKey o'))) of
              Ok (vd, True) \<Rightarrow> map_option (\<lambda>pd. contents (pdValue pd)) (vdPureData vd)
            | _ \<Rightarrow> None)
      else None)"

lemmas bucket_defs = accountBucket_def contractBucket_def contract2AccountBucket_def

lemma rwSetPerm_identifies:
  assumes "rwSetPerm env tx o' verified = Ok verified'"
  shows "(oeBucket o' \<notin> {accountBucket, contractBucket, contract2AccountBucket} \<and> writeOwner env o' = None \<and> verified' = verified)
    \<or> (\<exists>n. writeOwner env o' = Some n \<and> identifyOnce env n tx verified = Ok verified')"
proof -
  consider (a) "oeBucket o' = accountBucket" | (c) "oeBucket o' = contractBucket" | (o) "oeBucket o' = contract2AccountBucket"
    | (n) "oeBucket o' \<notin> {accountBucket, contractBucket, contract2AccountBucket}" by blast
  then show ?thesis
  proof cases
    case c
    then have "verifyContractOwnerPermission env (takeWhile (\<lambda>c. c \<noteq> CHR 0x01) (contents (oeKey o'))) tx verified = Ok verified'"
      using assms by (auto simp: rwSetPerm_def bucket_defs split: if_splits)
    from ownerPermission_identifies [OF this] c show ?thesis by (auto simp: writeOwner_def bucket_defs)
  qed (use assms in \<open>auto simp: rwSetPerm_def writeOwner_def bucket_defs split: option.splits\<close>)
qed

lemma rwSetPermLoop_vouched:
  assumes "rwSetPermLoop env tx os verified = Ok verified'" and "rwAclMgr env = Some mgr"
    and "\<forall>a. GetAccountACL mgr a = Ok (acl_of a)" and "\<forall>a x. acl_of a = Some x \<longrightarrow> acl_usable x"
    and "\<forall>u\<in>set (txAuthRequire tx). properURI u" and "\<forall>u\<in>set (txAuthRequire tx). last (SplitAccountURI u) \<in> set ids"
    and "\<forall>n\<in>set verified. IsAccount n = 1 \<longrightarrow> vouched acl_of ids n"
  shows "\<forall>o'\<in>set os. \<forall>n. writeOwner env o' = Some n \<longrightarrow> IsAccount n = 1 \<longrightarrow> vouched acl_of ids n"
  using assms(1,7)
proof (induction os arbitrary: verified)
  case (Cons o' os)
  obtain v where v: "rwSetPerm env tx o' verified = Ok v" "rwSetPermLoop env tx os v = Ok verified'"
    using Cons.prems(1) by (auto simp: bind_result_Ok_iff)
  from rwSetPerm_identifies [OF v(1)]
  have "(\<forall>n. writeOwner env o' = Some n \<longrightarrow> IsAccount n = 1 \<longrightarrow> vouched acl_of ids n) \<and> (\<forall>n\<in>set v. IsAccount n = 1 \<longrightarrow> vouched acl_of ids n)"
  proof (elim disjE exE conjE)
    fix n assume n: "writeOwner env o' = Some n" "identifyOnce env n tx verified = Ok v"
    from identifyOnce_vouched [OF n(2) assms(2-6) Cons.prems(2)] n(1) show ?thesis by simp
  qed (use Cons.prems(2) in auto)
  with Cons.IH [OF v(2)] show ?case by simp
qed simp


text \<open>An account whose one key set is address \<open>a\<close>, and keys that sign with their own name.\<close>

definition demo_keyset :: Acl where
  "demo_keyset = \<lparr>aclPm = Some \<lparr>pmRule = SIGN_AKSET, AcceptValue = Fin 0\<rparr>, AksWeight = None,
     AkSets = Some (Some [(''1'', Some [''a''])])\<rparr>"

definition demo_acls :: "string \<Rightarrow> Acl option" where
  "demo_acls n = (if n = acct_demo then Some demo_keyset else None)"

definition demo_client :: KeyClient where
  "demo_client = \<lparr>keyOf = Some, VerifyAddressUsingPublicKey = (=), verifyECDSA = \<lambda>k s _. (s = Some k, None)\<rparr>"

definition demo_mgr :: AclManager where
  "demo_mgr = \<lparr>GetAccountACL = \<lambda>n. Ok (demo_acls n), GetContractMethodACL = \<lambda>_ _. Ok None\<rparr>"

definition demo_venv :: "PureData list VerifyEnv" where
  "demo_venv = \<lparr>rwEngine = demo_engine, rwXmEnv = demo_env, rwModel = NewXModel [], rwAclMgr = Some demo_mgr, rwReserved = None,
     rwTemplate = \<lambda>b _. Some b, rwWhitelist = [], rwGasPrice = \<lparr>CpuRate = 2, MemRate = 0, DiskRate = 0, XfeeRate = 1\<rparr>,
     rwDecodeInputs = \<lambda>_. None, rwIsInit = True, rwSha256 = \<lambda>b. b, rwJson = demo_json,
     veClients = \<lambda>_. Some demo_client, veKeyOf = Some, veAddressOf = Some, veAddrMatches = (=), veVerifyXuper = \<lambda>_ _ _. False,
     veTxSize = \<lambda>_. 300, veMaxBlockSize = 1000, veNonce = [], veNow = 0, veQueryTx = \<lambda>_. None, veBlockHeight = \<lambda>_. None,
     veModifyBlockAddr = ''m''\<rparr>"

definition demo_spend :: Transaction where
  "demo_spend = (let sg = \<lparr>siPublicKey = ''a'', siSign = Some ''a''\<rparr>;
       t = (bare_tx [])\<lparr>txVersion := 3, txInitiator := ''a'', txInitiatorSigns := [sg], txAuthRequire := [acct_demo @ ''/a''], txAuthRequireSigns := [sg],
             txInputs := [\<lparr>tiRefTxid = Some ''r'', tiRefOffset = 0, tiFromAddr = Some acct_demo, tiAmount = Some [CHR 0x05], tiFrozenHeight = 0\<rparr>,
                          \<lparr>tiRefTxid = Some ''r'', tiRefOffset = 1, tiFromAddr = Some ''a'', tiAmount = Some [CHR 0x01], tiFrozenHeight = 0\<rparr>]\<rparr>
     in t\<lparr>txTxid := Some (MakeTransactionID (\<lambda>b. b) demo_json t)\<rparr>)"

lemma limit_1000: "MaxTxSizePerBlock 1000 = 800"
proof -
  have b: "0 < n \<Longrightarrow> bitlen_int n = 1 + bitlen_int (n div 2)" "bitlen_int 0 = 0" for n by (subst bitlen_int.simps, simp)+
  have q: "quotient_of (4 / 5) = (4, 5)" "quotient_of (450359962737049625 / 562949953421312) = (450359962737049625, 562949953421312)" by code_simp+
  have f: "\<lfloor>(36028797018963968::rat) / 5\<rfloor> = 7205759403792793" "\<lfloor>450359962737049625 / 64 :: rat\<rfloor> = 7036874417766400" by (simp_all add: floor_eq_iff)
  have l: "last_bit (4 / 5) = - 53" "last_bit (450359962737049625 / 562949953421312) = - 43" by (simp_all add: last_bit_code q b two_to_def)
  have p: "TxSizePercent = Fin (3602879701896397 / 4503599627370496)"
    unfolding TxSizePercent_def by (simp add: round64_def l half_even_def two_to_def Let_def f)
  have "round64 (450359962737049625 / 562949953421312) = Fin 800" by (simp add: round64_def l half_even_def two_to_def Let_def f)
  moreover have "round64 1000 = Fin 1000" using round64_int [of 1000] by simp
  ultimately show ?thesis by (simp add: MaxTxSizePerBlock_def p truncFloat_def)
qed

lemma demo_spend_verified: "ImmediateVerifyTx demo_venv demo_spend False = Ok ()" "\<not> txAutogen demo_spend"
proof -
  have c: "checkTx demo_venv demo_spend = Ok ()" by code_simp
  have f: "versionOk demo_spend False" "\<not> txAutogen demo_spend" "0 < txVersion demo_spend" "veMaxBlockSize demo_venv = 1000" "veTxSize demo_venv demo_spend = 300"
    by code_simp+
  show "ImmediateVerifyTx demo_venv demo_spend False = Ok ()" by (simp add: ImmediateVerifyTx_def c f limit_1000)
  show "\<not> txAutogen demo_spend" by (rule f)
qed


section \<open>What the verification of a block establishes\<close>

text \<open>A transaction of a block that has been verified; coinbase transactions and empty generated ones need no check.\<close>

definition verifiedInBlock :: "'s VerifyEnv \<Rightarrow> int \<Rightarrow> bool \<Rightarrow> Transaction \<Rightarrow> bool" where
  "verifiedInBlock env height isRootTx tx \<longleftrightarrow>
     (verifyAutogenTxValid tx \<longrightarrow> ImmediateVerifyAutoTx env height tx isRootTx = Ok ())
     \<and> (txAutogen tx \<or> txCoinbase tx \<or> ImmediateVerifyTx env tx isRootTx = Ok ())"

definition unmarked :: "Transaction \<Rightarrow> bool" where
  "unmarked tx \<longleftrightarrow> (case txModifyBlock tx of None \<Rightarrow> True | Some mb \<Rightarrow> \<not> mbMarked mb)"

lemma relyLoop_unmarked:
  assumes "\<forall>i r. veQueryTx env i = Some r \<longrightarrow> unmarked r"
  shows "relyLoop env blockid refs = None"
proof (induction refs)
  case (Cons i refs)
  have "checkRelyOnMarkedTxid env i blockid = (True, False, None)"
    using assms [rule_format, of i] by (auto simp: checkRelyOnMarkedTxid_def unmarked_def split: option.splits)
  then show ?case using Cons by simp
qed simp

lemma verifyMarked_unmarked:
  assumes "\<forall>i r. veQueryTx env i = Some r \<longrightarrow> unmarked r" and "unmarked tx"
  shows "verifyMarked env tx = ((True, False, None), tx)"
  using assms(2) relyLoop_unmarked [OF assms(1)]
  by (auto simp: verifyMarked_def verifyRelyOnMarkedTxs_def unmarked_def split: option.splits)

lemma verifyDAGTxs_iff:
  assumes "\<forall>i r. veQueryTx env i = Some r \<longrightarrow> unmarked r" and "\<forall>tx\<in>set txs. unmarked tx"
  shows "fst (verifyDAGTxs env h txs isRootTx known) = Ok () \<longleftrightarrow> (\<forall>tx\<in>set txs. known (contents (txTxid tx)) \<or> verifiedInBlock env h isRootTx tx)"
  using assms(2)
proof (induction txs)
  case (Cons tx txs)
  have m: "verifyMarked env tx = ((True, False, None), tx)" using verifyMarked_unmarked [OF assms(1)] Cons.prems by simp
  have a: "afterAuto env h tx isRootTx = Ok () \<longleftrightarrow> (verifyAutogenTxValid tx \<longrightarrow> ImmediateVerifyAutoTx env h tx isRootTx = Ok ())"
    by (auto simp: afterAuto_def split: result.splits)
  have ih: "fst (verifyDAGTxs env h txs isRootTx known) = Ok () \<longleftrightarrow> (\<forall>tx\<in>set txs. known (contents (txTxid tx)) \<or> verifiedInBlock env h isRootTx tx)"
    using Cons by simp
  have "fst (verifyDAGTxs env h (tx # txs) isRootTx known) = Ok () \<longleftrightarrow>
      (known (contents (txTxid tx)) \<or> verifiedInBlock env h isRootTx tx) \<and> fst (verifyDAGTxs env h txs isRootTx known) = Ok ()"
  proof (cases "afterAuto env h tx isRootTx")
    case (Ok u)
    then show ?thesis using a m
      by (cases "ImmediateVerifyTx env tx isRootTx") (auto simp: verifiedInBlock_def Let_def split: prod.splits)
  qed (use a in \<open>auto simp: verifiedInBlock_def Let_def split: prod.splits\<close>)
  with ih show ?case by simp
qed simp

lemma splitLoop_concat: "concat (splitLoop i txs oneDag dags prev) = concat dags @ oneDag @ txs"
  by (induction i txs oneDag dags prev rule: splitLoop.induct) auto

text \<open>The groups are the block cut into consecutive pieces.\<close>

lemma SplitToDags_concat: "concat (SplitToDags block) = ibTransactions block"
  by (simp add: SplitToDags_def splitLoop_concat)

lemma first_failure:
  "(if Panic \<in> set rs then Panic else case filter (\<lambda>r. r \<noteq> Ok ()) rs of [] \<Rightarrow> Ok () | r # _ \<Rightarrow> r) = Ok () \<longleftrightarrow> (\<forall>r\<in>set rs. r = Ok ())"
proof (cases "filter (\<lambda>r. r \<noteq> Ok ()) rs")
  case (Cons r rs')
  then have "r \<in> set (filter (\<lambda>r. r \<noteq> Ok ()) rs)" by simp
  then have "r \<in> set rs" "r \<noteq> Ok ()" by simp_all
  with Cons show ?thesis by auto
qed (auto simp: filter_empty_conv)

text \<open>
  C32: A block passes exactly when all of its transactions do. The block is cut into groups that
  are verified concurrently, in whatever order they end; no transaction is left out and none is
  judged by its group. Each one is already verified in the pool, or passes the check of
  transactions, or, for a generated one with reads or writes, equals the one the node generates
  itself. This is without transactions marked by the regulator, for which it fails.
\<close>

theorem block_verified_iff:
  assumes "set order = {..<length (SplitToDags block)}"
    and "\<forall>i r. veQueryTx env i = Some r \<longrightarrow> unmarked r" and "\<forall>tx\<in>set (ibTransactions block). unmarked tx"
  shows "fst (verifyBlockTxs env order block isRootTx known) = Ok () \<longleftrightarrow>
    (\<forall>tx\<in>set (ibTransactions block). known (contents (txTxid tx)) \<or> verifiedInBlock env (ibHeight block) isRootTx tx)"
proof -
  let ?dags = "SplitToDags block"
  let ?v = "\<lambda>txs. fst (verifyDAGTxs env (ibHeight block) txs isRootTx known)"
  have mem: "(\<forall>tx\<in>set (ibTransactions block). P tx) \<longleftrightarrow> (\<forall>txs\<in>set ?dags. \<forall>tx\<in>set txs. P tx)" for P
    by (simp flip: SplitToDags_concat)
  have "fst (verifyBlockTxs env order block isRootTx known) = Ok () \<longleftrightarrow>
      (\<forall>i\<in>set order. fst (map (\<lambda>txs. verifyDAGTxs env (ibHeight block) txs isRootTx known) ?dags ! i) = Ok ())"
    unfolding verifyBlockTxs_def Let_def fst_conv first_failure by simp
  also have "\<dots> \<longleftrightarrow> (\<forall>txs\<in>set ?dags. ?v txs = Ok ())" unfolding assms(1) by (auto simp: all_set_conv_all_nth)
  also have "\<dots> \<longleftrightarrow> (\<forall>txs\<in>set ?dags. \<forall>tx\<in>set txs. known (contents (txTxid tx)) \<or> verifiedInBlock env (ibHeight block) isRootTx tx)"
    using assms(3) unfolding mem by (intro ball_cong refl verifyDAGTxs_iff [OF assms(2)]) blast
  finally show ?thesis unfolding mem .
qed

definition demo_vblock :: InternalBlock where
  "demo_vblock = \<lparr>ibVersion = 1, ibNonce = 0, ibBlockid = Some ''b'', ibPreHash = None, ibProposer = None, ibPubkey = None,
     ibMerkleRoot = None, ibHeight = 5, ibTimestamp = 0, ibTransactions = [(bare_tx ''c'')\<lparr>txCoinbase := True\<rparr>, demo_spend],
     ibTxCount = 2, ibCurTerm = 0, ibCurBlockNum = 0, ibFailedTxs = [], ibTargetBits = 0, ibJustify = None, ibInTrunk = True, ibNextHash = None, ibSign = None, ibMerkleTree = []\<rparr>"

theorem block_verified_iff_witness:
  "fst (verifyBlockTxs demo_venv [1, 0] demo_vblock False (\<lambda>_. False)) = Ok () \<and> verifiedInBlock demo_venv 5 False demo_spend"
proof -
  have "length (SplitToDags demo_vblock) = 2" by code_simp
  then have o': "set [1, 0] = {..<length (SplitToDags demo_vblock)}" by auto
  have m: "\<forall>i r. veQueryTx demo_venv i = Some r \<longrightarrow> unmarked r" by (simp add: demo_venv_def)
  have u: "\<forall>tx\<in>set (ibTransactions demo_vblock). unmarked tx" by code_simp
  have v: "verifiedInBlock demo_venv 5 False demo_spend" "verifiedInBlock demo_venv 5 False ((bare_tx ''c'')\<lparr>txCoinbase := True\<rparr>)"
    using demo_spend_verified by (simp_all add: verifiedInBlock_def verifyAutogenTxValid_def bare_tx_def)
  have "set (ibTransactions demo_vblock) = {(bare_tx ''c'')\<lparr>txCoinbase := True\<rparr>, demo_spend}" "ibHeight demo_vblock = 5" by (simp_all add: demo_vblock_def)
  with block_verified_iff [OF o' m u, of False "\<lambda>_. False"] v show ?thesis by simp
qed

section \<open>Where the verification of transactions fails\<close>

text \<open>
  A transaction that carries a mark naming the regulator's public key, with a signature that is
  well formed but wrong, passes: the crypto client then reports no error, only false, and it is
  the error that is returned. In a block, everything after it in its group is skipped too.
\<close>

lemma forged_mark_accepted:
  assumes "txModifyBlock tx = Some mb" and "mbMarked mb" and "veClients env (mbPublicKey mb) = Some xcc" and "keyOf xcc (mbPublicKey mb) = Some k"
    and "VerifyAddressUsingPublicKey xcc (veModifyBlockAddr env) k" and "hexDecode (mbSign mb) = Some sg"
    and "\<forall>digest. verifyECDSA xcc k (Some sg) digest = (False, None)"
    and "ImmediateVerifyTx env tx isRootTx = Err e" and "ImmediateVerifyTx env tx False = Err e'"
    and "\<not> txAutogen tx" and "\<not> txCoinbase tx" and "\<not> known (contents (txTxid tx))"
  shows "fst (VerifyTx env tx) = Ok (True, None)" and "fst (verifyDAGTxs env h (tx # txs) isRootTx known) = Ok ()"
proof -
  have "fst (verifyMarked env tx) = (True, True, None)"
    using assms(1-7) by (simp add: verifyMarked_def verifyMarkedTx_def Let_def)
  then obtain tx' where m: "verifyMarked env tx = ((True, True, None), tx')" by (metis prod.collapse)
  show "fst (VerifyTx env tx) = Ok (True, None)" using m assms(9) by (simp add: VerifyTx_def)
  show "fst (verifyDAGTxs env h (tx # txs) isRootTx known) = Ok ()"
    using m assms(8,10-12) by (auto simp: Let_def afterAuto_def verifyAutogenTxValid_def split: prod.splits)
qed

text \<open>
  A posted transaction that fails its verification but refers to a marked one is turned down without
  an error; the caller that looks only at the error goes on with it.
\<close>

lemma marked_reference_no_error:
  assumes "ImmediateVerifyTx env tx False = Err e" and "txModifyBlock tx = None" and "contents (txBlockid tx) = []"
    and "txInputs tx = i # ins" and "contents (tiRefTxid i) \<noteq> []"
    and "veQueryTx env (tiRefTxid i) = Some r" and "txModifyBlock r = Some mb" and "mbMarked mb"
  shows "VerifyTx env tx = (Ok (False, None), tx)"
  using assms by (simp add: VerifyTx_def verifyMarked_def verifyRelyOnMarkedTxs_def checkRelyOnMarkedTxid_def)

text \<open>A generated transaction without reads and writes is not looked at, whatever it spends.\<close>

lemma empty_generated_unchecked:
  assumes "txAutogen tx" and "txInputsExt tx = []" and "txOutputsExt tx = []"
  shows "verifyDAGTxs env h [tx] isRootTx known = (Ok (), [tx])"
  using assms by (simp add: Let_def afterAuto_def verifyAutogenTxValid_def)

text \<open>
  An address in the middle of a path counts as a member that agreed, though only the signature of the
  last name is checked: here \<open>x\<close> alone spends from an account that two of \<open>a\<close>, \<open>b\<close>, \<open>c\<close> control.
\<close>

lemma authorized_demo: "authorized acl_of_demo {''x''} n \<Longrightarrow> n \<notin> {''a'', ''b'', ''c''}"
  by (erule authorized.cases) (auto simp: IsAccount_def hasPrefix_def accountPrefix_def)

lemma middle_address_counts:
  "IdentifyAccount (Some mgr_demo) acct_demo [acct_demo @ ''/a/x'', acct_demo @ ''/c/x''] = Ok True"
  "\<not> authorized acl_of_demo {''x''} acct_demo"
proof -
  let ?uris = "[acct_demo @ ''/a/x'', acct_demo @ ''/c/x'']"
  have p: "account_paths acct_demo ?uris = [[''a'', ''x''], [''c'', ''x'']]"
    by (simp add: account_paths_def acct_demo_def SplitAccountURI_def)
  have "IdentifyAccount (Some mgr_demo) acct_demo ?uris = Ok (grants acl_of_demo False acct_demo (acl_of_demo acct_demo) (account_paths acct_demo ?uris))"
    by (rule IdentifyAccount_grants) (simp_all only: p, auto simp: mgr_demo_def acl_of_demo_def acl_demo_usable acct_demo_def split: if_splits)
  moreover have "grants acl_of_demo False acct_demo (acl_of_demo acct_demo) [[''a'', ''x''], [''c'', ''x'']]"
    by (simp add: grants.simps [of acl_of_demo False acct_demo] demo_addrs heads_def demo_weights rule_holds_def acl_of_demo_def acl_demo_pm)
  ultimately show "IdentifyAccount (Some mgr_demo) acct_demo ?uris = Ok True" unfolding p by simp
  show "\<not> authorized acl_of_demo {''x''} acct_demo"
  proof
    assume "authorized acl_of_demo {''x''} acct_demo"
    then obtain cs where cs: "\<forall>c\<in>set cs. authorized acl_of_demo {''x''} c" "fge (fsum (map (\<lambda>c. findWeightInACL c acl_demo) cs)) (Fin 2)"
      by (rule authorized.cases) (auto simp: acct_demo_def acl_of_demo_def acl_demo_pm)
    have "findWeightInACL c acl_demo = Fin (of_int 0)" if "c \<in> set cs" for c
      using authorized_demo [of c] cs(1) that by (auto simp: findWeightInACL_def acl_demo_def)
    then have m: "map (\<lambda>c. findWeightInACL c acl_demo) cs = map (\<lambda>w. Fin (of_int w)) (map (\<lambda>_. 0) cs)" by simp
    have f: "fsum (map (\<lambda>w. Fin (of_int w)) (map (\<lambda>_. 0) cs)) = Fin (of_int (sum_list (map (\<lambda>_. 0) cs)))"
      by (rule fsum_ints) (auto simp: sum_list_triv)
    show False using cs(2) unfolding m f by (simp add: sum_list_triv)
  qed
qed

end
