(* ===== verification/Utxo_Vm.thy ===== *)
theory Utxo_Vm
  imports Tx_Verification Utxo_Cache
begin

text \<open>
  The unspent outputs (\<open>state/utxo/utxo.go\<close>, \<open>utxo_item.go\<close>, \<open>merge_utxo.go\<close>, \<open>util.go\<close>): the
  entries of their table, the check that a transaction spends existing outputs and neither
  creates nor destroys value, the selection of outputs for a payment with temporary locks, the cached
  balances, and the queries; and the transfers of a running contract (\<open>utxo_sandbox.go\<close>,
  \<open>kernel/contract/sandbox/utxo.go\<close>). The database is an argument, as it is shared with the
  versioned model. Theorems: what is selected can be spent; a balance is the sum of the outputs of an
  address; and the transfers of a contract are reproduced from the inputs they used.
\<close>

section \<open>Entries of the table\<close>

text \<open>\<open>big.Int.Bytes\<close>: the absolute value, big-endian, without leading zeros.\<close>

fun natBytes :: "nat \<Rightarrow> bytes" where
  "natBytes n = (if n = 0 then [] else natBytes (n div 256) @ [char_of (n mod 256)])"

declare natBytes.simps [simp del]

definition bigIntBytes :: "int \<Rightarrow> bytes" where
  "bigIntBytes n = natBytes (nat \<bar>n\<bar>)"

text \<open>
  The JSON encoding of an item, with the line end of the encoder. The decoder is given for what the encoder
  writes, the only entries there are; anything else is an error.
\<close>

definition quoted :: "string \<Rightarrow> string" where
  "quoted s = [CHR 0x22] @ s @ [CHR 0x22]"

definition Dumps :: "UtxoItem \<Rightarrow> bytes" where
  "Dumps item = ''{'' @ quoted ''Amount'' @ '':'' @ itoa (Amount item) @ '','' @ quoted ''FrozenHeight'' @ '':'' @
     itoa (FrozenHeight item) @ ''}'' @ [CHR 0x0A]"

definition stripPrefix :: "string \<Rightarrow> string \<Rightarrow> string option" where
  "stripPrefix p s = (if take (length p) s = p then Some (drop (length p) s) else None)"

definition Loads :: "bytes \<Rightarrow> UtxoItem option" where
  "Loads data =
     Option.bind (stripPrefix (''{'' @ quoted ''Amount'' @ '':'') data) (\<lambda>r.
     Option.bind (stripPrefix ('','' @ quoted ''FrozenHeight'' @ '':'') (dropWhile (\<lambda>c. c \<noteq> CHR '','') r)) (\<lambda>r'.
       if dropWhile (\<lambda>c. c \<noteq> CHR ''}'') r' \<noteq> [CHR ''}'', CHR 0x0A] then None
       else case (parse_int (takeWhile (\<lambda>c. c \<noteq> CHR '','') r), parse_i64 (takeWhile (\<lambda>c. c \<noteq> CHR ''}'') r')) of
           (Some a, Some h) \<Rightarrow> Some \<lparr>Amount = a, FrozenHeight = h\<rparr>
         | _ \<Rightarrow> None))"

definition GenUtxoKeyWithPrefix :: "slice \<Rightarrow> slice \<Rightarrow> int \<Rightarrow> string" where
  "GenUtxoKeyWithPrefix addr txid offset = UTXOTablePrefix @ GenUtxoKey addr txid offset"

section \<open>The virtual machine\<close>

datatype utxo_error = ErrNoEnoughUTXO | ErrUTXONotFound | ErrInputOutputNotEqual | ErrUnexpected | ErrNegativeAmount
  | ErrUTXOFrozen | ErrUTXODuplicated | BadItem | BadTxid | BadOffset | NotAnAccount | NotAnAddress | ZeroTransfer
  | FromMismatch | InputsNotEnough

text \<open>What the ledger answers, the clock, the size limits and the size of an encoded input.\<close>

record UtxoEnv =
  ueTrunkHeight :: int
  ueInTrunk :: "bytes \<Rightarrow> bool"
  ueNow :: int
  ueMaxTxSize :: int
  ueInputSize :: "TxInput \<Rightarrow> int"

record UtxoLockItem =
  ulTimestamp :: int
  ulHolder :: nat

text \<open>
  A count missing in \<open>uvViewDirty\<close> reads as 0. A batch is its identity. Mutexes, the channel of
  reposted transactions and the fields no operation reads are left out.
\<close>

record UtxoVM =
  uvLockKeys :: "string \<Rightarrow> UtxoLockItem option"
  uvLockKeyList :: "string golist"
  uvLockExpire :: int
  uvCache :: UtxoCache
  uvPrevFound :: "(string, string) LRUCache"
  uvTotal :: int
  uvModifyBlockAddr :: string
  uvBalanceCache :: "(string, int) LRUCache"
  uvCacheSize :: int
  uvViewDirty :: "string \<Rightarrow> int"
  uvBatchCache :: "string \<Rightarrow> UtxoItem option"
  uvLastBatch :: "nat option"

definition UTXOTotalKey :: string where "UTXOTotalKey = ''xtotal''"
definition UTXOCacheSize :: int where "UTXOCacheSize = 100000"
definition UTXOLockExpiredSecond :: int where "UTXOLockExpiredSecond = 60"

definition MakeUtxo :: "int \<Rightarrow> int \<Rightarrow> kv \<Rightarrow> UtxoVM" where
  "MakeUtxo cachesize tmplockSeconds db =
     \<lparr>uvLockKeys = Map.empty, uvLockKeyList = list_New, uvLockExpire = tmplockSeconds, uvCache = NewUtxoCache cachesize,
      uvPrevFound = NewLRUCache cachesize,
      uvTotal = (case tableGet MetaTablePrefix db UTXOTotalKey of None \<Rightarrow> 0 | Some b \<Rightarrow> bigBytes (Some b)),
      uvModifyBlockAddr = [], uvBalanceCache = NewLRUCache cachesize, uvCacheSize = cachesize, uvViewDirty = \<lambda>_. 0,
      uvBatchCache = Map.empty, uvLastBatch = None\<rparr>"

definition NewUtxo :: "kv \<Rightarrow> UtxoVM" where
  "NewUtxo db = MakeUtxo UTXOCacheSize UTXOLockExpiredSecond db"

definition CleanBatchCache :: "nat \<Rightarrow> UtxoVM \<Rightarrow> UtxoVM" where
  "CleanBatchCache newBatch uv =
     (if uvLastBatch uv \<noteq> Some newBatch then uv\<lparr>uvBatchCache := Map.empty, uvLastBatch := Some newBatch\<rparr> else uv)"

definition InsertBatchCache :: "string \<Rightarrow> UtxoItem \<Rightarrow> UtxoVM \<Rightarrow> UtxoVM" where
  "InsertBatchCache k item uv = uv\<lparr>uvBatchCache := (uvBatchCache uv)(k \<mapsto> item)\<rparr>"

definition RemoveBatchCache :: "string \<Rightarrow> UtxoVM \<Rightarrow> UtxoVM" where
  "RemoveBatchCache k uv = uv\<lparr>uvBatchCache := (uvBatchCache uv)(k := None)\<rparr>"

definition UpdateUtxoTotal :: "int \<Rightarrow> kvop list \<Rightarrow> bool \<Rightarrow> UtxoVM \<Rightarrow> UtxoVM \<times> kvop list" where
  "UpdateUtxoTotal delta batch inc uv =
     (let total = (if inc then uvTotal uv + delta else uvTotal uv - delta)
      in (uv\<lparr>uvTotal := total\<rparr>, batch @ [KvPut (MetaTablePrefix @ UTXOTotalKey) (bigIntBytes total)]))"

definition GetTotal :: "UtxoVM \<Rightarrow> int" where
  "GetTotal uv = bigBytes (Some (bigIntBytes (uvTotal uv)))"

definition SetModifyBlockAddr :: "string \<Rightarrow> UtxoVM \<Rightarrow> UtxoVM" where
  "SetModifyBlockAddr addr uv = uv\<lparr>uvModifyBlockAddr := addr\<rparr>"

definition RemoveUtxoCache :: "string \<Rightarrow> string \<Rightarrow> UtxoVM \<Rightarrow> UtxoVM" where
  "RemoveUtxoCache address utxoKey uv = uv\<lparr>uvCache := cacheRemove (uvCache uv) address utxoKey\<rparr>"

section \<open>Spending\<close>

text \<open>The item behind an input: in the cache, in the cache of the batch, in the table.\<close>

definition cachedItem :: "UtxoVM \<Rightarrow> string \<Rightarrow> string \<Rightarrow> UtxoItem option" where
  "cachedItem uv addr k = map_option ciItem (lookup2 (ucAll (uvCache uv)) addr k)"

definition findItem :: "kv \<Rightarrow> nat option \<Rightarrow> UtxoVM \<Rightarrow> TxInput \<Rightarrow> (utxo_error, UtxoItem) result" where
  "findItem db batch uv txInput =
     (let k = GenUtxoKeyWithPrefix (tiFromAddr txInput) (tiRefTxid txInput) (tiRefOffset txInput)
      in case cachedItem uv (contents (tiFromAddr txInput)) k of
           Some uItem \<Rightarrow> Ok uItem
         | None \<Rightarrow>
             (case if batch \<noteq> None \<and> batch = uvLastBatch uv then uvBatchCache uv k else None of
                Some uItem \<Rightarrow> Ok uItem
              | None \<Rightarrow>
                  (case tableGet UTXOTablePrefix db (utxoKeyOf txInput) of
                     None \<Rightarrow> Err ErrUTXONotFound
                   | Some uBinary \<Rightarrow> (case Loads uBinary of None \<Rightarrow> Err BadItem | Some uItem \<Rightarrow> Ok uItem))))"

definition isFrozen :: "UtxoEnv \<Rightarrow> UtxoItem \<Rightarrow> bool" where
  "isFrozen env uItem \<longleftrightarrow> ueTrunkHeight env < FrozenHeight uItem \<or> FrozenHeight uItem = -1"

fun checkInputs :: "UtxoEnv \<Rightarrow> kv \<Rightarrow> nat option \<Rightarrow> UtxoVM \<Rightarrow> string set \<Rightarrow> TxInput list \<Rightarrow> int \<Rightarrow> (utxo_error, int) result" where
  "checkInputs env db batch uv utxoDedup [] inputSum = Ok inputSum"
| "checkInputs env db batch uv utxoDedup (txInput # inputs) inputSum =
     (if utxoKeyOf txInput \<in> utxoDedup then Err ErrUTXODuplicated
      else bind_result (findItem db batch uv txInput) (\<lambda>uItem.
        let amountBytes = bigIntBytes (Amount uItem)
        in if amountBytes \<noteq> contents (tiAmount txInput) then Err ErrUnexpected
           else if isFrozen env uItem then Err ErrUTXOFrozen
           else checkInputs env db batch uv (insert (utxoKeyOf txInput) utxoDedup) inputs (inputSum + bigBytes (Some amountBytes))))"

definition outputSum :: "TxOutput list \<Rightarrow> int" where
  "outputSum outs = sum_list (map (\<lambda>o'. bigBytes (toAmount o')) outs)"

definition CheckInputEqualOutput :: "UtxoEnv \<Rightarrow> kv \<Rightarrow> nat option \<Rightarrow> UtxoVM \<Rightarrow> Transaction \<Rightarrow> (utxo_error, unit) result" where
  "CheckInputEqualOutput env db batch uv tx =
     (if list_ex (\<lambda>o'. bigBytes (toAmount o') < 0) (txOutputs tx) then Err ErrNegativeAmount
      else bind_result (checkInputs env db batch uv {} (txInputs tx) 0) (\<lambda>inputSum.
        if inputSum = outputSum (txOutputs tx) then Ok ()
        else if inputSum = 0 \<and> txCoinbase tx then Ok ()
        else Err ErrInputOutputNotEqual))"

section \<open>Temporary locks\<close>

definition isLocked :: "UtxoVM \<Rightarrow> string \<Rightarrow> bool" where
  "isLocked uv utxoKey \<longleftrightarrow> uvLockKeys uv utxoKey \<noteq> None"

definition UnlockKey :: "string \<Rightarrow> UtxoVM \<Rightarrow> UtxoVM" where
  "UnlockKey utxoKey uv =
     (case uvLockKeys uv utxoKey of
        None \<Rightarrow> uv
      | Some lockItem \<Rightarrow> uv\<lparr>uvLockKeyList := removeEle (uvLockKeyList uv) (ulHolder lockItem), uvLockKeys := (uvLockKeys uv)(utxoKey := None)\<rparr>)"

definition PushBack :: "'a golist \<Rightarrow> 'a \<Rightarrow> 'a golist \<times> nat" where
  "PushBack l v = (l\<lparr>elems := elems l @ [(nextEle l, v)], nextEle := Suc (nextEle l)\<rparr>, nextEle l)"

definition utxoTryLockKey :: "int \<Rightarrow> string \<Rightarrow> UtxoVM \<Rightarrow> bool \<times> UtxoVM" where
  "utxoTryLockKey now k uv =
     (case uvLockKeys uv k of
        Some _ \<Rightarrow> (False, uv)
      | None \<Rightarrow>
          (case PushBack (uvLockKeyList uv) k of
             (l, holder) \<Rightarrow> (True, uv\<lparr>uvLockKeyList := l, uvLockKeys := (uvLockKeys uv)(k \<mapsto> \<lparr>ulTimestamp = now, ulHolder = holder\<rparr>)\<rparr>)))"

function clearExpiredLocks :: "int \<Rightarrow> UtxoVM \<Rightarrow> UtxoVM" where
  "clearExpiredLocks now uv =
     (case elems (uvLockKeyList uv) of
        [] \<Rightarrow> uv
      | (topItem, topKey) # _ \<Rightarrow>
          (case uvLockKeys uv topKey of
             None \<Rightarrow> clearExpiredLocks now (uv\<lparr>uvLockKeyList := removeEle (uvLockKeyList uv) topItem\<rparr>)
           | Some lockItem \<Rightarrow>
               if ulTimestamp lockItem + uvLockExpire uv \<le> now
               then clearExpiredLocks now (uv\<lparr>uvLockKeyList := removeEle (uvLockKeyList uv) topItem, uvLockKeys := (uvLockKeys uv)(topKey := None)\<rparr>)
               else uv))"
  by pat_completeness auto
termination
  by (relation "measure (\<lambda>(now, uv). length (elems (uvLockKeyList uv)))") (auto simp: removeEle_def less_Suc_eq_le length_filter_le)

declare clearExpiredLocks.simps [simp del]

section \<open>Selection\<close>

text \<open>\<open>strings.Split\<close> of the key without its first byte, the prefix of the table; the last two parts count.\<close>

definition parseUtxoKeys :: "string \<Rightarrow> (utxo_error, bytes \<times> int) result" where
  "parseUtxoKeys uKey =
     (if uKey = [] then Panic
      else let keyTuple = splitOn (CHR ''_'') (tl uKey); n = length keyTuple
           in if n < 2 then Err ErrUnexpected
              else case hexDecode (keyTuple ! (n - 2)) of
                  None \<Rightarrow> Err BadTxid
                | Some refTxid \<Rightarrow> (case parse_i64 (keyTuple ! (n - 1)) of None \<Rightarrow> Err BadOffset | Some offset \<Rightarrow> Ok (refTxid, offset)))"

text \<open>The first key after those with a prefix, \<open>None\<close> when there is none; and the iterator that starts in the middle.\<close>

fun prefixLimitRev :: "string \<Rightarrow> string option" where
  "prefixLimitRev [] = None"
| "prefixLimitRev (c # cs) = (if of_char c < (255 :: nat) then Some (char_of (Suc (of_char c)) # cs) else prefixLimitRev cs)"

definition prefixLimit :: "string \<Rightarrow> string option" where
  "prefixLimit p = map_option rev (prefixLimitRev (rev p))"

definition quickIterator :: "kv \<Rightarrow> string \<Rightarrow> string option \<Rightarrow> (string \<times> bytes) list" where
  "quickIterator db prefix middleKey =
     (case middleKey of
        None \<Rightarrow> kvPrefix db prefix
      | Some mid \<Rightarrow>
          (case prefixLimit prefix of
             Some limit \<Rightarrow> kvRange db mid limit
           | None \<Rightarrow> sort_key fst (filter (\<lambda>(k, _). mid \<le> k) db)) @ kvRange db prefix mid)"

record Selection =
  selInputs :: "TxInput list"
  selLocked :: "string list"
  selTotal :: int

definition lockFor :: "UtxoEnv \<Rightarrow> bool \<Rightarrow> string \<Rightarrow> UtxoVM \<Rightarrow> string list \<Rightarrow> (UtxoVM \<times> string list) option" where
  "lockFor env needLock uKey uv willLockKeys =
     (if needLock
      then (case utxoTryLockKey (ueNow env) uKey uv of (ok, uv') \<Rightarrow> if ok then Some (uv', willLockKeys @ [uKey]) else None)
      else if isLocked uv uKey then None else Some (uv, willLockKeys))"

definition inputFrom :: "string \<Rightarrow> bytes \<Rightarrow> int \<Rightarrow> UtxoItem \<Rightarrow> TxInput" where
  "inputFrom fromAddr refTxid offset uItem =
     \<lparr>tiRefTxid = Some refTxid, tiRefOffset = i32 offset, tiFromAddr = Some fromAddr, tiAmount = Some (bigIntBytes (Amount uItem)),
      tiFrozenHeight = FrozenHeight uItem\<rparr>"

text \<open>
  Whether one candidate is taken: \<open>None\<close> when it is skipped. A candidate that is not on the trunk stays
  locked.
\<close>

definition tryUtxo :: "UtxoEnv \<Rightarrow> string \<Rightarrow> bool \<Rightarrow> bool \<Rightarrow> string \<Rightarrow> UtxoItem \<Rightarrow> UtxoVM \<Rightarrow> Selection \<Rightarrow> (utxo_error, TxInput option) result \<times> UtxoVM \<times> Selection" where
  "tryUtxo env fromAddr needLock excludeUnconfirmed uKey uItem uv sel =
     (if isFrozen env uItem then (Ok None, uv, sel)
      else case parseUtxoKeys uKey of
          Err e \<Rightarrow> (Err e, uv, sel)
        | Panic \<Rightarrow> (Panic, uv, sel)
        | Ok (refTxid, offset) \<Rightarrow>
            (case lockFor env needLock uKey uv (selLocked sel) of
               None \<Rightarrow> (Ok None, uv, sel)
             | Some (uv', locked) \<Rightarrow>
                 if excludeUnconfirmed \<and> \<not> ueInTrunk env refTxid then (Ok None, uv', sel\<lparr>selLocked := locked\<rparr>)
                 else (Ok (Some (inputFrom fromAddr refTxid offset uItem)), uv', sel\<lparr>selLocked := locked\<rparr>)))"

definition addInput :: "TxInput \<Rightarrow> UtxoItem \<Rightarrow> Selection \<Rightarrow> Selection" where
  "addInput txInput uItem sel = sel\<lparr>selInputs := selInputs sel @ [txInput], selTotal := selTotal sel + Amount uItem\<rparr>"

text \<open>
  The cached outputs, in the order in which the map is ranged over, and then the table. The keys taken from
  the cache are skipped in the table.
\<close>

fun selectCached :: "UtxoEnv \<Rightarrow> string \<Rightarrow> int \<Rightarrow> bool \<Rightarrow> bool \<Rightarrow> string list \<Rightarrow> UtxoVM \<Rightarrow> Selection \<Rightarrow> string set \<Rightarrow> (utxo_error, bool) result \<times> UtxoVM \<times> Selection \<times> string set" where
  "selectCached env fromAddr totalNeed needLock excl [] uv sel cacheKeys = (Ok False, uv, sel, cacheKeys)"
| "selectCached env fromAddr totalNeed needLock excl (uKey # order) uv sel cacheKeys =
     (case lookup2 (ucAvailable (uvCache uv)) fromAddr uKey of
        None \<Rightarrow> selectCached env fromAddr totalNeed needLock excl order uv sel cacheKeys
      | Some item \<Rightarrow>
          (case tryUtxo env fromAddr needLock excl uKey (ciItem item) uv sel of
             (Err e, uv1, sel1) \<Rightarrow> (Err e, uv1, sel1, cacheKeys)
           | (Panic, uv1, sel1) \<Rightarrow> (Panic, uv1, sel1, cacheKeys)
           | (Ok None, uv1, sel1) \<Rightarrow> selectCached env fromAddr totalNeed needLock excl order uv1 sel1 cacheKeys
           | (Ok (Some txInput), uv1, sel1) \<Rightarrow>
               let uv2 = uv1\<lparr>uvCache := cacheUse (uvCache uv1) fromAddr uKey\<rparr>;
                   sel2 = addInput txInput (ciItem item) sel1
               in if totalNeed \<le> selTotal sel2 then (Ok True, uv2, sel2, insert uKey cacheKeys)
                  else selectCached env fromAddr totalNeed needLock excl order uv2 sel2 (insert uKey cacheKeys)))"

fun selectStored :: "UtxoEnv \<Rightarrow> string \<Rightarrow> int \<Rightarrow> bool \<Rightarrow> bool \<Rightarrow> string set \<Rightarrow> (string \<times> bytes) list \<Rightarrow> UtxoVM \<Rightarrow> Selection \<Rightarrow> (utxo_error, bool) result \<times> UtxoVM \<times> Selection" where
  "selectStored env fromAddr totalNeed needLock excl cacheKeys [] uv sel = (Ok False, uv, sel)"
| "selectStored env fromAddr totalNeed needLock excl cacheKeys ((key, uBinary) # it) uv sel =
     (case Loads uBinary of
        None \<Rightarrow> (Err BadItem, uv, sel)
      | Some uItem \<Rightarrow>
          if key \<in> cacheKeys then selectStored env fromAddr totalNeed needLock excl cacheKeys it uv sel
          else case tryUtxo env fromAddr needLock excl key uItem uv sel of
              (Err e, uv1, sel1) \<Rightarrow> (Err e, uv1, sel1)
            | (Panic, uv1, sel1) \<Rightarrow> (Panic, uv1, sel1)
            | (Ok None, uv1, sel1) \<Rightarrow> selectStored env fromAddr totalNeed needLock excl cacheKeys it uv1 sel1
            | (Ok (Some txInput), uv1, sel1) \<Rightarrow>
                let sel2 = addInput txInput uItem sel1
                in if totalNeed \<le> selTotal sel2
                   then (Ok True, uv1\<lparr>uvPrevFound := fst (lruAdd (uvPrevFound uv1) fromAddr key)\<rparr>, sel2)
                   else selectStored env fromAddr totalNeed needLock excl cacheKeys it uv1 sel2)"

definition emptySelection :: Selection where
  "emptySelection = \<lparr>selInputs = [], selLocked = [], selTotal = 0\<rparr>"

definition selectMore :: "UtxoEnv \<Rightarrow> kv \<Rightarrow> string \<Rightarrow> int \<Rightarrow> bool \<Rightarrow> bool \<Rightarrow> string set \<Rightarrow> UtxoVM \<Rightarrow> Selection \<Rightarrow> (utxo_error, bool) result \<times> UtxoVM \<times> Selection" where
  "selectMore env db fromAddr totalNeed needLock excl cacheKeys uv sel =
     (case lruGet (uvPrevFound uv) fromAddr of
        (prev, middleKey) \<Rightarrow>
          selectStored env fromAddr totalNeed needLock excl cacheKeys
            (quickIterator db (UTXOTablePrefix @ fromAddr @ ''_'') middleKey) (uv\<lparr>uvPrevFound := prev\<rparr>) sel)"

definition SelectUtxos :: "UtxoEnv \<Rightarrow> kv \<Rightarrow> string list \<Rightarrow> string \<Rightarrow> int \<Rightarrow> bool \<Rightarrow> bool \<Rightarrow> UtxoVM \<Rightarrow> (utxo_error, Selection) result \<times> UtxoVM" where
  "SelectUtxos env db order fromAddr totalNeed needLock excludeUnconfirmed uv =
     (if totalNeed = 0 then (Ok emptySelection, uv)
      else case selectCached env fromAddr totalNeed needLock excludeUnconfirmed order (clearExpiredLocks (ueNow env) uv) emptySelection {} of
          (Err e, uv1, _, _) \<Rightarrow> (Err e, uv1)
        | (Panic, uv1, _, _) \<Rightarrow> (Panic, uv1)
        | (Ok found, uv1, sel1, cacheKeys) \<Rightarrow>
            (case if found then (Ok True, uv1, sel1) else selectMore env db fromAddr totalNeed needLock excludeUnconfirmed cacheKeys uv1 sel1 of
               (Err e, uv2, _) \<Rightarrow> (Err e, uv2)
             | (Panic, uv2, _) \<Rightarrow> (Panic, uv2)
             | (Ok True, uv2, sel2) \<Rightarrow> (Ok sel2, uv2)
             | (Ok False, uv2, sel2) \<Rightarrow> (Err ErrNoEnoughUTXO, fold UnlockKey (selLocked sel2) uv2)))"

text \<open>
  Selecting as many outputs as fit into a transaction, to merge them. The parts of the key are counted from
  the front here, and errors in them are ignored: of a malformed hexadecimal text the part before the error
  is used, a text that is no number is 0, and a number out of range the closest one.
\<close>

fun hexPrefix :: "string \<Rightarrow> bytes" where
  "hexPrefix (c # d # cs) =
     (case (hexVal c, hexVal d) of (Some h, Some l) \<Rightarrow> char_of (16 * h + l) # hexPrefix cs | _ \<Rightarrow> [])"
| "hexPrefix cs = []"

definition atoi :: "string \<Rightarrow> int" where
  "atoi s = (case parse_int s of None \<Rightarrow> 0 | Some n \<Rightarrow> max (- (2 ^ 63)) (min (2 ^ 63 - 1) n))"

fun selectBySize :: "UtxoEnv \<Rightarrow> string \<Rightarrow> bool \<Rightarrow> bool \<Rightarrow> (string \<times> bytes) list \<Rightarrow> int \<Rightarrow> UtxoVM \<Rightarrow> Selection \<Rightarrow> (utxo_error, Selection) result \<times> UtxoVM" where
  "selectBySize env fromAddr needLock excl [] sz uv sel = (Ok sel, uv)"
| "selectBySize env fromAddr needLock excl ((key, uBinary) # it) sz uv sel =
     (case Loads uBinary of
        None \<Rightarrow> selectBySize env fromAddr needLock excl it sz uv sel
      | Some uItem \<Rightarrow>
          if isFrozen env uItem then selectBySize env fromAddr needLock excl it sz uv sel
          else case lockFor env needLock key uv (selLocked sel) of
              None \<Rightarrow> selectBySize env fromAddr needLock excl it sz uv sel
            | Some (uv1, locked) \<Rightarrow>
                let realKey = splitOn (CHR ''_'') (drop (length UTXOTablePrefix) key); sel1 = sel\<lparr>selLocked := locked\<rparr>
                in if length realKey < 2 then (Panic, uv1)
                   else let refTxid = hexPrefix (realKey ! 1)
                     in if excl \<and> \<not> ueInTrunk env refTxid
                        then selectBySize env fromAddr needLock excl it sz (if needLock then UnlockKey key uv1 else uv1) sel1
                        else if length realKey < 3 then (Panic, uv1)
                        else let txInput = inputFrom fromAddr refTxid (atoi (realKey ! 2)) uItem;
                                 sz1 = sz + ueInputSize env txInput
                          in if go_div (ueMaxTxSize env) 2 < sz1 then (Ok sel1, if needLock then UnlockKey key uv1 else uv1)
                             else selectBySize env fromAddr needLock excl it sz1 uv1 (addInput txInput uItem sel1))"

definition SelectUtxosBySize :: "UtxoEnv \<Rightarrow> kv \<Rightarrow> string \<Rightarrow> bool \<Rightarrow> bool \<Rightarrow> UtxoVM \<Rightarrow> (utxo_error, Selection) result \<times> UtxoVM" where
  "SelectUtxosBySize env db fromAddr needLock excludeUnconfirmed uv =
     selectBySize env fromAddr needLock excludeUnconfirmed (kvPrefix db (UTXOTablePrefix @ fromAddr @ ''_'')) 0
       (clearExpiredLocks (ueNow env) uv) emptySelection"

section \<open>Balances\<close>

definition AddBalance :: "slice \<Rightarrow> int \<Rightarrow> UtxoVM \<Rightarrow> UtxoVM" where
  "AddBalance addr delta uv =
     (case lruGet (uvBalanceCache uv) (contents addr) of
        (c, Some balance) \<Rightarrow> uv\<lparr>uvBalanceCache := fst (lruAdd c (contents addr) (balance + delta))\<rparr>
      | (c, None) \<Rightarrow> uv\<lparr>uvBalanceCache := c, uvViewDirty := (uvViewDirty uv)(contents addr := uvViewDirty uv (contents addr) + 1)\<rparr>)"

definition SubBalance :: "slice \<Rightarrow> int \<Rightarrow> UtxoVM \<Rightarrow> UtxoVM" where
  "SubBalance addr delta uv = AddBalance addr (- delta) uv"

definition addrPrefix :: "string \<Rightarrow> string" where
  "addrPrefix addr = UTXOTablePrefix @ addr @ ''_''"

text \<open>The sum over the entries of an iterator, up to the first that does not decode.\<close>

fun sumItems :: "(UtxoItem \<Rightarrow> bool) \<Rightarrow> (string \<times> bytes) list \<Rightarrow> int \<Rightarrow> (utxo_error, int) result" where
  "sumItems P [] acc = Ok acc"
| "sumItems P ((_, uBinary) # it) acc =
     (case Loads uBinary of
        None \<Rightarrow> Err BadItem
      | Some uItem \<Rightarrow> sumItems P it (if P uItem then acc + Amount uItem else acc))"

text \<open>
  \<open>GetBalance\<close> is three steps between which others may run: looking into the cache and noting the
  view, summing up the table, and filling the cache when the view has not changed.
\<close>

definition balanceScan :: "kv \<Rightarrow> string \<Rightarrow> (utxo_error, int) result" where
  "balanceScan db addr = sumItems (\<lambda>_. True) (kvPrefix db (addrPrefix addr)) 0"

definition balanceFill :: "string \<Rightarrow> int \<Rightarrow> int \<Rightarrow> UtxoVM \<Rightarrow> UtxoVM" where
  "balanceFill addr myBalanceView utxoTotal uv =
     (if myBalanceView \<noteq> uvViewDirty uv addr then uv
      else case lruGet (uvBalanceCache uv) addr of
          (c, Some _) \<Rightarrow> uv\<lparr>uvBalanceCache := c\<rparr>
        | (c, None) \<Rightarrow> uv\<lparr>uvBalanceCache := fst (lruAdd c addr utxoTotal), uvViewDirty := (uvViewDirty uv)(addr := 0)\<rparr>)"

definition GetBalance :: "kv \<Rightarrow> string \<Rightarrow> UtxoVM \<Rightarrow> (utxo_error, int) result \<times> UtxoVM" where
  "GetBalance db addr uv =
     (case lruGet (uvBalanceCache uv) addr of
        (c, Some balance) \<Rightarrow> (Ok balance, uv\<lparr>uvBalanceCache := c\<rparr>)
      | (c, None) \<Rightarrow>
          let uv1 = uv\<lparr>uvBalanceCache := c\<rparr>
          in (case balanceScan db addr of
                Ok utxoTotal \<Rightarrow> (Ok utxoTotal, balanceFill addr (uvViewDirty uv1 addr) utxoTotal uv1)
              | r \<Rightarrow> (r, uv1)))"

definition clearBalances :: "UtxoVM \<Rightarrow> UtxoVM" where
  "clearBalances uv = uv\<lparr>uvBalanceCache := NewLRUCache (uvCacheSize uv), uvViewDirty := \<lambda>_. 0\<rparr>"

definition GetFrozenBalance :: "UtxoEnv \<Rightarrow> kv \<Rightarrow> string \<Rightarrow> (utxo_error, int) result" where
  "GetFrozenBalance env db addr = sumItems (isFrozen env) (kvPrefix db (addrPrefix addr)) 0"

text \<open>Frozen and not frozen, as texts.\<close>

definition GetBalanceDetail :: "UtxoEnv \<Rightarrow> kv \<Rightarrow> string \<Rightarrow> (utxo_error, (string \<times> bool) list) result" where
  "GetBalanceDetail env db addr =
     bind_result (sumItems (isFrozen env) (kvPrefix db (addrPrefix addr)) 0) (\<lambda>utxoFrozen.
     bind_result (sumItems (\<lambda>i. \<not> isFrozen env i) (kvPrefix db (addrPrefix addr)) 0) (\<lambda>utxoUnFrozen.
       Ok [(itoa utxoFrozen, True), (itoa utxoUnFrozen, False)]))"

section \<open>Queries\<close>

record UtxoKey =
  ukRefTxid :: string
  ukOffset :: string
  ukAmount :: string

definition MakeUtxoKey :: "string \<Rightarrow> string \<Rightarrow> UtxoKey option" where
  "MakeUtxoKey k amount =
     (if k = [] then None
      else let keyTuple = splitOn (CHR ''_'') (tl k); n = length keyTuple
           in if n < 2 then None else Some \<lparr>ukRefTxid = keyTuple ! (n - 2), ukOffset = keyTuple ! (n - 1), ukAmount = amount\<rparr>)"

record UtxoRecord =
  urCount :: int
  urAmount :: int
  urItem :: "UtxoKey list"

record UtxoRecordDetail =
  rdOpen :: UtxoRecord
  rdLocked :: UtxoRecord
  rdFrozen :: UtxoRecord

definition countItem :: "string \<Rightarrow> UtxoItem \<Rightarrow> bool \<Rightarrow> UtxoRecord \<Rightarrow> UtxoRecord option" where
  "countItem k uItem display r =
     (let r1 = r\<lparr>urCount := urCount r + 1, urAmount := urAmount r + Amount uItem\<rparr>
      in if display then map_option (\<lambda>uk. r1\<lparr>urItem := urItem r1 @ [uk]\<rparr>) (MakeUtxoKey k (itoa (Amount uItem))) else Some r1)"

text \<open>\<open>None\<close> is a panic, from a key without separators.\<close>

fun recordLoop :: "UtxoEnv \<Rightarrow> UtxoVM \<Rightarrow> (string \<times> bytes) list \<Rightarrow> int \<Rightarrow> UtxoRecordDetail \<Rightarrow> UtxoRecordDetail option" where
  "recordLoop env uv [] displayCount d = Some d"
| "recordLoop env uv ((k, v) # it) displayCount d =
     (case Loads v of
        None \<Rightarrow> recordLoop env uv it displayCount d
      | Some uItem \<Rightarrow>
          let display = 0 < displayCount; rest = (if display then displayCount - 1 else displayCount)
          in if isLocked uv k
             then Option.bind (countItem k uItem display (rdLocked d)) (\<lambda>r. recordLoop env uv it rest (d\<lparr>rdLocked := r\<rparr>))
             else if isFrozen env uItem
             then Option.bind (countItem k uItem display (rdFrozen d)) (\<lambda>r. recordLoop env uv it rest (d\<lparr>rdFrozen := r\<rparr>))
             else Option.bind (countItem k uItem display (rdOpen d)) (\<lambda>r. recordLoop env uv it rest (d\<lparr>rdOpen := r\<rparr>)))"

definition emptyRecord :: UtxoRecord where
  "emptyRecord = \<lparr>urCount = 0, urAmount = 0, urItem = []\<rparr>"

definition QueryUtxoRecord :: "UtxoEnv \<Rightarrow> kv \<Rightarrow> string \<Rightarrow> int \<Rightarrow> UtxoVM \<Rightarrow> UtxoRecordDetail option" where
  "QueryUtxoRecord env db accountName displayCount uv =
     recordLoop env uv (kvPrefix db (addrPrefix accountName)) displayCount \<lparr>rdOpen = emptyRecord, rdLocked = emptyRecord, rdFrozen = emptyRecord\<rparr>"

definition GetAccountContracts :: "kv \<Rightarrow> string \<Rightarrow> (utxo_error, string list) result" where
  "GetAccountContracts db account =
     (if IsAccount account \<noteq> 1 then Err NotAnAccount
      else Ok (map (\<lambda>(k, _). last (splitOn (CHR 0x01) k))
                 (kvPrefix db (ExtUtxoTablePrefix @ makeRawKey ''XCAccount2Contract'' (Some (account @ [CHR 0x01]))))))"

definition QueryAccountContainAK :: "kv \<Rightarrow> string \<Rightarrow> (utxo_error, string list) result" where
  "QueryAccountContainAK db address =
     (if IsAccount address \<noteq> 0 then Err NotAnAddress
      else Ok (map (\<lambda>(k, _). last (splitOn (CHR 0x01) k)) (kvPrefix db (ExtUtxoTablePrefix @ ''XCAK2Account'' @ ''/'' @ address))))"

definition queryContractStatData :: "kv \<Rightarrow> string \<Rightarrow> int" where
  "queryContractStatData db bucket = int (length (kvPrefix db (ExtUtxoTablePrefix @ bucket @ ''/'')))"

text \<open>The number of accounts and the number of contracts.\<close>

definition QueryContractStatData :: "kv \<Rightarrow> int \<times> int" where
  "QueryContractStatData db = (queryContractStatData db accountBucket, queryContractStatData db contract2AccountBucket)"

section \<open>Transfers of a running contract\<close>

text \<open>
  The sandbox asks a reader for inputs, here a function on the state of the reader: \<open>SelectUtxos\<close>
  when a call is executed first, and the recorded inputs when it is verified.
\<close>

type_synonym 'r utxo_reader = "string \<Rightarrow> int \<Rightarrow> 'r \<Rightarrow> (utxo_error, TxInput list \<times> int) result \<times> 'r"

record UTXOSandbox =
  usInputs :: "TxInput list"
  usOutputs :: "TxOutput list"

definition NewUTXOSandbox :: UTXOSandbox where
  "NewUTXOSandbox = \<lparr>usInputs = [], usOutputs = []\<rparr>"

definition utxoTransfer :: "'r utxo_reader \<Rightarrow> string \<Rightarrow> string \<Rightarrow> int \<Rightarrow> 'r \<Rightarrow> UTXOSandbox \<Rightarrow> (utxo_error, unit) result \<times> 'r \<times> UTXOSandbox" where
  "utxoTransfer sel from to amount r u =
     (if amount = 0 then (Err ZeroTransfer, r, u)
      else case sel from amount r of
          (Err e, r1) \<Rightarrow> (Err e, r1, u)
        | (Panic, r1) \<Rightarrow> (Panic, r1, u)
        | (Ok (inputs, tot), r1) \<Rightarrow>
            (Ok (), r1,
             u\<lparr>usInputs := usInputs u @ inputs,
               usOutputs := usOutputs u @ [\<lparr>toAmount = Some (bigIntBytes amount), toToAddr = Some to, toFrozenHeight = 0\<rparr>] @
                 (if amount < tot then [\<lparr>toAmount = Some (bigIntBytes (tot - amount)), toToAddr = Some from, toFrozenHeight = 0\<rparr>] else [])\<rparr>))"

definition vmReader :: "UtxoEnv \<Rightarrow> kv \<Rightarrow> (UtxoVM \<Rightarrow> string \<Rightarrow> string list) \<Rightarrow> UtxoVM utxo_reader" where
  "vmReader env db order from amount uv =
     (case SelectUtxos env db (order uv from) from amount True False uv of
        (Ok sel, uv1) \<Rightarrow> (Ok (selInputs sel, selTotal sel), uv1)
      | (Err e, uv1) \<Rightarrow> (Err e, uv1)
      | (Panic, uv1) \<Rightarrow> (Panic, uv1))"

fun takeInputs :: "string \<Rightarrow> int \<Rightarrow> TxInput list \<Rightarrow> int \<Rightarrow> nat \<Rightarrow> (utxo_error, int \<times> nat) result" where
  "takeInputs from amount [] acc n = Ok (acc, n)"
| "takeInputs from amount (input # inputs) acc n =
     (if contents (tiFromAddr input) \<noteq> from then Err FromMismatch
      else let acc1 = acc + bigBytes (tiAmount input)
           in if amount \<le> acc1 then Ok (acc1, Suc n) else takeInputs from amount inputs acc1 (Suc n))"

text \<open>The reader over recorded inputs; its state is the inputs and the position.\<close>

definition cacheReader :: "TxInput list \<Rightarrow> nat utxo_reader" where
  "cacheReader inputs from amount idx =
     (case takeInputs from amount (drop idx inputs) 0 0 of
        Err e \<Rightarrow> (Err e, idx)
      | Panic \<Rightarrow> (Panic, idx)
      | Ok (acc, n) \<Rightarrow>
          if acc < amount then (Err InputsNotEnough, idx) else (Ok (take n (drop idx inputs), acc), idx + n))"

section \<open>Entries and keys\<close>

lemma bigBytes_nonneg: "0 \<le> bigBytes s"
proof -
  have "0 \<le> n \<Longrightarrow> 0 \<le> fold (\<lambda>c n. n * 256 + int (of_char c)) cs n" for cs and n :: int
    by (induction cs arbitrary: n) auto
  then show ?thesis by (simp add: bigBytes_def)
qed

lemma bigBytes_natBytes: "bigBytes (Some (natBytes n)) = int n"
proof (induction n rule: natBytes.induct)
  case (1 n)
  show ?case
  proof (cases "n = 0")
    case True
    then show ?thesis by (simp add: natBytes.simps [of 0] bigBytes_def)
  next
    case False
    have "bigBytes (Some (natBytes n)) = bigBytes (Some (natBytes (n div 256))) * 256 + int (n mod 256)"
      using False by (subst natBytes.simps) (simp add: bigBytes_def)
    also have "\<dots> = int (n div 256 * 256 + n mod 256)" unfolding 1 [OF False] by (simp only: of_nat_add of_nat_mult of_nat_numeral)
    finally show ?thesis by (simp only: div_mult_mod_eq)
  qed
qed

lemma bigBytes_bigInt [simp]: "bigBytes (Some (bigIntBytes n)) = \<bar>n\<bar>"
  by (simp add: bigIntBytes_def bigBytes_natBytes)

lemma itoa_chars: "c \<in> set (itoa i) \<Longrightarrow> c = CHR ''-'' \<or> 48 \<le> (of_char c :: nat) \<and> (of_char c :: nat) < 58"
  using show_nat_digits by (fastforce simp: itoa_def split: if_splits)

lemma itoa_without: "CHR '','' \<notin> set (itoa i)" "CHR ''}'' \<notin> set (itoa i)" "CHR ''_'' \<notin> set (itoa i)"
  using itoa_chars [of "CHR '',''" i] itoa_chars [of "CHR ''}''" i] itoa_chars [of "CHR ''_''" i] by auto

lemma takeWhile_sep: "c \<notin> set xs \<Longrightarrow> takeWhile (\<lambda>x. x \<noteq> c) (xs @ c # ys) = xs" "c \<notin> set xs \<Longrightarrow> dropWhile (\<lambda>x. x \<noteq> c) (xs @ c # ys) = c # ys"
  by (induction xs) auto

lemma Loads_Dumps: "is_i64 (FrozenHeight item) \<Longrightarrow> Loads (Dumps item) = Some item"
  by (simp add: Loads_def Dumps_def stripPrefix_def quoted_def takeWhile_sep itoa_without parse_int_itoa parse_i64_itoa)

lemma splitOn_single: "c \<notin> set xs \<Longrightarrow> splitOn c xs = [xs]"
  by (induction xs) auto

lemma splitOn_nonempty: "splitOn c xs \<noteq> []"
  by (cases xs) (auto split: list.splits)

lemma splitOn_append: "splitOn c (xs @ c # ys) = splitOn c xs @ splitOn c ys"
proof (induction xs)
  case (Cons x xs)
  then show ?case using splitOn_nonempty [of c xs] by (auto split: list.splits)
qed simp

lemma hexDecode_F: "hexDecode (utils_F t) = Some (contents t)"
proof -
  have "hexDecode (concat (map hex_byte bs)) = Some bs" for bs
  proof (induction bs)
    case (Cons b bs)
    have "(of_char b :: nat) < 256" by (metis of_char_mod_256 mod_less_divisor zero_less_numeral)
    then have "hexVal (hex_digit (of_char b div 16)) = Some (of_char b div 16)" "hexVal (hex_digit (of_char b mod 16)) = Some (of_char b mod 16)"
      by (simp_all add: hexVal_digit less_mult_imp_div_less)
    then show ?case using Cons by (simp add: hex_byte_def)
  qed simp
  then show ?thesis by (simp add: utils_F_def)
qed

lemma hex_byte_digits: "c \<in> set (hex_byte b) \<Longrightarrow> hexVal c \<noteq> None"
proof -
  assume c: "c \<in> set (hex_byte b)"
  have "(of_char b :: nat) < 256" by (metis of_char_mod_256 mod_less_divisor zero_less_numeral)
  then have "hexVal (hex_digit (of_char b div 16)) \<noteq> None" "hexVal (hex_digit (of_char b mod 16)) \<noteq> None"
    by (simp_all add: hexVal_digit less_mult_imp_div_less)
  with c show ?thesis by (auto simp: hex_byte_def)
qed

lemma hex_without: "CHR ''_'' \<notin> set (utils_F t)"
proof -
  have "hexVal (CHR ''_'') = None" by (simp add: hexVal_def)
  then show ?thesis using hex_byte_digits by (fastforce simp: utils_F_def)
qed

lemma key_split: "splitOn (CHR ''_'') (GenUtxoKey a t off) = splitOn (CHR ''_'') (contents a) @ [utils_F t, itoa off]"
  by (simp add: GenUtxoKey_def splitOn_append splitOn_single hex_without itoa_without)

lemma parseUtxoKeys_Gen: "is_i64 off \<Longrightarrow> parseUtxoKeys (GenUtxoKeyWithPrefix a t off) = Ok (contents t, off)"
  by (simp add: parseUtxoKeys_def GenUtxoKeyWithPrefix_def UTXOTablePrefix_def key_split nth_append hexDecode_F parse_i64_itoa Let_def)

text \<open>An output is found under one key only.\<close>

lemma GenUtxoKey_inj: "GenUtxoKey a t off = GenUtxoKey b u off' \<longleftrightarrow> contents a = contents b \<and> contents t = contents u \<and> off = off'"
proof
  assume e: "GenUtxoKey a t off = GenUtxoKey b u off'"
  then have "splitOn (CHR ''_'') (contents a) @ [utils_F t, itoa off] = splitOn (CHR ''_'') (contents b) @ [utils_F u, itoa off']"
    by (metis key_split)
  then have "utils_F t = utils_F u" "itoa off = itoa off'" by simp_all
  moreover from this e have "contents a = contents b" by (simp add: GenUtxoKey_def)
  ultimately show "contents a = contents b \<and> contents t = contents u \<and> off = off'"
    by (simp add: itoa_inj utils_F_eq_iff bytes_equal_def)
qed (simp add: GenUtxoKey_def utils_F_def)

lemma utxoKeyOf_eq: "utxoKeyOf i = utxoKeyOf j \<longleftrightarrow> contents (tiFromAddr i) = contents (tiFromAddr j) \<and> contents (tiRefTxid i) = contents (tiRefTxid j) \<and> tiRefOffset i = tiRefOffset j"
  by (simp add: utxoKeyOf_def GenUtxoKey_inj)

section \<open>What is selected can be spent\<close>

text \<open>The table of outputs in a database, by full keys.\<close>

definition utxoAt :: "kv \<Rightarrow> string \<Rightarrow> UtxoItem option" where
  "utxoAt db k = (if take (length UTXOTablePrefix) k = UTXOTablePrefix then Option.bind (kvGet db k) Loads else None)"

definition hasAddr :: "string \<Rightarrow> string \<Rightarrow> bool" where
  "hasAddr addr k \<longleftrightarrow> take (length (addrPrefix addr)) k = addrPrefix addr"

text \<open>The cache holds only what the table has, under its address.\<close>

definition cache_agrees :: "(string \<Rightarrow> UtxoItem option) \<Rightarrow> UtxoVM \<Rightarrow> bool" where
  "cache_agrees view uv \<longleftrightarrow> cache_inv (uvCache uv)
     \<and> (\<forall>a k it. lookup2 (ucAll (uvCache uv)) a k = Some it \<longrightarrow> view k = Some (ciItem it) \<and> hasAddr a k)"

text \<open>
  Keys that start with an address belong to it, and amounts are not negative. Keys of an address that
  continues with an underscore would start with it too.
\<close>

definition keys_of :: "string \<Rightarrow> (string \<Rightarrow> UtxoItem option) \<Rightarrow> bool" where
  "keys_of addr view \<longleftrightarrow> (\<forall>k it. view k = Some it \<longrightarrow> hasAddr addr k \<longrightarrow>
     0 \<le> Amount it \<and> (\<exists>t off. k = GenUtxoKeyWithPrefix (Some addr) (Some t) off \<and> is_i32 off))"

definition spendable :: "UtxoEnv \<Rightarrow> (string \<Rightarrow> UtxoItem option) \<Rightarrow> string \<Rightarrow> TxInput \<Rightarrow> bool" where
  "spendable env view addr i \<longleftrightarrow> (\<exists>t off it. i = inputFrom addr t off it \<and> is_i32 off \<and> 0 \<le> Amount it
     \<and> view (GenUtxoKeyWithPrefix (Some addr) (Some t) off) = Some it \<and> \<not> isFrozen env it)"

definition keyOfInput :: "TxInput \<Rightarrow> string" where
  "keyOfInput i = UTXOTablePrefix @ utxoKeyOf i"

definition inputSum :: "TxInput list \<Rightarrow> int" where
  "inputSum ins = sum_list (map (\<lambda>i. bigBytes (tiAmount i)) ins)"

definition selection_ok :: "UtxoEnv \<Rightarrow> (string \<Rightarrow> UtxoItem option) \<Rightarrow> string \<Rightarrow> Selection \<Rightarrow> bool" where
  "selection_ok env view addr sel \<longleftrightarrow> (\<forall>i\<in>set (selInputs sel). spendable env view addr i)
     \<and> distinct (map keyOfInput (selInputs sel)) \<and> selTotal sel = inputSum (selInputs sel)"

text \<open>No input is taken once there is enough.\<close>

definition minimal :: "int \<Rightarrow> TxInput list \<Rightarrow> bool" where
  "minimal need ins \<longleftrightarrow> (\<forall>n<length ins. inputSum (take n ins) < need)"

lemma minimal_snoc: "minimal need (ins @ [i]) \<longleftrightarrow> minimal need ins \<and> inputSum ins < need"
  by (auto simp: minimal_def less_Suc_eq)

lemma i32_id: "is_i32 off \<Longrightarrow> i32 off = off"
  by (simp add: is_i32_def i32_def)

lemma keyOfInput_from: "is_i32 off \<Longrightarrow> keyOfInput (inputFrom addr t off it) = GenUtxoKeyWithPrefix (Some addr) (Some t) off"
  by (simp add: keyOfInput_def inputFrom_def utxoKeyOf_def GenUtxoKeyWithPrefix_def i32_id)

lemma lockFor_frame: "lockFor env needLock k uv ks = Some (uv1, ks1) \<Longrightarrow> uvCache uv1 = uvCache uv \<and> uvLastBatch uv1 = uvLastBatch uv"
  by (auto simp: lockFor_def utxoTryLockKey_def PushBack_def split: if_splits option.splits)

lemma tryUtxo_ok:
  assumes "tryUtxo env addr needLock excl uKey uItem uv sel = (Ok r, uv1, sel1)"
    and "view uKey = Some uItem" and "hasAddr addr uKey" and "keys_of addr view"
  shows "uvCache uv1 = uvCache uv" and "uvLastBatch uv1 = uvLastBatch uv" and "selInputs sel1 = selInputs sel" and "selTotal sel1 = selTotal sel"
    and "r = Some i \<Longrightarrow> spendable env view addr i \<and> keyOfInput i = uKey \<and> bigBytes (tiAmount i) = Amount uItem"
proof -
  obtain t off where k: "uKey = GenUtxoKeyWithPrefix (Some addr) (Some t) off" "is_i32 off" "0 \<le> Amount uItem"
    using assms(2-4) unfolding keys_of_def by blast
  have p: "parseUtxoKeys uKey = Ok (t, off)" using k is_i32_i64 by (simp add: parseUtxoKeys_Gen)
  have "uvCache uv1 = uvCache uv \<and> uvLastBatch uv1 = uvLastBatch uv \<and> selInputs sel1 = selInputs sel \<and> selTotal sel1 = selTotal sel
      \<and> (\<forall>i. r = Some i \<longrightarrow> \<not> isFrozen env uItem \<and> i = inputFrom addr t off uItem)"
    using assms(1) p by (auto simp: tryUtxo_def dest: lockFor_frame split: if_splits option.splits)
  then show "uvCache uv1 = uvCache uv" "uvLastBatch uv1 = uvLastBatch uv" "selInputs sel1 = selInputs sel" "selTotal sel1 = selTotal sel"
    "r = Some i \<Longrightarrow> spendable env view addr i \<and> keyOfInput i = uKey \<and> bigBytes (tiAmount i) = Amount uItem"
    using k assms(2) by (auto simp: spendable_def keyOfInput_from) (auto simp: inputFrom_def)
qed

lemma selection_ok_add:
  assumes "selection_ok env view addr sel" and "spendable env view addr i" and "keyOfInput i \<notin> keyOfInput ` set (selInputs sel)"
    and "bigBytes (tiAmount i) = Amount it"
  shows "selection_ok env view addr (addInput i it sel)"
  using assms by (auto simp: selection_ok_def addInput_def inputSum_def)

lemma cache_agrees_Use: "cache_agrees view uv \<Longrightarrow> cache_agrees view (uv\<lparr>uvCache := cacheUse (uvCache uv) a k\<rparr>)"
  by (simp add: cache_agrees_def cache_inv_Use) (simp add: cacheUse_def)

lemma cache_agrees_cong: "uvCache uv' = uvCache uv \<Longrightarrow> cache_agrees view uv' = cache_agrees view uv"
  by (simp add: cache_agrees_def)

lemma selectCached_ok:
  assumes "selectCached env addr need needLock excl order uv sel ks = (Ok found, uv1, sel1, ks1)"
    and "cache_agrees view uv" and "keys_of addr view" and "selection_ok env view addr sel"
    and "keyOfInput ` set (selInputs sel) = ks" and "\<forall>k\<in>ks. lookup2 (ucAvailable (uvCache uv)) addr k = None"
    and "minimal need (selInputs sel)" and "selTotal sel < need"
  shows "cache_agrees view uv1 \<and> selection_ok env view addr sel1 \<and> keyOfInput ` set (selInputs sel1) = ks1 \<and> found = (need \<le> selTotal sel1)
    \<and> minimal need (selInputs sel1) \<and> uvLastBatch uv1 = uvLastBatch uv"
  using assms(1,2,4-8)
proof (induction order arbitrary: uv sel ks)
  case (Cons uKey order)
  show ?case
  proof (cases "lookup2 (ucAvailable (uvCache uv)) addr uKey")
    case None
    then have "selectCached env addr need needLock excl order uv sel ks = (Ok found, uv1, sel1, ks1)" using Cons.prems(1) by simp
    from Cons.IH [OF this Cons.prems(2-7)] show ?thesis .
  next
    case (Some item)
    then have all: "lookup2 (ucAll (uvCache uv)) addr uKey = Some item" using Cons.prems(2) by (auto simp: cache_agrees_def cache_inv_def)
    then have v: "view uKey = Some (ciItem item)" "hasAddr addr uKey" using Cons.prems(2) by (auto simp: cache_agrees_def)
    obtain r uv2 sel2 where t: "tryUtxo env addr needLock excl uKey (ciItem item) uv sel = (Ok r, uv2, sel2)"
      using Cons.prems(1) Some by (auto split: prod.splits result.splits)
    note tk = tryUtxo_ok [OF t v assms(3)]
    have a2: "cache_agrees view uv2" using Cons.prems(2) tk(1) by (simp add: cache_agrees_def)
    have s2: "selection_ok env view addr sel2" using Cons.prems(3) tk(3,4) by (simp add: selection_ok_def)
    show ?thesis
    proof (cases r)
      case None
      then have "selectCached env addr need needLock excl order uv2 sel2 ks = (Ok found, uv1, sel1, ks1)" using Cons.prems(1) Some t by simp
      from Cons.IH [OF this a2 s2] Cons.prems(4-7) tk(1-4) show ?thesis by simp
    next
      case (Some i)
      let ?uv3 = "uv2\<lparr>uvCache := cacheUse (uvCache uv2) addr uKey\<rparr>"
      let ?sel3 = "addInput i (ciItem item) sel2"
      note i = tk(5) [OF Some]
      have new: "keyOfInput i \<notin> keyOfInput ` set (selInputs sel2)" using i tk(3) Cons.prems(4,5) \<open>lookup2 (ucAvailable (uvCache uv)) addr uKey = Some item\<close> by auto
      have s3: "selection_ok env view addr ?sel3" using selection_ok_add [OF s2 _ new] i by blast
      have m3: "minimal need (selInputs ?sel3)" using Cons.prems(3,6,7) tk(3) by (simp add: addInput_def minimal_snoc selection_ok_def)
      have k3: "keyOfInput ` set (selInputs ?sel3) = insert uKey ks" using i tk(3) Cons.prems(4) by (simp add: addInput_def)
      have e: "(if need \<le> selTotal ?sel3 then (Ok True, ?uv3, ?sel3, insert uKey ks)
          else selectCached env addr need needLock excl order ?uv3 ?sel3 (insert uKey ks)) = (Ok found, uv1, sel1, ks1)"
        using Cons.prems(1) t Some \<open>lookup2 (ucAvailable (uvCache uv)) addr uKey = Some item\<close> by (simp add: Let_def)
      have av: "\<forall>k\<in>insert uKey ks. lookup2 (ucAvailable (uvCache ?uv3)) addr k = None" using Cons.prems(5) tk(1) by (auto simp: cacheUse_def)
      show ?thesis
      proof (cases "need \<le> selTotal ?sel3")
        case True
        then show ?thesis using e s3 k3 m3 cache_agrees_Use [OF a2] tk(2) by auto
      next
        case False
        with e have "selectCached env addr need needLock excl order ?uv3 ?sel3 (insert uKey ks) = (Ok found, uv1, sel1, ks1)" by simp
        from Cons.IH [OF this cache_agrees_Use [OF a2] s3 k3 av m3] False tk(2) show ?thesis by simp
      qed
    qed
  qed
qed auto

lemma tryUtxo_prev: "tryUtxo env addr needLock excl k it uv sel = (r, uv1, sel1) \<Longrightarrow> uvPrevFound uv1 = uvPrevFound uv"
  by (auto simp: tryUtxo_def lockFor_def utxoTryLockKey_def PushBack_def split: if_splits option.splits result.splits prod.splits)

lemma selectStored_ok:
  assumes "selectStored env addr need needLock excl ks it uv sel = (Ok found, uv1, sel1)"
    and "keys_of addr view" and "selection_ok env view addr sel"
    and "\<forall>(k, v)\<in>set it. view k = Loads v \<and> hasAddr addr k" and "distinct (map fst it)"
    and "keyOfInput ` set (selInputs sel) \<inter> fst ` set it \<subseteq> ks" and "minimal need (selInputs sel)" and "selTotal sel < need"
  shows "uvCache uv1 = uvCache uv \<and> selection_ok env view addr sel1 \<and> found = (need \<le> selTotal sel1) \<and> minimal need (selInputs sel1)
    \<and> uvLastBatch uv1 = uvLastBatch uv \<and> (uvPrevFound uv1 = uvPrevFound uv \<or> (\<exists>k. hasAddr addr k \<and> uvPrevFound uv1 = fst (lruAdd (uvPrevFound uv) addr k)))"
  using assms(1,3-8)
proof (induction it arbitrary: uv sel)
  case (Cons e it)
  obtain k v where e: "e = (k, v)" by (cases e)
  obtain item where v: "Loads v = Some item" using Cons.prems(1) e by (auto split: option.splits)
  have vk: "view k = Some item" "hasAddr addr k" using Cons.prems(3) e v by auto
  show ?case
  proof (cases "k \<in> ks")
    case True
    then have "selectStored env addr need needLock excl ks it uv sel = (Ok found, uv1, sel1)" using Cons.prems(1) e v by simp
    from Cons.IH [OF this Cons.prems(2)] Cons.prems(3-7) show ?thesis by auto
  next
    case False
    obtain r uv2 sel2 where t: "tryUtxo env addr needLock excl k item uv sel = (Ok r, uv2, sel2)"
      using Cons.prems(1) e v False by (auto split: prod.splits result.splits)
    note tk = tryUtxo_ok [OF t vk assms(2)]
    note tp = tryUtxo_prev [OF t]
    have s2: "selection_ok env view addr sel2" using Cons.prems(2) tk(3,4) by (simp add: selection_ok_def)
    have rest: "\<forall>(k, v)\<in>set it. view k = Loads v \<and> hasAddr addr k" "distinct (map fst it)" "k \<notin> fst ` set it"
      using Cons.prems(3,4) e by auto
    show ?thesis
    proof (cases r)
      case None
      then have "selectStored env addr need needLock excl ks it uv2 sel2 = (Ok found, uv1, sel1)" using Cons.prems(1) e v False t by simp
      from Cons.IH [OF this s2 rest(1,2)] Cons.prems(5-7) tk(1-4) tp show ?thesis by auto
    next
      case (Some i)
      let ?sel3 = "addInput i item sel2"
      note i = tk(5) [OF Some]
      have new: "keyOfInput i \<notin> keyOfInput ` set (selInputs sel2)" using i tk(3) Cons.prems(5) False e by auto
      have s3: "selection_ok env view addr ?sel3" using selection_ok_add [OF s2 _ new] i by blast
      have m3: "minimal need (selInputs ?sel3)" using Cons.prems(2,6,7) tk(3) by (simp add: addInput_def minimal_snoc selection_ok_def)
      have ki: "keyOfInput ` set (selInputs ?sel3) \<inter> fst ` set it \<subseteq> ks"
        using i tk(3) Cons.prems(5) rest(3) e by (auto simp: addInput_def)
      show ?thesis
      proof (cases "need \<le> selTotal ?sel3")
        case True
        then show ?thesis using Cons.prems(1) e v False t Some s3 m3 vk(2) tk(1,2) tp by (auto simp: Let_def)
      next
        case False
        with \<open>k \<notin> ks\<close> have "selectStored env addr need needLock excl ks it uv2 ?sel3 = (Ok found, uv1, sel1)"
          using Cons.prems(1) e v t Some by (simp add: Let_def)
        from Cons.IH [OF this s3 rest(1,2) ki m3] False tk(1,2) tp show ?thesis by simp
      qed
    qed
  qed
qed auto

lemma clearExpiredLocks_frame: "uvCache (clearExpiredLocks now uv) = uvCache uv \<and> uvLastBatch (clearExpiredLocks now uv) = uvLastBatch uv"
proof (induction now uv rule: clearExpiredLocks.induct)
  case (1 now uv)
  then show ?case by (subst (1 2) clearExpiredLocks.simps) (auto split: list.splits option.splits)
qed

lemma kvPrefix_set: "(k, v) \<in> set (kvPrefix db p) \<longleftrightarrow> (k, v) \<in> set db \<and> take (length p) k = p"
  by (auto simp: kvPrefix_def)

lemma kvRange_set: "(k, v) \<in> set (kvRange db a b) \<longleftrightarrow> (k, v) \<in> set db \<and> a \<le> k \<and> k < b"
  by (auto simp: kvRange_def)

lemma distinct_sorted_filter: "kv_ok db \<Longrightarrow> distinct (map fst (sort_key fst (filter P db)))"
proof -
  assume "kv_ok db"
  then have "distinct (map fst (filter P db))" by (simp add: kv_ok_def distinct_map_filter)
  then show ?thesis by (metis mset_eq_imp_distinct_iff mset_map mset_sort)
qed

lemma entry_utxoAt: "kv_ok db \<Longrightarrow> (k, v) \<in> set db \<Longrightarrow> hasAddr addr k \<Longrightarrow> utxoAt db k = Loads v"
proof -
  assume "kv_ok db" "(k, v) \<in> set db" "hasAddr addr k"
  then have "kvGet db k = Some v" by (simp add: kv_ok_def kvGet_def)
  moreover have "take (length UTXOTablePrefix) k = UTXOTablePrefix"
    using \<open>hasAddr addr k\<close> by (cases k) (auto simp: hasAddr_def addrPrefix_def UTXOTablePrefix_def)
  ultimately show ?thesis by (simp add: utxoAt_def)
qed

text \<open>
  The range from a key with the prefix to the limit of the prefix, and from the prefix to that key, are the
  entries with the prefix. The prefix ends with an underscore.
\<close>

lemma less_app_iff: "(p @ x :: string) < p @ y \<longleftrightarrow> x < y" "(p @ x :: string) \<le> p @ y \<longleftrightarrow> x \<le> y"
  by (induction p) auto

lemma prefix_range:
  fixes p :: string
  assumes "of_char c < (255 :: nat)"
  shows "p @ [c] \<le> k \<and> k < p @ [char_of (Suc (of_char c))] \<longleftrightarrow> take (length (p @ [c])) k = p @ [c]"
proof -
  have c': "of_char (char_of (Suc (of_char c)) :: char) = Suc (of_char c)" using assms by (simp add: of_char_of)
  show ?thesis
  proof (induction p arbitrary: k)
    case Nil
    show ?case
    proof (cases k)
      case (Cons d k')
      have "c \<le> d \<and> d < char_of (Suc (of_char c)) \<longleftrightarrow> (of_char d :: nat) = of_char c"
        unfolding less_eq_char_def less_char_def c' by linarith
      then have "c \<le> d \<and> d < char_of (Suc (of_char c)) \<longleftrightarrow> d = c" by simp
      then show ?thesis using Cons by (cases k') (auto simp: less_le)
    qed simp
  next
    case (Cons x p)
    show ?case
    proof (cases k)
      case (Cons d k')
      then show ?thesis using Cons.IH [of k'] by (cases "x = d") auto
    qed simp
  qed
qed

lemma prefixLimit_addr: "prefixLimit (addrPrefix addr) = Some ((UTXOTablePrefix @ addr) @ [char_of (96 :: nat)])"
  by (simp add: prefixLimit_def addrPrefix_def)

lemma addr_range: "addrPrefix addr \<le> k \<and> k < (UTXOTablePrefix @ addr) @ [char_of (96 :: nat)] \<longleftrightarrow> hasAddr addr k"
  using prefix_range [of "CHR ''_''" "UTXOTablePrefix @ addr" k] by (simp add: hasAddr_def addrPrefix_def)

lemma quickIterator_entries:
  assumes "kv_ok db" and "\<And>m. mid = Some m \<Longrightarrow> hasAddr addr m"
  shows "set (quickIterator db (addrPrefix addr) mid) = {(k, v) \<in> set db. hasAddr addr k}"
    and "distinct (map fst (quickIterator db (addrPrefix addr) mid))"
proof -
  have "set (quickIterator db (addrPrefix addr) mid) = {(k, v) \<in> set db. hasAddr addr k} \<and> distinct (map fst (quickIterator db (addrPrefix addr) mid))"
  proof (cases mid)
    case None
    then show ?thesis using distinct_sorted_filter [OF assms(1)] by (auto simp: quickIterator_def kvPrefix_def hasAddr_def)
  next
    case (Some m)
    let ?l = "(UTXOTablePrefix @ addr) @ [char_of (96 :: nat)]"
    have m: "addrPrefix addr \<le> m" "m < ?l" using assms(2) [OF Some] addr_range [of addr m] by auto
    have q: "quickIterator db (addrPrefix addr) mid = kvRange db m ?l @ kvRange db (addrPrefix addr) m"
      using Some by (simp add: quickIterator_def prefixLimit_addr)
    have split: "(m \<le> k \<and> k < ?l) \<or> (addrPrefix addr \<le> k \<and> k < m) \<longleftrightarrow> hasAddr addr k" for k
    proof (cases "m \<le> k")
      case True
      with m(1) have "addrPrefix addr \<le> k" by (rule order_trans)
      with True leD [OF True] show ?thesis unfolding addr_range [symmetric] by blast
    next
      case False
      then have "k < m" by (rule not_le_imp_less)
      then have "k < ?l" using m(2) by (rule less_trans)
      with False \<open>k < m\<close> show ?thesis unfolding addr_range [symmetric] by blast
    qed
    have "(k, v) \<in> set (quickIterator db (addrPrefix addr) mid) \<longleftrightarrow> (k, v) \<in> set db \<and> hasAddr addr k" for k v
      unfolding q set_append Un_iff kvRange_set split [of k, symmetric] by blast
    then have "set (quickIterator db (addrPrefix addr) mid) = {(k, v) \<in> set db. hasAddr addr k}" by (intro set_eqI) (simp add: split_paired_all)
    moreover have "fst ` set (kvRange db m ?l) \<inter> fst ` set (kvRange db (addrPrefix addr) m) = {}"
    proof (rule equals0I, elim IntE imageE)
      fix k x y assume "k = fst x" "x \<in> set (kvRange db m ?l)" "k = fst y" "y \<in> set (kvRange db (addrPrefix addr) m)"
      then have "m \<le> k" "k < m" by (cases x, cases y, simp add: kvRange_set)+
      then show False by (rule leD [THEN notE])
    qed
    then have "distinct (map fst (quickIterator db (addrPrefix addr) mid))"
      unfolding q map_append distinct_append set_map
      using distinct_sorted_filter [OF assms(1)] by (simp add: kvRange_def)
    ultimately show ?thesis by blast
  qed
  then show "set (quickIterator db (addrPrefix addr) mid) = {(k, v) \<in> set db. hasAddr addr k}" "distinct (map fst (quickIterator db (addrPrefix addr) mid))"
    by blast+
qed

text \<open>The keys remembered for an address start with it.\<close>

definition prev_ok :: "UtxoVM \<Rightarrow> bool" where
  "prev_ok uv \<longleftrightarrow> lru_inv (uvPrevFound uv) \<and> (\<forall>(a, k)\<in>set (lru_abs (uvPrevFound uv)). hasAddr a k)"

lemma prev_ok_Get: "prev_ok uv \<Longrightarrow> lruGet (uvPrevFound uv) addr = (c, Some m) \<Longrightarrow> hasAddr addr m"
proof -
  assume p: "prev_ok uv" and g: "lruGet (uvPrevFound uv) addr = (c, Some m)"
  then have "spec_get addr (lru_abs (uvPrevFound uv)) = (lru_abs c, Some m)" using lruc.get_law [of "uvPrevFound uv" addr] by (simp add: prev_ok_def)
  then have "(addr, m) \<in> set (lru_abs (uvPrevFound uv))" by (auto simp: spec_get_def dest: map_of_SomeD split: option.splits)
  then show ?thesis using p by (auto simp: prev_ok_def)
qed

lemma selectCached_prev: "selectCached env addr need needLock excl order uv sel ks = (r, uv1, sel1, ks1) \<Longrightarrow> uvPrevFound uv1 = uvPrevFound uv"
proof (induction order arbitrary: uv sel ks)
  case (Cons k order)
  show ?case
  proof (cases "lookup2 (ucAvailable (uvCache uv)) addr k")
    case None
    then show ?thesis using Cons by simp
  next
    case (Some item)
    obtain r2 uv2 sel2 where t: "tryUtxo env addr needLock excl k (ciItem item) uv sel = (r2, uv2, sel2)" by (metis prod_cases3)
    show ?thesis using Cons.prems Some t tryUtxo_prev [OF t] Cons.IH
      by (auto simp: Let_def split: result.splits option.splits if_splits)
  qed
qed simp

lemma clearExpiredLocks_prev: "uvPrevFound (clearExpiredLocks now uv) = uvPrevFound uv"
proof (induction now uv rule: clearExpiredLocks.induct)
  case (1 now uv)
  then show ?case by (subst clearExpiredLocks.simps) (auto split: list.splits option.splits)
qed

lemma findItem_ok:
  assumes "cache_agrees (utxoAt db) uv" and "spendable env (utxoAt db) addr i"
  shows "\<exists>it. findItem db None uv i = Ok it \<and> bigIntBytes (Amount it) = contents (tiAmount i) \<and> \<not> isFrozen env it"
proof -
  from assms(2) obtain t off it where i: "i = inputFrom addr t off it" "is_i32 off" "\<not> isFrozen env it"
      and u: "utxoAt db (GenUtxoKeyWithPrefix (Some addr) (Some t) off) = Some it"
    unfolding spendable_def by blast
  let ?k = "GenUtxoKeyWithPrefix (Some addr) (Some t) off"
  have c: "cachedItem uv addr ?k = None \<or> cachedItem uv addr ?k = Some it"
    using assms(1) u by (cases "lookup2 (ucAll (uvCache uv)) addr ?k") (auto simp: cache_agrees_def cachedItem_def)
  have t: "\<exists>b. tableGet UTXOTablePrefix db (GenUtxoKey (Some addr) (Some t) off) = Some b \<and> Loads b = Some it"
    using u by (auto simp: utxoAt_def tableGet_def GenUtxoKeyWithPrefix_def bind_eq_Some_conv split: if_splits)
  have "findItem db None uv i = Ok it"
    using c t by (auto simp: findItem_def i(1) inputFrom_def i32_id [OF i(2)] utxoKeyOf_def Let_def)
  then show ?thesis using i by (auto simp: inputFrom_def)
qed

lemma checkInputs_ok:
  assumes "cache_agrees (utxoAt db) uv" and "\<forall>i\<in>set ins. spendable env (utxoAt db) addr i"
    and "distinct (map keyOfInput ins)" and "utxoKeyOf ` set ins \<inter> dedup = {}"
  shows "checkInputs env db None uv dedup ins n = Ok (n + inputSum ins)"
  using assms(2-4)
proof (induction ins arbitrary: dedup n)
  case (Cons i ins)
  obtain it where it: "findItem db None uv i = Ok it" "bigIntBytes (Amount it) = contents (tiAmount i)" "\<not> isFrozen env it"
    using findItem_ok [OF assms(1)] Cons.prems(1) by fastforce
  have "bigBytes (Some (contents (tiAmount i))) = bigBytes (tiAmount i)" by (simp add: bigBytes_def)
  moreover have "utxoKeyOf i \<notin> utxoKeyOf ` set ins" using Cons.prems(2) by (auto simp: keyOfInput_def)
  ultimately show ?case using Cons it by (auto simp: inputSum_def)
qed (simp add: inputSum_def)

lemma prev_ok_cong: "uvPrevFound uv1 = uvPrevFound uv \<Longrightarrow> prev_ok uv \<Longrightarrow> prev_ok uv1"
  by (simp add: prev_ok_def)

lemma prev_ok_Add: "prev_ok uv \<Longrightarrow> hasAddr addr k \<Longrightarrow> uvPrevFound uv1 = fst (lruAdd (uvPrevFound uv) addr k) \<Longrightarrow> prev_ok uv1"
  using lruAdd_subset [of "uvPrevFound uv" addr k] by (auto simp: prev_ok_def)

lemma prev_ok_Get_state: "prev_ok uv \<Longrightarrow> lruGet (uvPrevFound uv) addr = (c, m) \<Longrightarrow> prev_ok (uv\<lparr>uvPrevFound := c\<rparr>)"
  by (rule lruGet_cases [of "uvPrevFound uv" addr]) (auto simp: prev_ok_def)

lemma SelectUtxos_ok:
  assumes "SelectUtxos env db order addr need needLock excl uv = (Ok sel, uv1)" and "0 < need"
    and "kv_ok db" and "cache_agrees (utxoAt db) uv" and "keys_of addr (utxoAt db)" and "prev_ok uv"
  shows "cache_agrees (utxoAt db) uv1 \<and> prev_ok uv1 \<and> selection_ok env (utxoAt db) addr sel \<and> need \<le> selTotal sel \<and> minimal need (selInputs sel)"
proof -
  let ?uv0 = "clearExpiredLocks (ueNow env) uv"
  obtain found uv2 sel2 ks where c: "selectCached env addr need needLock excl order ?uv0 emptySelection {} = (Ok found, uv2, sel2, ks)"
    using assms(1,2) by (auto simp: SelectUtxos_def split: prod.splits result.splits)
  have a0: "cache_agrees (utxoAt db) ?uv0" using assms(4) clearExpiredLocks_frame by (simp add: cache_agrees_def)
  have e: "selection_ok env (utxoAt db) addr emptySelection" by (simp add: selection_ok_def emptySelection_def inputSum_def)
  have k: "cache_agrees (utxoAt db) uv2 \<and> selection_ok env (utxoAt db) addr sel2 \<and> keyOfInput ` set (selInputs sel2) = ks \<and> found = (need \<le> selTotal sel2)
      \<and> minimal need (selInputs sel2)"
    using selectCached_ok [OF c a0 assms(5) e] assms(2) by (simp add: emptySelection_def minimal_def)
  have p2: "prev_ok uv2" using assms(6) selectCached_prev [OF c] clearExpiredLocks_prev by (simp add: prev_ok_def)
  show ?thesis
  proof (cases found)
    case True
    then show ?thesis using assms(1,2) c k p2 by (simp add: SelectUtxos_def)
  next
    case False
    obtain prev mid where g: "lruGet (uvPrevFound uv2) addr = (prev, mid)" by (cases "lruGet (uvPrevFound uv2) addr")
    have mid: "\<And>m. mid = Some m \<Longrightarrow> hasAddr addr m" using prev_ok_Get p2 g by blast
    let ?it = "quickIterator db (addrPrefix addr) mid" and ?uv3 = "uv2\<lparr>uvPrevFound := prev\<rparr>"
    have s: "selectStored env addr need needLock excl ks ?it ?uv3 sel2 = (Ok True, uv1, sel)"
      using assms(1,2) c False g by (auto simp: SelectUtxos_def selectMore_def addrPrefix_def split: prod.splits result.splits bool.splits)
    note q = quickIterator_entries [OF assms(3) mid]
    have "\<forall>(k, v)\<in>set ?it. utxoAt db k = Loads v \<and> hasAddr addr k" using q(1) entry_utxoAt [OF assms(3)] by auto
    from selectStored_ok [OF s assms(5) _ this q(2)] k False
    have r: "uvCache uv1 = uvCache ?uv3 \<and> selection_ok env (utxoAt db) addr sel \<and> need \<le> selTotal sel \<and> minimal need (selInputs sel)
      \<and> (uvPrevFound uv1 = uvPrevFound ?uv3 \<or> (\<exists>k. hasAddr addr k \<and> uvPrevFound uv1 = fst (lruAdd (uvPrevFound ?uv3) addr k)))" by auto
    moreover have "prev_ok uv1" using r prev_ok_Add [OF prev_ok_Get_state [OF p2 g]] prev_ok_cong [of uv1 ?uv3] prev_ok_Get_state [OF p2 g] by blast
    ultimately show ?thesis using k by (auto simp: cache_agrees_def)
  qed
qed


definition select_db :: kv where
  "select_db = [(GenUtxoKeyWithPrefix (Some ''bob'') (Some ''t'') 0, Dumps \<lparr>Amount = 9, FrozenHeight = 0\<rparr>),
     (GenUtxoKeyWithPrefix (Some ''amy'') (Some ''t'') 1, Dumps \<lparr>Amount = 5, FrozenHeight = 0\<rparr>),
     (GenUtxoKeyWithPrefix (Some ''amy'') (Some ''s'') 0, Dumps \<lparr>Amount = 4, FrozenHeight = 0\<rparr>)]"

definition select_env :: UtxoEnv where
  "select_env = \<lparr>ueTrunkHeight = 3, ueInTrunk = \<lambda>_. True, ueNow = 0, ueMaxTxSize = 1000, ueInputSize = \<lambda>_. 10\<rparr>"

definition select_sel :: Selection where
  "select_sel = (case fst (SelectUtxos select_env select_db [] ''amy'' 6 True False (MakeUtxo 10 60 select_db)) of Ok sel \<Rightarrow> sel | _ \<Rightarrow> emptySelection)"

definition select_tx :: Transaction where
  "select_tx = (bare_tx ''n'')\<lparr>txInputs := selInputs select_sel, txOutputs := [\<lparr>toAmount = Some (bigIntBytes 9), toToAddr = Some ''bob'', toFrozenHeight = 0\<rparr>]\<rparr>"

lemma select_keys: "kv_ok select_db" "keys_of ''amy'' (utxoAt select_db)" "keys_of ''bob'' (utxoAt select_db)"
proof -
  show "kv_ok select_db" by code_simp
  have d: "utxoAt select_db k = Some it \<Longrightarrow> k \<in> {GenUtxoKeyWithPrefix (Some ''bob'') (Some ''t'') 0,
      GenUtxoKeyWithPrefix (Some ''amy'') (Some ''t'') 1, GenUtxoKeyWithPrefix (Some ''amy'') (Some ''s'') 0} \<and> 0 \<le> Amount it" for k it
    by (auto simp: utxoAt_def kvGet_def select_db_def Loads_Dumps is_i64_def split: if_splits)
  have a: "\<not> hasAddr ''amy'' (GenUtxoKeyWithPrefix (Some ''bob'') (Some ''t'') 0)" "\<not> hasAddr ''bob'' (GenUtxoKeyWithPrefix (Some ''amy'') (Some ''t'') 1)"
    "\<not> hasAddr ''bob'' (GenUtxoKeyWithPrefix (Some ''amy'') (Some ''s'') 0)" by code_simp+
  have i: "is_i32 0" "is_i32 1" by (simp_all add: is_i32_def)
  show "keys_of ''amy'' (utxoAt select_db)" "keys_of ''bob'' (utxoAt select_db)"
    unfolding keys_of_def using d a i by (metis insertE singletonD)+
qed

lemma MakeUtxo_ok: "cache_agrees view (MakeUtxo n t db)" "prev_ok (MakeUtxo n t db)"
proof -
  have c: "uvCache (MakeUtxo n t db) = NewUtxoCache n" "uvPrevFound (MakeUtxo n t db) = NewLRUCache n" by (simp_all add: MakeUtxo_def)
  show "cache_agrees view (MakeUtxo n t db)" unfolding cache_agrees_def c using cache_inv_New by (auto simp: NewUtxoCache_def lookup2_def)
  show "prev_ok (MakeUtxo n t db)" unfolding prev_ok_def c by (auto simp: lru_inv_New)
qed


section \<open>Balances\<close>

text \<open>Every cached balance is the balance.\<close>

definition balances_ok :: "(string \<Rightarrow> int) \<Rightarrow> UtxoVM \<Rightarrow> bool" where
  "balances_ok bal uv \<longleftrightarrow> lru_inv (uvBalanceCache uv) \<and> (\<forall>(a, b)\<in>set (lru_abs (uvBalanceCache uv)). b = bal a)"

lemma AddBalance_ok:
  assumes "balances_ok bal uv"
  shows "balances_ok (bal(contents addr := bal (contents addr) + delta)) (AddBalance addr delta uv)"
proof -
  have inv: "lru_inv (uvBalanceCache uv)" and b: "\<And>a v. (a, v) \<in> set (lru_abs (uvBalanceCache uv)) \<Longrightarrow> v = bal a"
    using assms by (auto simp: balances_ok_def)
  show ?thesis
  proof (rule lruGet_cases [OF inv, of "contents addr"])
    fix c1 v assume g: "lruGet (uvBalanceCache uv) (contents addr) = (c1, Some v)" "lru_inv c1" "(contents addr, v) \<in> set (lru_abs (uvBalanceCache uv))"
      "set (lru_abs c1) \<subseteq> set (lru_abs (uvBalanceCache uv))"
    have v: "v = bal (contents addr)" using b g(3) by blast
    have e: "uvBalanceCache (AddBalance addr delta uv) = fst (lruAdd c1 (contents addr) (v + delta))"
      by (simp add: AddBalance_def g(1))
    have "b' = (bal(contents addr := bal (contents addr) + delta)) a"
      if "(a, b') \<in> set (lru_abs (fst (lruAdd c1 (contents addr) (v + delta))))" for a b'
      using subsetD [OF lruAdd_subset(2) [OF g(2)] that] subsetD [OF g(4), of "(a, b')"] b [of a b'] v by auto
    then show ?thesis using lruAdd_subset(1) [OF g(2)] unfolding balances_ok_def e by blast
  next
    fix c1 assume g: "lruGet (uvBalanceCache uv) (contents addr) = (c1, None)" "lru_inv c1" "map_of (lru_abs (uvBalanceCache uv)) (contents addr) = None"
      "lru_abs c1 = lru_abs (uvBalanceCache uv)"
    then have "contents addr \<noteq> a" if "(a, v) \<in> set (lru_abs (uvBalanceCache uv))" for a v using that by (force simp: map_of_eq_None_iff)
    then show ?thesis using g b by (force simp: AddBalance_def balances_ok_def)
  qed
qed

lemma SubBalance_ok:
  "balances_ok bal uv \<Longrightarrow> balances_ok (bal(contents addr := bal (contents addr) - delta)) (SubBalance addr delta uv)"
  using AddBalance_ok [of bal uv addr "- delta"] by (simp add: SubBalance_def)

lemma clearBalances_ok: "balances_ok bal (clearBalances uv)"
  by (auto simp: balances_ok_def clearBalances_def lru_inv_New)

lemma balances_ok_cong: "uvBalanceCache uv' = uvBalanceCache uv \<Longrightarrow> balances_ok bal uv' = balances_ok bal uv"
  by (simp add: balances_ok_def)

lemma GetBalance_ok:
  assumes "balances_ok bal uv" and "balanceScan db addr = Ok (bal addr)"
  shows "fst (GetBalance db addr uv) = Ok (bal addr)" and "balances_ok bal (snd (GetBalance db addr uv))"
proof -
  have inv: "lru_inv (uvBalanceCache uv)" and b: "\<And>a v. (a, v) \<in> set (lru_abs (uvBalanceCache uv)) \<Longrightarrow> v = bal a"
    using assms(1) by (auto simp: balances_ok_def)
  have "fst (GetBalance db addr uv) = Ok (bal addr) \<and> balances_ok bal (snd (GetBalance db addr uv))"
  proof (rule lruGet_cases [OF inv, of addr])
    fix c1 v assume "lruGet (uvBalanceCache uv) addr = (c1, Some v)" "lru_inv c1" "(addr, v) \<in> set (lru_abs (uvBalanceCache uv))"
      "set (lru_abs c1) \<subseteq> set (lru_abs (uvBalanceCache uv))"
    then show ?thesis using b by (auto simp: GetBalance_def balances_ok_def)
  next
    fix c1 assume g: "lruGet (uvBalanceCache uv) addr = (c1, None)" "lru_inv c1" "map_of (lru_abs (uvBalanceCache uv)) addr = None" "lru_abs c1 = lru_abs (uvBalanceCache uv)"
    have f: "lruGet c1 addr = (c2, r) \<Longrightarrow> lru_inv c2 \<and> set (lru_abs c2) \<subseteq> set (lru_abs c1)" for c2 r
      by (rule lruGet_cases [OF g(2), of addr]) auto
    obtain c2 r where c2: "lruGet c1 addr = (c2, r)" by (cases "lruGet c1 addr")
    note c2i = f [OF c2]
    have "b' = bal a" if "(a, b') \<in> set (lru_abs c2)" for a b' using that c2i g(4) b by auto
    moreover have "b' = bal a" if "(a, b') \<in> set (lru_abs (fst (lruAdd c2 addr (bal addr))))" for a b'
      using subsetD [OF lruAdd_subset(2) [OF conjunct1 [OF c2i]] that] subsetD [OF conjunct2 [OF c2i], of "(a, b')"] g(4) b [of a b'] by auto
    ultimately have "balances_ok bal (balanceFill addr (uvViewDirty uv addr) (bal addr) (uv\<lparr>uvBalanceCache := c1\<rparr>))"
      using c2 conjunct1 [OF c2i] lruAdd_subset(1) [OF conjunct1 [OF c2i]] by (auto simp: balanceFill_def balances_ok_def split: option.splits)
    then show ?thesis using g(1) assms(2) by (simp add: GetBalance_def)
  qed
  then show "fst (GetBalance db addr uv) = Ok (bal addr)" "balances_ok bal (snd (GetBalance db addr uv))" by blast+
qed


section \<open>Replaying transfers\<close>

text \<open>
  The transfers of one call, in order. A reader promises inputs of the address that are worth what it says,
  are enough, and would not be enough without the last.
\<close>

fun transferAll :: "'r utxo_reader \<Rightarrow> (string \<times> string \<times> int) list \<Rightarrow> 'r \<Rightarrow> UTXOSandbox \<Rightarrow> (utxo_error, unit) result \<times> 'r \<times> UTXOSandbox" where
  "transferAll sel [] r u = (Ok (), r, u)"
| "transferAll sel ((from, to, amount) # ts) r u =
     (case utxoTransfer sel from to amount r u of
        (Ok _, r1, u1) \<Rightarrow> transferAll sel ts r1 u1
      | res \<Rightarrow> res)"

locale input_reader =
  fixes sel :: "'r utxo_reader" and good :: "'r \<Rightarrow> bool" and served :: "string \<Rightarrow> bool"
  assumes sel_law: "good r \<Longrightarrow> served from \<Longrightarrow> 0 < amount \<Longrightarrow> sel from amount r = (Ok (inputs, tot), r1) \<Longrightarrow>
    good r1 \<and> (\<forall>i\<in>set inputs. contents (tiFromAddr i) = from) \<and> tot = inputSum inputs \<and> amount \<le> tot \<and> minimal amount inputs"

lemma inputSum_simps [simp]: "inputSum [] = 0" "inputSum (i # is) = bigBytes (tiAmount i) + inputSum is" "inputSum (is @ js) = inputSum is + inputSum js"
  by (simp_all add: inputSum_def)

lemma takeInputs_prefix:
  assumes "\<forall>i\<in>set inputs. contents (tiFromAddr i) = from" and "minimal (amount - acc) inputs" and "amount \<le> acc + inputSum inputs" and "acc < amount"
  shows "takeInputs from amount (inputs @ rest) acc n = Ok (acc + inputSum inputs, n + length inputs)"
  using assms
proof (induction inputs arbitrary: acc n)
  case (Cons i inputs)
  have m: "inputSum (take k inputs) + bigBytes (tiAmount i) < amount - acc" if "k < length inputs" for k
    using Cons.prems(2) that unfolding minimal_def by (auto dest!: spec [of _ "Suc k"])
  show ?case
  proof (cases "amount \<le> acc + bigBytes (tiAmount i)")
    case True
    then have "inputs = []" using m [of 0] by (cases inputs) auto
    then show ?thesis using True Cons.prems(1) by simp
  next
    case False
    have "minimal (amount - (acc + bigBytes (tiAmount i))) inputs" using m by (simp add: minimal_def algebra_simps)
    from Cons.IH [OF _ this] Cons.prems(1,3) False show ?thesis by (simp add: Let_def algebra_simps)
  qed
qed simp

lemma cacheReader_replays:
  assumes "\<forall>i\<in>set inputs. contents (tiFromAddr i) = from" and "minimal amount inputs" and "amount \<le> inputSum inputs" and "0 < amount"
  shows "cacheReader (pre @ inputs @ rest) from amount (length pre) = (Ok (inputs, inputSum inputs), length (pre @ inputs))"
  using takeInputs_prefix [of inputs "from" amount 0 rest 0] assms by (simp add: cacheReader_def)

definition sandbox_delta :: "UTXOSandbox \<Rightarrow> TxInput list \<Rightarrow> TxOutput list \<Rightarrow> UTXOSandbox" where
  "sandbox_delta u inputs outputs = u\<lparr>usInputs := usInputs u @ inputs, usOutputs := usOutputs u @ outputs\<rparr>"

lemma outputSum_append: "outputSum (os @ os') = outputSum os + outputSum os'"
  by (simp add: outputSum_def)

context input_reader
begin

lemma transfer_step:
  assumes "utxoTransfer sel from to amount r u = (Ok (), r1, u1)" and "good r" and "served from" and "0 < amount"
  shows "\<exists>inputs outputs. good r1 \<and> u1 = sandbox_delta u inputs outputs \<and> outputSum outputs = inputSum inputs
    \<and> (\<forall>pre rest u'. utxoTransfer (cacheReader (pre @ inputs @ rest)) from to amount (length pre) u' = (Ok (), length (pre @ inputs), sandbox_delta u' inputs outputs))"
proof -
  obtain inputs tot where s: "sel from amount r = (Ok (inputs, tot), r1)" using assms(1,4)
    by (auto simp: utxoTransfer_def split: prod.splits result.splits)
  note l = sel_law [OF assms(2,3,4) s]
  let ?o = "[\<lparr>toAmount = Some (bigIntBytes amount), toToAddr = Some to, toFrozenHeight = 0\<rparr>] @
    (if amount < tot then [\<lparr>toAmount = Some (bigIntBytes (tot - amount)), toToAddr = Some from, toFrozenHeight = 0\<rparr>] else [])"
  have "u1 = sandbox_delta u inputs ?o" using assms(1,4) s by (simp add: utxoTransfer_def sandbox_delta_def)
  moreover have "outputSum ?o = inputSum inputs" using l assms(4) by (simp add: outputSum_def bigBytes_bigInt)
  moreover have "utxoTransfer (cacheReader (pre @ inputs @ rest)) from to amount (length pre) u' = (Ok (), length (pre @ inputs), sandbox_delta u' inputs ?o)" for pre rest u'
    using cacheReader_replays [of inputs "from" amount pre rest] l assms(4) by (simp add: utxoTransfer_def sandbox_delta_def)
  ultimately show ?thesis using l by blast
qed

lemma transfers_replay:
  assumes "transferAll sel ts r u = (Ok (), r1, u1)" and "good r" and "\<forall>(from, to, amount)\<in>set ts. served from \<and> 0 < amount"
  shows "\<exists>inputs outputs. u1 = sandbox_delta u inputs outputs \<and> outputSum outputs = inputSum inputs
    \<and> (\<forall>pre rest u'. transferAll (cacheReader (pre @ inputs @ rest)) ts (length pre) u' = (Ok (), length (pre @ inputs), sandbox_delta u' inputs outputs))"
  using assms
proof (induction ts arbitrary: r u)
  case Nil
  then show ?case by (intro exI [of _ "[]"]) (simp add: sandbox_delta_def outputSum_def)
next
  case (Cons t ts)
  obtain "from" to amount where t: "t = (from, to, amount)" by (cases t)
  obtain r2 u2 where s: "utxoTransfer sel from to amount r u = (Ok (), r2, u2)" and tl: "transferAll sel ts r2 u2 = (Ok (), r1, u1)"
    using Cons.prems(1) t by (auto split: prod.splits result.splits)
  obtain inputs outputs where one: "good r2" "u2 = sandbox_delta u inputs outputs" "outputSum outputs = inputSum inputs"
      "\<And>pre rest u'. utxoTransfer (cacheReader (pre @ inputs @ rest)) from to amount (length pre) u' = (Ok (), length (pre @ inputs), sandbox_delta u' inputs outputs)"
    using transfer_step [OF s Cons.prems(2)] Cons.prems(3) t by auto
  obtain inputs2 outputs2 where two: "u1 = sandbox_delta u2 inputs2 outputs2" "outputSum outputs2 = inputSum inputs2"
      "\<And>pre rest u'. transferAll (cacheReader (pre @ inputs2 @ rest)) ts (length pre) u' = (Ok (), length (pre @ inputs2), sandbox_delta u' inputs2 outputs2)"
    using Cons.IH [OF tl one(1)] Cons.prems(3) by auto
  have "transferAll (cacheReader (pre @ (inputs @ inputs2) @ rest)) (t # ts) (length pre) u'
      = (Ok (), length (pre @ inputs @ inputs2), sandbox_delta u' (inputs @ inputs2) (outputs @ outputs2))" for pre rest u'
    using one(4) [of pre "inputs2 @ rest" u'] two(3) [of "pre @ inputs" rest "sandbox_delta u' inputs outputs"] t by (simp add: sandbox_delta_def)
  moreover have "u1 = sandbox_delta u (inputs @ inputs2) (outputs @ outputs2)" using one(2) two(1) by (simp add: sandbox_delta_def)
  ultimately show ?case using one(3) two(2) by (intro exI [of _ "inputs @ inputs2"] exI [of _ "outputs @ outputs2"]) (simp add: outputSum_append)
qed

end

definition vm_good :: "kv \<Rightarrow> UtxoVM \<Rightarrow> bool" where
  "vm_good db uv \<longleftrightarrow> kv_ok db \<and> cache_agrees (utxoAt db) uv \<and> prev_ok uv"

interpretation vmr: input_reader "vmReader env db order" "vm_good db" "\<lambda>from. keys_of from (utxoAt db)" for env db order
proof unfold_locales
  fix uv uv1 "from" amount inputs tot
  assume g: "vm_good db uv" "keys_of from (utxoAt db)" "0 < amount" "vmReader env db order from amount uv = (Ok (inputs, tot), uv1)"
  then obtain sel where s: "SelectUtxos env db (order uv from) from amount True False uv = (Ok sel, uv1)" "inputs = selInputs sel" "tot = selTotal sel"
    by (auto simp: vmReader_def split: prod.splits result.splits)
  from SelectUtxos_ok [OF s(1) g(3)] g(1,2) s(2,3)
  show "vm_good db uv1 \<and> (\<forall>i\<in>set inputs. contents (tiFromAddr i) = from) \<and> tot = inputSum inputs \<and> amount \<le> tot \<and> minimal amount inputs"
    by (auto simp: vm_good_def selection_ok_def spendable_def inputFrom_def)
qed

text \<open>
  C35: A contract's transfers are replayed exactly. When the transfers of a call succeed with inputs
  selected from the table, the inputs and outputs they add to the transaction are worth the same; and
  running the call again over the recorded inputs, as a verifier does, succeeds, uses every one of
  them, and produces the same inputs and outputs.
\<close>

theorem contract_transfers_replay:
  assumes "transferAll (vmReader env db order) ts uv NewUTXOSandbox = (Ok (), uv1, u1)"
    and "kv_ok db" and "cache_agrees (utxoAt db) uv" and "prev_ok uv"
    and "\<forall>(from, to, amount)\<in>set ts. keys_of from (utxoAt db) \<and> 0 < amount"
  shows "outputSum (usOutputs u1) = inputSum (usInputs u1)
    \<and> transferAll (cacheReader (usInputs u1)) ts 0 NewUTXOSandbox = (Ok (), length (usInputs u1), u1)"
proof -
  have g: "vm_good db uv" using assms by (simp add: vm_good_def)
  obtain inputs outputs where r: "u1 = sandbox_delta NewUTXOSandbox inputs outputs" "outputSum outputs = inputSum inputs"
      "transferAll (cacheReader ([] @ inputs @ [])) ts (length ([] :: TxInput list)) NewUTXOSandbox = (Ok (), length ([] @ inputs), sandbox_delta NewUTXOSandbox inputs outputs)"
    using vmr.transfers_replay [OF assms(1) g assms(5)] by blast
  then show ?thesis by (simp add: sandbox_delta_def NewUTXOSandbox_def)
qed

theorem contract_transfers_replay_witness:
  "\<exists>uv1 u1. transferAll (vmReader select_env select_db (\<lambda>_ _. [])) [(''amy'', ''bob'', 3), (''bob'', ''cat'', 2)] (MakeUtxo 10 60 select_db) NewUTXOSandbox = (Ok (), uv1, u1)
     \<and> length (usInputs u1) = 2 \<and> length (usOutputs u1) = 4
     \<and> transferAll (cacheReader (usInputs u1)) [(''amy'', ''bob'', 3), (''bob'', ''cat'', 2)] 0 NewUTXOSandbox = (Ok (), 2, u1)"
proof -
  let ?t = "transferAll (vmReader select_env select_db (\<lambda>_ _. [])) [(''amy'', ''bob'', 3), (''bob'', ''cat'', 2)] (MakeUtxo 10 60 select_db) NewUTXOSandbox"
  have ok: "fst ?t = Ok ()" "length (usInputs (snd (snd ?t))) = 2" "length (usOutputs (snd (snd ?t))) = 4" by code_simp+
  then have t: "?t = (Ok (), fst (snd ?t), snd (snd ?t))" by (metis prod.collapse)
  have "outputSum (usOutputs (snd (snd ?t))) = inputSum (usInputs (snd (snd ?t)))
    \<and> transferAll (cacheReader (usInputs (snd (snd ?t)))) [(''amy'', ''bob'', 3), (''bob'', ''cat'', 2)] 0 NewUTXOSandbox = (Ok (), length (usInputs (snd (snd ?t))), snd (snd ?t))"
    by (rule contract_transfers_replay [OF t select_keys(1) MakeUtxo_ok]) (use select_keys in auto)
  with t ok(2,3) show ?thesis by metis
qed

section \<open>Addresses with an underscore\<close>

text \<open>
  The balance of an address counts the outputs of every address that continues it after an underscore, and
  they are selected for it, with an input that is then not found.
\<close>

definition underscore_db :: kv where
  "underscore_db = [(GenUtxoKeyWithPrefix (Some ''a_b'') (Some ''t'') 0, Dumps \<lparr>Amount = 9, FrozenHeight = 0\<rparr>)]"

lemma underscore_balance_counted: "fst (GetBalance underscore_db ''a'' (MakeUtxo 10 60 underscore_db)) = Ok 9"
  by code_simp

lemma underscore_selected_not_found:
  "(case SelectUtxos select_env underscore_db [] ''a'' 5 True False (MakeUtxo 10 60 underscore_db) of
     (Ok sel, uv1) \<Rightarrow> selTotal sel = 9 \<and> checkInputs select_env underscore_db None uv1 {} (selInputs sel) 0 \<noteq> Ok 9 | _ \<Rightarrow> False)"
  by code_simp

lemma underscore_merge_txid:
  "(case fst (SelectUtxosBySize select_env underscore_db ''a_b'' True False (MakeUtxo 10 60 underscore_db)) of
     Ok sel \<Rightarrow> map tiRefTxid (selInputs sel) \<noteq> [Some ''t''] \<and> selInputs sel \<noteq> [] | _ \<Rightarrow> False)"
  by code_simp

text \<open>
  A balance that is summed up after a payment was announced and before its batch is written is kept in the
  cache, because the view has not changed since.
\<close>

lemma stale_balance_kept:
  "let uv1 = AddBalance (Some ''amy'') 7 (MakeUtxo 10 60 select_db);
       uv2 = snd (GetBalance select_db ''amy'' uv1);
       db2 = kvWrite [KvPut (GenUtxoKeyWithPrefix (Some ''amy'') (Some ''z'') 0) (Dumps \<lparr>Amount = 7, FrozenHeight = 0\<rparr>)] select_db
   in fst (GetBalance db2 ''amy'' uv2) = Ok 9 \<and> balanceScan db2 ''amy'' = Ok 16"
  by code_simp

end
