(* ===== verification/Genesis_Config.thy ===== *)
theory Genesis_Config
  imports Lru_Cache Gas_Limits Go_Float
begin

text \<open>
  The configuration in the genesis block and the award of a block
  (\<open>bcs/ledger/xledger/ledger/genesis.go\<close>). The text of the configuration is JSON, whose decoding into
  the record is an argument of \<open>NewGenesisBlock\<close>. The award decays by a factor of type \<open>float64\<close> and is remembered
  per period; the theorem is that remembering does not change it.
\<close>

section \<open>The configuration\<close>

record JsonRequest =
  jrModuleName :: string
  jrContractName :: string
  jrMethodName :: string
  jrArgs :: "(string \<times> string) list"

text \<open>The consensus of the genesis block: as given, or made of the type, the miner and the period.\<close>

datatype 'j genesis_consensus = GivenConsensus 'j | SingleConsensusOf string string string

record 'j RootConfig =
  rcCrypto :: string
  rcConsensusType :: string
  rcConsensusMiner :: string
  rcPredistribution :: "(string \<times> string) list"
  rcMaxBlockSize :: string
  rcPeriod :: string
  rcNoFee :: bool
  rcAward :: string
  rcHeightGap :: int
  rcRatio :: float64
  rcGasPrice :: GasPrice
  rcGenesisConsensus :: "'j option"
  rcReservedContracts :: "JsonRequest list"
  rcReservedWhitelist :: string
  rcForbiddenContract :: JsonRequest
  rcNewAccountResourceAmount :: int
  rcIrreversibleSlideWindow :: string
  rcGroupChainContract :: JsonRequest

definition requestFromJSON :: "JsonRequest \<Rightarrow> InvokeRequest" where
  "requestFromJSON request =
     \<lparr>irModuleName = jrModuleName request, irContractName = jrContractName request, irMethodName = jrMethodName request,
      irArgs = map (\<lambda>(k, v). (k, Some v)) (jrArgs request), irResourceLimits = [], irAmount = []\<rparr>"

definition InvokeRequestFromJSON2Pb :: "JsonRequest list \<Rightarrow> InvokeRequest list" where
  "InvokeRequestFromJSON2Pb jsonRequest = map requestFromJSON jsonRequest"

definition GetCryptoType :: "'j RootConfig \<Rightarrow> string" where
  "GetCryptoType rc = (if rcCrypto rc \<noteq> [] then rcCrypto rc else ''default'')"

text \<open>
  \<open>strconv.Atoi\<close> with the error ignored: 0 for a text that is not a number, and the nearest value of the range
  for a number outside it.
\<close>

definition atoiOr0 :: "string \<Rightarrow> int" where
  "atoiOr0 s = (case parse_int s of None \<Rightarrow> 0 | Some n \<Rightarrow> if is_i64 n then n else if n < 0 then - (2 ^ 63) else 2 ^ 63 - 1)"

definition cfgIrreversibleSlideWindow :: "'j RootConfig \<Rightarrow> int" where
  "cfgIrreversibleSlideWindow rc = atoiOr0 (rcIrreversibleSlideWindow rc)"

definition GetMaxBlockSizeInByte :: "'j RootConfig \<Rightarrow> int" where
  "GetMaxBlockSizeInByte rc = i64 (atoiOr0 (rcMaxBlockSize rc) * 2 ^ 20)"

definition GetGenesisConsensus :: "'j RootConfig \<Rightarrow> 'j genesis_consensus" where
  "GetGenesisConsensus rc =
     (case rcGenesisConsensus rc of
        None \<Rightarrow> SingleConsensusOf (rcConsensusType rc) (rcConsensusMiner rc) (rcPeriod rc)
      | Some c \<Rightarrow> GivenConsensus c)"

definition GetReservedContract :: "'j RootConfig \<Rightarrow> InvokeRequest list" where
  "GetReservedContract rc = InvokeRequestFromJSON2Pb (rcReservedContracts rc)"

definition cfgForbiddenContract :: "'j RootConfig \<Rightarrow> InvokeRequest list" where
  "cfgForbiddenContract rc = InvokeRequestFromJSON2Pb [rcForbiddenContract rc]"

definition cfgGroupChainContract :: "'j RootConfig \<Rightarrow> InvokeRequest list" where
  "cfgGroupChainContract rc = InvokeRequestFromJSON2Pb [rcGroupChainContract rc]"

definition cfgGasPrice :: "'j RootConfig \<Rightarrow> GasPrice" where
  "cfgGasPrice rc = rcGasPrice rc"

section \<open>The award\<close>

text \<open>Products, rounding and conversion of \<open>float64\<close>; a value outside the range converts to the smallest integer.\<close>

fun fmul :: "float64 \<Rightarrow> float64 \<Rightarrow> float64" where
  "fmul (Fin x) (Fin y) = round64 (x * y)"
| "fmul NaN _ = NaN"
| "fmul _ NaN = NaN"
| "fmul (Fin x) PosInf = (if x = 0 then NaN else if 0 < x then PosInf else NegInf)"
| "fmul (Fin x) NegInf = (if x = 0 then NaN else if 0 < x then NegInf else PosInf)"
| "fmul PosInf (Fin y) = (if y = 0 then NaN else if 0 < y then PosInf else NegInf)"
| "fmul NegInf (Fin y) = (if y = 0 then NaN else if 0 < y then NegInf else PosInf)"
| "fmul PosInf PosInf = PosInf"
| "fmul NegInf NegInf = PosInf"
| "fmul PosInf NegInf = NegInf"
| "fmul NegInf PosInf = NegInf"

definition roundHalfAway :: "rat \<Rightarrow> int" where
  "roundHalfAway x = (if 0 \<le> x then floor (x + 1 / 2) else - floor (- x + 1 / 2))"

definition roundToInt64 :: "float64 \<Rightarrow> int" where
  "roundToInt64 x = (case x of Fin r \<Rightarrow> if is_i64 (roundHalfAway r) then roundHalfAway r else - (2 ^ 63) | _ \<Rightarrow> - (2 ^ 63))"

text \<open>\<open>big.Int.SetString\<close> with the result ignored: the sign and the leading digits count.\<close>

definition isDigit :: "char \<Rightarrow> bool" where
  "isDigit c \<longleftrightarrow> 48 \<le> (of_char c :: nat) \<and> (of_char c :: nat) < 58"

definition setString10 :: "string \<Rightarrow> int" where
  "setString10 s =
     (case s of
        [] \<Rightarrow> 0
      | c # cs \<Rightarrow>
          if c = CHR ''-'' then - int (digits_val (takeWhile isDigit cs))
          else if c = CHR ''+'' then int (digits_val (takeWhile isDigit cs))
          else int (digits_val (takeWhile isDigit s)))"

record 'j GenesisBlock =
  gbConfig :: "'j RootConfig"
  gbAwardCache :: "(int, int) LRUCache"

definition awardCacheSize :: int where "awardCacheSize = 1000"

datatype genesis_error = EmptyConfig | BadConfig

definition NewGenesisBlock :: "(bytes \<Rightarrow> 'j RootConfig option) \<Rightarrow> bytes \<Rightarrow> (genesis_error, 'j GenesisBlock) result" where
  "NewGenesisBlock parse genesisCfg =
     (if length genesisCfg < 1 then Err EmptyConfig
      else case parse genesisCfg of
          None \<Rightarrow> Err BadConfig
        | Some config \<Rightarrow>
            let config' = (if rcNoFee config
                  then config\<lparr>rcAward := ''0'', rcNewAccountResourceAmount := 0,
                    rcGasPrice := \<lparr>CpuRate = 0, MemRate = 0, DiskRate = 0, XfeeRate = 0\<rparr>\<rparr>
                  else config)
            in Ok \<lparr>gbConfig = config', gbAwardCache = NewLRUCache awardCacheSize\<rparr>)"

fun decay :: "float64 \<Rightarrow> nat \<Rightarrow> float64 \<Rightarrow> float64" where
  "decay ratio 0 realAward = realAward"
| "decay ratio (Suc n) realAward = decay ratio n (fmul realAward ratio)"

definition CalcAward :: "int \<Rightarrow> 'j GenesisBlock \<Rightarrow> int \<times> 'j GenesisBlock" where
  "CalcAward blockHeight gb =
     (let award = setString10 (rcAward (gbConfig gb)); gap = rcHeightGap (gbConfig gb)
      in if gap = 0 then (award, gb)
         else let period = go_div blockHeight gap
              in case lruGet (gbAwardCache gb) period of
                  (c, Some awardRemember) \<Rightarrow> (awardRemember, gb\<lparr>gbAwardCache := c\<rparr>)
                | (c, None) \<Rightarrow>
                    let realAward = decay (rcRatio (gbConfig gb)) (nat period) (round64 (of_int (i64 award)));
                        n = roundToInt64 realAward
                    in (n, gb\<lparr>gbAwardCache := fst (lruAdd c period n)\<rparr>))"

section \<open>Remembering\<close>

text \<open>The award of a height, without a cache.\<close>

definition awardAt :: "'j RootConfig \<Rightarrow> int \<Rightarrow> int" where
  "awardAt rc h =
     (if rcHeightGap rc = 0 then setString10 (rcAward rc)
      else roundToInt64 (decay (rcRatio rc) (nat (go_div h (rcHeightGap rc))) (round64 (of_int (i64 (setString10 (rcAward rc)))))))"

definition award_inv :: "'j GenesisBlock \<Rightarrow> bool" where
  "award_inv gb \<longleftrightarrow> lru_inv (gbAwardCache gb) \<and>
     (\<forall>(p, a)\<in>set (lru_abs (gbAwardCache gb)). a = roundToInt64 (decay (rcRatio (gbConfig gb)) (nat p) (round64 (of_int (i64 (setString10 (rcAward (gbConfig gb))))))))"

lemma CalcAward_step:
  assumes "award_inv gb"
  shows "fst (CalcAward h gb) = awardAt (gbConfig gb) h" and "award_inv (snd (CalcAward h gb))" and "gbConfig (snd (CalcAward h gb)) = gbConfig gb"
proof -
  let ?cfg = "gbConfig gb"
  let ?f = "\<lambda>p. roundToInt64 (decay (rcRatio ?cfg) (nat p) (round64 (of_int (i64 (setString10 (rcAward ?cfg))))))"
  let ?p = "go_div h (rcHeightGap ?cfg)"
  have inv: "lru_inv (gbAwardCache gb)" and m: "\<And>p a. (p, a) \<in> set (lru_abs (gbAwardCache gb)) \<Longrightarrow> a = ?f p"
    using assms by (auto simp: award_inv_def)
  have "fst (CalcAward h gb) = awardAt ?cfg h \<and> award_inv (snd (CalcAward h gb)) \<and> gbConfig (snd (CalcAward h gb)) = ?cfg"
  proof (cases "rcHeightGap ?cfg = 0")
    case True
    then show ?thesis using assms by (simp add: CalcAward_def awardAt_def)
  next
    case False
    show ?thesis
    proof (rule lruGet_cases [OF inv, of ?p])
      fix c1 v assume "lruGet (gbAwardCache gb) ?p = (c1, Some v)" "lru_inv c1" "(?p, v) \<in> set (lru_abs (gbAwardCache gb))"
        "set (lru_abs c1) \<subseteq> set (lru_abs (gbAwardCache gb))"
      then show ?thesis using False m by (auto simp: CalcAward_def awardAt_def award_inv_def Let_def)
    next
      fix c1 assume g: "lruGet (gbAwardCache gb) ?p = (c1, None)" "lru_inv c1" "lru_abs c1 = lru_abs (gbAwardCache gb)"
      note sub = lruAdd_subset [OF g(2), of ?p "?f ?p"]
      have "a = ?f p" if "(p, a) \<in> set (lru_abs (fst (lruAdd c1 ?p (?f ?p))))" for p a
        using subsetD [OF sub(2) that] m [of p a] g(3) by auto
      then show ?thesis using False g(1) sub(1) by (auto simp: CalcAward_def awardAt_def award_inv_def Let_def)
    qed
  qed
  then show "fst (CalcAward h gb) = awardAt ?cfg h" "award_inv (snd (CalcAward h gb))" "gbConfig (snd (CalcAward h gb)) = ?cfg" by blast+
qed

lemma award_inv_New: "NewGenesisBlock parse cfg = Ok gb \<Longrightarrow> award_inv gb"
  by (auto simp: NewGenesisBlock_def award_inv_def lru_inv_New Let_def split: if_splits option.splits)

fun awards :: "int list \<Rightarrow> 'j GenesisBlock \<Rightarrow> int list" where
  "awards [] gb = []"
| "awards (h # hs) gb = (case CalcAward h gb of (a, gb1) \<Rightarrow> a # awards hs gb1)"

lemma awards_ok: "award_inv gb \<Longrightarrow> awards hs gb = map (awardAt (gbConfig gb)) hs"
proof (induction hs arbitrary: gb)
  case (Cons h hs)
  then show ?case using CalcAward_step [OF Cons.prems, of h] by (auto split: prod.splits)
qed simp

text \<open>
  C40: Remembering the award of a period does not change it. In whatever order heights are asked for, the
  award of a height is the configured amount, or with a decay the amount multiplied once per
  period, in \<open>float64\<close>, and rounded.
\<close>

theorem award_memo_transparent:
  assumes "NewGenesisBlock parse cfg = Ok gb"
  shows "awards hs gb = map (awardAt (gbConfig gb)) hs"
  by (rule awards_ok [OF award_inv_New [OF assms]])

definition award_config :: "unit RootConfig" where
  "award_config = \<lparr>rcCrypto = [], rcConsensusType = [], rcConsensusMiner = [], rcPredistribution = [], rcMaxBlockSize = ''16'', rcPeriod = [],
     rcNoFee = False, rcAward = ''1000'', rcHeightGap = 10, rcRatio = Fin (1 / 2),
     rcGasPrice = \<lparr>CpuRate = 0, MemRate = 0, DiskRate = 0, XfeeRate = 0\<rparr>, rcGenesisConsensus = None,
     rcReservedContracts = [], rcReservedWhitelist = [], rcForbiddenContract = \<lparr>jrModuleName = [], jrContractName = [], jrMethodName = [], jrArgs = []\<rparr>,
     rcNewAccountResourceAmount = 0, rcIrreversibleSlideWindow = [], rcGroupChainContract = \<lparr>jrModuleName = [], jrContractName = [], jrMethodName = [], jrArgs = []\<rparr>\<rparr>"

theorem award_memo_transparent_witness:
  "awards [0, 25, 12, 25] \<lparr>gbConfig = award_config, gbAwardCache = NewLRUCache awardCacheSize\<rparr> = [1000, 250, 500, 250]"
proof -
  have ok: "NewGenesisBlock (\<lambda>_. Some award_config) ''{}'' = Ok \<lparr>gbConfig = award_config, gbAwardCache = NewLRUCache awardCacheSize\<rparr>"
    by (simp add: NewGenesisBlock_def award_config_def)
  have s: "setString10 ''1000'' = 1000" "i64 1000 = 1000" "go_div 0 10 = 0" "go_div 25 10 = 2" "go_div 12 10 = 1" by code_simp+
  have r: "round64 1000 = Fin 1000" "round64 500 = Fin 500" "round64 250 = Fin 250"
    using round64_int [of 1000] round64_int [of 500] round64_int [of 250] by simp_all
  have w: "roundToInt64 (Fin 1000) = 1000" "roundToInt64 (Fin 500) = 500" "roundToInt64 (Fin 250) = 250" by code_simp+
  have "map (awardAt award_config) [0, 25, 12, 25] = [1000, 250, 500, 250]"
    by (simp add: awardAt_def award_config_def s r w eval_nat_numeral)
  then show ?thesis using award_memo_transparent [OF ok, of "[0, 25, 12, 25]"] by simp
qed

end
