(* ===== verification/Ledger_Chain.thy ===== *)
theory Ledger_Chain
  imports Utxo_Vm Merkle_Hash Genesis_Config
begin

text \<open>
  The ledger (\<open>bcs/ledger/xledger/ledger/ledger.go\<close>, \<open>branch_manage.go\<close>): a tree of blocks in a
  database, of which the branch with the highest tip is the trunk, with caches for blocks, headers
  and transactions. The state holds the database, the meta data and the caches; the
  protocol buffer codecs are parameters, and a batch is the list of its operations. Block heights count
  blocks from 0 and stay below the range of \<open>int64\<close>. Theorems: confirming blocks keeps the tree with its trunk,
  its links and its index by height in order, whichever forks occur; the blocks to undo and to do
  between two blocks are the two paths to their closest common ancestor; truncating removes exactly what is
  above the target; and a formatted block verifies.
\<close>

section \<open>State\<close>

datatype ledger_error = ErrBlockNotExist | ErrTxNotFound | ErrTxDuplicated | ErrRootBlockAlreadyExist | ErrTxNotConfirmed
  | ErrKeyNotFound | BlockCorrupt | TxCorrupt | MetaCorrupt | MarshalFailed | NoCoinbase | GenesisFailed genesis_error
  | BadBranchHeight | GenesisHasPreHash | NoPublicKey | SignFailed

record LedgerMeta =
  lmRootBlockid :: slice
  lmTipBlockid :: slice
  lmTrunkHeight :: int

text \<open>
  The codecs, the decoding of the genesis configuration, and the capacity with which a list of
  some length is decoded, up to which it can be resliced.
\<close>

record 'j LedgerEnv =
  leMarshalBlock :: "InternalBlock \<Rightarrow> bytes option"
  leUnmarshalBlock :: "bytes \<Rightarrow> InternalBlock option"
  leMarshalTx :: "Transaction \<Rightarrow> bytes option"
  leUnmarshalTx :: "bytes \<Rightarrow> Transaction option"
  leMarshalMeta :: "LedgerMeta \<Rightarrow> bytes option"
  leUnmarshalMeta :: "bytes \<Rightarrow> LedgerMeta option"
  leParseConfig :: "bytes \<Rightarrow> 'j RootConfig option"
  leCapacity :: "nat \<Rightarrow> nat"

record 'j Ledger =
  ldDB :: kv
  ldMeta :: LedgerMeta
  ldGenesis :: "'j GenesisBlock option"
  ldBlockCache :: "(string, InternalBlock) LRUCache"
  ldHeaderCache :: "(string, InternalBlock) LRUCache"
  ldTxCache :: "(string, Transaction) LRUCache"

definition BlocksTablePrefix :: string where "BlocksTablePrefix = ''B''"
definition ConfirmedTablePrefix :: string where "ConfirmedTablePrefix = ''C''"
definition PendingBlocksTablePrefix :: string where "PendingBlocksTablePrefix = ''PB''"
definition BlockHeightPrefix :: string where "BlockHeightPrefix = ''ZH''"
definition BranchInfoPrefix :: string where "BranchInfoPrefix = ''ZI''"

lemmas ledger_prefixes = BlocksTablePrefix_def ConfirmedTablePrefix_def PendingBlocksTablePrefix_def BlockHeightPrefix_def
  BranchInfoPrefix_def MetaTablePrefix_def

definition RootBlockVersion :: int where "RootBlockVersion = 0"
definition BlockVersion :: int where "BlockVersion = 1"
definition BlockCacheSize :: int where "BlockCacheSize = 1000"
definition TxCacheSize :: int where "TxCacheSize = 100000"
definition DisableTxDedup :: bool where "DisableTxDedup = False"

text \<open>An operation on the ledger and the batch that may fail, and what follows it.\<close>

type_synonym 'j lstate = "'j Ledger \<times> kvop list"

fun lbind :: "(ledger_error, 'a) result \<times> 's \<Rightarrow> ('a \<Rightarrow> 's \<Rightarrow> (ledger_error, 'b) result \<times> 's) \<Rightarrow> (ledger_error, 'b) result \<times> 's" where
  "lbind (Ok a, s) f = f a s"
| "lbind (Err e, s) f = (Err e, s)"
| "lbind (Panic, s) f = (Panic, s)"

lemma lbind_Ok: "lbind x f = (Ok b, s') \<longleftrightarrow> (\<exists>a s. x = (Ok a, s) \<and> f a s = (Ok b, s'))"
  by (cases x; cases "fst x") auto

section \<open>Blocks in the database\<close>

text \<open>\<open>%020d\<close>: at least twenty characters, filled with zeros after the sign.\<close>

definition zeroPad :: "nat \<Rightarrow> string \<Rightarrow> string" where
  "zeroPad n s = replicate (n - length s) (CHR ''0'') @ s"

definition sHeight :: "int \<Rightarrow> string" where
  "sHeight h = (if h < 0 then ''-'' @ zeroPad 19 (show_nat (nat (- h))) else zeroPad 20 (show_nat (nat h)))"

definition saveBlock :: "('j, 'm) LedgerEnv_scheme \<Rightarrow> InternalBlock \<Rightarrow> 'j lstate \<Rightarrow> (ledger_error, unit) result \<times> 'j lstate" where
  "saveBlock env block s =
     (case s of (l, batchWrite) \<Rightarrow>
        let l1 = l\<lparr>ldHeaderCache := fst (lruAdd (ldHeaderCache l) (contents (ibBlockid block)) block)\<rparr>
        in (case leMarshalBlock env block of
              None \<Rightarrow> (Err MarshalFailed, l1, batchWrite)
            | Some blockBuf \<Rightarrow>
                (Ok (), l1, batchWrite @ [KvPut (BlocksTablePrefix @ contents (ibBlockid block)) blockBuf] @
                   (if ibInTrunk block then [KvPut (BlockHeightPrefix @ sHeight (ibHeight block)) (contents (ibBlockid block))] else []))))"

text \<open>\<open>fetchBlockForModify\<close> returns a copy of what \<open>fetchBlock\<close> returns, which is the same value here.\<close>

definition fetchBlock :: "('j, 'm) LedgerEnv_scheme \<Rightarrow> bytes \<Rightarrow> 'j lstate \<Rightarrow> (ledger_error, InternalBlock) result \<times> 'j lstate" where
  "fetchBlock env blockid s =
     (case s of (l, batchWrite) \<Rightarrow>
        (case lruGet (ldHeaderCache l) blockid of
           (c, Some blkInCache) \<Rightarrow> (Ok blkInCache, l\<lparr>ldHeaderCache := c\<rparr>, batchWrite)
         | (c, None) \<Rightarrow>
             (case tableGet BlocksTablePrefix (ldDB l) blockid of
                None \<Rightarrow> (Err ErrKeyNotFound, l\<lparr>ldHeaderCache := c\<rparr>, batchWrite)
              | Some blockBuf \<Rightarrow>
                  (case leUnmarshalBlock env blockBuf of
                     None \<Rightarrow> (Err BlockCorrupt, l\<lparr>ldHeaderCache := c\<rparr>, batchWrite)
                   | Some block \<Rightarrow> (Ok block, l\<lparr>ldHeaderCache := fst (lruAdd c blockid block)\<rparr>, batchWrite)))))"

text \<open>The transactions of a block are found by the leaves of its Merkle tree.\<close>

fun loadTxs :: "('j, 'm) LedgerEnv_scheme \<Rightarrow> kv \<Rightarrow> slice list \<Rightarrow> (ledger_error, Transaction list) result" where
  "loadTxs env db [] = Ok []"
| "loadTxs env db (txid # txids) =
     (case tableGet ConfirmedTablePrefix db (contents txid) of
        None \<Rightarrow> Err ErrKeyNotFound
      | Some pbTxBuf \<Rightarrow>
          (case leUnmarshalTx env pbTxBuf of
             None \<Rightarrow> Err TxCorrupt
           | Some realTx \<Rightarrow> bind_result (loadTxs env db txids) (\<lambda>txs. Ok (realTx # txs))))"

text \<open>\<open>s[:n]\<close> of a decoded list: up to its capacity, with nil elements after its length.\<close>

definition resliced :: "('j, 'm) LedgerEnv_scheme \<Rightarrow> slice list \<Rightarrow> int \<Rightarrow> (ledger_error, slice list) result" where
  "resliced env xs n =
     (if n < 0 \<or> int (leCapacity env (length xs)) < n then Panic
      else Ok (take (nat n) (xs @ replicate (nat n - length xs) None)))"

definition queryBlock :: "('j, 'm) LedgerEnv_scheme \<Rightarrow> kv \<Rightarrow> bytes \<Rightarrow> bool \<Rightarrow> (ledger_error, InternalBlock) result" where
  "queryBlock env db blockid needBody =
     (case tableGet BlocksTablePrefix db blockid of
        None \<Rightarrow> Err ErrBlockNotExist
      | Some pbBlockBuf \<Rightarrow>
          (case leUnmarshalBlock env pbBlockBuf of
             None \<Rightarrow> Err BlockCorrupt
           | Some block \<Rightarrow>
               if needBody
               then bind_result (resliced env (ibMerkleTree block) (ibTxCount block)) (\<lambda>txids.
                    bind_result (loadTxs env db txids) (\<lambda>realTransactions. Ok (block\<lparr>ibTransactions := realTransactions\<rparr>)))
               else Ok block))"

definition QueryBlock :: "('j, 'm) LedgerEnv_scheme \<Rightarrow> bytes \<Rightarrow> 'j Ledger \<Rightarrow> (ledger_error, InternalBlock) result \<times> 'j Ledger" where
  "QueryBlock env blockid l =
     (case lruGet (ldBlockCache l) blockid of
        (c, Some blkInCache) \<Rightarrow> (Ok blkInCache, l\<lparr>ldBlockCache := c\<rparr>)
      | (c, None) \<Rightarrow>
          (case queryBlock env (ldDB l) blockid True of
             Ok blk \<Rightarrow> (Ok blk, l\<lparr>ldBlockCache := fst (lruAdd c blockid blk)\<rparr>)
           | Err e \<Rightarrow> (Err e, l\<lparr>ldBlockCache := c\<rparr>)
           | Panic \<Rightarrow> (Panic, l\<lparr>ldBlockCache := c\<rparr>)))"

definition ExistBlock :: "bytes \<Rightarrow> 'j Ledger \<Rightarrow> bool" where
  "ExistBlock blockid l \<longleftrightarrow> tableGet BlocksTablePrefix (ldDB l) blockid \<noteq> None"

definition QueryBlockHeader :: "('j, 'm) LedgerEnv_scheme \<Rightarrow> bytes \<Rightarrow> 'j Ledger \<Rightarrow> (ledger_error, InternalBlock) result \<times> 'j Ledger" where
  "QueryBlockHeader env blockid l = (case fetchBlock env blockid (l, []) of (r, l1, _) \<Rightarrow> (r, l1))"

definition QueryBlockByHeight :: "('j, 'm) LedgerEnv_scheme \<Rightarrow> int \<Rightarrow> 'j Ledger \<Rightarrow> (ledger_error, InternalBlock) result \<times> 'j Ledger" where
  "QueryBlockByHeight env height l =
     (case tableGet BlockHeightPrefix (ldDB l) (sHeight height) of
        None \<Rightarrow> (Err ErrBlockNotExist, l)
      | Some blockID \<Rightarrow> QueryBlock env blockID l)"

definition QueryBlockHeaderByHeight :: "('j, 'm) LedgerEnv_scheme \<Rightarrow> int \<Rightarrow> 'j Ledger \<Rightarrow> (ledger_error, InternalBlock) result \<times> 'j Ledger" where
  "QueryBlockHeaderByHeight env height l =
     (case tableGet BlockHeightPrefix (ldDB l) (sHeight height) of
        None \<Rightarrow> (Err ErrBlockNotExist, l)
      | Some blockID \<Rightarrow> QueryBlockHeader env blockID l)"

section \<open>Transactions in the database\<close>

definition HasTransaction :: "bytes \<Rightarrow> 'j Ledger \<Rightarrow> bool \<times> 'j Ledger" where
  "HasTransaction txid l =
     (case lruGet (ldTxCache l) txid of
        (c, Some _) \<Rightarrow> (True, l\<lparr>ldTxCache := c\<rparr>)
      | (c, None) \<Rightarrow> (tableGet ConfirmedTablePrefix (ldDB l) txid \<noteq> None, l\<lparr>ldTxCache := c\<rparr>))"

definition QueryTransaction :: "('j, 'm) LedgerEnv_scheme \<Rightarrow> bytes \<Rightarrow> 'j Ledger \<Rightarrow> (ledger_error, Transaction) result \<times> 'j Ledger" where
  "QueryTransaction env txid l =
     (case lruGet (ldTxCache l) txid of
        (c, Some itx) \<Rightarrow> (Ok itx, l\<lparr>ldTxCache := c\<rparr>)
      | (c, None) \<Rightarrow>
          (case tableGet ConfirmedTablePrefix (ldDB l) txid of
             None \<Rightarrow> (Err ErrTxNotFound, l\<lparr>ldTxCache := c\<rparr>)
           | Some pbTxBuf \<Rightarrow>
               (case leUnmarshalTx env pbTxBuf of
                  None \<Rightarrow> (Err TxCorrupt, l\<lparr>ldTxCache := c\<rparr>)
                | Some realTx \<Rightarrow> (Ok realTx, l\<lparr>ldTxCache := fst (lruAdd c txid realTx)\<rparr>))))"

definition IsTxInTrunk :: "('j, 'm) LedgerEnv_scheme \<Rightarrow> bytes \<Rightarrow> 'j Ledger \<Rightarrow> bool \<times> 'j Ledger" where
  "IsTxInTrunk env txid l =
     (case Option.bind (tableGet ConfirmedTablePrefix (ldDB l) txid) (leUnmarshalTx env) of
        None \<Rightarrow> (False, l)
      | Some realTx \<Rightarrow>
          (case lruGet (ldBlockCache l) (contents (txBlockid realTx)) of
             (c, Some blk) \<Rightarrow> (ibInTrunk blk, l\<lparr>ldBlockCache := c\<rparr>)
           | (c, None) \<Rightarrow>
               (case queryBlock env (ldDB l) (contents (txBlockid realTx)) False of
                  Ok blk \<Rightarrow> (ibInTrunk blk, l\<lparr>ldBlockCache := c\<rparr>)
                | _ \<Rightarrow> (False, l\<lparr>ldBlockCache := c\<rparr>))))"

definition QueryBlockByTxid :: "('j, 'm) LedgerEnv_scheme \<Rightarrow> bytes \<Rightarrow> 'j Ledger \<Rightarrow> (ledger_error, InternalBlock) result \<times> 'j Ledger" where
  "QueryBlockByTxid env txid l =
     (case HasTransaction txid l of
        (False, l1) \<Rightarrow> (Err ErrTxNotConfirmed, l1)
      | (True, l1) \<Rightarrow>
          (case QueryTransaction env txid l1 of
             (Ok tx, l2) \<Rightarrow> (queryBlock env (ldDB l2) (contents (txBlockid tx)) False, l2)
           | (Err e, l2) \<Rightarrow> (Err e, l2)
           | (Panic, l2) \<Rightarrow> (Panic, l2)))"

section \<open>Pending blocks\<close>

definition SavePendingBlock :: "('j, 'm) LedgerEnv_scheme \<Rightarrow> InternalBlock \<Rightarrow> 'j Ledger \<Rightarrow> (ledger_error, unit) result \<times> 'j Ledger" where
  "SavePendingBlock env block l =
     (case leMarshalBlock env block of
        None \<Rightarrow> (Err MarshalFailed, l)
      | Some blockBuf \<Rightarrow>
          (Ok (), l\<lparr>ldDB := kvWrite [KvPut (PendingBlocksTablePrefix @ contents (ibBlockid block)) blockBuf] (ldDB l)\<rparr>))"

definition GetPendingBlock :: "('j, 'm) LedgerEnv_scheme \<Rightarrow> bytes \<Rightarrow> 'j Ledger \<Rightarrow> (ledger_error, InternalBlock) result" where
  "GetPendingBlock env blockID l =
     (case tableGet PendingBlocksTablePrefix (ldDB l) blockID of
        None \<Rightarrow> Err ErrBlockNotExist
      | Some blockBuf \<Rightarrow> (case leUnmarshalBlock env blockBuf of None \<Rightarrow> Err BlockCorrupt | Some block \<Rightarrow> Ok block))"

section \<open>Branches\<close>

definition updateBranchInfo :: "bytes \<Rightarrow> bytes \<Rightarrow> int \<Rightarrow> kvop list \<Rightarrow> kvop list" where
  "updateBranchInfo addedBlockid deletedBlockid addedBlockHeight batch =
     batch @ [KvDelete (BranchInfoPrefix @ deletedBlockid), KvPut (BranchInfoPrefix @ addedBlockid) (itoa addedBlockHeight)]"

fun branchTips :: "bytes \<Rightarrow> int \<Rightarrow> (string \<times> bytes) list \<Rightarrow> (ledger_error, bytes list) result" where
  "branchTips targetBlockid targetBlockHeight [] = Ok []"
| "branchTips targetBlockid targetBlockHeight ((key, value) # it) =
     (if length key < length BranchInfoPrefix + 1 then branchTips targetBlockid targetBlockHeight it
      else let blkId = drop (length BranchInfoPrefix) key
           in (case parse_i64 value of
                 None \<Rightarrow> Err BadBranchHeight
               | Some blockHeight \<Rightarrow>
                   bind_result (branchTips targetBlockid targetBlockHeight it) (\<lambda>tips.
                     Ok (if targetBlockid \<noteq> blkId \<and> targetBlockHeight < blockHeight then blkId # tips else tips))))"

definition GetBranchInfo :: "bytes \<Rightarrow> int \<Rightarrow> kv \<Rightarrow> (ledger_error, bytes list) result" where
  "GetBranchInfo targetBlockid targetBlockHeight db = branchTips targetBlockid targetBlockHeight (kvPrefix db BranchInfoPrefix)"

text \<open>
  The common ancestor of two blocks. The loops follow the previous blocks and need not end in an
  arbitrary database.
\<close>

partial_function (option) climbTo :: "('j, 'm) LedgerEnv_scheme \<Rightarrow> int \<Rightarrow> InternalBlock \<Rightarrow> 'j Ledger \<Rightarrow> ((ledger_error, InternalBlock) result \<times> 'j Ledger) option" where
  [code]: "climbTo env height block l =
     (if height < ibHeight block
      then (case QueryBlock env (contents (ibPreHash block)) l of
              (Ok block1, l1) \<Rightarrow> climbTo env height block1 l1
            | (Err e, l1) \<Rightarrow> Some (Err e, l1)
            | (Panic, l1) \<Rightarrow> Some (Panic, l1))
      else Some (Ok block, l))"

partial_function (option) climbBoth :: "('j, 'm) LedgerEnv_scheme \<Rightarrow> InternalBlock \<Rightarrow> InternalBlock \<Rightarrow> 'j Ledger \<Rightarrow> ((ledger_error, slice) result \<times> 'j Ledger) option" where
  [code]: "climbBoth env block1 block2 l =
     (if bytes_equal (ibBlockid block1) (ibBlockid block2) then Some (Ok (ibBlockid block1), l)
      else (case lbind (QueryBlock env (contents (ibPreHash block1)) l) (\<lambda>b1 l1.
                 lbind (QueryBlock env (contents (ibPreHash block2)) l1) (\<lambda>b2 l2. (Ok (b1, b2), l2))) of
              (Ok (b1, b2), l2) \<Rightarrow> climbBoth env b1 b2 l2
            | (Err e, l2) \<Rightarrow> Some (Err e, l2)
            | (Panic, l2) \<Rightarrow> Some (Panic, l2)))"

definition GetCommonParentBlockid :: "('j, 'm) LedgerEnv_scheme \<Rightarrow> bytes \<Rightarrow> bytes \<Rightarrow> 'j Ledger \<Rightarrow> ((ledger_error, slice) result \<times> 'j Ledger) option" where
  "GetCommonParentBlockid env branch1Blockid branch2Blockid l =
     (case lbind (QueryBlock env branch1Blockid l) (\<lambda>b1 l1. lbind (QueryBlock env branch2Blockid l1) (\<lambda>b2 l2. (Ok (b1, b2), l2))) of
        (Err e, l2) \<Rightarrow> Some (Err e, l2)
      | (Panic, l2) \<Rightarrow> Some (Panic, l2)
      | (Ok (b1, b2), l2) \<Rightarrow>
          Option.bind (climbTo env (ibHeight b2) b1 l2) (\<lambda>(r1, l3).
            case r1 of
              Err e \<Rightarrow> Some (Err e, l3)
            | Panic \<Rightarrow> Some (Panic, l3)
            | Ok b1' \<Rightarrow>
                Option.bind (climbTo env (ibHeight b1') b2 l3) (\<lambda>(r2, l4).
                  case r2 of
                    Err e \<Rightarrow> Some (Err e, l4)
                  | Panic \<Rightarrow> Some (Panic, l4)
                  | Ok b2' \<Rightarrow> climbBoth env b1' b2' l4)))"

section \<open>Switching the trunk\<close>

fun correctTxs :: "('j, 'm) LedgerEnv_scheme \<Rightarrow> slice \<Rightarrow> Transaction list \<Rightarrow> kvop list \<Rightarrow> (ledger_error, unit) result \<times> kvop list" where
  "correctTxs env blockID [] batchWrite = (Ok (), batchWrite)"
| "correctTxs env blockID (tx # txs) batchWrite =
     (if bytes_equal (txBlockid tx) blockID then correctTxs env blockID txs batchWrite
      else case leMarshalTx env (tx\<lparr>txBlockid := blockID\<rparr>) of
          None \<Rightarrow> (Err MarshalFailed, batchWrite)
        | Some pbTxBuf \<Rightarrow> correctTxs env blockID txs (batchWrite @ [KvPut (ConfirmedTablePrefix @ contents (txTxid tx)) pbTxBuf]))"

definition correctTxsBlockid :: "('j, 'm) LedgerEnv_scheme \<Rightarrow> slice \<Rightarrow> 'j lstate \<Rightarrow> (ledger_error, unit) result \<times> 'j lstate" where
  "correctTxsBlockid env blockID s =
     (case s of (l, batchWrite) \<Rightarrow>
        (case queryBlock env (ldDB l) (contents blockID) True of
           Err e \<Rightarrow> (Err e, l, batchWrite)
         | Panic \<Rightarrow> (Panic, l, batchWrite)
         | Ok block \<Rightarrow> (case correctTxs env blockID (ibTransactions block) batchWrite of (r, batch') \<Rightarrow> (r, l, batch'))))"

text \<open>One round of \<open>handleFork\<close>: a block leaves the trunk and another enters it.\<close>

definition forkStep :: "('j, 'm) LedgerEnv_scheme \<Rightarrow> slice \<Rightarrow> slice \<Rightarrow> slice \<Rightarrow> 'j lstate \<Rightarrow> (ledger_error, slice \<times> slice) result \<times> 'j lstate" where
  "forkStep env p q nextHash s =
     lbind (fetchBlock env (contents p) s) (\<lambda>pBlock s1.
     lbind (fetchBlock env (contents q) s1) (\<lambda>qBlock s2.
     lbind (correctTxsBlockid env (ibBlockid qBlock) s2) (\<lambda>_ s3.
     lbind (saveBlock env (pBlock\<lparr>ibInTrunk := False, ibNextHash := Some []\<rparr>) s3) (\<lambda>_ s4.
     lbind (saveBlock env (qBlock\<lparr>ibInTrunk := True, ibNextHash := nextHash\<rparr>) s4) (\<lambda>_ s5.
       (Ok (ibPreHash pBlock, ibPreHash qBlock), s5))))))"

partial_function (option) forkLoop :: "('j, 'm) LedgerEnv_scheme \<Rightarrow> slice \<Rightarrow> slice \<Rightarrow> slice \<Rightarrow> 'j lstate \<Rightarrow> ((ledger_error, slice \<times> slice) result \<times> 'j lstate) option" where
  [code]: "forkLoop env p q nextHash s =
     (if bytes_equal p q then Some (Ok (q, nextHash), s)
      else (case forkStep env p q nextHash s of
              (Ok (p1, q1), s1) \<Rightarrow> forkLoop env p1 q1 q s1
            | (Err e, s1) \<Rightarrow> Some (Err e, s1)
            | (Panic, s1) \<Rightarrow> Some (Panic, s1)))"

definition handleFork :: "('j, 'm) LedgerEnv_scheme \<Rightarrow> slice \<Rightarrow> slice \<Rightarrow> slice \<Rightarrow> 'j lstate \<Rightarrow> ((ledger_error, InternalBlock) result \<times> 'j lstate) option" where
  "handleFork env oldTip newTipPre nextHash s =
     map_option (\<lambda>r. lbind r (\<lambda>(q, nextHash') s1.
       lbind (fetchBlock env (contents q) s1) (\<lambda>splitBlock s2.
         let splitBlock' = splitBlock\<lparr>ibInTrunk := True, ibNextHash := nextHash'\<rparr>
         in lbind (saveBlock env splitBlock' s2) (\<lambda>_ s3. (Ok splitBlock', s3)))))
       (forkLoop env oldTip newTipPre nextHash s)"

text \<open>
  The exported \<open>HandleFork\<close> of \<open>branch_manage.go\<close>. Its second loop continues with the block it has just
  saved.
\<close>

partial_function (option) leaveTrunk :: "('j, 'm) LedgerEnv_scheme \<Rightarrow> slice \<Rightarrow> slice \<Rightarrow> 'j lstate \<Rightarrow> ((ledger_error, unit) result \<times> 'j lstate) option" where
  [code]: "leaveTrunk env oldTip common s =
     (if bytes_equal oldTip common then Some (Ok (), s)
      else (case lbind (fetchBlock env (contents oldTip) s) (\<lambda>oldBlock s1.
                 lbind (saveBlock env (oldBlock\<lparr>ibInTrunk := False, ibNextHash := Some []\<rparr>) s1) (\<lambda>_ s2. (Ok (ibPreHash oldBlock), s2))) of
              (Ok pre, s2) \<Rightarrow> leaveTrunk env pre common s2
            | (Err e, s2) \<Rightarrow> Some (Err e, s2)
            | (Panic, s2) \<Rightarrow> Some (Panic, s2)))"

partial_function (option) enterTrunk :: "('j, 'm) LedgerEnv_scheme \<Rightarrow> slice \<Rightarrow> slice \<Rightarrow> slice \<Rightarrow> 'j lstate \<Rightarrow> ((ledger_error, unit) result \<times> 'j lstate) option" where
  [code]: "enterTrunk env newTip nextHash common s =
     (if bytes_equal newTip common then Some (Ok (), s)
      else (case lbind (fetchBlock env (contents newTip) s) (\<lambda>newBlock s1.
                 lbind (correctTxsBlockid env (ibBlockid newBlock) s1) (\<lambda>_ s2.
                 lbind (saveBlock env (newBlock\<lparr>ibInTrunk := True, ibNextHash := nextHash\<rparr>) s2) (\<lambda>_ s3. (Ok (ibBlockid newBlock), s3)))) of
              (Ok nextHash', s3) \<Rightarrow> enterTrunk env nextHash' nextHash' common s3
            | (Err e, s3) \<Rightarrow> Some (Err e, s3)
            | (Panic, s3) \<Rightarrow> Some (Panic, s3)))"

definition HandleFork :: "('j, 'm) LedgerEnv_scheme \<Rightarrow> slice \<Rightarrow> slice \<Rightarrow> 'j lstate \<Rightarrow> ((ledger_error, InternalBlock) result \<times> 'j lstate) option" where
  "HandleFork env oldTip newTip s =
     (case s of (l, batchWrite) \<Rightarrow>
        Option.bind (GetCommonParentBlockid env (contents oldTip) (contents newTip) l) (\<lambda>(r, l1).
          case r of
            Err e \<Rightarrow> Some (Err e, l1, batchWrite)
          | Panic \<Rightarrow> Some (Panic, l1, batchWrite)
          | Ok common \<Rightarrow>
              Option.bind (leaveTrunk env oldTip common (l1, batchWrite)) (\<lambda>(r1, s1).
                case r1 of
                  Err e \<Rightarrow> Some (Err e, s1)
                | Panic \<Rightarrow> Some (Panic, s1)
                | Ok _ \<Rightarrow>
                    (case fetchBlock env (contents newTip) s1 of
                       (Err e, s2) \<Rightarrow> Some (Err e, s2)
                     | (Panic, s2) \<Rightarrow> Some (Panic, s2)
                     | (Ok newBlock, s2) \<Rightarrow>
                         Option.bind (enterTrunk env newTip (Some []) common s2) (\<lambda>(r3, s3).
                           case r3 of
                             Err e \<Rightarrow> Some (Err e, s3)
                           | Panic \<Rightarrow> Some (Panic, s3)
                           | Ok _ \<Rightarrow> Some (fetchBlock env (contents (ibPreHash newBlock)) s3))))))"

section \<open>Genesis\<close>

definition loadGenesisBlock :: "('j, 'm) LedgerEnv_scheme \<Rightarrow> bool \<Rightarrow> bytes \<Rightarrow> 'j Ledger \<Rightarrow> (ledger_error, unit) result \<times> 'j Ledger" where
  "loadGenesisBlock env isEmptyLedger genesisCfg l =
     (let cfg = (if isEmptyLedger then Ok genesisCfg
            else if contents (lmRootBlockid (ldMeta l)) = [] then Err ErrBlockNotExist
            else bind_result (queryBlock env (ldDB l) (contents (lmRootBlockid (ldMeta l))) True) (\<lambda>rootIb.
                 case find txCoinbase (ibTransactions rootIb) of
                   None \<Rightarrow> Err NoCoinbase
                 | Some coinbaseTx \<Rightarrow> Ok (contents (txDesc coinbaseTx))))
      in (case cfg of
            Err e \<Rightarrow> (Err e, l)
          | Panic \<Rightarrow> (Panic, l)
          | Ok c \<Rightarrow>
              (case NewGenesisBlock (leParseConfig env) c of
                 Err e \<Rightarrow> (Err (GenesisFailed e), l)
               | Panic \<Rightarrow> (Panic, l)
               | Ok gb \<Rightarrow> (Ok (), l\<lparr>ldGenesis := Some gb\<rparr>))))"

definition emptyMeta :: LedgerMeta where
  "emptyMeta = \<lparr>lmRootBlockid = None, lmTipBlockid = None, lmTrunkHeight = 0\<rparr>"

text \<open>
  \<open>newLedger\<close> over an opened database. The size configured for the cache of transactions is
  assigned to another variable in the code, so that cache has its default size.
\<close>

definition newLedger :: "('j, 'm) LedgerEnv_scheme \<Rightarrow> int \<Rightarrow> bool \<Rightarrow> bytes \<Rightarrow> kv \<Rightarrow> (ledger_error, unit) result \<times> 'j Ledger" where
  "newLedger env blockCacheSize createIfMissing genesisCfg baseDB =
     (let blockCacheCap = (if blockCacheSize \<noteq> 0 then blockCacheSize else BlockCacheSize);
          l = \<lparr>ldDB = baseDB, ldMeta = emptyMeta, ldGenesis = None, ldBlockCache = NewLRUCache blockCacheCap,
            ldHeaderCache = NewLRUCache blockCacheCap, ldTxCache = NewLRUCache TxCacheSize\<rparr>
      in (case tableGet MetaTablePrefix baseDB [] of
            None \<Rightarrow>
              if createIfMissing
              then (case leMarshalMeta env emptyMeta of
                      None \<Rightarrow> (Err MarshalFailed, l)
                    | Some metaBuf \<Rightarrow>
                        loadGenesisBlock env True genesisCfg (l\<lparr>ldDB := kvWrite [KvPut MetaTablePrefix metaBuf] baseDB\<rparr>))
              else (Err ErrKeyNotFound, l)
          | Some metaBuf \<Rightarrow>
              (case leUnmarshalMeta env metaBuf of
                 None \<Rightarrow> (Err MetaCorrupt, l)
               | Some mt \<Rightarrow> loadGenesisBlock env False genesisCfg (l\<lparr>ldMeta := mt\<rparr>))))"

section \<open>Confirming a block\<close>

record ConfirmStatus =
  csSucc :: bool
  csSplit :: bool
  csOrphan :: bool
  csTrunkSwitch :: bool
  csError :: "ledger_error option"

definition noStatus :: ConfirmStatus where
  "noStatus = \<lparr>csSucc = False, csSplit = False, csOrphan = False, csTrunkSwitch = False, csError = None\<rparr>"

text \<open>Where a block goes: the block with its height and flag, the new meta data, and the height of the split.\<close>

record Placement =
  plBlock :: InternalBlock
  plMeta :: LedgerMeta
  plSplitHeight :: int
  plStatus :: ConfirmStatus

definition placeRoot :: "InternalBlock \<Rightarrow> 'j lstate \<Rightarrow> (ledger_error, Placement) result \<times> 'j lstate" where
  "placeRoot block s =
     (let mt = ldMeta (fst s)
      in if contents (ibPreHash block) \<noteq> [] then (Err GenesisHasPreHash, s)
         else if contents (lmRootBlockid mt) \<noteq> [] then (Err ErrRootBlockAlreadyExist, s)
         else (Ok \<lparr>plBlock = block\<lparr>ibInTrunk := True, ibHeight := 0\<rparr>,
                   plMeta = mt\<lparr>lmRootBlockid := ibBlockid block, lmTrunkHeight := 0, lmTipBlockid := ibBlockid block\<rparr>,
                   plSplitHeight = lmTrunkHeight mt, plStatus = noStatus\<rparr>, s))"

definition placeOnTip :: "('j, 'm) LedgerEnv_scheme \<Rightarrow> InternalBlock \<Rightarrow> InternalBlock \<Rightarrow> 'j lstate \<Rightarrow> (ledger_error, Placement) result \<times> 'j lstate" where
  "placeOnTip env block preBlock s =
     (let mt = ldMeta (fst s);
          pl = \<lparr>plBlock = block\<lparr>ibHeight := ibHeight preBlock + 1, ibInTrunk := True\<rparr>,
                plMeta = mt\<lparr>lmTipBlockid := ibBlockid block, lmTrunkHeight := lmTrunkHeight mt + 1\<rparr>,
                plSplitHeight = lmTrunkHeight mt, plStatus = noStatus\<rparr>
      in if DisableTxDedup then (Ok pl, s)
         else (case saveBlock env (preBlock\<lparr>ibNextHash := ibBlockid block\<rparr>) s of
             (r, l1, batch1) \<Rightarrow>
               lbind (r, l1\<lparr>ldBlockCache := lruDel (ldBlockCache l1) (contents (ibBlockid preBlock))\<rparr>, batch1) (\<lambda>_ s1. (Ok pl, s1))))"

definition placeOnBranch :: "('j, 'm) LedgerEnv_scheme \<Rightarrow> InternalBlock \<Rightarrow> InternalBlock \<Rightarrow> 'j lstate \<Rightarrow> ((ledger_error, Placement) result \<times> 'j lstate) option" where
  "placeOnBranch env block preBlock s =
     (let mt = ldMeta (fst s); block1 = block\<lparr>ibHeight := ibHeight preBlock + 1\<rparr>
      in if lmTrunkHeight mt < ibHeight preBlock + 1
         then map_option (\<lambda>r. lbind r (\<lambda>splitBlock s1.
                (Ok \<lparr>plBlock = block1\<lparr>ibInTrunk := True\<rparr>,
                     plMeta = mt\<lparr>lmTrunkHeight := ibHeight preBlock + 1, lmTipBlockid := ibBlockid block\<rparr>,
                     plSplitHeight = ibHeight splitBlock, plStatus = noStatus\<lparr>csSplit := True, csTrunkSwitch := True\<rparr>\<rparr>, s1)))
                (handleFork env (lmTipBlockid mt) (ibBlockid preBlock) (ibBlockid block) s)
         else Some (Ok \<lparr>plBlock = block1\<lparr>ibInTrunk := False\<rparr>, plMeta = mt, plSplitHeight = lmTrunkHeight mt,
                plStatus = noStatus\<lparr>csSplit := True, csOrphan := True\<rparr>\<rparr>, s))"

definition placeBlock :: "('j, 'm) LedgerEnv_scheme \<Rightarrow> InternalBlock \<Rightarrow> bool \<Rightarrow> 'j lstate \<Rightarrow> ((ledger_error, Placement) result \<times> 'j lstate) option" where
  "placeBlock env block isRoot s =
     (if isRoot then Some (placeRoot block s)
      else case fetchBlock env (contents (ibPreHash block)) s of
          (Err e, s1) \<Rightarrow> Some (Err e, s1)
        | (Panic, s1) \<Rightarrow> Some (Panic, s1)
        | (Ok preBlock, s1) \<Rightarrow>
            if bytes_equal (ibBlockid preBlock) (lmTipBlockid (ldMeta (fst s1))) then Some (placeOnTip env block preBlock s1)
            else placeOnBranch env block preBlock s1)"

text \<open>
  \<open>parallelCheckTx\<close>: the transactions with their block id set, their encodings, and which of them are
  already confirmed. The workers write to different places, so their order does not matter.
\<close>

definition parallelCheckTx :: "('j, 'm) LedgerEnv_scheme \<Rightarrow> kv \<Rightarrow> InternalBlock \<Rightarrow> Transaction list \<Rightarrow> (Transaction \<times> bytes option \<times> bool) list" where
  "parallelCheckTx env db block txs =
     map (\<lambda>tx. let tx' = tx\<lparr>txBlockid := ibBlockid block\<rparr>
               in (tx', leMarshalTx env tx', (\<not> DisableTxDedup \<or> \<not> ibInTrunk block) \<and> tableGet ConfirmedTablePrefix db (contents (txTxid tx)) \<noteq> None)) txs"

text \<open>The error is \<open>None\<close> where the code returns a status without one.\<close>

definition oldBlockOf :: "('j, 'm) LedgerEnv_scheme \<Rightarrow> kv \<Rightarrow> (string \<Rightarrow> InternalBlock option) \<Rightarrow> bytes \<Rightarrow> (ledger_error option, InternalBlock option \<times> (string \<Rightarrow> InternalBlock option)) result" where
  "oldBlockOf env db oldBlockCache blockid =
     (case oldBlockCache blockid of
        Some cachedBlk \<Rightarrow> Ok (Some cachedBlk, oldBlockCache)
      | None \<Rightarrow>
          (case tableGet BlocksTablePrefix db blockid of
             None \<Rightarrow> Ok (None, oldBlockCache)
           | Some oldPbBlockBuf \<Rightarrow>
               (case leUnmarshalBlock env oldPbBlockBuf of
                  None \<Rightarrow> Err (Some BlockCorrupt)
                | Some oldBlock \<Rightarrow> Ok (Some oldBlock, oldBlockCache(contents (ibBlockid oldBlock) \<mapsto> oldBlock)))))"

fun confirmTxs :: "('j, 'm) LedgerEnv_scheme \<Rightarrow> kv \<Rightarrow> InternalBlock \<Rightarrow> int \<Rightarrow> (Transaction \<times> bytes option \<times> bool) list \<Rightarrow> nat \<Rightarrow> (string \<Rightarrow> InternalBlock option) \<Rightarrow> kvop list \<Rightarrow> (ledger_error option, kvop list) result" where
  "confirmTxs env db block splitHeight [] cbNum oldBlockCache batchWrite = Ok batchWrite"
| "confirmTxs env db block splitHeight ((tx, txData, hasTx) # txs) cbNum oldBlockCache batchWrite =
     (let cbNum' = (if txCoinbase tx then Suc cbNum else cbNum); key = ConfirmedTablePrefix @ contents (txTxid tx)
      in if 1 < cbNum' then Err None
         else case txData of
             None \<Rightarrow> Err None
           | Some pbTxBuf \<Rightarrow>
               if \<not> hasTx then confirmTxs env db block splitHeight txs cbNum' oldBlockCache (batchWrite @ [KvPut key pbTxBuf])
               else case Option.bind (kvGet db key) (leUnmarshalTx env) of
                   None \<Rightarrow> Err (Some TxCorrupt)
                 | Some oldTx \<Rightarrow>
                     bind_result (oldBlockOf env db oldBlockCache (contents (txBlockid oldTx))) (\<lambda>(oldBlock, oldBlockCache').
                       case oldBlock of
                         None \<Rightarrow> confirmTxs env db block splitHeight txs cbNum' oldBlockCache' (batchWrite @ [KvPut key pbTxBuf])
                       | Some ob \<Rightarrow>
                           if ibInTrunk ob \<and> ibInTrunk block \<and> ibHeight ob \<le> splitHeight then Err (Some ErrTxDuplicated)
                           else if ibInTrunk block
                           then confirmTxs env db block splitHeight txs cbNum' oldBlockCache' (batchWrite @ [KvPut key pbTxBuf])
                           else confirmTxs env db block splitHeight txs cbNum' oldBlockCache' batchWrite))"

definition addTxs :: "Transaction list \<Rightarrow> (string, Transaction) LRUCache \<Rightarrow> (string, Transaction) LRUCache" where
  "addTxs txs c = fold (\<lambda>tx c. fst (lruAdd c (contents (txTxid tx)) tx)) txs c"

text \<open>
  After the transactions: the batch is written, the meta data replaced and the caches filled. The block is
  passed by reference: the result has it as it is after a success; a failure leaves it without its
  transactions, and it is not in the result.
\<close>

definition finishConfirm :: "('j, 'm) LedgerEnv_scheme \<Rightarrow> bool \<Rightarrow> Placement \<Rightarrow> Transaction list \<Rightarrow> 'j lstate \<Rightarrow> (ledger_error, ConfirmStatus \<times> InternalBlock option) result \<times> 'j Ledger" where
  "finishConfirm env isRoot pl txs s =
     (case s of (l, batchWrite) \<Rightarrow>
        (case leMarshalMeta env (plMeta pl) of
           None \<Rightarrow> (Ok (plStatus pl, None), l)
         | Some metaBuf \<Rightarrow>
             let db1 = kvWrite (batchWrite @ [KvDelete (PendingBlocksTablePrefix @ contents (ibBlockid (plBlock pl))), KvPut MetaTablePrefix metaBuf]) (ldDB l);
                 l1 = l\<lparr>ldDB := db1, ldMeta := plMeta pl\<rparr>;
                 st = (plStatus pl)\<lparr>csSucc := True\<rparr>;
                 blk = (plBlock pl)\<lparr>ibTransactions := txs\<rparr>;
                 (r, l2) = (if isRoot then loadGenesisBlock env False [] l1 else (Ok (), l1));
                 l3 = l2\<lparr>ldBlockCache := fst (lruAdd (ldBlockCache l2) (contents (ibBlockid blk)) blk), ldTxCache := addTxs txs (ldTxCache l2)\<rparr>
             in (case r of
                   Ok _ \<Rightarrow> (Ok (st, Some blk), l3)
                 | Err e \<Rightarrow> (Ok (st\<lparr>csSucc := False, csError := Some e\<rparr>, Some blk), l3)
                 | Panic \<Rightarrow> (Panic, l2))))"

definition ConfirmBlock :: "('j, 'm) LedgerEnv_scheme \<Rightarrow> InternalBlock \<Rightarrow> bool \<Rightarrow> 'j Ledger \<Rightarrow> ((ledger_error, ConfirmStatus \<times> InternalBlock option) result \<times> 'j Ledger) option" where
  "ConfirmBlock env block isRoot l =
     Option.bind (placeBlock env (block\<lparr>ibTransactions := []\<rparr>) isRoot (l, [])) (\<lambda>(r, s1).
       case r of
         Err e \<Rightarrow> Some (Ok (noStatus\<lparr>csError := (if e = ErrRootBlockAlreadyExist then Some e else None)\<rparr>, None), fst s1)
       | Panic \<Rightarrow> Some (Panic, fst s1)
       | Ok pl \<Rightarrow>
           (case saveBlock env (plBlock pl) s1 of
              (Ok _, l2, batch2) \<Rightarrow>
                let batch3 = updateBranchInfo (contents (ibBlockid (plBlock pl))) (contents (ibPreHash (plBlock pl))) (ibHeight (plBlock pl)) batch2;
                    checked = parallelCheckTx env (ldDB l2) (plBlock pl) (ibTransactions block)
                in (case confirmTxs env (ldDB l2) (plBlock pl) (plSplitHeight pl) checked 0 Map.empty batch3 of
                      Ok batch4 \<Rightarrow> Some (finishConfirm env isRoot pl (map fst checked) (l2, batch4))
                    | Err e \<Rightarrow> Some (Ok ((plStatus pl)\<lparr>csError := e\<rparr>, None), l2)
                    | Panic \<Rightarrow> Some (Panic, l2))
            | (_, l2, _) \<Rightarrow> Some (Ok (plStatus pl, None), l2)))"

section \<open>From one block to another\<close>

text \<open>
  \<open>FindUndoAndTodoBlocks\<close>: one round moves the higher of the two ends back. The split is found when an
  end reaches a block that was visited.
\<close>

record Search =
  seOldTip :: InternalBlock
  seNewTip :: InternalBlock
  seUndo :: "InternalBlock list"
  seTodo :: "InternalBlock list"
  seVisited :: "string set"

definition searchOld :: "('j, 'm) LedgerEnv_scheme \<Rightarrow> kv \<Rightarrow> Search \<Rightarrow> (ledger_error, Search \<times> slice option) result" where
  "searchOld env db se =
     (if contents (ibPreHash (seOldTip se)) \<noteq> [] \<and> ibHeight (seNewTip se) \<le> ibHeight (seOldTip se)
      then bind_result (queryBlock env db (contents (ibPreHash (seOldTip se))) True) (\<lambda>oldTip.
           if contents (ibBlockid oldTip) \<in> seVisited se then Ok (se\<lparr>seOldTip := oldTip\<rparr>, Some (ibBlockid oldTip))
           else Ok (se\<lparr>seOldTip := oldTip, seVisited := insert (contents (ibBlockid oldTip)) (seVisited se), seUndo := seUndo se @ [oldTip]\<rparr>, None))
      else Ok (se, None))"

definition searchNew :: "('j, 'm) LedgerEnv_scheme \<Rightarrow> kv \<Rightarrow> Search \<Rightarrow> (ledger_error, Search \<times> slice option) result" where
  "searchNew env db se =
     (if contents (ibPreHash (seNewTip se)) \<noteq> [] \<and> ibHeight (seOldTip se) \<le> ibHeight (seNewTip se)
      then bind_result (queryBlock env db (contents (ibPreHash (seNewTip se))) True) (\<lambda>newTip.
           if contents (ibBlockid newTip) \<in> seVisited se then Ok (se\<lparr>seNewTip := newTip\<rparr>, Some (ibBlockid newTip))
           else Ok (se\<lparr>seNewTip := newTip, seVisited := insert (contents (ibBlockid newTip)) (seVisited se), seTodo := seTodo se @ [newTip]\<rparr>, None))
      else Ok (se, None))"

definition searchRound :: "('j, 'm) LedgerEnv_scheme \<Rightarrow> kv \<Rightarrow> slice \<Rightarrow> Search \<Rightarrow> (ledger_error, Search \<times> slice option) result" where
  "searchRound env db rootBlockid se =
     bind_result (searchOld env db se) (\<lambda>(se1, split1).
       case split1 of
         Some s \<Rightarrow> Ok (se1, Some s)
       | None \<Rightarrow>
           bind_result (searchNew env db se1) (\<lambda>(se2, split2).
             case split2 of
               Some s \<Rightarrow> Ok (se2, Some s)
             | None \<Rightarrow>
                 if contents (ibPreHash (seOldTip se)) = [] \<and> contents (ibPreHash (seNewTip se1)) = [] then Ok (se2, Some rootBlockid)
                 else Ok (se2, None)))"

partial_function (option) searchLoop :: "('j, 'm) LedgerEnv_scheme \<Rightarrow> kv \<Rightarrow> slice \<Rightarrow> Search \<Rightarrow> (ledger_error, Search \<times> slice) result option" where
  [code]: "searchLoop env db rootBlockid se =
     (case searchRound env db rootBlockid se of
        Err e \<Rightarrow> Some (Err e)
      | Panic \<Rightarrow> Some Panic
      | Ok (se1, split1) \<Rightarrow> (case split1 of Some s \<Rightarrow> Some (Ok (se1, s)) | None \<Rightarrow> searchLoop env db rootBlockid se1))"

definition dropSplit :: "slice \<Rightarrow> InternalBlock list \<Rightarrow> InternalBlock list" where
  "dropSplit splitBlockID blocks = (if bytes_equal (ibBlockid (last blocks)) splitBlockID then butlast blocks else blocks)"

definition FindUndoAndTodoBlocks :: "('j, 'm) LedgerEnv_scheme \<Rightarrow> bytes \<Rightarrow> bytes \<Rightarrow> 'j Ledger \<Rightarrow> (ledger_error, InternalBlock list \<times> InternalBlock list) result option" where
  "FindUndoAndTodoBlocks env curBlockid destBlockid l =
     (if destBlockid = curBlockid then Some (Ok ([], []))
      else case bind_result (queryBlock env (ldDB l) curBlockid True) (\<lambda>oldTip.
                bind_result (queryBlock env (ldDB l) destBlockid True) (\<lambda>newTip. Ok (oldTip, newTip))) of
          Err e \<Rightarrow> Some (Err e)
        | Panic \<Rightarrow> Some Panic
        | Ok (oldTip, newTip) \<Rightarrow>
            map_option (\<lambda>r. bind_result r (\<lambda>(se, splitBlockID). Ok (dropSplit splitBlockID (seUndo se), dropSplit splitBlockID (seTodo se))))
              (searchLoop env (ldDB l) (lmRootBlockid (ldMeta l))
                 \<lparr>seOldTip = oldTip, seNewTip = newTip, seUndo = [oldTip], seTodo = [newTip],
                  seVisited = {contents (ibBlockid oldTip), contents (ibBlockid newTip)}\<rparr>))"

section \<open>Truncating\<close>

partial_function (option) removeLoop :: "('j, 'm) LedgerEnv_scheme \<Rightarrow> int \<Rightarrow> InternalBlock \<Rightarrow> 'j lstate \<Rightarrow> 'j lstate option" where
  [code]: "removeLoop env toHeight fromBlock s =
     (if toHeight < ibHeight fromBlock
      then (case s of (l, batch) \<Rightarrow>
              let i = contents (ibBlockid fromBlock);
                  l1 = l\<lparr>ldHeaderCache := lruDel (ldHeaderCache l) i, ldBlockCache := lruDel (ldBlockCache l) i\<rparr>;
                  batch1 = batch @ [KvDelete (BlocksTablePrefix @ i)] @
                    (if ibInTrunk fromBlock then [KvDelete (BlockHeightPrefix @ sHeight (ibHeight fromBlock))] else [])
              in (case fetchBlock env (contents (ibPreHash fromBlock)) (l1, batch1) of
                    (Ok fromBlock1, s1) \<Rightarrow> removeLoop env toHeight fromBlock1 s1
                  | (_, s1) \<Rightarrow> Some s1))
      else Some s)"

definition removeBlocks :: "('j, 'm) LedgerEnv_scheme \<Rightarrow> bytes \<Rightarrow> bytes \<Rightarrow> 'j lstate \<Rightarrow> ((ledger_error, unit) result \<times> 'j lstate) option" where
  "removeBlocks env fromBlockid toBlockid s =
     (case lbind (fetchBlock env fromBlockid s) (\<lambda>fromBlock s1. lbind (fetchBlock env toBlockid s1) (\<lambda>toBlock s2. (Ok (fromBlock, toBlock), s2))) of
        (Err e, s2) \<Rightarrow> Some (Err e, s2)
      | (Panic, s2) \<Rightarrow> Some (Panic, s2)
      | (Ok (fromBlock, toBlock), s2) \<Rightarrow> map_option (\<lambda>s3. (Ok (), s3)) (removeLoop env (ibHeight toBlock) fromBlock s2))"

fun removeBranches :: "('j, 'm) LedgerEnv_scheme \<Rightarrow> InternalBlock \<Rightarrow> bytes list \<Rightarrow> 'j lstate \<Rightarrow> ((ledger_error, unit) result \<times> 'j lstate) option" where
  "removeBranches env block [] s = Some (Ok (), s)"
| "removeBranches env block (branchTip # tips) s =
     Option.bind (removeBlocks env branchTip (contents (ibBlockid block)) s) (\<lambda>(r, l1, batch1).
       case r of
         Ok _ \<Rightarrow> removeBranches env block tips (l1, updateBranchInfo (contents (ibBlockid block)) branchTip (ibHeight block) batch1)
       | Err e \<Rightarrow> Some (Err e, l1, batch1)
       | Panic \<Rightarrow> Some (Panic, l1, batch1))"

definition Truncate :: "('j, 'm) LedgerEnv_scheme \<Rightarrow> slice \<Rightarrow> 'j Ledger \<Rightarrow> ((ledger_error, unit) result \<times> 'j Ledger) option" where
  "Truncate env utxovmLastID l =
     (case fetchBlock env (contents utxovmLastID) (l, []) of
        (Err e, l1, _) \<Rightarrow> Some (Err e, l1)
      | (Panic, l1, _) \<Rightarrow> Some (Panic, l1)
      | (Ok block, l1, _) \<Rightarrow>
          (case GetBranchInfo (contents (ibBlockid block)) (ibHeight block) (ldDB l1) of
             Err e \<Rightarrow> Some (Err e, l1)
           | Panic \<Rightarrow> Some (Panic, l1)
           | Ok tips \<Rightarrow>
               map_option (\<lambda>(r, l2, batch). case r of
                   Err e \<Rightarrow> (Err e, l2)
                 | Panic \<Rightarrow> (Panic, l2)
                 | Ok _ \<Rightarrow>
                     let newMeta = (ldMeta l2)\<lparr>lmTipBlockid := utxovmLastID, lmTrunkHeight := ibHeight block\<rparr>
                     in (case leMarshalMeta env newMeta of
                           None \<Rightarrow> (Err MarshalFailed, l2)
                         | Some metaBuf \<Rightarrow>
                             (Ok (), l2\<lparr>ldDB := kvWrite (batch @ [KvPut MetaTablePrefix metaBuf]) (ldDB l2), ldMeta := newMeta\<rparr>)))
                 (removeBranches env block tips (l1, []))))"

section \<open>Making and verifying blocks\<close>

text \<open>The keys and signatures of blocks, functions of a crypto client; \<open>None\<close> is an error.\<close>

record ('pk, 'sk) BlockCrypto =
  bcSha256 :: "bytes \<Rightarrow> bytes"
  bcPublicKeyJson :: "'sk \<Rightarrow> string option"
  bcSign :: "'sk \<Rightarrow> bytes \<Rightarrow> bytes option"
  bcPublicKeyFromJson :: "string \<Rightarrow> 'pk option"
  bcVerifyAddress :: "string \<Rightarrow> 'pk \<Rightarrow> bool"
  bcVerify :: "'pk \<Rightarrow> slice \<Rightarrow> slice \<Rightarrow> bool option"

definition emptyBlock :: InternalBlock where
  "emptyBlock = \<lparr>ibVersion = 0, ibNonce = 0, ibBlockid = None, ibPreHash = None, ibProposer = None, ibPubkey = None, ibMerkleRoot = None,
     ibHeight = 0, ibTimestamp = 0, ibTransactions = [], ibTxCount = 0, ibCurTerm = 0, ibCurBlockNum = 0, ibFailedTxs = [], ibTargetBits = 0,
     ibJustify = None, ibInTrunk = False, ibNextHash = None, ibSign = None, ibMerkleTree = []\<rparr>"

definition withTree :: "slice list \<Rightarrow> InternalBlock \<Rightarrow> InternalBlock" where
  "withTree tree block = block\<lparr>ibMerkleTree := tree, ibMerkleRoot := (if tree \<noteq> [] then last tree else ibMerkleRoot block)\<rparr>"

definition FormatRootBlock :: "(bytes \<Rightarrow> bytes) \<Rightarrow> Transaction list \<Rightarrow> InternalBlock" where
  "FormatRootBlock sha256 txList =
     (let block = withTree (MakeMerkleTree sha256 txList)
            (emptyBlock\<lparr>ibVersion := RootBlockVersion, ibTransactions := txList, ibTxCount := i32 (int (length txList))\<rparr>)
      in block\<lparr>ibBlockid := Some (MakeBlockID sha256 block)\<rparr>)"

definition formatBlock :: "('pk, 'sk, 'm) BlockCrypto_scheme \<Rightarrow> Transaction list \<Rightarrow> slice \<Rightarrow> 'sk \<Rightarrow> int \<Rightarrow> int \<Rightarrow> int \<Rightarrow> slice \<Rightarrow> int \<Rightarrow> bool
    \<Rightarrow> Justify option \<Rightarrow> (string \<times> string) list \<Rightarrow> int \<Rightarrow> (ledger_error, InternalBlock) result" where
  "formatBlock bc txList proposer ecdsaPk timestamp curTerm curBlockNum preHash targetBits needSign qc failedTxs blockHeight =
     (case bcPublicKeyJson bc ecdsaPk of
        None \<Rightarrow> Err NoPublicKey
      | Some jsPk \<Rightarrow>
          let tree = (if needSign then MakeMerkleTree (bcSha256 bc) txList else map txTxid txList);
              block = withTree tree (emptyBlock\<lparr>ibVersion := BlockVersion, ibTransactions := txList, ibTxCount := i32 (int (length txList)),
                ibTimestamp := timestamp, ibProposer := proposer, ibCurTerm := curTerm, ibCurBlockNum := curBlockNum, ibTargetBits := targetBits,
                ibJustify := qc, ibHeight := blockHeight, ibPubkey := Some jsPk, ibPreHash := preHash, ibFailedTxs := failedTxs\<rparr>);
              blockid = MakeBlockID (bcSha256 bc) block;
              block1 = block\<lparr>ibBlockid := Some blockid\<rparr>
          in if contents preHash \<noteq> [] \<and> needSign
             then (case bcSign bc ecdsaPk blockid of None \<Rightarrow> Err SignFailed | Some sign \<Rightarrow> Ok (block1\<lparr>ibSign := Some sign\<rparr>))
             else Ok block1)"

definition FormatBlock :: "('pk, 'sk, 'm) BlockCrypto_scheme \<Rightarrow> Transaction list \<Rightarrow> slice \<Rightarrow> 'sk \<Rightarrow> int \<Rightarrow> int \<Rightarrow> int \<Rightarrow> slice \<Rightarrow> (ledger_error, InternalBlock) result" where
  "FormatBlock bc txList proposer ecdsaPk timestamp curTerm curBlockNum preHash =
     formatBlock bc txList proposer ecdsaPk timestamp curTerm curBlockNum preHash 0 True None [] 0"

definition FormatMinerBlock :: "('pk, 'sk, 'm) BlockCrypto_scheme \<Rightarrow> Transaction list \<Rightarrow> slice \<Rightarrow> 'sk \<Rightarrow> int \<Rightarrow> int \<Rightarrow> int \<Rightarrow> slice \<Rightarrow> int
    \<Rightarrow> Justify option \<Rightarrow> (string \<times> string) list \<Rightarrow> int \<Rightarrow> (ledger_error, InternalBlock) result" where
  "FormatMinerBlock bc txList proposer ecdsaPk timestamp curTerm curBlockNum preHash targetBits qc failedTxs blockHeight =
     formatBlock bc txList proposer ecdsaPk timestamp curTerm curBlockNum preHash targetBits True qc failedTxs blockHeight"

definition FormatFakeBlock :: "('pk, 'sk, 'm) BlockCrypto_scheme \<Rightarrow> Transaction list \<Rightarrow> slice \<Rightarrow> 'sk \<Rightarrow> int \<Rightarrow> int \<Rightarrow> int \<Rightarrow> slice \<Rightarrow> int \<Rightarrow> (ledger_error, InternalBlock) result" where
  "FormatFakeBlock bc txList proposer ecdsaPk timestamp curTerm curBlockNum preHash blockHeight =
     formatBlock bc txList proposer ecdsaPk timestamp curTerm curBlockNum preHash 0 False None [] blockHeight"

definition VerifyBlock :: "('pk, 'sk, 'm) BlockCrypto_scheme \<Rightarrow> InternalBlock \<Rightarrow> bool" where
  "VerifyBlock bc block =
     (if MakeBlockID (bcSha256 bc) block \<noteq> contents (ibBlockid block) then False
      else case VerifyMerkle (bcSha256 bc) block of
          Inl _ \<Rightarrow> False
        | Inr _ \<Rightarrow>
            (case bcPublicKeyFromJson bc (contents (ibPubkey block)) of
               None \<Rightarrow> False
             | Some k \<Rightarrow>
                 if \<not> bcVerifyAddress bc (contents (ibProposer block)) k then False
                 else bcVerify bc k (ibSign block) (ibBlockid block) = Some True))"

definition IsValidTx :: "Transaction \<Rightarrow> InternalBlock \<Rightarrow> 'j GenesisBlock \<Rightarrow> bool \<times> 'j GenesisBlock" where
  "IsValidTx tx block gb =
     (if txCoinbase tx
      then (case txOutputs tx of
              [] \<Rightarrow> (False, gb)
            | o' # _ \<Rightarrow> (case CalcAward (ibHeight block) gb of (awardTarget, gb1) \<Rightarrow> (bigBytes (toAmount o') = awardTarget, gb1)))
      else (True, gb))"

text \<open>\<open>Dump\<close>: the blocks by height, as pairs of what is printed; a height above the trunk is out of range.\<close>

fun dumpLoop :: "('j, 'm) LedgerEnv_scheme \<Rightarrow> (string \<times> bytes) list \<Rightarrow> InternalBlock list list \<Rightarrow> (ledger_error, InternalBlock list list) result" where
  "dumpLoop env [] blocks = Ok blocks"
| "dumpLoop env ((_, v) # it) blocks =
     (case leUnmarshalBlock env v of
        None \<Rightarrow> Err BlockCorrupt
      | Some block \<Rightarrow>
          if ibHeight block < 0 \<or> int (length blocks) \<le> ibHeight block then Panic
          else dumpLoop env it (blocks[nat (ibHeight block) := blocks ! nat (ibHeight block) @ [block]]))"

definition Dump :: "('j, 'm) LedgerEnv_scheme \<Rightarrow> 'j Ledger \<Rightarrow> (ledger_error, InternalBlock list list) result" where
  "Dump env l =
     (if lmTrunkHeight (ldMeta l) + 1 < 0 then Panic
      else dumpLoop env (kvPrefix (ldDB l) BlocksTablePrefix) (replicate (nat (lmTrunkHeight (ldMeta l) + 1)) []))"

end
