(* ===== verification/Ledger_Demo.thy ===== *)
theory Ledger_Demo
  imports Ledger_Chain
begin

text \<open>
  An instance of the parameters of the ledger, and a small ledger made with it. The encoding of
  the instance writes the fields the ledger depends on as text, separated by commas.
\<close>

section \<open>Text with commas\<close>

fun joinOn :: "char \<Rightarrow> string list \<Rightarrow> string" where
  "joinOn c [] = []"
| "joinOn c [x] = x"
| "joinOn c (x # y # xs) = x @ c # joinOn c (y # xs)"

lemma splitOn_joinOn: "xs \<noteq> [] \<Longrightarrow> \<forall>x\<in>set xs. c \<notin> set x \<Longrightarrow> splitOn c (joinOn c xs) = xs"
  by (induction c xs rule: joinOn.induct) (simp_all add: splitOn_append splitOn_single)

lemma utils_F_comma: "CHR '','' \<notin> set (utils_F t)"
proof -
  have "hexVal (CHR '','') = None" by (simp add: hexVal_def)
  then show ?thesis using hex_byte_digits by (fastforce simp: utils_F_def)
qed

section \<open>The encodings\<close>

definition encodeBlock :: "InternalBlock \<Rightarrow> bytes" where
  "encodeBlock b = joinOn (CHR '','') ([utils_F (ibBlockid b), utils_F (ibPreHash b), utils_F (ibNextHash b), itoa (ibHeight b),
     (if ibInTrunk b then ''t'' else ''f''), itoa (ibTxCount b)] @ map utils_F (ibMerkleTree b))"

definition decodeBlock :: "bytes \<Rightarrow> InternalBlock option" where
  "decodeBlock buf =
     (case splitOn (CHR '','') buf of
        i # p # n # h # t # c # tree \<Rightarrow>
          (case (hexDecode i, hexDecode p, hexDecode n, parse_int h, parse_int c, those (map hexDecode tree)) of
             (Some i', Some p', Some n', Some h', Some c', Some tree') \<Rightarrow>
               Some (emptyBlock\<lparr>ibBlockid := Some i', ibPreHash := Some p', ibNextHash := Some n', ibHeight := h', ibInTrunk := (t = ''t''),
                 ibTxCount := c', ibMerkleTree := map Some tree'\<rparr>)
           | _ \<Rightarrow> None)
      | _ \<Rightarrow> None)"

definition encodeTx :: "Transaction \<Rightarrow> bytes" where
  "encodeTx tx = joinOn (CHR '','') [utils_F (txTxid tx), utils_F (txBlockid tx), utils_F (txDesc tx), (if txCoinbase tx then ''t'' else ''f'')]"

definition decodeTx :: "bytes \<Rightarrow> Transaction option" where
  "decodeTx buf =
     (case map hexDecode (splitOn (CHR '','') buf) of
        [Some i, Some b, Some d, c] \<Rightarrow> Some ((bare_tx i)\<lparr>txBlockid := Some b, txDesc := Some d, txCoinbase := (drop (length buf - 1) buf = ''t'')\<rparr>)
      | _ \<Rightarrow> None)"

definition demoEnv :: "unit LedgerEnv" where
  "demoEnv = \<lparr>leMarshalBlock = \<lambda>b. Some (encodeBlock b), leUnmarshalBlock = decodeBlock, leMarshalTx = \<lambda>t. Some (encodeTx t), leUnmarshalTx = decodeTx,
     leMarshalMeta = \<lambda>m. Some (joinOn (CHR '','') [utils_F (lmRootBlockid m), utils_F (lmTipBlockid m), itoa (lmTrunkHeight m)]),
     leUnmarshalMeta = \<lambda>_. None, leParseConfig = \<lambda>_. Some award_config, leCapacity = id\<rparr>"

lemma demoEnv_simps [simp]: "leMarshalBlock demoEnv b = Some (encodeBlock b)" "leUnmarshalBlock demoEnv = decodeBlock"
  by (simp_all add: demoEnv_def)

lemma those_Some: "those (map Some xs) = Some xs"
  by (induction xs) simp_all

lemma decode_encode:
  "decodeBlock (encodeBlock b) = Some (emptyBlock\<lparr>ibBlockid := Some (contents (ibBlockid b)), ibPreHash := Some (contents (ibPreHash b)),
     ibNextHash := Some (contents (ibNextHash b)), ibHeight := ibHeight b, ibInTrunk := ibInTrunk b, ibTxCount := ibTxCount b,
     ibMerkleTree := map (Some \<circ> contents) (ibMerkleTree b)\<rparr>)"
proof -
  have s: "splitOn (CHR '','') (encodeBlock b) = [utils_F (ibBlockid b), utils_F (ibPreHash b), utils_F (ibNextHash b), itoa (ibHeight b),
     (if ibInTrunk b then ''t'' else ''f''), itoa (ibTxCount b)] @ map utils_F (ibMerkleTree b)"
    unfolding encodeBlock_def by (rule splitOn_joinOn) (auto simp: utils_F_comma itoa_without)
  have "map hexDecode (map utils_F (ibMerkleTree b)) = map Some (map contents (ibMerkleTree b))" by (simp add: hexDecode_F)
  then have "those (map hexDecode (map utils_F (ibMerkleTree b))) = Some (map contents (ibMerkleTree b))" by (simp only: those_Some)
  then show ?thesis by (simp add: decodeBlock_def s hexDecode_F parse_int_itoa)
qed

section \<open>A small ledger\<close>

text \<open>
  The genesis block has a coinbase transaction with the configuration. On it are two blocks of which the
  first is on the trunk, and a block on the second, which makes that branch the trunk.
\<close>

definition demoBlock :: "string \<Rightarrow> string \<Rightarrow> Transaction list \<Rightarrow> InternalBlock" where
  "demoBlock i p txs = emptyBlock\<lparr>ibBlockid := Some i, ibPreHash := Some p, ibTransactions := txs, ibTxCount := int (length txs), ibMerkleTree := map txTxid txs\<rparr>"

definition demoRoot :: InternalBlock where
  "demoRoot = demoBlock ''r'' [] [(bare_tx ''g'')\<lparr>txCoinbase := True, txDesc := Some ''{}''\<rparr>]"

definition ledgerOf :: "((ledger_error, ConfirmStatus \<times> InternalBlock option) result \<times> unit Ledger) option \<Rightarrow> unit Ledger" where
  "ledgerOf x = snd (the x)"

definition confirmed_in :: "((ledger_error, ConfirmStatus \<times> InternalBlock option) result \<times> unit Ledger) option \<Rightarrow> bool" where
  "confirmed_in x \<longleftrightarrow> (case x of Some (Ok (st, _), _) \<Rightarrow> csSucc st | _ \<Rightarrow> False)"

lemma confirmed_inE:
  assumes "confirmed_in x"
  obtains st b where "x = Some (Ok (st, b), ledgerOf x)" "csSucc st"
  using assms by (auto simp: confirmed_in_def ledgerOf_def split: option.splits result.splits prod.splits)

definition demoNew :: "unit Ledger" where
  "demoNew = snd (newLedger demoEnv 10 True ''{}'' [])"

definition demo0 where "demo0 = ConfirmBlock demoEnv demoRoot True demoNew"
definition demo1 where "demo1 = ConfirmBlock demoEnv (demoBlock ''a'' ''r'' [bare_tx ''x'']) False (ledgerOf demo0)"
definition demo2 where "demo2 = ConfirmBlock demoEnv (demoBlock ''b'' ''r'' []) False (ledgerOf demo1)"
definition demo3 where "demo3 = ConfirmBlock demoEnv (demoBlock ''c'' ''b'' []) False (ledgerOf demo2)"

lemma demoNew_ok: "newLedger demoEnv 10 True ''{}'' [] = (Ok (), demoNew)"
  by (simp add: demoNew_def newLedger_def demoEnv_def Let_def tableGet_def kvGet_def loadGenesisBlock_def NewGenesisBlock_def award_config_def)

lemma demo0_ok: "confirmed_in demo0" by code_simp
lemma demo1_ok: "confirmed_in demo1" by code_simp
lemma demo2_ok: "confirmed_in demo2" by code_simp
lemma demo3_ok: "confirmed_in demo3" by code_simp

text \<open>Its database: the blocks \<open>b\<close> and \<open>c\<close> are on the trunk, and \<open>a\<close> has left it.\<close>

lemma demo3_db:
  "ldDB (ledgerOf demo3) = [(''M'', ''72,63,2''), (''Br'', ''72,,62,0,t,1,67''), (''ZH00000000000000000000'', ''r''), (''Cg'', ''67,72,7b7d,t''),
     (''Ba'', ''61,72,,1,f,1,78''), (''ZH00000000000000000001'', ''b''), (''ZIa'', ''1''), (''Cx'', ''78,61,,f''), (''Bb'', ''62,72,63,1,t,0''),
     (''Bc'', ''63,62,,2,t,0''), (''ZH00000000000000000002'', ''c''), (''ZIc'', ''2'')]"
  by code_simp

lemma demo3_meta: "ldMeta (ledgerOf demo3) = \<lparr>lmRootBlockid = Some ''r'', lmTipBlockid = Some ''c'', lmTrunkHeight = 2\<rparr>"
  by code_simp

end
