(* ===== verification/Ledger_Trunk.thy ===== *)
theory Ledger_Trunk
  imports Ledger_Demo
begin

text \<open>
  The tree of blocks in the database of the ledger: its invariant, that confirming a block keeps it,
  including a switch of the trunk, and the paths between two blocks.
\<close>

section \<open>Views\<close>

text \<open>What the tree depends on in a block; a nil and an empty slice are the same after decoding.\<close>

record hview =
  hvId :: string
  hvPre :: string
  hvNext :: string
  hvHeight :: int
  hvTrunk :: bool
  hvTxCount :: int
  hvTree :: "string list"

definition hv :: "InternalBlock \<Rightarrow> hview" where
  "hv b = \<lparr>hvId = contents (ibBlockid b), hvPre = contents (ibPreHash b), hvNext = contents (ibNextHash b), hvHeight = ibHeight b,
     hvTrunk = ibInTrunk b, hvTxCount = ibTxCount b, hvTree = map contents (ibMerkleTree b)\<rparr>"

lemma hv_simps [simp]: "hvId (hv b) = contents (ibBlockid b)" "hvPre (hv b) = contents (ibPreHash b)" "hvNext (hv b) = contents (ibNextHash b)"
  "hvHeight (hv b) = ibHeight b" "hvTrunk (hv b) = ibInTrunk b" "hvTxCount (hv b) = ibTxCount b" "hvTree (hv b) = map contents (ibMerkleTree b)"
  "hv (b\<lparr>ibNextHash := n\<rparr>) = (hv b)\<lparr>hvNext := contents n\<rparr>" "hv (b\<lparr>ibInTrunk := t\<rparr>) = (hv b)\<lparr>hvTrunk := t\<rparr>"
  "hv (b\<lparr>ibHeight := h\<rparr>) = (hv b)\<lparr>hvHeight := h\<rparr>" "hv (b\<lparr>ibTransactions := ts\<rparr>) = hv b"
  by (simp_all add: hv_def)

text \<open>Decoding an encoded block gives the same block, up to nil slices.\<close>

definition codec_ok :: "('j, 'm) LedgerEnv_scheme \<Rightarrow> bool" where
  "codec_ok env \<longleftrightarrow> (\<forall>b buf. leMarshalBlock env b = Some buf \<longrightarrow> (\<exists>b'. leUnmarshalBlock env buf = Some b' \<and> hv b' = hv b))"

text \<open>The database with a batch applied, and its tables.\<close>

definition eff :: "'j lstate \<Rightarrow> string \<Rightarrow> bytes option" where
  "eff s k = kvGet (kvWrite (snd s) (ldDB (fst s))) k"

definition viewOf :: "('j, 'm) LedgerEnv_scheme \<Rightarrow> bytes option \<Rightarrow> hview option" where
  "viewOf env buf = map_option hv (Option.bind buf (leUnmarshalBlock env))"

definition V :: "('j, 'm) LedgerEnv_scheme \<Rightarrow> 'j lstate \<Rightarrow> string \<Rightarrow> hview option" where
  "V env s i = viewOf env (eff s (BlocksTablePrefix @ i))"

definition H :: "'j lstate \<Rightarrow> string \<Rightarrow> bytes option" where
  "H s k = eff s (BlockHeightPrefix @ k)"

definition Br :: "'j lstate \<Rightarrow> string \<Rightarrow> bytes option" where
  "Br s i = eff s (BranchInfoPrefix @ i)"

definition Tx :: "'j lstate \<Rightarrow> string \<Rightarrow> bytes option" where
  "Tx s i = eff s (ConfirmedTablePrefix @ i)"

lemmas tables = V_def H_def Br_def Tx_def

lemma eff_simps [simp]:
  "eff (l, batch @ [KvPut k v]) j = (if j = k then Some v else eff (l, batch) j)"
  "eff (l, batch @ [KvDelete k]) j = (if j = k then None else eff (l, batch) j)"
  "eff (l\<lparr>ldHeaderCache := c\<rparr>, batch) = eff (l, batch)"
  "eff (l\<lparr>ldBlockCache := b\<rparr>, batch) = eff (l, batch)"
  by (auto simp: eff_def fun_eq_iff)

text \<open>The cached headers are those of the database with the batch.\<close>

definition cache_ok :: "('j, 'm) LedgerEnv_scheme \<Rightarrow> 'j lstate \<Rightarrow> bool" where
  "cache_ok env s \<longleftrightarrow> lru_inv (ldHeaderCache (fst s)) \<and> (\<forall>(k, b)\<in>set (lru_abs (ldHeaderCache (fst s))). V env s k = Some (hv b))"

lemma cache_ok_cong: "V env s1 = V env s \<Longrightarrow> ldHeaderCache (fst s1) = ldHeaderCache (fst s) \<Longrightarrow> cache_ok env s \<Longrightarrow> cache_ok env s1"
  by (simp add: cache_ok_def)

definition same_base :: "'j Ledger \<Rightarrow> 'j Ledger \<Rightarrow> bool" where
  "same_base l l' \<longleftrightarrow> ldDB l' = ldDB l \<and> ldMeta l' = ldMeta l \<and> ldGenesis l' = ldGenesis l"

lemma same_base_refl [simp]: "same_base l l" by (simp add: same_base_def)

lemma same_base_trans: "same_base a b \<Longrightarrow> same_base b c \<Longrightarrow> same_base a c"
  by (simp add: same_base_def)

lemma fetchBlock_ok:
  assumes "cache_ok env s" and "V env s i = V env (fst s, []) i" and "fetchBlock env i s = (r, s1)"
  shows "snd s1 = snd s \<and> same_base (fst s) (fst s1) \<and> eff s1 = eff s \<and> cache_ok env s1
    \<and> (case V env s i of Some v \<Rightarrow> \<exists>b. r = Ok b \<and> hv b = v | None \<Rightarrow> \<exists>e. r = Err e)"
proof -
  obtain l batch where s: "s = (l, batch)" by (cases s)
  have inv: "lru_inv (ldHeaderCache l)" and c: "\<And>k b. (k, b) \<in> set (lru_abs (ldHeaderCache l)) \<Longrightarrow> V env s k = Some (hv b)"
    using assms(1) s by (auto simp: cache_ok_def)
  have e: "eff (l\<lparr>ldHeaderCache := x\<rparr>, batch) = eff s" for x using s by simp
  have v: "V env (l\<lparr>ldHeaderCache := x\<rparr>, batch) = V env s" for x using s by (simp add: V_def fun_eq_iff)
  show ?thesis
  proof (rule lruGet_cases [OF inv, of i])
    fix c1 b assume g: "lruGet (ldHeaderCache l) i = (c1, Some b)" "lru_inv c1" "(i, b) \<in> set (lru_abs (ldHeaderCache l))"
      "set (lru_abs c1) \<subseteq> set (lru_abs (ldHeaderCache l))"
    then have "r = Ok b" "s1 = (l\<lparr>ldHeaderCache := c1\<rparr>, batch)" using assms(3) s by (simp_all add: fetchBlock_def)
    then show ?thesis using g c [OF g(3)] c e s by (auto simp: cache_ok_def v same_base_def)
  next
    fix c1 assume g: "lruGet (ldHeaderCache l) i = (c1, None)" "lru_inv c1" "lru_abs c1 = lru_abs (ldHeaderCache l)"
    have d: "V env s i = viewOf env (tableGet BlocksTablePrefix (ldDB l) i)"
      using assms(2) s by (simp add: V_def eff_def tableGet_def)
    show ?thesis
    proof (cases "Option.bind (tableGet BlocksTablePrefix (ldDB l) i) (leUnmarshalBlock env)")
      case None
      then have "\<exists>e. r = Err e" "s1 = (l\<lparr>ldHeaderCache := c1\<rparr>, batch)" using assms(3) s g(1) by (auto simp: fetchBlock_def split: option.splits)
      then show ?thesis using None d g c e s by (auto simp: cache_ok_def v same_base_def viewOf_def)
    next
      case (Some b)
      then have r: "r = Ok b" "s1 = (l\<lparr>ldHeaderCache := fst (lruAdd c1 i b)\<rparr>, batch)"
        using assms(3) s g(1) by (auto simp: fetchBlock_def split: option.splits)
      have "V env s k = Some (hv b')" if "(k, b') \<in> set (lru_abs (fst (lruAdd c1 i b)))" for k b'
        using subsetD [OF lruAdd_subset(2) [OF g(2)] that] c [of k b'] g(3) Some d by (auto simp: viewOf_def)
      then show ?thesis using r Some d lruAdd_subset(1) [OF g(2)] e s by (auto simp: cache_ok_def v same_base_def viewOf_def)
    qed
  qed
qed

lemma prefix_ne:
  "BlocksTablePrefix @ a = BlocksTablePrefix @ b \<longleftrightarrow> a = b" "BlockHeightPrefix @ a = BlockHeightPrefix @ b \<longleftrightarrow> a = b" "BranchInfoPrefix @ a = BranchInfoPrefix @ b \<longleftrightarrow> a = b"
  "BlocksTablePrefix @ a \<noteq> BlockHeightPrefix @ b" "BlocksTablePrefix @ a \<noteq> BranchInfoPrefix @ b" "BlocksTablePrefix @ a \<noteq> ConfirmedTablePrefix @ b"
  "BlocksTablePrefix @ a \<noteq> PendingBlocksTablePrefix @ b" "BlocksTablePrefix @ a \<noteq> MetaTablePrefix"
  "BlockHeightPrefix @ a \<noteq> BlocksTablePrefix @ b" "BlockHeightPrefix @ a \<noteq> BranchInfoPrefix @ b" "BlockHeightPrefix @ a \<noteq> ConfirmedTablePrefix @ b"
  "BlockHeightPrefix @ a \<noteq> PendingBlocksTablePrefix @ b" "BlockHeightPrefix @ a \<noteq> MetaTablePrefix"
  "BranchInfoPrefix @ a \<noteq> BlocksTablePrefix @ b" "BranchInfoPrefix @ a \<noteq> BlockHeightPrefix @ b" "BranchInfoPrefix @ a \<noteq> ConfirmedTablePrefix @ b"
  "BranchInfoPrefix @ a \<noteq> PendingBlocksTablePrefix @ b" "BranchInfoPrefix @ a \<noteq> MetaTablePrefix"
  "ConfirmedTablePrefix @ a \<noteq> BlocksTablePrefix @ b" "ConfirmedTablePrefix @ a \<noteq> BlockHeightPrefix @ b" "ConfirmedTablePrefix @ a \<noteq> BranchInfoPrefix @ b"
  "ConfirmedTablePrefix @ a \<noteq> PendingBlocksTablePrefix @ b" "ConfirmedTablePrefix @ a \<noteq> MetaTablePrefix"
  by (auto simp: ledger_prefixes)

lemma saveBlock_ok:
  assumes "codec_ok env" and "cache_ok env s" and "saveBlock env b s = (Ok u, s1)"
  shows "same_base (fst s) (fst s1) \<and> cache_ok env s1 \<and> V env s1 = (V env s)(contents (ibBlockid b) \<mapsto> hv b)
    \<and> H s1 = (if ibInTrunk b then (H s)(sHeight (ibHeight b) \<mapsto> contents (ibBlockid b)) else H s) \<and> Br s1 = Br s \<and> Tx s1 = Tx s"
proof -
  obtain l batch where s: "s = (l, batch)" by (cases s)
  let ?i = "contents (ibBlockid b)"
  let ?c = "fst (lruAdd (ldHeaderCache l) ?i b)"
  obtain buf where m: "leMarshalBlock env b = Some buf" using assms(3) s by (auto simp: saveBlock_def Let_def split: option.splits)
  let ?ops = "[KvPut (BlocksTablePrefix @ ?i) buf] @ (if ibInTrunk b then [KvPut (BlockHeightPrefix @ sHeight (ibHeight b)) ?i] else [])"
  have s1: "s1 = (l\<lparr>ldHeaderCache := ?c\<rparr>, batch @ ?ops)" using assms(3) s m by (auto simp: saveBlock_def Let_def)
  have u: "viewOf env (Some buf) = Some (hv b)" using assms(1) m unfolding codec_ok_def viewOf_def by fastforce
  have e: "eff s1 k = (if k = BlocksTablePrefix @ ?i then Some buf else if ibInTrunk b \<and> k = BlockHeightPrefix @ sHeight (ibHeight b) then Some ?i else eff s k)" for k
    using s s1 by (auto simp: eff_def prefix_ne)
  have v: "V env s1 = (V env s)(?i \<mapsto> hv b)" using u by (auto simp: V_def e prefix_ne)
  have h: "H s1 = (if ibInTrunk b then (H s)(sHeight (ibHeight b) \<mapsto> ?i) else H s)" by (auto simp: H_def e prefix_ne)
  have o: "Br s1 = Br s" "Tx s1 = Tx s" by (auto simp: Br_def Tx_def e prefix_ne)
  have inv: "lru_inv (ldHeaderCache l)" and c: "\<And>k b'. (k, b') \<in> set (lru_abs (ldHeaderCache l)) \<Longrightarrow> V env s k = Some (hv b')"
    using assms(2) s by (auto simp: cache_ok_def)
  have "V env s1 k = Some (hv b')" if "(k, b') \<in> set (lru_abs ?c)" for k b'
    using subsetD [OF lruAdd_subset(2) [OF inv] that] c [of k b'] unfolding v by auto
  then have "cache_ok env s1" using lruAdd_subset(1) [OF inv] s1 unfolding cache_ok_def by auto
  then show ?thesis using v h o s1 s by (simp add: same_base_def)
qed

text \<open>Writing transactions leaves the other tables as they are.\<close>

definition tx_ops :: "kvop list \<Rightarrow> bool" where
  "tx_ops ops \<longleftrightarrow> (\<forall>x\<in>set ops. \<exists>k v. x = KvPut (ConfirmedTablePrefix @ k) v)"

lemma tx_ops_tables:
  assumes "tx_ops ops"
  shows "V env (l, batch @ ops) = V env (l, batch)" "H (l, batch @ ops) = H (l, batch)" "Br (l, batch @ ops) = Br (l, batch)"
    "Tx (l, batch) t \<noteq> None \<Longrightarrow> Tx (l, batch @ ops) t \<noteq> None"
proof -
  have "V env (l, batch @ ops) = V env (l, batch) \<and> H (l, batch @ ops) = H (l, batch) \<and> Br (l, batch @ ops) = Br (l, batch)
      \<and> (\<forall>t. Tx (l, batch) t \<noteq> None \<longrightarrow> Tx (l, batch @ ops) t \<noteq> None)"
    using assms
  proof (induction ops rule: rev_induct)
    case (snoc x ops)
    then obtain k v where "x = KvPut (ConfirmedTablePrefix @ k) v" by (auto simp: tx_ops_def)
    moreover have "tx_ops ops" using snoc.prems by (simp add: tx_ops_def)
    ultimately show ?case using snoc.IH by (auto simp: tables prefix_ne fun_eq_iff simp flip: append_assoc)
  qed simp
  then show "V env (l, batch @ ops) = V env (l, batch)" "H (l, batch @ ops) = H (l, batch)" "Br (l, batch @ ops) = Br (l, batch)"
    "Tx (l, batch) t \<noteq> None \<Longrightarrow> Tx (l, batch @ ops) t \<noteq> None" by blast+
qed

lemma correctTxs_ops: "correctTxs env blockID txs batch = (r, batch1) \<Longrightarrow> \<exists>ops. batch1 = batch @ ops \<and> tx_ops ops"
proof (induction txs arbitrary: batch)
  case Nil
  then show ?case by (intro exI [of _ "[]"]) (simp add: tx_ops_def)
next
  case (Cons tx txs)
  show ?case
  proof (cases "bytes_equal (txBlockid tx) blockID")
    case True
    then show ?thesis using Cons by simp
  next
    case False
    show ?thesis
    proof (cases "leMarshalTx env (tx\<lparr>txBlockid := blockID\<rparr>)")
      case None
      then show ?thesis using Cons.prems False by (intro exI [of _ "[]"]) (simp add: tx_ops_def)
    next
      case (Some buf)
      then have "correctTxs env blockID txs (batch @ [KvPut (ConfirmedTablePrefix @ contents (txTxid tx)) buf]) = (r, batch1)" using Cons.prems False by simp
      from Cons.IH [OF this] show ?thesis by (auto simp: tx_ops_def)
    qed
  qed
qed

lemma correctTxsBlockid_ok:
  assumes "correctTxsBlockid env blockID s = (r, s1)" and "cache_ok env s"
  shows "fst s1 = fst s \<and> V env s1 = V env s \<and> H s1 = H s \<and> Br s1 = Br s \<and> cache_ok env s1 \<and> (\<forall>t. Tx s t \<noteq> None \<longrightarrow> Tx s1 t \<noteq> None)"
proof -
  obtain l batch where s: "s = (l, batch)" by (cases s)
  obtain ops where "s1 = (l, batch @ ops)" "tx_ops ops"
  proof (cases "queryBlock env (ldDB l) (contents blockID) True")
    case (Ok block)
    obtain r' batch1 where c: "correctTxs env blockID (ibTransactions block) batch = (r', batch1)" by (metis surj_pair)
    then have "s1 = (l, batch1)" using assms(1) s Ok by (simp add: correctTxsBlockid_def)
    with correctTxs_ops [OF c] that show thesis by blast
  qed (use assms(1) s that [of "[]"] in \<open>auto simp: correctTxsBlockid_def tx_ops_def\<close>)
  note o = this
  have "V env s1 = V env s" "H s1 = H s" "Br s1 = Br s" "\<forall>t. Tx s t \<noteq> None \<longrightarrow> Tx s1 t \<noteq> None"
    unfolding s o(1) using tx_ops_tables [OF o(2)] by blast+
  then show ?thesis using s o(1) assms(2) by (simp add: cache_ok_def)
qed

lemma confirmTxs_ops: "confirmTxs env db block sh txs cb old batch = Ok batch1 \<Longrightarrow> \<exists>ops. batch1 = batch @ ops \<and> tx_ops ops"
proof (induction txs arbitrary: cb old batch)
  case Nil
  then show ?case by (intro exI [of _ "[]"]) (simp add: tx_ops_def)
next
  case (Cons t txs)
  obtain tx d e where t: "t = (tx, d, e)" by (cases t)
  have step: "\<exists>cb' old' ops0. tx_ops ops0 \<and> confirmTxs env db block sh txs cb' old' (batch @ ops0) = Ok batch1"
  proof -
    have one: "tx_ops [KvPut (ConfirmedTablePrefix @ contents (txTxid tx)) b]" "tx_ops []" for b by (auto simp: tx_ops_def)
    show ?thesis using Cons.prems t
      by (auto simp: Let_def bind_result_Ok_iff split: if_splits option.splits) (metis one append_Nil2)+
  qed
  then show ?case using Cons.IH by (metis tx_ops_def UnE append_assoc set_append)
qed

section \<open>The invariant\<close>

text \<open>Every block but the root continues a block one lower.\<close>

definition tree_ok :: "string \<Rightarrow> (string \<Rightarrow> hview option) \<Rightarrow> bool" where
  "tree_ok rt v \<longleftrightarrow> (\<exists>r. v rt = Some r \<and> hvPre r = [] \<and> hvHeight r = 0)
     \<and> (\<forall>i x. v i = Some x \<longrightarrow> hvId x = i \<and> i \<noteq> [] \<and> 0 \<le> hvHeight x)
     \<and> (\<forall>i x. v i = Some x \<longrightarrow> i \<noteq> rt \<longrightarrow> (\<exists>p. v (hvPre x) = Some p \<and> hvHeight x = hvHeight p + 1))"

text \<open>
  The trunk: it ends at the tip, which is as high as any block; it goes back to the root, each block named
  by the one before; and the index finds its blocks by height, and nothing above it.
\<close>

definition trunk_ok :: "string \<Rightarrow> (string \<Rightarrow> hview option) \<Rightarrow> (string \<Rightarrow> bytes option) \<Rightarrow> string \<Rightarrow> int \<Rightarrow> bool" where
  "trunk_ok rt v h tip th \<longleftrightarrow> (\<exists>t. v tip = Some t \<and> hvTrunk t \<and> hvHeight t = th)
     \<and> (\<forall>i x. v i = Some x \<longrightarrow> hvHeight x \<le> th)
     \<and> (\<forall>i x. v i = Some x \<longrightarrow> hvTrunk x \<longrightarrow> h (sHeight (hvHeight x)) = Some i)
     \<and> (\<forall>i x. v i = Some x \<longrightarrow> hvTrunk x \<longrightarrow> i \<noteq> rt \<longrightarrow> (\<exists>p. v (hvPre x) = Some p \<and> hvTrunk p \<and> hvNext p = i))
     \<and> (\<forall>k. th < k \<longrightarrow> h (sHeight k) = None)"

lemma tree_root: "tree_ok rt v \<Longrightarrow> \<exists>r. v rt = Some r \<and> hvPre r = [] \<and> hvHeight r = 0"
  by (simp add: tree_ok_def)

lemma tree_id: "tree_ok rt v \<Longrightarrow> v i = Some x \<Longrightarrow> hvId x = i \<and> i \<noteq> [] \<and> 0 \<le> hvHeight x"
  by (auto simp: tree_ok_def)

lemma tree_pre: "tree_ok rt v \<Longrightarrow> v i = Some x \<Longrightarrow> i \<noteq> rt \<Longrightarrow> \<exists>p. v (hvPre x) = Some p \<and> hvHeight x = hvHeight p + 1"
  by (auto simp: tree_ok_def)

lemma tree_height_0: "tree_ok rt v \<Longrightarrow> v i = Some x \<Longrightarrow> hvHeight x = 0 \<longleftrightarrow> i = rt"
  using tree_root [of rt v] tree_pre [of rt v i x] tree_id [of rt v] by force

lemma trunk_tip: "trunk_ok rt v h tip th \<Longrightarrow> \<exists>t. v tip = Some t \<and> hvTrunk t \<and> hvHeight t = th"
  by (simp add: trunk_ok_def)

lemma trunk_top: "trunk_ok rt v h tip th \<Longrightarrow> v i = Some x \<Longrightarrow> hvHeight x \<le> th"
  by (auto simp: trunk_ok_def)

lemma trunk_index: "trunk_ok rt v h tip th \<Longrightarrow> v i = Some x \<Longrightarrow> hvTrunk x \<Longrightarrow> h (sHeight (hvHeight x)) = Some i"
  by (auto simp: trunk_ok_def)

lemma trunk_pre: "trunk_ok rt v h tip th \<Longrightarrow> v i = Some x \<Longrightarrow> hvTrunk x \<Longrightarrow> i \<noteq> rt \<Longrightarrow> \<exists>p. v (hvPre x) = Some p \<and> hvTrunk p \<and> hvNext p = i"
  unfolding trunk_ok_def by blast

lemma trunk_above: "trunk_ok rt v h tip th \<Longrightarrow> th < k \<Longrightarrow> h (sHeight k) = None"
  by (auto simp: trunk_ok_def)

lemma trunk_unique:
  "trunk_ok rt v h tip th \<Longrightarrow> v i = Some x \<Longrightarrow> hvTrunk x \<Longrightarrow> v j = Some y \<Longrightarrow> hvTrunk y \<Longrightarrow> hvHeight x = hvHeight y \<Longrightarrow> i = j"
  using trunk_index [of rt v h tip th i x] trunk_index [of rt v h tip th j y] by simp

text \<open>Keys of different heights differ.\<close>

lemma show_nat_inj: "show_nat m = show_nat n \<Longrightarrow> m = n"
  by (metis digits_val_show)

lemma digits_val_zeros: "digits_val (replicate n (CHR ''0'') @ s) = digits_val s"
proof -
  have "fold (\<lambda>d n. 10 * n + (of_char d - 48)) (replicate n (CHR ''0'')) 0 = (0 :: nat)" by (induction n) auto
  then show ?thesis by (simp add: digits_val_def)
qed

lemma zeroPad_inj: "zeroPad k (show_nat m) = zeroPad k (show_nat n) \<Longrightarrow> m = n"
  unfolding zeroPad_def by (metis digits_val_zeros digits_val_show)

lemma zeroPad_no_sign: "CHR ''-'' \<notin> set (zeroPad k (show_nat m))"
  using show_nat_digits [of "CHR ''-''" m] by (auto simp: zeroPad_def)

lemma sHeight_inj: "sHeight a = sHeight b \<longleftrightarrow> a = b"
proof
  assume e: "sHeight a = sHeight b"
  have s: "CHR ''-'' \<in> set (sHeight x) \<longleftrightarrow> x < 0" for x using zeroPad_no_sign by (auto simp: sHeight_def)
  show "a = b"
  proof (cases "a < 0")
    case True
    with e s [of a] s [of b] have "b < 0" by simp
    with True e have "zeroPad 19 (show_nat (nat (- a))) = zeroPad 19 (show_nat (nat (- b)))" by (simp add: sHeight_def)
    then have "nat (- a) = nat (- b)" by (rule zeroPad_inj)
    with True \<open>b < 0\<close> show ?thesis by simp
  next
    case False
    with e s [of a] s [of b] have "\<not> b < 0" by simp
    with False e have "zeroPad 20 (show_nat (nat a)) = zeroPad 20 (show_nat (nat b))" by (simp add: sHeight_def)
    then have "nat a = nat b" by (rule zeroPad_inj)
    with False \<open>\<not> b < 0\<close> show ?thesis by simp
  qed
qed simp

section \<open>Adding a block\<close>

lemma tree_ok_add:
  assumes "tree_ok rt v" and "v p = Some x" and "v i = None" and "i \<noteq> []" and "hvId n = i" and "hvPre n = p" and "hvHeight n = hvHeight x + 1"
  shows "tree_ok rt (v(i \<mapsto> n))"
proof -
  have "i \<noteq> rt" "p \<noteq> i" using tree_root [OF assms(1)] assms(2,3) by auto
  moreover have "hvPre y \<noteq> i" if "v j = Some y" "j \<noteq> rt" for j y using tree_pre [OF assms(1) that] assms(3) by auto
  ultimately show ?thesis
    using assms tree_id [OF assms(1,2)] by (auto simp: tree_ok_def)
qed

text \<open>Changing only the links and flags of blocks keeps the tree.\<close>

definition links_only :: "hview option \<Rightarrow> hview option \<Rightarrow> bool" where
  "links_only a b \<longleftrightarrow> (case (a, b) of (Some x, Some y) \<Rightarrow> hvId y = hvId x \<and> hvPre y = hvPre x \<and> hvHeight y = hvHeight x \<and> hvTxCount y = hvTxCount x \<and> hvTree y = hvTree x
     | (None, None) \<Rightarrow> True | _ \<Rightarrow> False)"

lemma tree_ok_shape:
  assumes "tree_ok rt v" and "\<And>i. links_only (v i) (w i)"
  shows "tree_ok rt w"
proof -
  have s: "w i = Some y \<Longrightarrow> \<exists>x. v i = Some x \<and> hvId y = hvId x \<and> hvPre y = hvPre x \<and> hvHeight y = hvHeight x" for i y
    using assms(2) [of i] by (auto simp: links_only_def split: option.splits)
  have t: "v i = Some x \<Longrightarrow> \<exists>y. w i = Some y \<and> hvId y = hvId x \<and> hvPre y = hvPre x \<and> hvHeight y = hvHeight x" for i x
    using assms(2) [of i] by (auto simp: links_only_def split: option.splits)
  show ?thesis unfolding tree_ok_def
  proof (intro conjI allI impI)
    show "\<exists>r. w rt = Some r \<and> hvPre r = [] \<and> hvHeight r = 0" using tree_root [OF assms(1)] t by metis
  next
    fix i y assume "w i = Some y" "i \<noteq> rt"
    with s obtain x where x: "v i = Some x" "hvPre y = hvPre x" "hvHeight y = hvHeight x" by metis
    then obtain p where "v (hvPre x) = Some p" "hvHeight x = hvHeight p + 1" using tree_pre [OF assms(1)] \<open>i \<noteq> rt\<close> by blast
    with t x show "\<exists>p. w (hvPre y) = Some p \<and> hvHeight y = hvHeight p + 1" by metis
  qed (use s tree_id [OF assms(1)] in metis)+
qed

lemma trunk_ok_tip:
  assumes "tree_ok rt v" and "trunk_ok rt v h tip th" and "v tip = Some t" and "v i = None" and "i \<noteq> []"
    and "hvId n = i" and "hvPre n = tip" and "hvHeight n = th + 1" and "hvTrunk n"
  shows "trunk_ok rt (v(tip \<mapsto> t\<lparr>hvNext := i\<rparr>, i \<mapsto> n)) (h(sHeight th \<mapsto> tip, sHeight (th + 1) \<mapsto> i)) i (th + 1)"
proof -
  have t: "hvTrunk t" "hvHeight t = th" using trunk_tip [OF assms(2)] assms(3) by auto
  have ne: "i \<noteq> tip" "i \<noteq> rt" using assms(3,4) tree_root [OF assms(1)] by auto
  have pre: "hvPre x \<noteq> tip" "hvPre x \<noteq> i" if jx: "v j = Some x" "hvTrunk x" "j \<noteq> rt" for j x
  proof -
    obtain p where p: "v (hvPre x) = Some p" "hvHeight x = hvHeight p + 1" using tree_pre [OF assms(1) jx(1,3)] by blast
    then show "hvPre x \<noteq> tip" using trunk_top [OF assms(2) jx(1)] t assms(3) by auto
    show "hvPre x \<noteq> i" using p assms(4) by auto
  qed
  let ?w = "v(tip \<mapsto> t\<lparr>hvNext := i\<rparr>, i \<mapsto> n)"
  show ?thesis unfolding trunk_ok_def
  proof (intro conjI allI impI)
    show "\<exists>t. ?w i = Some t \<and> hvTrunk t \<and> hvHeight t = th + 1" using assms(8,9) by simp
  next
    fix j x assume "?w j = Some x"
    then show "hvHeight x \<le> th + 1" using assms(8) t trunk_top [OF assms(2), of j] by (fastforce split: if_splits)
  next
    fix j x assume x: "?w j = Some x" "hvTrunk x"
    show "(h(sHeight th \<mapsto> tip, sHeight (th + 1) \<mapsto> i)) (sHeight (hvHeight x)) = Some j"
    proof (cases "j = i \<or> j = tip")
      case True
      then show ?thesis using x assms(8) t ne by (auto simp: sHeight_inj)
    next
      case False
      then have v: "v j = Some x" using x by simp
      have "hvHeight x \<noteq> th" using trunk_unique [OF assms(2) v x(2) assms(3) t(1)] False t(2) by auto
      moreover have "hvHeight x \<le> th" using trunk_top [OF assms(2) v] .
      ultimately show ?thesis using trunk_index [OF assms(2) v x(2)] by (simp add: sHeight_inj)
    qed
  next
    fix j x assume x: "?w j = Some x" "hvTrunk x" "j \<noteq> rt"
    show "\<exists>p. ?w (hvPre x) = Some p \<and> hvTrunk p \<and> hvNext p = j"
    proof (cases "j = i")
      case True
      then show ?thesis using x assms(7) t ne by auto
    next
      case False
      then obtain x' where v: "v j = Some x'" "hvTrunk x'" "hvPre x' = hvPre x" using x t(1) assms(3) by (auto split: if_splits)
      then obtain p where "v (hvPre x) = Some p" "hvTrunk p" "hvNext p = j" using trunk_pre [OF assms(2) v(1,2) x(3)] by auto
      then show ?thesis using pre [OF v(1,2) x(3)] v(3) by auto
    qed
  next
    fix k assume "th + 1 < k"
    then show "(h(sHeight th \<mapsto> tip, sHeight (th + 1) \<mapsto> i)) (sHeight k) = None" using trunk_above [OF assms(2), of k] by (simp add: sHeight_inj)
  qed
qed

lemma trunk_ok_orphan:
  assumes "trunk_ok rt v h tip th" and "v i = None" and "hvHeight n \<le> th" and "\<not> hvTrunk n"
  shows "trunk_ok rt (v(i \<mapsto> n)) h tip th"
proof -
  have "tip \<noteq> i" using trunk_tip [OF assms(1)] assms(2) by auto
  have "\<exists>p. (v(i \<mapsto> n)) (hvPre x) = Some p \<and> hvTrunk p \<and> hvNext p = j" if "v j = Some x" "hvTrunk x" "j \<noteq> rt" for j x
    using trunk_pre [OF assms(1) that] assms(2) by auto
  then show ?thesis
    using assms \<open>tip \<noteq> i\<close> trunk_tip [OF assms(1)] trunk_top [OF assms(1)] trunk_index [OF assms(1)] trunk_above [OF assms(1)]
    unfolding trunk_ok_def by auto
qed

section \<open>Switching the trunk\<close>

lemma fetchBlock_base: "fetchBlock env i s = (r, s1) \<Longrightarrow> same_base (fst s) (fst s1)"
  by (auto simp: fetchBlock_def same_base_def split: prod.splits option.splits)

lemma saveBlock_base: "saveBlock env b s = (r, s1) \<Longrightarrow> same_base (fst s) (fst s1)"
  by (auto simp: saveBlock_def same_base_def Let_def split: prod.splits option.splits)

lemma correctTxsBlockid_base: "correctTxsBlockid env i s = (r, s1) \<Longrightarrow> same_base (fst s) (fst s1)"
  by (auto simp: correctTxsBlockid_def split: prod.splits result.splits)

lemma lbind_base:
  assumes "lbind (r0, s0) f = (r, s1)" and "same_base l (fst s0)" and "\<And>a r s1. f a s0 = (r, s1) \<Longrightarrow> same_base (fst s0) (fst s1)"
  shows "same_base l (fst s1)"
proof (cases r0)
  case (Ok a)
  then have "f a s0 = (r, s1)" using assms(1) by simp
  from assms(2) assms(3) [OF this] show ?thesis by (rule same_base_trans)
qed (use assms(1,2) in auto)

lemma forkStep_base: "forkStep env p q nextHash s = (r, s1) \<Longrightarrow> same_base (fst s) (fst s1)"
proof -
  assume f: "forkStep env p q nextHash s = (r, s1)"
  obtain r1 s1' where 1: "fetchBlock env (contents p) s = (r1, s1')" by (cases "fetchBlock env (contents p) s")
  show ?thesis using f unfolding forkStep_def 1
  proof (rule lbind_base [OF _ fetchBlock_base [OF 1]])
    fix pb r s1 assume f: "lbind (fetchBlock env (contents q) s1') (\<lambda>qBlock s2.
     lbind (correctTxsBlockid env (ibBlockid qBlock) s2) (\<lambda>_ s3.
     lbind (saveBlock env (pb\<lparr>ibInTrunk := False, ibNextHash := Some []\<rparr>) s3) (\<lambda>_ s4.
     lbind (saveBlock env (qBlock\<lparr>ibInTrunk := True, ibNextHash := nextHash\<rparr>) s4) (\<lambda>_ s5.
       (Ok (ibPreHash pb, ibPreHash qBlock), s5))))) = (r, s1)"
    obtain r2 s2 where 2: "fetchBlock env (contents q) s1' = (r2, s2)" by (cases "fetchBlock env (contents q) s1'")
    show "same_base (fst s1') (fst s1)" using f unfolding 2
    proof (rule lbind_base [OF _ fetchBlock_base [OF 2]])
      fix qb r s1 assume f: "lbind (correctTxsBlockid env (ibBlockid qb) s2) (\<lambda>_ s3.
       lbind (saveBlock env (pb\<lparr>ibInTrunk := False, ibNextHash := Some []\<rparr>) s3) (\<lambda>_ s4.
       lbind (saveBlock env (qb\<lparr>ibInTrunk := True, ibNextHash := nextHash\<rparr>) s4) (\<lambda>_ s5.
         (Ok (ibPreHash pb, ibPreHash qb), s5)))) = (r, s1)"
      obtain r3 s3 where 3: "correctTxsBlockid env (ibBlockid qb) s2 = (r3, s3)" by (cases "correctTxsBlockid env (ibBlockid qb) s2")
      show "same_base (fst s2) (fst s1)" using f unfolding 3
      proof (rule lbind_base [OF _ correctTxsBlockid_base [OF 3]])
        fix u r s1 assume f: "lbind (saveBlock env (pb\<lparr>ibInTrunk := False, ibNextHash := Some []\<rparr>) s3) (\<lambda>_ s4.
         lbind (saveBlock env (qb\<lparr>ibInTrunk := True, ibNextHash := nextHash\<rparr>) s4) (\<lambda>_ s5.
           (Ok (ibPreHash pb, ibPreHash qb), s5))) = (r, s1)"
        obtain r4 s4 where 4: "saveBlock env (pb\<lparr>ibInTrunk := False, ibNextHash := Some []\<rparr>) s3 = (r4, s4)" by (metis surj_pair)
        show "same_base (fst s3) (fst s1)" using f unfolding 4
        proof (rule lbind_base [OF _ saveBlock_base [OF 4]])
          fix u r s1 assume f: "lbind (saveBlock env (qb\<lparr>ibInTrunk := True, ibNextHash := nextHash\<rparr>) s4) (\<lambda>_ s5. (Ok (ibPreHash pb, ibPreHash qb), s5)) = (r, s1)"
          obtain r5 s5 where 5: "saveBlock env (qb\<lparr>ibInTrunk := True, ibNextHash := nextHash\<rparr>) s4 = (r5, s5)" by (metis surj_pair)
          show "same_base (fst s4) (fst s1)" using f unfolding 5 by (rule lbind_base [OF _ saveBlock_base [OF 5]]) auto
        qed
      qed
    qed
  qed
qed

lemma fetchBlock_Ok:
  assumes "fetchBlock env i s = (Ok b, s1)" and "cache_ok env s" and "V env s i = Some v" and "V env (fst s, []) i = Some v"
  shows "hv b = v \<and> cache_ok env s1 \<and> eff s1 = eff s \<and> same_base (fst s) (fst s1)"
  using fetchBlock_ok [OF assms(2) _ assms(1)] assms(3,4) by auto

lemma eff_tables: "eff s1 = eff s \<Longrightarrow> V env s1 = V env s \<and> H s1 = H s \<and> Br s1 = Br s \<and> Tx s1 = Tx s"
  by (auto simp: tables)

lemma base_V: "same_base l l1 \<Longrightarrow> V env (l1, []) = V env (l, [])"
  by (auto simp: V_def eff_def same_base_def)

lemma forkStep_ok:
  assumes "codec_ok env" and "cache_ok env s" and "V env s (contents p) = Some vp" and "V env (fst s, []) (contents p) = Some vp"
    and "V env s (contents q) = Some vq" and "V env (fst s, []) (contents q) = Some vq" and "hvId vp = contents p" and "hvId vq = contents q"
    and "forkStep env p q nextHash s = (Ok (p1, q1), s1)"
  shows "contents p1 = hvPre vp \<and> contents q1 = hvPre vq \<and> cache_ok env s1
    \<and> V env s1 = (V env s)(contents p \<mapsto> vp\<lparr>hvTrunk := False, hvNext := []\<rparr>, contents q \<mapsto> vq\<lparr>hvTrunk := True, hvNext := contents nextHash\<rparr>)
    \<and> H s1 = (H s)(sHeight (hvHeight vq) \<mapsto> contents q) \<and> Br s1 = Br s"
proof -
  obtain pb sa qb sb sc sd where
      f: "fetchBlock env (contents p) s = (Ok pb, sa)" "fetchBlock env (contents q) sa = (Ok qb, sb)" "correctTxsBlockid env (ibBlockid qb) sb = (Ok (), sc)"
        "saveBlock env (pb\<lparr>ibInTrunk := False, ibNextHash := Some []\<rparr>) sc = (Ok (), sd)"
        "saveBlock env (qb\<lparr>ibInTrunk := True, ibNextHash := nextHash\<rparr>) sd = (Ok (), s1)"
      and pq: "p1 = ibPreHash pb" "q1 = ibPreHash qb"
    using assms(9) by (auto simp: forkStep_def lbind_Ok)
  note a = fetchBlock_Ok [OF f(1) assms(2,3,4)]
  have ta: "V env sa = V env s" "H sa = H s" "Br sa = Br s" using eff_tables a by blast+
  have "V env sa (contents q) = Some vq" "V env (fst sa, []) (contents q) = Some vq" using ta assms(5,6) base_V a by metis+
  note b = fetchBlock_Ok [OF f(2) _ this] a
  then have tb: "V env sb = V env s" "H sb = H s" "Br sb = Br s" "cache_ok env sb" using eff_tables ta by metis+
  note c = correctTxsBlockid_ok [OF f(3) tb(4)]
  note d = saveBlock_ok [OF assms(1) _ f(4)] c
  then have sd: "cache_ok env sd" by blast
  note e = saveBlock_ok [OF assms(1) sd f(5)]
  have ib: "contents (ibBlockid pb) = contents p" "contents (ibBlockid qb) = contents q" "ibHeight qb = hvHeight vq"
    using a b assms(7,8) by (metis hv_simps(1), metis hv_simps(1), metis hv_simps(4))
  have "hv pb = vp" "hv qb = vq" using a b by blast+
  then show ?thesis using d e tb pq ib by auto
qed

text \<open>
  What the loop has done when it stops at the split: the new part of the trunk, with its links, the old
  part, and the index.
\<close>

definition fork_result :: "(string \<Rightarrow> hview option) \<Rightarrow> int \<Rightarrow> string \<Rightarrow> string \<Rightarrow> string set \<Rightarrow> (string \<Rightarrow> string) \<Rightarrow> string \<Rightarrow> string
    \<Rightarrow> (string \<Rightarrow> hview option) \<Rightarrow> (string \<Rightarrow> hview option) \<Rightarrow> (string \<Rightarrow> bytes option) \<Rightarrow> (string \<Rightarrow> bytes option) \<Rightarrow> hview \<Rightarrow> bool" where
  "fork_result v th q next Q n sp nx v0 v1 h0 h1 vs \<longleftrightarrow>
     v sp = Some vs \<and> hvTrunk vs \<and> hvHeight vs \<le> th
     \<and> (\<forall>i\<in>Q. \<exists>x. v i = Some x \<and> \<not> hvTrunk x \<and> hvHeight vs < hvHeight x \<and> hvHeight x \<le> th
          \<and> (hvPre x \<in> Q \<and> n (hvPre x) = i \<or> hvPre x = sp \<and> nx = i) \<and> h1 (sHeight (hvHeight x)) = Some i)
     \<and> (if Q = {} then q = sp \<and> nx = next else q \<in> Q \<and> n q = next)
     \<and> (\<forall>i x. v i = Some x \<longrightarrow> v1 i = (if i \<in> Q then Some (x\<lparr>hvTrunk := True, hvNext := n i\<rparr>)
          else if hvTrunk x \<and> hvHeight vs < hvHeight x \<and> hvHeight x \<le> th then Some (x\<lparr>hvTrunk := False, hvNext := []\<rparr>) else v0 i))
     \<and> (\<forall>i. v i = None \<longrightarrow> v1 i = v0 i)
     \<and> (\<forall>k. k \<le> hvHeight vs \<or> th < k \<longrightarrow> h1 (sHeight k) = h0 (sHeight k))"

lemma forkLoop_ok:
  assumes "codec_ok env" and tree: "tree_ok rt v" and trunk: "trunk_ok rt v h tip th"
    and "v (contents p) = Some vp" and "hvTrunk vp" and "v (contents q) = Some vq" and "hvHeight vq = hvHeight vp"
    and "cache_ok env s" and "\<And>i x. v i = Some x \<Longrightarrow> hvHeight x \<le> hvHeight vp \<Longrightarrow> V env s i = Some x"
    and "V env (fst s, []) = v"
  shows "\<exists>r s1. forkLoop env p q nextHash s = Some (r, s1) \<and> same_base (fst s) (fst s1) \<and> (\<forall>sp nx. r = Ok (sp, nx) \<longrightarrow>
      cache_ok env s1 \<and> Br s1 = Br s \<and>
      (\<exists>Q n vs. fork_result v (hvHeight vp) (contents q) (contents nextHash) Q n (contents sp) (contents nx) (V env s) (V env s1) (H s) (H s1) vs))"
  using assms(4-)
proof (induction "nat (hvHeight vp)" arbitrary: p q vp vq nextHash s)
  case 0
  have "contents p = rt" "contents q = rt" using tree_height_0 [OF tree 0(2)] tree_height_0 [OF tree 0(4)] tree_id [OF tree 0(2)] 0(1,5) by auto
  then have "forkLoop env p q nextHash s = Some (Ok (q, nextHash), s)" by (simp add: forkLoop.simps bytes_equal_def)
  moreover have "fork_result v (hvHeight vp) (contents q) (contents nextHash) {} (\<lambda>_. []) (contents q) (contents nextHash) (V env s) (V env s) (H s) (H s) vp"
    using 0(2,3) \<open>contents p = rt\<close> \<open>contents q = rt\<close> by (auto simp: fork_result_def)
  ultimately show ?case using 0(6) by auto
next
  case (Suc k)
  show ?case
  proof (cases "contents p = contents q")
    case True
    then have "forkLoop env p q nextHash s = Some (Ok (q, nextHash), s)" by (simp add: forkLoop.simps bytes_equal_def)
    moreover have "fork_result v (hvHeight vp) (contents q) (contents nextHash) {} (\<lambda>_. []) (contents q) (contents nextHash) (V env s) (V env s) (H s) (H s) vp"
      using Suc.prems(1,2) True by (auto simp: fork_result_def)
    ultimately show ?thesis using Suc.prems(5) by auto
  next
    case False
    obtain r1 s1 where st: "forkStep env p q nextHash s = (r1, s1)" by (cases "forkStep env p q nextHash s")
    note base = forkStep_base [OF st]
    show ?thesis
    proof (cases r1)
      case (Ok pq)
      obtain p1 q1 where pq: "pq = (p1, q1)" by (cases pq)
      have vs: "V env s (contents p) = Some vp" "V env s (contents q) = Some vq" "V env (fst s, []) (contents p) = Some vp" "V env (fst s, []) (contents q) = Some vq"
        using Suc.prems(6) [OF Suc.prems(1)] Suc.prems(6) [OF Suc.prems(3)] Suc.prems(4,7) Suc.prems(1,3) by auto
      have ids: "hvId vp = contents p" "hvId vq = contents q" using tree_id [OF tree Suc.prems(1)] tree_id [OF tree Suc.prems(3)] by auto
      note F = forkStep_ok [OF assms(1) Suc.prems(5) vs(1,3,2,4) ids st [unfolded Ok pq]]
      have h0: "hvHeight vp \<noteq> 0" using Suc.hyps(2) by auto
      then have nr: "contents p \<noteq> rt" "contents q \<noteq> rt" using tree_height_0 [OF tree Suc.prems(1)] tree_height_0 [OF tree Suc.prems(3)] Suc.prems(4) by auto
      obtain vp1 where p1: "v (contents p1) = Some vp1" "hvTrunk vp1" using trunk_pre [OF trunk Suc.prems(1,2) nr(1)] F by auto
      have hp1: "hvHeight vp = hvHeight vp1 + 1" using tree_pre [OF tree Suc.prems(1) nr(1)] p1 F by auto
      obtain vq1 where q1: "v (contents q1) = Some vq1" "hvHeight vq = hvHeight vq1 + 1" using tree_pre [OF tree Suc.prems(3) nr(2)] F by auto
      have k: "k = nat (hvHeight vp1)" using Suc.hyps(2) hp1 by simp
      have keep: "V env s1 i = Some x" if "v i = Some x" "hvHeight x \<le> hvHeight vp1" for i x
      proof -
        have "i \<noteq> contents p" "i \<noteq> contents q" using that Suc.prems(1,3,4) hp1 q1(2) by auto
        then show ?thesis using F Suc.prems(6) [OF that(1)] that(2) hp1 by simp
      qed
      have db: "V env (fst s1, []) = v" using base_V [OF base, of env] Suc.prems(7) by simp
      have hq1: "hvHeight vq1 = hvHeight vp1" using hp1 q1(2) Suc.prems(4) by simp
      have c1: "cache_ok env s1" using F by blast
      note IH = Suc.hyps(1) [OF k p1 q1(1) hq1 c1 keep db, of q]
      obtain r2 s2 where L: "forkLoop env p1 q1 q s1 = Some (r2, s2)" "same_base (fst s1) (fst s2)"
          "\<And>sp nx. r2 = Ok (sp, nx) \<Longrightarrow> cache_ok env s2 \<and> Br s2 = Br s1 \<and>
            (\<exists>Q n vs. fork_result v (hvHeight vp1) (contents q1) (contents q) Q n (contents sp) (contents nx) (V env s1) (V env s2) (H s1) (H s2) vs)"
        using IH by blast
      have e: "forkLoop env p q nextHash s = Some (r2, s2)" using False st Ok pq L(1) by (simp add: forkLoop.simps [of env p] bytes_equal_def)
      have "\<exists>Q n vs. fork_result v (hvHeight vp) (contents q) (contents nextHash) Q n (contents sp) (contents nx) (V env s) (V env s2) (H s) (H s2) vs"
        if r2: "r2 = Ok (sp, nx)" for sp nx
      proof -
        obtain Q n vs where R: "fork_result v (hvHeight vp1) (contents q1) (contents q) Q n (contents sp) (contents nx) (V env s1) (V env s2) (H s1) (H s2) vs"
          using L(3) [OF r2] by blast
        have qQ: "contents q \<notin> Q" "contents p \<notin> Q" using R Suc.prems(1,3,4) hp1 q1(2) by (auto simp: fork_result_def)
        have nt: "\<not> hvTrunk vq" using trunk_unique [OF trunk Suc.prems(1,2,3)] False Suc.prems(4) by auto
        let ?n = "n(contents q := contents nextHash)"
        have "fork_result v (hvHeight vp) (contents q) (contents nextHash) (insert (contents q) Q) ?n (contents sp) (contents nx) (V env s) (V env s2) (H s) (H s2) vs"
          unfolding fork_result_def
        proof (intro conjI ballI allI impI)
          have hs: "hvHeight vs \<le> hvHeight vp1" "v (contents sp) = Some vs" "hvTrunk vs" using R by (auto simp: fork_result_def)
          show "v (contents sp) = Some vs" "hvTrunk vs" "hvHeight vs \<le> hvHeight vp" using hs hp1 by auto
          have hQ: "H s2 (sHeight (hvHeight vq)) = Some (contents q)"
            using R F q1(2) Suc.prems(4) hp1 by (auto simp: fork_result_def)
          show "\<exists>x. v i = Some x \<and> \<not> hvTrunk x \<and> hvHeight vs < hvHeight x \<and> hvHeight x \<le> hvHeight vp
             \<and> (hvPre x \<in> insert (contents q) Q \<and> ?n (hvPre x) = i \<or> hvPre x = contents sp \<and> contents nx = i) \<and> H s2 (sHeight (hvHeight x)) = Some i"
            if i: "i \<in> insert (contents q) Q" for i
          proof (cases "i = contents q")
            case True
            have "hvPre vq \<in> Q \<and> n (hvPre vq) = contents q \<or> hvPre vq = contents sp \<and> contents nx = contents q"
              using R F by (auto simp: fork_result_def split: if_splits)
            then show ?thesis using True Suc.prems(3,4) nt hs(1) hp1 hQ qQ by auto
          next
            case False
            then have "i \<in> Q" using i by simp
            then obtain x where x: "v i = Some x" "\<not> hvTrunk x" "hvHeight vs < hvHeight x" "hvHeight x \<le> hvHeight vp1"
                "hvPre x \<in> Q \<and> n (hvPre x) = i \<or> hvPre x = contents sp \<and> contents nx = i" "H s2 (sHeight (hvHeight x)) = Some i"
              using R unfolding fork_result_def by blast
            then show ?thesis using hp1 qQ by auto
          qed
          show "if insert (contents q) Q = {} then contents q = contents sp \<and> contents nx = contents nextHash else contents q \<in> insert (contents q) Q \<and> ?n (contents q) = contents nextHash"
            by simp
          show "V env s2 i = (if i \<in> insert (contents q) Q then Some (x\<lparr>hvTrunk := True, hvNext := ?n i\<rparr>)
              else if hvTrunk x \<and> hvHeight vs < hvHeight x \<and> hvHeight x \<le> hvHeight vp then Some (x\<lparr>hvTrunk := False, hvNext := []\<rparr>) else V env s i)"
            if x: "v i = Some x" for i x
          proof -
            have w: "V env s2 i = (if i \<in> Q then Some (x\<lparr>hvTrunk := True, hvNext := n i\<rparr>)
              else if hvTrunk x \<and> hvHeight vs < hvHeight x \<and> hvHeight x \<le> hvHeight vp1 then Some (x\<lparr>hvTrunk := False, hvNext := []\<rparr>) else V env s1 i)"
              using R x unfolding fork_result_def by blast
            consider "i = contents q" | "i = contents p" | "i \<in> Q" | "i \<noteq> contents q" "i \<noteq> contents p" "i \<notin> Q" by blast
            then show ?thesis
            proof cases
              case 1
              then have "x = vq" using x Suc.prems(3) by simp
              then show ?thesis using w 1 nt qQ F by simp
            next
              case 2
              then have "x = vp" using x Suc.prems(1) by simp
              then show ?thesis using w 2 qQ F hp1 hs False Suc.prems(2) by simp
            next
              case 3
              then show ?thesis using w qQ by auto
            next
              case 4
              have "\<not> (hvTrunk x \<and> hvHeight x = hvHeight vp)" using trunk_unique [OF trunk x _ Suc.prems(1,2)] 4 by auto
              then have "hvTrunk x \<and> hvHeight x \<le> hvHeight vp1 \<longleftrightarrow> hvTrunk x \<and> hvHeight x \<le> hvHeight vp" using hp1 by auto
              then show ?thesis using w 4 F by auto
            qed
          qed
          show "V env s2 i = V env s i" if "v i = None" for i
            using that R F Suc.prems(1,3) unfolding fork_result_def by auto
          show "H s2 (sHeight j) = H s (sHeight j)" if "j \<le> hvHeight vs \<or> hvHeight vp < j" for j
            using that R F hp1 hs(1) Suc.prems(4) unfolding fork_result_def by (auto simp: sHeight_inj)
        qed
        then show ?thesis by blast
      qed
      moreover have "cache_ok env s2 \<and> Br s2 = Br s" if "r2 = Ok (sp, nx)" for sp nx using L(3) [OF that] F by simp
      ultimately show ?thesis using e same_base_trans [OF base L(2)] by blast
    next
      case (Err x)
      then show ?thesis using False st base by (simp add: forkLoop.simps [of env p] bytes_equal_def)
    next
      case Panic
      then show ?thesis using False st base by (simp add: forkLoop.simps [of env p] bytes_equal_def)
    qed
  qed
qed

lemma handleFork_ok:
  assumes "codec_ok env" and "tree_ok rt v" and "trunk_ok rt v h tip th"
    and "v (contents p) = Some vp" and "hvTrunk vp" and "v (contents q) = Some vq" and "hvHeight vp = th" and "hvHeight vq = th"
    and "cache_ok env s" and "V env s = v" and "V env (fst s, []) = v" and "H s = h"
  shows "\<exists>r s1. handleFork env p q nextHash s = Some (r, s1) \<and> same_base (fst s) (fst s1) \<and> (\<forall>sb. r = Ok sb \<longrightarrow>
      cache_ok env s1 \<and> Br s1 = Br s \<and>
      (\<exists>Q n sp nx v1 h1 vs. fork_result v th (contents q) (contents nextHash) Q n sp nx v v1 h h1 vs
         \<and> V env s1 = v1(sp \<mapsto> vs\<lparr>hvNext := nx\<rparr>) \<and> H s1 = h1(sHeight (hvHeight vs) \<mapsto> sp) \<and> ibHeight sb = hvHeight vs))"
proof -
  have keep: "\<And>i x. v i = Some x \<Longrightarrow> hvHeight x \<le> hvHeight vp \<Longrightarrow> V env s i = Some x" using assms(10) by simp
  have hq: "hvHeight vq = hvHeight vp" using assms(7,8) by simp
  note L = forkLoop_ok [OF assms(1-6) hq assms(9) keep assms(11), of nextHash]
  then obtain r s1 where l: "forkLoop env p q nextHash s = Some (r, s1)" "same_base (fst s) (fst s1)"
      "\<And>sp nx. r = Ok (sp, nx) \<Longrightarrow> cache_ok env s1 \<and> Br s1 = Br s \<and>
        (\<exists>Q n vs. fork_result v (hvHeight vp) (contents q) (contents nextHash) Q n (contents sp) (contents nx) (V env s) (V env s1) (H s) (H s1) vs)" by blast
  show ?thesis
  proof (cases r)
    case (Ok x)
    obtain sp nx where x: "x = (sp, nx)" by (cases x)
    obtain Q n vs where R: "fork_result v th (contents q) (contents nextHash) Q n (contents sp) (contents nx) v (V env s1) h (H s1) vs"
      using l(3) [OF Ok [unfolded x]] assms(7,10,12) by auto
    have c1: "cache_ok env s1" "Br s1 = Br s" using l(3) [OF Ok [unfolded x]] by blast+
    have vs: "v (contents sp) = Some vs" "hvTrunk vs" using R by (auto simp: fork_result_def)
    moreover have "contents sp \<notin> Q" using R vs by (auto simp: fork_result_def)
    ultimately have V1: "V env s1 (contents sp) = Some vs" "V env (fst s1, []) (contents sp) = Some vs"
      using R base_V [OF l(2), of env] assms(11) by (auto simp: fork_result_def)
    obtain r2 s2 where f: "fetchBlock env (contents sp) s1 = (r2, s2)" by (cases "fetchBlock env (contents sp) s1")
    have b2: "same_base (fst s) (fst s2)" using fetchBlock_base [OF f] l(2) same_base_trans by blast
    show ?thesis
    proof (cases r2)
      case (Ok b)
      note F = fetchBlock_Ok [OF f [unfolded Ok] c1(1) V1]
      let ?b = "b\<lparr>ibInTrunk := True, ibNextHash := nx\<rparr>"
      obtain r3 s3 where g: "saveBlock env ?b s2 = (r3, s3)" by (cases "saveBlock env ?b s2")
      have hf: "handleFork env p q nextHash s = Some (lbind (r3, s3) (\<lambda>_ s3. (Ok ?b, s3)))"
        using l(1) \<open>r = Ok x\<close> x f Ok g by (simp add: handleFork_def Let_def)
      have b3: "same_base (fst s) (fst s3)" using saveBlock_base [OF g] b2 same_base_trans by blast
      show ?thesis
      proof (cases r3)
        case (Ok u)
        note G = saveBlock_ok [OF assms(1) _ g [unfolded Ok]] F
        have t2: "V env s2 = V env s1" "H s2 = H s1" "Br s2 = Br s1" using F eff_tables by blast+
        have ib: "contents (ibBlockid b) = contents sp" "ibHeight b = hvHeight vs" using F tree_id [OF assms(2) vs(1)] by (metis hv_simps(1), metis hv_simps(4))
        have "hv ?b = vs\<lparr>hvNext := contents nx\<rparr>" using F vs(2) by simp
        then have "V env s3 = (V env s1)(contents sp \<mapsto> vs\<lparr>hvNext := contents nx\<rparr>)" "H s3 = (H s1)(sHeight (hvHeight vs) \<mapsto> contents sp)" "Br s3 = Br s" "cache_ok env s3"
          using G t2 ib c1(2) by auto
        note T = this
        have "\<exists>Q n sp nx v1 h1 vs. fork_result v th (contents q) (contents nextHash) Q n sp nx v v1 h h1 vs
            \<and> V env s3 = v1(sp \<mapsto> vs\<lparr>hvNext := nx\<rparr>) \<and> H s3 = h1(sHeight (hvHeight vs) \<mapsto> sp) \<and> ibHeight ?b = hvHeight vs"
          using R T ib(2)
          by (intro exI [of _ Q] exI [of _ n] exI [of _ "contents sp"] exI [of _ "contents nx"] exI [of _ "V env s1"] exI [of _ "H s1"] exI [of _ vs]) simp
        then show ?thesis using hf Ok b3 T by (intro exI [of _ "Ok ?b"] exI [of _ s3]) simp
      qed (use hf b3 in auto)
    qed (use l(1) Ok x f b2 in \<open>auto simp: handleFork_def\<close>)
  qed (use l in \<open>auto simp: handleFork_def\<close>)
qed

lemma fork_result_split: "fork_result v th q next Q n sp nx v0 v1 h0 h1 vs \<Longrightarrow> v sp = Some vs \<and> hvTrunk vs \<and> hvHeight vs \<le> th"
  by (simp add: fork_result_def)

lemma fork_result_in: "fork_result v th q next Q n sp nx v0 v1 h0 h1 vs \<Longrightarrow> i \<in> Q \<Longrightarrow>
   \<exists>x. v i = Some x \<and> \<not> hvTrunk x \<and> hvHeight vs < hvHeight x \<and> hvHeight x \<le> th
     \<and> (hvPre x \<in> Q \<and> n (hvPre x) = i \<or> hvPre x = sp \<and> nx = i) \<and> h1 (sHeight (hvHeight x)) = Some i"
  unfolding fork_result_def by blast

lemma fork_result_end: "fork_result v th q next Q n sp nx v0 v1 h0 h1 vs \<Longrightarrow> Q \<noteq> {} \<Longrightarrow> q \<in> Q \<and> n q = next"
  unfolding fork_result_def by presburger

lemma fork_result_view: "fork_result v th q next Q n sp nx v0 v1 h0 h1 vs \<Longrightarrow> v i = Some x \<Longrightarrow>
   v1 i = (if i \<in> Q then Some (x\<lparr>hvTrunk := True, hvNext := n i\<rparr>)
     else if hvTrunk x \<and> hvHeight vs < hvHeight x \<and> hvHeight x \<le> th then Some (x\<lparr>hvTrunk := False, hvNext := []\<rparr>) else v0 i)"
  unfolding fork_result_def by blast

lemma fork_result_new: "fork_result v th q next Q n sp nx v0 v1 h0 h1 vs \<Longrightarrow> v i = None \<Longrightarrow> v1 i = v0 i"
  unfolding fork_result_def by blast

lemma fork_result_index: "fork_result v th q next Q n sp nx v0 v1 h0 h1 vs \<Longrightarrow> k \<le> hvHeight vs \<or> th < k \<Longrightarrow> h1 (sHeight k) = h0 (sHeight k)"
  unfolding fork_result_def by blast

lemma fork_shape:
  assumes "fork_result v th q next Q n sp nx v v1 h h1 vs"
  shows "links_only (v i) ((v1(sp \<mapsto> vs\<lparr>hvNext := nx\<rparr>)) i)"
proof (cases "i = sp")
  case True
  then show ?thesis using fork_result_split [OF assms] by (auto simp: links_only_def)
next
  case False
  then show ?thesis using fork_result_view [OF assms, of i] fork_result_new [OF assms, of i] by (cases "v i") (auto simp: links_only_def)
qed

lemma trunk_ok_fork:
  assumes tree: "tree_ok rt v" and trunk: "trunk_ok rt v h tip th" and F: "fork_result v th q i Q n sp nx v v1 h h1 vs"
    and "Q \<noteq> {}" and "v i = None" and "hvPre nv = q" and "hvHeight nv = th + 1" and "hvTrunk nv"
  shows "trunk_ok rt (v1(sp \<mapsto> vs\<lparr>hvNext := nx\<rparr>, i \<mapsto> nv)) (h1(sHeight (hvHeight vs) \<mapsto> sp, sHeight (th + 1) \<mapsto> i)) i (th + 1)"
proof -
  let ?w = "v1(sp \<mapsto> vs\<lparr>hvNext := nx\<rparr>, i \<mapsto> nv)" and ?h = "h1(sHeight (hvHeight vs) \<mapsto> sp, sHeight (th + 1) \<mapsto> i)"
  have sp: "v sp = Some vs" "hvTrunk vs" "hvHeight vs \<le> th" and q: "q \<in> Q" "n q = i"
    using fork_result_split [OF F] fork_result_end [OF F \<open>Q \<noteq> {}\<close>] by auto
  have inQ: "\<exists>x. v j = Some x \<and> \<not> hvTrunk x \<and> hvHeight vs < hvHeight x \<and> hvHeight x \<le> th
      \<and> (hvPre x \<in> Q \<and> n (hvPre x) = j \<or> hvPre x = sp \<and> nx = j) \<and> h1 (sHeight (hvHeight x)) = Some j \<and> ?w j = Some (x\<lparr>hvTrunk := True, hvNext := n j\<rparr>)"
    if jQ: "j \<in> Q" for j
  proof -
    obtain x where x: "v j = Some x" "\<not> hvTrunk x" "hvHeight vs < hvHeight x" "hvHeight x \<le> th"
        "hvPre x \<in> Q \<and> n (hvPre x) = j \<or> hvPre x = sp \<and> nx = j" "h1 (sHeight (hvHeight x)) = Some j"
      using fork_result_in [OF F jQ] by blast
    have "j \<noteq> sp" "j \<noteq> i" using x sp assms(5) by auto
    then have "?w j = Some (x\<lparr>hvTrunk := True, hvNext := n j\<rparr>)" using fork_result_view [OF F x(1)] jQ by simp
    then show ?thesis using x by blast
  qed
  have low: "?w j = Some x" if j: "v j = Some x" "hvTrunk x" "hvHeight x < hvHeight vs" for j x
  proof -
    have "j \<notin> Q" using inQ [of j] j by auto
    moreover have "j \<noteq> sp" "j \<noteq> i" using j sp assms(5) by auto
    ultimately show ?thesis using fork_result_view [OF F j(1)] j by simp
  qed
  have other: "v j = Some x \<and> hvHeight x < hvHeight vs" if j: "?w j = Some x" "hvTrunk x" "j \<noteq> i" "j \<noteq> sp" "j \<notin> Q" for j x
  proof -
    have 1: "v1 j = Some x" using j by simp
    obtain y where y: "v j = Some y" using fork_result_new [OF F, of j] 1 by (cases "v j") auto
    then have "hvHeight y \<le> th" using trunk_top [OF trunk] by blast
    then have "x = y" "\<not> hvHeight vs < hvHeight y" using fork_result_view [OF F y] 1 y j(2,5) by (auto split: if_splits)
    moreover have "hvHeight y \<noteq> hvHeight vs" using trunk_unique [OF trunk y _ sp(1,2)] j(2,4) calculation(1) by auto
    ultimately show ?thesis using y by simp
  qed
  show ?thesis unfolding trunk_ok_def
  proof (intro conjI allI impI)
    show "\<exists>t. ?w i = Some t \<and> hvTrunk t \<and> hvHeight t = th + 1" using assms(7,8) by simp
  next
    fix j x assume j: "?w j = Some x"
    show "hvHeight x \<le> th + 1"
    proof (cases "j = i")
      case True
      then show ?thesis using j assms(7) by simp
    next
      case False
      have "links_only (v j) (?w j)" using fork_shape [OF F, of j] False by simp
      then obtain y where "v j = Some y" "hvHeight x = hvHeight y" using j by (cases "v j") (auto simp: links_only_def)
      then show ?thesis using trunk_top [OF trunk, of j y] by simp
    qed
  next
    fix j x assume j: "?w j = Some x" "hvTrunk x"
    consider "j = i" | "j = sp" "j \<noteq> i" | "j \<in> Q" | "j \<noteq> i" "j \<noteq> sp" "j \<notin> Q" by blast
    then show "?h (sHeight (hvHeight x)) = Some j"
    proof cases
      case 1
      then show ?thesis using j assms(7) by simp
    next
      case 2
      then show ?thesis using j sp by (auto simp: sHeight_inj)
    next
      case 3
      obtain y where y: "hvHeight vs < hvHeight y" "hvHeight y \<le> th" "h1 (sHeight (hvHeight y)) = Some j" "?w j = Some (y\<lparr>hvTrunk := True, hvNext := n j\<rparr>)"
        using inQ [OF 3] by blast
      have "hvHeight x = hvHeight y" using j(1) y(4) by simp
      then show ?thesis using y(1-3) by (simp add: sHeight_inj)
    next
      case 4
      note ot = other [OF j 4]
      have "h1 (sHeight (hvHeight x)) = h (sHeight (hvHeight x))" using fork_result_index [OF F, of "hvHeight x"] ot by simp
      then show ?thesis using trunk_index [OF trunk, of j x] ot j(2) sp(3) by (auto simp: sHeight_inj)
    qed
  next
    fix j x assume j: "?w j = Some x" "hvTrunk x" "j \<noteq> rt"
    have prev: "\<exists>p. ?w (hvPre y) = Some p \<and> hvTrunk p \<and> hvNext p = j" if y: "v j = Some y" "hvTrunk y" "hvHeight y \<le> hvHeight vs" for y
    proof -
      obtain p where p: "v (hvPre y) = Some p" "hvTrunk p" "hvNext p = j" using trunk_pre [OF trunk y(1,2) j(3)] by blast
      have "hvHeight p < hvHeight vs" using tree_pre [OF tree y(1) j(3)] p y(3) by auto
      then show ?thesis using low [OF p(1,2)] p(2,3) by blast
    qed
    consider "j = i" | "j = sp" "j \<noteq> i" | "j \<in> Q" | "j \<noteq> i" "j \<noteq> sp" "j \<notin> Q" by blast
    then show "\<exists>p. ?w (hvPre x) = Some p \<and> hvTrunk p \<and> hvNext p = j"
    proof cases
      case 1
      obtain y where "?w q = Some (y\<lparr>hvTrunk := True, hvNext := n q\<rparr>)" using inQ [OF q(1)] by blast
      moreover have "x = nv" using 1 j(1) by simp
      ultimately show ?thesis using assms(6) q(2) 1 by simp
    next
      case 2
      then have "hvPre x = hvPre vs" using j by auto
      then show ?thesis using prev [of vs] sp 2 by simp
    next
      case 3
      obtain y where y: "v j = Some y" "hvPre y \<in> Q \<and> n (hvPre y) = j \<or> hvPre y = sp \<and> nx = j" "?w j = Some (y\<lparr>hvTrunk := True, hvNext := n j\<rparr>)"
        using inQ [OF 3] by blast
      have pre: "hvPre x = hvPre y" using j(1) y(3) by simp
      have "sp \<noteq> i" using sp assms(5) by auto
      show ?thesis
      proof (cases "hvPre y \<in> Q \<and> n (hvPre y) = j")
        case True
        obtain z where "?w (hvPre y) = Some (z\<lparr>hvTrunk := True, hvNext := n (hvPre y)\<rparr>)" using inQ [of "hvPre y"] True by blast
        then show ?thesis using True pre by simp
      next
        case False
        then have "hvPre y = sp" "nx = j" using y(2) by blast+
        then show ?thesis using sp(2) pre \<open>sp \<noteq> i\<close> by simp
      qed
    next
      case 4
      note ot = other [OF j(1,2) 4]
      then show ?thesis using prev [of x] j(2) by auto
    qed
  next
    fix k assume "th + 1 < k"
    then show "?h (sHeight k) = None" using trunk_above [OF trunk, of k] fork_result_index [OF F, of k] sp(3) by (auto simp: sHeight_inj)
  qed
qed

section \<open>Branches\<close>

text \<open>\<open>i\<close> is \<open>k\<close> or a block before it.\<close>

definition below :: "(string \<Rightarrow> hview option) \<Rightarrow> string \<Rightarrow> string \<Rightarrow> bool" where
  "below v i k \<longleftrightarrow> (\<lambda>a b. \<exists>x. v b = Some x \<and> hvPre x = a)\<^sup>*\<^sup>* i k"

text \<open>The branches are recorded with their heights, and every block is on one.\<close>

definition branch_ok :: "(string \<Rightarrow> hview option) \<Rightarrow> (string \<Rightarrow> bytes option) \<Rightarrow> bool" where
  "branch_ok v br \<longleftrightarrow> (\<forall>k b. br k = Some b \<longrightarrow> (\<exists>x. v k = Some x \<and> b = itoa (hvHeight x)))
     \<and> (\<forall>i x. v i = Some x \<longrightarrow> (\<exists>k. br k \<noteq> None \<and> below v i k))"

lemma branch_entry: "branch_ok v br \<Longrightarrow> br k = Some b \<Longrightarrow> \<exists>x. v k = Some x \<and> b = itoa (hvHeight x)"
  unfolding branch_ok_def by blast

lemma branch_cover: "branch_ok v br \<Longrightarrow> v i = Some x \<Longrightarrow> \<exists>k. br k \<noteq> None \<and> below v i k"
  unfolding branch_ok_def by blast

lemma below_refl: "below v i i" by (simp add: below_def)

lemma below_step: "below v i k \<Longrightarrow> v j = Some x \<Longrightarrow> hvPre x = k \<Longrightarrow> below v i j"
  unfolding below_def by (rule rtranclp.rtrancl_into_rtrancl) auto

lemma below_mono:
  assumes "below v i k" and "\<And>j x. v j = Some x \<Longrightarrow> \<exists>y. w j = Some y \<and> hvPre y = hvPre x"
  shows "below w i k"
  using assms(1) unfolding below_def
proof (induction rule: rtranclp_induct)
  case (step y z)
  obtain x where x: "v z = Some x" "hvPre x = y" using step.hyps(2) by blast
  obtain x' where "w z = Some x'" "hvPre x' = y" using assms(2) [OF x(1)] x(2) by blast
  then have "\<exists>x. w z = Some x \<and> hvPre x = y" by blast
  with step.IH show ?case by (rule rtranclp.rtrancl_into_rtrancl)
qed simp

lemma branch_ok_add:
  assumes "branch_ok v br" and "\<And>j. links_only (v j) (w j)" and "v p = Some x" and "v i = None" and "hvPre nv = p"
  shows "branch_ok (w(i \<mapsto> nv)) (br(p := None, i \<mapsto> itoa (hvHeight nv)))"
proof -
  have keep: "\<exists>y'. (w(i \<mapsto> nv)) j = Some y' \<and> hvPre y' = hvPre y \<and> hvHeight y' = hvHeight y" if "v j = Some y" for j y
  proof -
    have "j \<noteq> i" using that assms(4) by auto
    then show ?thesis using assms(2) [of j] that by (auto simp: links_only_def split: option.splits)
  qed
  have mono: "below v a b \<Longrightarrow> below (w(i \<mapsto> nv)) a b" for a b using below_mono keep by metis
  have pi: "p \<noteq> i" using assms(3,4) by auto
  show ?thesis unfolding branch_ok_def
  proof (intro conjI allI impI)
    fix k b assume k: "(br(p := None, i \<mapsto> itoa (hvHeight nv))) k = Some b"
    show "\<exists>x. (w(i \<mapsto> nv)) k = Some x \<and> b = itoa (hvHeight x)"
    proof (cases "k = i")
      case False
      then have "br k = Some b" using k by (auto split: if_splits)
      then obtain y where "v k = Some y" "b = itoa (hvHeight y)" using branch_entry [OF assms(1)] by blast
      then show ?thesis using keep by metis
    qed (use k in auto)
  next
    fix j y assume j: "(w(i \<mapsto> nv)) j = Some y"
    show "\<exists>k. (br(p := None, i \<mapsto> itoa (hvHeight nv))) k \<noteq> None \<and> below (w(i \<mapsto> nv)) j k"
    proof (cases "j = i")
      case True
      then show ?thesis using below_refl by (intro exI [of _ i]) auto
    next
      case False
      then obtain y0 where "v j = Some y0" using j assms(2) [of j] by (cases "v j") (auto simp: links_only_def)
      then obtain k where k: "br k \<noteq> None" "below v j k" using branch_cover [OF assms(1)] by blast
      then have ki: "k \<noteq> i" using branch_entry [OF assms(1), of k] assms(4) by auto
      show ?thesis
      proof (cases "k = p")
        case True
        have "below (w(i \<mapsto> nv)) j i" by (rule below_step [OF mono [OF k(2)]]) (use True assms(5) in auto)
        then show ?thesis by (intro exI [of _ i]) simp
      next
        case False
        then show ?thesis using k mono ki by (intro exI [of _ k]) simp
      qed
    qed
  qed
qed

section \<open>Confirming a block\<close>

definition ledger_inv :: "('j, 'm) LedgerEnv_scheme \<Rightarrow> string \<Rightarrow> 'j Ledger \<Rightarrow> bool" where
  "ledger_inv env rt l \<longleftrightarrow> tree_ok rt (V env (l, []))
     \<and> trunk_ok rt (V env (l, [])) (H (l, [])) (contents (lmTipBlockid (ldMeta l))) (lmTrunkHeight (ldMeta l))
     \<and> branch_ok (V env (l, [])) (Br (l, [])) \<and> cache_ok env (l, []) \<and> kv_ok (ldDB l) \<and> contents (lmRootBlockid (ldMeta l)) = rt"

text \<open>What placing a block promises about the state in which it is then saved.\<close>

definition placed :: "('j, 'm) LedgerEnv_scheme \<Rightarrow> string \<Rightarrow> 'j Ledger \<Rightarrow> InternalBlock \<Rightarrow> Placement \<Rightarrow> 'j lstate \<Rightarrow> bool" where
  "placed env rt l block pl s1 \<longleftrightarrow> cache_ok env s1 \<and> Br s1 = Br (l, []) \<and> (\<forall>j. links_only (V env (l, []) j) (V env s1 j))
     \<and> (let i = contents (ibBlockid block); b = plBlock pl; w = (V env s1)(i \<mapsto> hv b)
        in tree_ok rt w
          \<and> trunk_ok rt w (if ibInTrunk b then (H s1)(sHeight (ibHeight b) \<mapsto> i) else H s1) (contents (lmTipBlockid (plMeta pl))) (lmTrunkHeight (plMeta pl))
          \<and> contents (ibBlockid b) = i \<and> contents (ibPreHash b) = contents (ibPreHash block))
     \<and> lmRootBlockid (plMeta pl) = lmRootBlockid (ldMeta l) \<and> \<not> csSucc (plStatus pl) \<and> (\<exists>x. V env (l, []) (contents (ibPreHash block)) = Some x)"

lemma links_only_refl: "links_only a a" by (simp add: links_only_def split: option.splits)

lemma placeOnTip_ok:
  assumes "codec_ok env" and inv: "ledger_inv env rt l" and "V env (l, []) (contents (ibBlockid block)) = None" and "contents (ibBlockid block) \<noteq> []"
    and s: "cache_ok env s" "eff s = eff (l, [])" "same_base l (fst s)"
    and pre: "V env (l, []) (contents (ibPreHash block)) = Some (hv preBlock)"
    and tip: "bytes_equal (ibBlockid preBlock) (lmTipBlockid (ldMeta (fst s)))"
    and r: "placeOnTip env block preBlock s = (r, s1)"
  shows "same_base l (fst s1) \<and> (\<forall>pl. r = Ok pl \<longrightarrow> placed env rt l block pl s1)"
proof -
  let ?v = "V env (l, [])" and ?i = "contents (ibBlockid block)" and ?mt = "ldMeta l"
  have t: "tree_ok rt ?v" "trunk_ok rt ?v (H (l, [])) (contents (lmTipBlockid ?mt)) (lmTrunkHeight ?mt)" using inv by (auto simp: ledger_inv_def)
  have mt: "ldMeta (fst s) = ?mt" using s(3) by (simp add: same_base_def)
  have ip: "contents (ibPreHash block) = contents (lmTipBlockid ?mt)" "contents (ibBlockid preBlock) = contents (lmTipBlockid ?mt)"
    using tree_id [OF t(1) pre] tip mt by (auto simp: bytes_equal_def)
  obtain u l1 b1 where sv: "saveBlock env (preBlock\<lparr>ibNextHash := ibBlockid block\<rparr>) s = (u, l1, b1)"
    by (cases "saveBlock env (preBlock\<lparr>ibNextHash := ibBlockid block\<rparr>) s")
  let ?s1 = "(l1\<lparr>ldBlockCache := lruDel (ldBlockCache l1) (contents (ibBlockid preBlock))\<rparr>, b1)"
  have base: "same_base l (fst ?s1)" using saveBlock_base [OF sv] s(3) by (simp add: same_base_def)
  show ?thesis
  proof (cases u)
    case (Ok x)
    note S = saveBlock_ok [OF assms(1) s(1) sv [unfolded Ok]]
    have e: "s1 = ?s1" and pl: "\<And>p. r = Ok p \<Longrightarrow> p = \<lparr>plBlock = block\<lparr>ibHeight := ibHeight preBlock + 1, ibInTrunk := True\<rparr>,
        plMeta = ?mt\<lparr>lmTipBlockid := ibBlockid block, lmTrunkHeight := lmTrunkHeight ?mt + 1\<rparr>, plSplitHeight = lmTrunkHeight ?mt, plStatus = noStatus\<rparr>"
      using r sv Ok mt by (auto simp: placeOnTip_def DisableTxDedup_def Let_def)
    have E: "eff ?s1 = eff (l1, b1)" by (simp add: eff_def fun_eq_iff)
    have t0: "V env s = ?v" "H s = H (l, [])" "Br s = Br (l, [])" using s(2) eff_tables by blast+
    have hp: "hvTrunk (hv preBlock)" "ibHeight preBlock = lmTrunkHeight ?mt" using trunk_tip [OF t(2)] pre ip(1) by auto
    have v1: "V env ?s1 = ?v(contents (lmTipBlockid ?mt) \<mapsto> (hv preBlock)\<lparr>hvNext := ?i\<rparr>)"
      "H ?s1 = (H (l, []))(sHeight (lmTrunkHeight ?mt) \<mapsto> contents (lmTipBlockid ?mt))" "Br ?s1 = Br (l, [])" "cache_ok env ?s1"
      using S t0 ip(2) hp eff_tables [OF E, of env] by (auto simp: cache_ok_def)
    let ?nv = "hv (block\<lparr>ibHeight := ibHeight preBlock + 1, ibInTrunk := True\<rparr>)"
    have nv: "hvId ?nv = ?i" "hvPre ?nv = contents (lmTipBlockid ?mt)" "hvHeight ?nv = lmTrunkHeight ?mt + 1" "hvTrunk ?nv" using ip hp by simp_all
    have sh: "links_only (?v j) (V env ?s1 j)" for j using v1(1) pre ip(1) by (auto simp: links_only_def split: option.splits)
    have t1: "tree_ok rt (V env ?s1)" by (rule tree_ok_shape [OF t(1) sh])
    have p1: "V env ?s1 (contents (lmTipBlockid ?mt)) = Some ((hv preBlock)\<lparr>hvNext := ?i\<rparr>)" using v1(1) by simp
    have "?i \<noteq> contents (lmTipBlockid ?mt)" using assms(3) pre ip(1) by auto
    then have n1: "V env ?s1 ?i = None" using v1(1) assms(3) by simp
    have tr: "tree_ok rt ((V env ?s1)(?i \<mapsto> ?nv))" by (rule tree_ok_add [OF t1 p1 n1 assms(4) nv(1,2)]) (use hp(2) nv(3) in simp)
    have tk: "trunk_ok rt ((V env ?s1)(?i \<mapsto> ?nv)) ((H ?s1)(sHeight (lmTrunkHeight ?mt + 1) \<mapsto> ?i)) ?i (lmTrunkHeight ?mt + 1)"
      unfolding v1(1,2) using trunk_ok_tip [OF t(1,2) _ assms(3,4) nv] pre ip(1) by simp
    have "placed env rt l block pl s1" if "r = Ok pl" for pl
      using that e pl [OF that] v1(3,4) sh tr tk hp(2) pre ip by (auto simp: placed_def Let_def noStatus_def)
    then show ?thesis using base e by auto
  next
    case (Err x)
    then show ?thesis using r sv base by (auto simp: placeOnTip_def DisableTxDedup_def Let_def)
  next
    case Panic
    then show ?thesis using r sv base by (auto simp: placeOnTip_def DisableTxDedup_def Let_def)
  qed
qed

lemma placeOnBranch_ok:
  assumes "codec_ok env" and inv: "ledger_inv env rt l" and "V env (l, []) (contents (ibBlockid block)) = None" and "contents (ibBlockid block) \<noteq> []"
    and s: "cache_ok env s" "eff s = eff (l, [])" "same_base l (fst s)"
    and pre: "V env (l, []) (contents (ibPreHash block)) = Some (hv preBlock)"
    and tip: "\<not> bytes_equal (ibBlockid preBlock) (lmTipBlockid (ldMeta (fst s)))"
  shows "\<exists>r s1. placeOnBranch env block preBlock s = Some (r, s1) \<and> same_base l (fst s1) \<and> (\<forall>pl. r = Ok pl \<longrightarrow> placed env rt l block pl s1)"
proof -
  let ?v = "V env (l, [])" and ?i = "contents (ibBlockid block)" and ?mt = "ldMeta l" and ?h = "H (l, [])"
  have t: "tree_ok rt ?v" "trunk_ok rt ?v ?h (contents (lmTipBlockid ?mt)) (lmTrunkHeight ?mt)" using inv by (auto simp: ledger_inv_def)
  have mt: "ldMeta (fst s) = ?mt" using s(3) by (simp add: same_base_def)
  have ip: "contents (ibPreHash block) = contents (ibBlockid preBlock)" using tree_id [OF t(1) pre] by simp
  have t0: "V env s = ?v" "H s = ?h" "Br s = Br (l, [])" using s(2) eff_tables by blast+
  have le: "ibHeight preBlock \<le> lmTrunkHeight ?mt" using trunk_top [OF t(2) pre] by simp
  show ?thesis
  proof (cases "lmTrunkHeight ?mt < ibHeight preBlock + 1")
    case False
    let ?b = "block\<lparr>ibHeight := ibHeight preBlock + 1, ibInTrunk := False\<rparr>"
    have e: "placeOnBranch env block preBlock s = Some (Ok \<lparr>plBlock = ?b, plMeta = ?mt, plSplitHeight = lmTrunkHeight ?mt,
        plStatus = noStatus\<lparr>csSplit := True, csOrphan := True\<rparr>\<rparr>, s)" using False mt by (simp add: placeOnBranch_def Let_def)
    have tr: "tree_ok rt (?v(?i \<mapsto> hv ?b))" by (rule tree_ok_add [OF t(1) pre assms(3,4)]) (use ip in simp_all)
    have tk: "trunk_ok rt (?v(?i \<mapsto> hv ?b)) ?h (contents (lmTipBlockid ?mt)) (lmTrunkHeight ?mt)" by (rule trunk_ok_orphan [OF t(2) assms(3)]) (use False in simp_all)
    show ?thesis using e s(1,3) tr tk t0 pre links_only_refl by (auto simp: placed_def Let_def noStatus_def)
  next
    case True
    let ?b = "block\<lparr>ibHeight := ibHeight preBlock + 1, ibInTrunk := True\<rparr>"
    have hp: "ibHeight preBlock = lmTrunkHeight ?mt" using True le by simp
    obtain tv where tv: "?v (contents (lmTipBlockid ?mt)) = Some tv" "hvTrunk tv" "hvHeight tv = lmTrunkHeight ?mt" using trunk_tip [OF t(2)] by blast
    have q: "?v (contents (ibBlockid preBlock)) = Some (hv preBlock)" "hvHeight (hv preBlock) = lmTrunkHeight ?mt" using pre ip hp by auto
    have db: "V env (fst s, []) = ?v" using base_V [OF s(3)] .
    obtain r s1 where hf: "handleFork env (lmTipBlockid ?mt) (ibBlockid preBlock) (ibBlockid block) s = Some (r, s1)" "same_base (fst s) (fst s1)"
        "\<And>sb. r = Ok sb \<Longrightarrow> cache_ok env s1 \<and> Br s1 = Br s \<and>
          (\<exists>Q n sp nx v1 h1 vs. fork_result ?v (lmTrunkHeight ?mt) (contents (ibBlockid preBlock)) ?i Q n sp nx ?v v1 ?h h1 vs
             \<and> V env s1 = v1(sp \<mapsto> vs\<lparr>hvNext := nx\<rparr>) \<and> H s1 = h1(sHeight (hvHeight vs) \<mapsto> sp) \<and> ibHeight sb = hvHeight vs)"
      using handleFork_ok [OF assms(1) t tv(1,2) q(1) tv(3) q(2) s(1) t0(1) db t0(2), of "ibBlockid block"] by blast
    have base: "same_base l (fst s1)" using s(3) hf(2) by (rule same_base_trans)
    show ?thesis
    proof (cases r)
      case (Ok sb)
      let ?pl = "\<lparr>plBlock = ?b, plMeta = ?mt\<lparr>lmTrunkHeight := ibHeight preBlock + 1, lmTipBlockid := ibBlockid block\<rparr>,
                     plSplitHeight = ibHeight sb, plStatus = noStatus\<lparr>csSplit := True, csTrunkSwitch := True\<rparr>\<rparr>"
      have e: "placeOnBranch env block preBlock s = Some (Ok ?pl, s1)" using True hf(1) Ok mt by (simp add: placeOnBranch_def Let_def)
      obtain Q n sp nx v1 h1 vs where F: "fork_result ?v (lmTrunkHeight ?mt) (contents (ibBlockid preBlock)) ?i Q n sp nx ?v v1 ?h h1 vs"
          and V1: "V env s1 = v1(sp \<mapsto> vs\<lparr>hvNext := nx\<rparr>)" "H s1 = h1(sHeight (hvHeight vs) \<mapsto> sp)" using hf(3) [OF Ok] by blast
      have c1: "cache_ok env s1" "Br s1 = Br (l, [])" using hf(3) [OF Ok] t0(3) by auto
      have "Q \<noteq> {}"
      proof
        assume "Q = {}"
        then have "contents (ibBlockid preBlock) = sp" using F by (simp add: fork_result_def)
        then have "hvTrunk (hv preBlock)" using fork_result_split [OF F] q(1) by simp
        then have "contents (ibBlockid preBlock) = contents (lmTipBlockid ?mt)" using trunk_unique [OF t(2) q(1) _ tv(1,2)] q(2) tv(3) by simp
        then show False using tip mt by (simp add: bytes_equal_def)
      qed
      have sh: "links_only (?v j) (V env s1 j)" for j using fork_shape [OF F] V1(1) by simp
      have t1: "tree_ok rt (V env s1)" by (rule tree_ok_shape [OF t(1) sh])
      have n1: "V env s1 ?i = None" using sh [of ?i] assms(3) by (cases "V env s1 ?i") (auto simp: links_only_def)
      obtain y where y: "V env s1 (contents (ibBlockid preBlock)) = Some y" "hvHeight y = ibHeight preBlock"
        using sh [of "contents (ibBlockid preBlock)"] q(1) by (cases "V env s1 (contents (ibBlockid preBlock))") (auto simp: links_only_def)
      have tr: "tree_ok rt ((V env s1)(?i \<mapsto> hv ?b))" by (rule tree_ok_add [OF t1 y(1) n1 assms(4)]) (use ip y(2) in simp_all)
      have tk: "trunk_ok rt ((V env s1)(?i \<mapsto> hv ?b)) ((H s1)(sHeight (lmTrunkHeight ?mt + 1) \<mapsto> ?i)) ?i (lmTrunkHeight ?mt + 1)"
        unfolding V1 by (rule trunk_ok_fork [OF t F \<open>Q \<noteq> {}\<close> assms(3)]) (use ip hp in simp_all)
      have "placed env rt l block ?pl s1" using c1 sh tr tk hp pre by (simp add: placed_def Let_def noStatus_def)
      then show ?thesis using e base by auto
    next
      case (Err x)
      then show ?thesis using True hf(1) mt base by (simp add: placeOnBranch_def Let_def)
    next
      case Panic
      then show ?thesis using True hf(1) mt base by (simp add: placeOnBranch_def Let_def)
    qed
  qed
qed

lemma placeBlock_ok:
  assumes "codec_ok env" and inv: "ledger_inv env rt l" and "V env (l, []) (contents (ibBlockid block)) = None" and "contents (ibBlockid block) \<noteq> []"
  shows "\<exists>r s1. placeBlock env block False (l, []) = Some (r, s1) \<and> same_base l (fst s1) \<and> (\<forall>pl. r = Ok pl \<longrightarrow> placed env rt l block pl s1)"
proof -
  have c: "cache_ok env (l, [])" using inv by (simp add: ledger_inv_def)
  obtain r s where f: "fetchBlock env (contents (ibPreHash block)) (l, []) = (r, s)" by (metis surj_pair)
  have F: "same_base l (fst s) \<and> eff s = eff (l, []) \<and> cache_ok env s
      \<and> (case V env (l, []) (contents (ibPreHash block)) of Some v \<Rightarrow> \<exists>b. r = Ok b \<and> hv b = v | None \<Rightarrow> \<exists>e. r = Err e)"
    using fetchBlock_ok [OF c _ f] by simp
  show ?thesis
  proof (cases r)
    case (Ok b)
    then have pre: "V env (l, []) (contents (ibPreHash block)) = Some (hv b)" using F by (auto split: option.splits)
    show ?thesis
    proof (cases "bytes_equal (ibBlockid b) (lmTipBlockid (ldMeta (fst s)))")
      case True
      obtain r' s' where p: "placeOnTip env block b s = (r', s')" by (metis surj_pair)
      from placeOnTip_ok [OF assms _ _ _ pre True p] F have "same_base l (fst s') \<and> (\<forall>pl. r' = Ok pl \<longrightarrow> placed env rt l block pl s')" by blast
      then show ?thesis using f Ok True p by (simp add: placeBlock_def)
    next
      case False
      from placeOnBranch_ok [OF assms _ _ _ pre False] F
      have "\<exists>r s1. placeOnBranch env block b s = Some (r, s1) \<and> same_base l (fst s1) \<and> (\<forall>pl. r = Ok pl \<longrightarrow> placed env rt l block pl s1)" by blast
      then show ?thesis using f Ok False by (simp add: placeBlock_def)
    qed
  next
    case (Err x)
    then show ?thesis using f F by (simp add: placeBlock_def)
  next
    case Panic
    then show ?thesis using f F by (simp add: placeBlock_def)
  qed
qed

text \<open>From the placed block to the written one.\<close>

lemma finish_tables:
  assumes "l2 = l1\<lparr>ldDB := kvWrite (batch @ [KvDelete (PendingBlocksTablePrefix @ x), KvPut MetaTablePrefix y]) (ldDB l1), ldMeta := mt\<rparr>"
  shows "V env (l2, []) = V env (l1, batch)" "H (l2, []) = H (l1, batch)" "Br (l2, []) = Br (l1, batch)" "Tx (l2, []) = Tx (l1, batch)"
  using assms by (auto simp: tables eff_def prefix_ne fun_eq_iff)

lemma updateBranch_tables:
  "V env (l, updateBranchInfo a d h batch) = V env (l, batch)" "H (l, updateBranchInfo a d h batch) = H (l, batch)"
  "Br (l, updateBranchInfo a d h batch) = (Br (l, batch))(d := None, a \<mapsto> itoa h)" "Tx (l, updateBranchInfo a d h batch) = Tx (l, batch)"
  by (auto simp: updateBranchInfo_def tables eff_def prefix_ne fun_eq_iff)

text \<open>
  A written block: the invariant, the same blocks as before with their places in the tree, and the new one.
\<close>

definition confirmed_as :: "('j, 'm) LedgerEnv_scheme \<Rightarrow> string \<Rightarrow> 'j Ledger \<Rightarrow> InternalBlock \<Rightarrow> 'j Ledger \<Rightarrow> bool" where
  "confirmed_as env rt l block l1 \<longleftrightarrow> ledger_inv env rt l1
     \<and> (\<forall>j. j \<noteq> contents (ibBlockid block) \<longrightarrow> links_only (V env (l, []) j) (V env (l1, []) j))
     \<and> (\<exists>x. V env (l1, []) (contents (ibBlockid block)) = Some x \<and> hvPre x = contents (ibPreHash block)
          \<and> hvTxCount x = ibTxCount block \<and> hvTree x = map contents (ibMerkleTree block))
     \<and> lmTrunkHeight (ldMeta l) \<le> lmTrunkHeight (ldMeta l1)"

lemma plBlock_tree: "placeBlock env block False s = Some (Ok pl, s1) \<Longrightarrow> ibTxCount (plBlock pl) = ibTxCount block \<and> ibMerkleTree (plBlock pl) = ibMerkleTree block"
  by (auto simp: placeBlock_def placeOnTip_def placeOnBranch_def Let_def lbind_Ok DisableTxDedup_def split: prod.splits result.splits if_splits)

lemma ConfirmBlock_ok:
  assumes "codec_ok env" and inv: "ledger_inv env rt l" and fresh: "V env (l, []) (contents (ibBlockid block)) = None" "contents (ibBlockid block) \<noteq> []"
  shows "\<exists>r l1. ConfirmBlock env block False l = Some (r, l1) \<and> (\<forall>st b. r = Ok (st, b) \<longrightarrow> (if csSucc st then confirmed_as env rt l block l1 else same_base l l1))"
proof -
  let ?block = "block\<lparr>ibTransactions := []\<rparr>" and ?i = "contents (ibBlockid block)"
  obtain r s1 where p: "placeBlock env ?block False (l, []) = Some (r, s1)" "same_base l (fst s1)" "\<And>pl. r = Ok pl \<Longrightarrow> placed env rt l ?block pl s1"
    using placeBlock_ok [OF assms(1) inv, of ?block] fresh by auto
  show ?thesis
  proof (cases r)
    case (Ok pl)
    let ?b = "plBlock pl"
    note P = p(3) [OF Ok]
    have pl: "cache_ok env s1" "Br s1 = Br (l, [])" "\<And>j. links_only (V env (l, []) j) (V env s1 j)"
        "tree_ok rt ((V env s1)(?i \<mapsto> hv ?b))" "contents (ibBlockid ?b) = ?i" "contents (ibPreHash ?b) = contents (ibPreHash block)"
        "trunk_ok rt ((V env s1)(?i \<mapsto> hv ?b)) (if ibInTrunk ?b then (H s1)(sHeight (ibHeight ?b) \<mapsto> ?i) else H s1) (contents (lmTipBlockid (plMeta pl))) (lmTrunkHeight (plMeta pl))"
        "lmRootBlockid (plMeta pl) = lmRootBlockid (ldMeta l)" "\<not> csSucc (plStatus pl)" "\<exists>x. V env (l, []) (contents (ibPreHash block)) = Some x"
      using P by (auto simp: placed_def Let_def)
    obtain u l2 batch2 where sv: "saveBlock env ?b s1 = (u, l2, batch2)" by (metis surj_pair)
    have b2: "same_base l l2" using saveBlock_base [OF sv] p(2) by (auto intro: same_base_trans)
    show ?thesis
    proof (cases u)
      case (Ok x)
      note S = saveBlock_ok [OF assms(1) pl(1) sv [unfolded Ok]]
      let ?batch3 = "updateBranchInfo (contents (ibBlockid ?b)) (contents (ibPreHash ?b)) (ibHeight ?b) batch2"
      let ?checked = "parallelCheckTx env (ldDB l2) ?b (ibTransactions block)"
      let ?c = "confirmTxs env (ldDB l2) ?b (plSplitHeight pl) ?checked 0 Map.empty ?batch3"
      have e: "ConfirmBlock env block False l = (case ?c of Ok batch4 \<Rightarrow> Some (finishConfirm env False pl (map fst ?checked) (l2, batch4))
          | Err e \<Rightarrow> Some (Ok ((plStatus pl)\<lparr>csError := e\<rparr>, None), l2) | Panic \<Rightarrow> Some (Panic, l2))"
        using p(1) \<open>r = Ok pl\<close> sv Ok by (simp add: ConfirmBlock_def Let_def)
      show ?thesis
      proof (cases ?c)
        case (Ok batch4)
        obtain ops where o: "batch4 = ?batch3 @ ops" "tx_ops ops" using confirmTxs_ops [OF Ok] by blast
        have T4: "V env (l2, batch4) = (V env s1)(?i \<mapsto> hv ?b)" "H (l2, batch4) = (if ibInTrunk ?b then (H s1)(sHeight (ibHeight ?b) \<mapsto> ?i) else H s1)"
            "Br (l2, batch4) = (Br (l, []))(contents (ibPreHash ?b) := None, ?i \<mapsto> itoa (ibHeight ?b))"
          unfolding o(1) tx_ops_tables [OF o(2)] updateBranch_tables using S pl(2,5) by auto
        show ?thesis
        proof (cases "leMarshalMeta env (plMeta pl)")
          case None
          then show ?thesis using e Ok b2 pl(9) by (simp add: finishConfirm_def)
        next
          case (Some metaBuf)
          let ?l3 = "l2\<lparr>ldDB := kvWrite (batch4 @ [KvDelete (PendingBlocksTablePrefix @ contents (ibBlockid ?b)), KvPut MetaTablePrefix metaBuf]) (ldDB l2), ldMeta := plMeta pl\<rparr>"
          obtain l4 where l4: "ConfirmBlock env block False l = Some (Ok ((plStatus pl)\<lparr>csSucc := True\<rparr>, Some (?b\<lparr>ibTransactions := map fst ?checked\<rparr>)), l4)"
              "ldDB l4 = ldDB ?l3" "ldMeta l4 = plMeta pl" "ldHeaderCache l4 = ldHeaderCache l2"
            using e Ok Some by (simp add: finishConfirm_def Let_def)
          have E4: "V env (l4, []) = V env (?l3, [])" "H (l4, []) = H (?l3, [])" "Br (l4, []) = Br (?l3, [])" using l4(2) by (simp_all add: tables eff_def fun_eq_iff)
          note T3 = finish_tables [OF refl]
          have T: "V env (l4, []) = (V env s1)(?i \<mapsto> hv ?b)" "H (l4, []) = (if ibInTrunk ?b then (H s1)(sHeight (ibHeight ?b) \<mapsto> ?i) else H s1)"
              "Br (l4, []) = (Br (l, []))(contents (ibPreHash ?b) := None, ?i \<mapsto> itoa (ibHeight ?b))" unfolding E4 T3 T4 by simp_all
          have "V env (l4, []) = V env (l2, batch2)" using T(1) S pl(5) by simp
          from cache_ok_cong [OF this] have ca: "cache_ok env (l4, [])" using S l4(4) by simp
          obtain x where x: "V env (l, []) (contents (ibPreHash block)) = Some x" using pl(10) by blast
          have br: "branch_ok (V env (l4, [])) (Br (l4, []))" unfolding T
            using branch_ok_add [OF _ pl(3) x fresh(1), of _ "hv ?b"] inv pl(6) by (simp add: ledger_inv_def)
          have "kv_ok (ldDB l2)" using inv b2 by (simp add: ledger_inv_def same_base_def)
          from kv_ok_write [OF this] have kv: "kv_ok (ldDB l4)" using l4(2) by (simp del: kvWrite_simps)
          have li: "ledger_inv env rt l4" unfolding ledger_inv_def l4(3) using ca br kv pl(4,7,8) inv T by (simp add: ledger_inv_def)
          obtain tv where tv: "V env (l, []) (contents (lmTipBlockid (ldMeta l))) = Some tv" "hvHeight tv = lmTrunkHeight (ldMeta l)"
            using inv trunk_tip unfolding ledger_inv_def by blast
          have "contents (lmTipBlockid (ldMeta l)) \<noteq> ?i" using tv(1) fresh(1) by auto
          then obtain y where "V env (l4, []) (contents (lmTipBlockid (ldMeta l))) = Some y" "hvHeight y = hvHeight tv"
            using T(1) pl(3) [of "contents (lmTipBlockid (ldMeta l))"] tv(1) by (auto simp: links_only_def split: option.splits)
          then have le: "lmTrunkHeight (ldMeta l) \<le> lmTrunkHeight (ldMeta l4)"
            using trunk_top [of rt "V env (l4, [])" _ _ "lmTrunkHeight (ldMeta l4)"] li tv(2) unfolding ledger_inv_def by metis
          have "confirmed_as env rt l block l4"
            unfolding confirmed_as_def using li le T(1) pl(3,6) plBlock_tree [OF p(1) [unfolded \<open>r = Ok pl\<close>]] by simp
          then show ?thesis using l4(1) by simp
        qed
      qed (use e b2 pl(9) in auto)
    qed (use p(1) Ok sv b2 pl(9) in \<open>auto simp: ConfirmBlock_def Let_def\<close>)
  qed (use p in \<open>auto simp: ConfirmBlock_def noStatus_def\<close>)
qed

section \<open>The first block\<close>

lemma root_confirmed:
  assumes "codec_ok env" and "newLedger env n True cfg [] = (Ok (), l)" and "ConfirmBlock env block True l = Some (Ok (st, b), l1)" and "csSucc st"
    and "contents (ibBlockid block) \<noteq> []"
  shows "ledger_inv env (contents (ibBlockid block)) l1"
proof -
  let ?i = "contents (ibBlockid block)" and ?b = "block\<lparr>ibTransactions := [], ibInTrunk := True, ibHeight := 0\<rparr>"
  let ?mt = "(ldMeta l)\<lparr>lmRootBlockid := ibBlockid block, lmTrunkHeight := 0, lmTipBlockid := ibBlockid block\<rparr>"
  obtain metaBuf gb where l: "ldDB l = kvWrite [KvPut MetaTablePrefix metaBuf] []" "ldHeaderCache l = NewLRUCache (if n \<noteq> 0 then n else BlockCacheSize)"
    using assms(2) by (auto simp: newLedger_def loadGenesisBlock_def tableGet_def kvGet_def Let_def split: option.splits result.splits)
  have V0: "V env (l, []) = (\<lambda>_. None)" "H (l, []) = (\<lambda>_. None)" "Br (l, []) = (\<lambda>_. None)"
    using l(1) by (auto simp: tables eff_def viewOf_def fun_eq_iff ledger_prefixes) (simp_all add: kvGet_def)
  have c0: "cache_ok env (l, [])" using l(2) by (auto simp: cache_ok_def lru_inv_New)
  have k0: "kv_ok (ldDB l)" unfolding l(1) by (rule kv_ok_write) (simp add: kv_ok_def)
  obtain pl where pr: "placeRoot (block\<lparr>ibTransactions := []\<rparr>) (l, []) = (Ok pl, l, [])" and pl: "plBlock pl = ?b" "plMeta pl = ?mt" "\<not> csSucc (plStatus pl)"
      "contents (ibPreHash block) = []"
    using assms(3,4) by (auto simp: ConfirmBlock_def placeBlock_def placeRoot_def Let_def noStatus_def split: if_splits)
  obtain u l2 batch2 where sv: "saveBlock env ?b (l, []) = (u, l2, batch2)" by (metis surj_pair)
  obtain x where u: "u = Ok x" using assms(3,4) pr pl(1,3) sv by (cases u) (auto simp: ConfirmBlock_def placeBlock_def)
  note S = saveBlock_ok [OF assms(1) c0 sv [unfolded u]]
  let ?batch3 = "updateBranchInfo ?i (contents (ibPreHash block)) 0 batch2"
  let ?checked = "parallelCheckTx env (ldDB l2) ?b (ibTransactions block)"
  obtain batch4 where cf: "confirmTxs env (ldDB l2) ?b (plSplitHeight pl) ?checked 0 Map.empty ?batch3 = Ok batch4"
    using assms(3,4) pr pl sv u by (auto simp: ConfirmBlock_def placeBlock_def Let_def split: result.splits)
  obtain ops where o: "batch4 = ?batch3 @ ops" "tx_ops ops" using confirmTxs_ops [OF cf] by blast
  have fin: "finishConfirm env True pl (map fst ?checked) (l2, batch4) = (Ok (st, b), l1)"
    using assms(3) pr pl sv u cf by (simp add: ConfirmBlock_def placeBlock_def Let_def)
  obtain mb where mb: "leMarshalMeta env (plMeta pl) = Some mb" using fin assms(4) pl(3) by (auto simp: finishConfirm_def split: option.splits)
  let ?l3 = "l2\<lparr>ldDB := kvWrite (batch4 @ [KvDelete (PendingBlocksTablePrefix @ contents (ibBlockid ?b)), KvPut MetaTablePrefix mb]) (ldDB l2), ldMeta := plMeta pl\<rparr>"
  have l1: "ldDB l1 = ldDB ?l3" "ldMeta l1 = ?mt" "ldHeaderCache l1 = ldHeaderCache l2"
    using fin mb pl by (auto simp: finishConfirm_def loadGenesisBlock_def Let_def split: result.splits if_splits option.splits)
  have E: "V env (l1, []) = V env (?l3, [])" "H (l1, []) = H (?l3, [])" "Br (l1, []) = Br (?l3, [])" using l1(1) by (simp_all add: tables eff_def fun_eq_iff)
  note T3 = finish_tables [OF refl]
  have T: "V env (l1, []) = [?i \<mapsto> hv ?b]" "H (l1, []) = [sHeight 0 \<mapsto> ?i]" "Br (l1, []) = [?i \<mapsto> itoa 0]"
    unfolding E T3 unfolding o(1) tx_ops_tables [OF o(2)] updateBranch_tables using S V0 by auto
  have "V env (l1, []) = V env (l2, batch2)" using T(1) S V0 by simp
  from cache_ok_cong [OF this] have ca: "cache_ok env (l1, [])" using S l1(3) by simp
  have tr: "tree_ok ?i (V env (l1, []))" unfolding T using pl(4) assms(5) by (auto simp: tree_ok_def)
  have tk: "trunk_ok ?i (V env (l1, [])) (H (l1, [])) ?i 0" unfolding T by (auto simp: trunk_ok_def sHeight_inj)
  have br: "branch_ok (V env (l1, [])) (Br (l1, []))" unfolding T by (auto simp: branch_ok_def below_refl)
  have "kv_ok (ldDB l2)" using k0 S by (simp add: same_base_def)
  from kv_ok_write [OF this] have kv: "kv_ok (ldDB l1)" using l1(1) by (simp del: kvWrite_simps)
  show ?thesis unfolding ledger_inv_def l1(2) using tr tk br ca kv by simp
qed

section \<open>Reachable ledgers\<close>

text \<open>
  The ledgers that arise from an empty database by confirming a genesis block and further new blocks,
  with queries in between. A block that is refused is not part of this: its header stays in
  the cache.
\<close>

inductive ledger_reach :: "('j, 'm) LedgerEnv_scheme \<Rightarrow> string \<Rightarrow> 'j Ledger \<Rightarrow> bool" for env where
  genesis: "newLedger env n True cfg [] = (Ok (), l) \<Longrightarrow> contents (ibBlockid block) \<noteq> [] \<Longrightarrow> ConfirmBlock env block True l = Some (Ok (st, b), l1) \<Longrightarrow> csSucc st
     \<Longrightarrow> ledger_reach env (contents (ibBlockid block)) l1"
| confirm: "ledger_reach env rt l \<Longrightarrow> contents (ibBlockid block) \<noteq> [] \<Longrightarrow> \<not> ExistBlock (contents (ibBlockid block)) l
     \<Longrightarrow> ConfirmBlock env block False l = Some (Ok (st, b), l1) \<Longrightarrow> csSucc st \<Longrightarrow> ledger_reach env rt l1"
| queryBlock: "ledger_reach env rt l \<Longrightarrow> QueryBlock env i l = (r, l1) \<Longrightarrow> ledger_reach env rt l1"
| queryHeader: "ledger_reach env rt l \<Longrightarrow> QueryBlockHeader env i l = (r, l1) \<Longrightarrow> ledger_reach env rt l1"
| queryTx: "ledger_reach env rt l \<Longrightarrow> QueryTransaction env t l = (r', l1) \<Longrightarrow> ledger_reach env rt l1"
| inTrunk: "ledger_reach env rt l \<Longrightarrow> IsTxInTrunk env t l = (r'', l1) \<Longrightarrow> ledger_reach env rt l1"

lemma ledger_inv_caches:
  assumes "ledger_inv env rt l" and "ldDB l1 = ldDB l" and "ldMeta l1 = ldMeta l" and "ldHeaderCache l1 = ldHeaderCache l"
  shows "ledger_inv env rt l1"
proof -
  have "V env (l1, []) = V env (l, [])" "H (l1, []) = H (l, [])" "Br (l1, []) = Br (l, [])" using assms(2) by (simp_all add: tables eff_def fun_eq_iff)
  then show ?thesis using assms cache_ok_cong [of env "(l1, [])" "(l, [])"] by (simp add: ledger_inv_def)
qed

lemma not_exist_fresh: "\<not> ExistBlock i l \<Longrightarrow> V env (l, []) i = None"
  by (simp add: ExistBlock_def V_def eff_def tableGet_def viewOf_def)

lemma QueryBlockHeader_inv:
  assumes "ledger_inv env rt l" and "QueryBlockHeader env i l = (r, l1)"
  shows "ledger_inv env rt l1 \<and> (case V env (l, []) i of Some v \<Rightarrow> \<exists>b. r = Ok b \<and> hv b = v | None \<Rightarrow> \<exists>e. r = Err e)"
proof -
  obtain bt where f: "fetchBlock env i (l, []) = (r, l1, bt)" using assms(2) by (auto simp: QueryBlockHeader_def split: prod.splits)
  have c: "cache_ok env (l, [])" using assms(1) by (simp add: ledger_inv_def)
  have F: "bt = []" "same_base l l1" "eff (l1, []) = eff (l, [])" "cache_ok env (l1, [])"
      "case V env (l, []) i of Some v \<Rightarrow> \<exists>b. r = Ok b \<and> hv b = v | None \<Rightarrow> \<exists>e. r = Err e"
    using fetchBlock_ok [OF c _ f] by auto
  have "V env (l1, []) = V env (l, [])" "H (l1, []) = H (l, [])" "Br (l1, []) = Br (l, [])" using eff_tables [OF F(3)] by blast+
  then have "ledger_inv env rt l1" using assms(1) F(2,4) by (simp add: ledger_inv_def same_base_def)
  then show ?thesis using F(5) by blast
qed

lemma ledger_reach_inv:
  assumes "ledger_reach env rt l" and "codec_ok env"
  shows "ledger_inv env rt l"
  using assms(1)
proof (induction rule: ledger_reach.induct)
  case (genesis n cfg l block st b l1)
  then show ?case using root_confirmed [OF assms(2)] by blast
next
  case (confirm rt l block st b l1)
  then show ?case using ConfirmBlock_ok [OF assms(2) confirm.IH not_exist_fresh [OF confirm.hyps(3)] confirm.hyps(2)]
    by (auto simp: confirmed_as_def)
next
  case (queryBlock rt l i r l1)
  then show ?case using ledger_inv_caches [of env rt l l1] by (auto simp: QueryBlock_def split: prod.splits option.splits result.splits)
next
  case (queryHeader rt l i r l1)
  then show ?case using QueryBlockHeader_inv by blast
next
  case (queryTx rt l t r' l1)
  then show ?case using ledger_inv_caches [of env rt l l1] by (auto simp: QueryTransaction_def split: prod.splits option.splits)
next
  case (inTrunk rt l t r'' l1)
  then show ?case using ledger_inv_caches [of env rt l l1] by (auto simp: IsTxInTrunk_def split: prod.splits option.splits result.splits)
qed

text \<open>The trunk has a block at every height.\<close>

lemma trunk_at:
  assumes "tree_ok rt v" and "trunk_ok rt v h tip th" and "0 \<le> k" and "k \<le> th"
  shows "\<exists>i x. v i = Some x \<and> hvTrunk x \<and> hvHeight x = k"
proof -
  have "\<exists>i x. v i = Some x \<and> hvTrunk x \<and> hvHeight x = th - int n" if "int n \<le> th" for n
    using that
  proof (induction n)
    case 0
    then show ?case using trunk_tip [OF assms(2)] by auto
  next
    case (Suc n)
    then obtain i x where x: "v i = Some x" "hvTrunk x" "hvHeight x = th - int n" by auto
    then have "i \<noteq> rt" using tree_height_0 [OF assms(1) x(1)] Suc.prems by auto
    then obtain p where "v (hvPre x) = Some p" "hvTrunk p" "hvHeight x = hvHeight p + 1"
      using trunk_pre [OF assms(2) x(1,2)] tree_pre [OF assms(1) x(1)] by auto
    then show ?case using x(3) by (intro exI [of _ "hvPre x"] exI [of _ p]) simp
  qed
  from this [of "nat (th - k)"] show ?thesis using assms(3,4) by simp
qed

text \<open>
  C36: The ledger keeps its tree of blocks in order. After any sequence of confirmed blocks, on the trunk, on
  branches or switching the trunk to a longer branch, and of queries: every block continues a
  block one lower down to the genesis block; the trunk is a path from the genesis block to the tip, each
  of its blocks naming the next; no block is higher than the tip; the branches are all recorded; the cached headers
  are those of the database; and the header of every height up to the trunk's is found, is on the
  trunk and has that height, and none is found above it.
\<close>

theorem ledger_in_order:
  assumes "ledger_reach env rt l" and "codec_ok env"
  shows "ledger_inv env rt l
    \<and> (\<forall>k. 0 \<le> k \<and> k \<le> lmTrunkHeight (ldMeta l) \<longrightarrow> (\<exists>b l1. QueryBlockHeaderByHeight env k l = (Ok b, l1) \<and> ibHeight b = k \<and> ibInTrunk b))
    \<and> (\<forall>k. lmTrunkHeight (ldMeta l) < k \<longrightarrow> fst (QueryBlockHeaderByHeight env k l) = Err ErrBlockNotExist)"
proof -
  have inv: "ledger_inv env rt l" by (rule ledger_reach_inv [OF assms])
  then have t: "tree_ok rt (V env (l, []))" "trunk_ok rt (V env (l, [])) (H (l, [])) (contents (lmTipBlockid (ldMeta l))) (lmTrunkHeight (ldMeta l))"
    by (simp_all add: ledger_inv_def)
  have h: "tableGet BlockHeightPrefix (ldDB l) k = H (l, []) k" for k by (simp add: H_def eff_def tableGet_def)
  have "\<exists>b l1. QueryBlockHeaderByHeight env k l = (Ok b, l1) \<and> ibHeight b = k \<and> ibInTrunk b" if k: "0 \<le> k" "k \<le> lmTrunkHeight (ldMeta l)" for k
  proof -
    obtain i x where x: "V env (l, []) i = Some x" "hvTrunk x" "hvHeight x = k" using trunk_at [OF t k] by blast
    obtain r l1 where q: "QueryBlockHeader env i l = (r, l1)" by (metis surj_pair)
    obtain b where "r = Ok b" "hv b = x" using QueryBlockHeader_inv [OF inv q] x(1) by auto
    then show ?thesis using q x(2,3) trunk_index [OF t(2) x(1,2)] h by (auto simp: QueryBlockHeaderByHeight_def)
  qed
  moreover have "fst (QueryBlockHeaderByHeight env k l) = Err ErrBlockNotExist" if "lmTrunkHeight (ldMeta l) < k" for k
    using trunk_above [OF t(2) that] h by (simp add: QueryBlockHeaderByHeight_def)
  ultimately show ?thesis using inv by blast
qed

text \<open>The small ledger is reached, after its trunk has switched.\<close>

lemma demo_codec: "codec_ok demoEnv"
  by (auto simp: codec_ok_def decode_encode hv_def emptyBlock_def)

lemma demo_reach: "ledger_reach demoEnv ''r'' (ledgerOf demo3)"
proof -
  have id: "contents (ibBlockid (demoBlock i p txs)) = i" for i p txs by (simp add: demoBlock_def emptyBlock_def)
  have g: "ledger_reach demoEnv ''r'' (ledgerOf demo0)"
  proof (rule confirmed_inE [OF demo0_ok])
    fix st b assume "demo0 = Some (Ok (st, b), ledgerOf demo0)" "csSucc st"
    then show ?thesis using ledger_reach.genesis [OF demoNew_ok, of demoRoot st b "ledgerOf demo0"] id by (simp add: demoRoot_def demo0_def)
  qed
  have step: "ledger_reach demoEnv ''r'' (ledgerOf x)"
    if "confirmed_in x" "x = ConfirmBlock demoEnv (demoBlock i p txs) False l" "ledger_reach demoEnv ''r'' l" "i \<noteq> []" "\<not> ExistBlock i l" for x i p txs l
  proof (rule confirmed_inE [OF that(1)])
    fix st b assume "x = Some (Ok (st, b), ledgerOf x)" "csSucc st"
    then show ?thesis using ledger_reach.confirm [OF that(3), of "demoBlock i p txs" st b "ledgerOf x"] that(2,4,5) id by simp
  qed
  have "\<not> ExistBlock ''a'' (ledgerOf demo0)" "\<not> ExistBlock ''b'' (ledgerOf demo1)" "\<not> ExistBlock ''c'' (ledgerOf demo2)" by code_simp+
  then have "ledger_reach demoEnv ''r'' (ledgerOf demo1)" using step [OF demo1_ok demo1_def g] by simp
  then have "ledger_reach demoEnv ''r'' (ledgerOf demo2)" using step [OF demo2_ok demo2_def] \<open>\<not> ExistBlock ''b'' (ledgerOf demo1)\<close> by simp
  then show ?thesis using step [OF demo3_ok demo3_def] \<open>\<not> ExistBlock ''c'' (ledgerOf demo2)\<close> by simp
qed

theorem ledger_in_order_witness:
  "(\<exists>b l1. QueryBlockHeaderByHeight demoEnv 1 (ledgerOf demo3) = (Ok b, l1) \<and> ibHeight b = 1 \<and> ibInTrunk b)
   \<and> fst (QueryBlockHeaderByHeight demoEnv 3 (ledgerOf demo3)) = Err ErrBlockNotExist \<and> lmTrunkHeight (ldMeta (ledgerOf demo3)) = 2"
proof -
  have "lmTrunkHeight (ldMeta (ledgerOf demo3)) = 2" by (simp add: demo3_meta)
  then show ?thesis using ledger_in_order [OF demo_reach demo_codec] by simp
qed

section \<open>From one block to another\<close>

text \<open>The blocks from one block back to another, which is not among them.\<close>

fun up_path :: "(string \<Rightarrow> hview option) \<Rightarrow> string \<Rightarrow> string list \<Rightarrow> string \<Rightarrow> bool" where
  "up_path v a [] c \<longleftrightarrow> a = c"
| "up_path v a (x # xs) c \<longleftrightarrow> x = a \<and> (\<exists>y. v a = Some y \<and> up_path v (hvPre y) xs c)"

lemma up_path_snoc: "up_path v a xs c \<Longrightarrow> v c = Some y \<Longrightarrow> up_path v a (xs @ [c]) (hvPre y)"
  by (induction xs arbitrary: a) auto

lemma up_path_heights:
  assumes "tree_ok rt v" and "v c = Some z"
  shows "up_path v a xs c \<Longrightarrow> x \<in> set xs \<Longrightarrow> \<exists>y. v x = Some y \<and> hvHeight z < hvHeight y"
proof (induction xs arbitrary: a x)
  case (Cons b xs)
  obtain y where y: "b = a" "v a = Some y" "up_path v (hvPre y) xs c" using Cons.prems(1) by auto
  have low: "hvHeight z \<le> hvHeight w" if "v (hvPre y) = Some w" for w
    using Cons.IH [OF y(3)] y(3) that assms(2) by (cases xs) force+
  have "a \<noteq> rt"
  proof
    assume "a = rt"
    then have "hvPre y = []" using tree_root [OF assms(1)] y(2) by auto
    then have "xs = [] \<and> c = []" using y(3) tree_id [OF assms(1), of "[]"] by (cases xs) auto
    then show False using tree_id [OF assms(1,2)] by simp
  qed
  then have "hvHeight z < hvHeight y" using tree_pre [OF assms(1) y(2)] low by auto
  then show ?case using Cons.prems(2) Cons.IH [OF y(3)] y(1,2) by auto
qed simp

definition bodies_ok :: "('j, 'm) LedgerEnv_scheme \<Rightarrow> 'j Ledger \<Rightarrow> bool" where
  "bodies_ok env l \<longleftrightarrow> (\<forall>i. ExistBlock i l \<longrightarrow> (\<exists>b. queryBlock env (ldDB l) i True = Ok b))"

lemma queryBlock_view: "queryBlock env (ldDB l) i nb = Ok b \<Longrightarrow> V env (l, []) i = Some (hv b)"
  by (auto simp: queryBlock_def V_def viewOf_def eff_def tableGet_def bind_result_Ok_iff split: option.splits if_splits)

lemma bodies_query:
  assumes "bodies_ok env l" and "tree_ok rt (V env (l, []))" and "V env (l, []) i = Some x"
  obtains b where "queryBlock env (ldDB l) i True = Ok b" "hv b = x" "contents (ibBlockid b) = i"
proof -
  obtain b where b: "queryBlock env (ldDB l) i True = Ok b" using assms(1) not_exist_fresh [of i l env] assms(3) unfolding bodies_ok_def by fastforce
  then have "hv b = x" using queryBlock_view [OF b] assms(3) by simp
  moreover have "contents (ibBlockid b) = i" using tree_id [OF assms(2,3)] calculation by auto
  ultimately show thesis using that b by blast
qed

text \<open>
  The search has two disjoint paths of stored blocks, and neither end is far below the other once it
  has moved.
\<close>

abbreviation bid :: "InternalBlock \<Rightarrow> string" where
  "bid b \<equiv> contents (ibBlockid b)"

definition stored_block :: "('j, 'm) LedgerEnv_scheme \<Rightarrow> 'j Ledger \<Rightarrow> InternalBlock \<Rightarrow> bool" where
  "stored_block env l b \<longleftrightarrow> queryBlock env (ldDB l) (bid b) True = Ok b"

lemma stored_view: "stored_block env l b \<Longrightarrow> V env (l, []) (bid b) = Some (hv b)"
  unfolding stored_block_def by (rule queryBlock_view)

definition search_inv :: "('j, 'm) LedgerEnv_scheme \<Rightarrow> 'j Ledger \<Rightarrow> string \<Rightarrow> string \<Rightarrow> Search \<Rightarrow> string list \<Rightarrow> string list \<Rightarrow> bool" where
  "search_inv env l cur dest se us ts \<longleftrightarrow>
     map bid (seUndo se) = us @ [bid (seOldTip se)] \<and> map bid (seTodo se) = ts @ [bid (seNewTip se)]
     \<and> (\<forall>b\<in>{seOldTip se, seNewTip se} \<union> set (seUndo se) \<union> set (seTodo se). stored_block env l b)
     \<and> up_path (V env (l, [])) cur us (bid (seOldTip se)) \<and> up_path (V env (l, [])) dest ts (bid (seNewTip se))
     \<and> seVisited se = set (us @ [bid (seOldTip se)]) \<union> set (ts @ [bid (seNewTip se)])
     \<and> set (us @ [bid (seOldTip se)]) \<inter> set (ts @ [bid (seNewTip se)]) = {}
     \<and> (us \<noteq> [] \<longrightarrow> ibHeight (seNewTip se) \<le> ibHeight (seOldTip se) + 1) \<and> (ts \<noteq> [] \<longrightarrow> ibHeight (seOldTip se) \<le> ibHeight (seNewTip se) + 1)"

definition search_done :: "('j, 'm) LedgerEnv_scheme \<Rightarrow> 'j Ledger \<Rightarrow> string \<Rightarrow> string \<Rightarrow> InternalBlock list \<Rightarrow> InternalBlock list \<Rightarrow> bool" where
  "search_done env l cur dest undo todo \<longleftrightarrow>
     (\<exists>c. V env (l, []) c \<noteq> None \<and> up_path (V env (l, [])) cur (map bid undo) c \<and> up_path (V env (l, [])) dest (map bid todo) c)
     \<and> set (map bid undo) \<inter> set (map bid todo) = {} \<and> (\<forall>b\<in>set undo \<union> set todo. stored_block env l b)"

lemma pre_block:
  assumes "tree_ok rt (V env (l, []))" and "bodies_ok env l" and "stored_block env l b" and "contents (ibPreHash b) \<noteq> []"
  obtains p where "queryBlock env (ldDB l) (contents (ibPreHash b)) True = Ok p" "stored_block env l p" "bid p = contents (ibPreHash b)"
    "ibHeight p = ibHeight b - 1"
proof -
  have v: "V env (l, []) (bid b) = Some (hv b)" by (rule stored_view [OF assms(3)])
  have "bid b \<noteq> rt" using tree_root [OF assms(1)] v assms(4) by auto
  then obtain x where x: "V env (l, []) (contents (ibPreHash b)) = Some x" "ibHeight b = hvHeight x + 1"
    using tree_pre [OF assms(1) v] by auto
  obtain p where "queryBlock env (ldDB l) (contents (ibPreHash b)) True = Ok p" "hv p = x" "bid p = contents (ibPreHash b)"
    using bodies_query [OF assms(2,1) x(1)] by blast
  then show thesis using that x(2) by (auto simp: stored_block_def)
qed

lemma not_root_pre:
  assumes "tree_ok rt (V env (l, []))" and "stored_block env l b" and "contents (ibPreHash b) = []"
  shows "bid b = rt \<and> ibHeight b = 0"
proof -
  have v: "V env (l, []) (bid b) = Some (hv b)" by (rule stored_view [OF assms(2)])
  have "bid b = rt"
  proof (rule ccontr)
    assume "bid b \<noteq> rt"
    then obtain x where "V env (l, []) [] = Some x" using tree_pre [OF assms(1) v] assms(3) by auto
    then show False using tree_id [OF assms(1)] by blast
  qed
  then show ?thesis using tree_root [OF assms(1)] v by auto
qed

lemma stored_height: "tree_ok rt (V env (l, [])) \<Longrightarrow> stored_block env l b \<Longrightarrow> 0 \<le> ibHeight b"
  using tree_id [of rt "V env (l, [])" "bid b" "hv b"] stored_view [of env l b] by simp

text \<open>A visited predecessor of one end is the other end.\<close>

lemma meets_end:
  assumes tree: "tree_ok rt v" and a: "v a = Some x" and b: "v b = Some y" and pa: "up_path v cur us a" and pb: "up_path v dest ts b"
    and p: "v p = Some z" "hvHeight z = hvHeight x - 1" and "p \<in> set (us @ [a]) \<union> set (ts @ [b])"
    and h: "hvHeight y \<le> hvHeight x" "ts \<noteq> [] \<Longrightarrow> hvHeight x \<le> hvHeight y + 1"
  shows "p = b"
proof -
  have "p \<notin> set (us @ [a])" using up_path_heights [OF tree a pa] p a by fastforce
  then have t: "p \<in> set (ts @ [b])" using assms(8) by blast
  show ?thesis
  proof (rule ccontr)
    assume "p \<noteq> b"
    then have "p \<in> set ts" using t by simp
    then obtain w where "v p = Some w" "hvHeight y < hvHeight w" using up_path_heights [OF tree b pb] by blast
    then show False using p h(2) \<open>p \<in> set ts\<close> by (cases ts) auto
  qed
qed

lemma searchOld_ok:
  assumes tree: "tree_ok rt (V env (l, []))" and bodies: "bodies_ok env l" and inv: "search_inv env l cur dest se us ts"
  shows "(searchOld env (ldDB l) se = Ok (se, None) \<and> \<not> (contents (ibPreHash (seOldTip se)) \<noteq> [] \<and> ibHeight (seNewTip se) \<le> ibHeight (seOldTip se)))
    \<or> (\<exists>se1 s. searchOld env (ldDB l) se = Ok (se1, Some s) \<and> search_done env l cur dest (dropSplit s (seUndo se1)) (dropSplit s (seTodo se1)))
    \<or> (\<exists>se1 us1. searchOld env (ldDB l) se = Ok (se1, None) \<and> search_inv env l cur dest se1 us1 ts
        \<and> ibHeight (seOldTip se1) = ibHeight (seOldTip se) - 1 \<and> seNewTip se1 = seNewTip se)"
proof (cases "contents (ibPreHash (seOldTip se)) \<noteq> [] \<and> ibHeight (seNewTip se) \<le> ibHeight (seOldTip se)")
  case go: True
  let ?o = "seOldTip se" and ?n = "seNewTip se" and ?v = "V env (l, [])"
  have I: "map bid (seUndo se) = us @ [bid ?o]" "map bid (seTodo se) = ts @ [bid ?n]" "stored_block env l ?o" "stored_block env l ?n"
      "\<forall>b\<in>set (seUndo se) \<union> set (seTodo se). stored_block env l b" "up_path ?v cur us (bid ?o)" "up_path ?v dest ts (bid ?n)"
      "seVisited se = set (us @ [bid ?o]) \<union> set (ts @ [bid ?n])" "set (us @ [bid ?o]) \<inter> set (ts @ [bid ?n]) = {}"
      "ts \<noteq> [] \<Longrightarrow> ibHeight ?o \<le> ibHeight ?n + 1"
    using inv unfolding search_inv_def by blast+
  obtain p where p: "queryBlock env (ldDB l) (contents (ibPreHash ?o)) True = Ok p" "stored_block env l p" "bid p = contents (ibPreHash ?o)" "ibHeight p = ibHeight ?o - 1"
    using pre_block [OF tree bodies I(3)] go by blast
  have path: "up_path ?v cur (us @ [bid ?o]) (bid p)" using up_path_snoc [OF I(6) stored_view [OF I(3)]] p(3) by simp
  show ?thesis
  proof (cases "bid p \<in> seVisited se")
    case True
    have e: "bid p = bid ?n"
      by (rule meets_end [OF tree stored_view [OF I(3)] stored_view [OF I(4)] I(6,7) stored_view [OF p(2)]])
        (use True p(4) I(1,2,8,10) go in auto)
    have ne: "seUndo se \<noteq> []" "seTodo se \<noteq> []" using I(1,2) by auto
    then have "bid (last (seUndo se)) = bid ?o" "bid (last (seTodo se)) = bid ?n"
      using I(1,2) last_map [of "seUndo se" bid] last_map [of "seTodo se" bid] by simp_all
    moreover have "bid ?o \<noteq> bid ?n" using I(1,2,9) by auto
    ultimately have d: "dropSplit (ibBlockid p) (seUndo se) = seUndo se" "dropSplit (ibBlockid p) (seTodo se) = butlast (seTodo se)"
      using e by (simp_all add: dropSplit_def bytes_equal_def)
    have "map bid (butlast (seTodo se)) = ts" using I(2) by (simp add: map_butlast)
    then have "search_done env l cur dest (seUndo se) (butlast (seTodo se))"
      unfolding search_done_def using path I(1,5,7,9) e stored_view [OF I(4)] by (auto dest: in_set_butlastD)
    then show ?thesis using d True p(1) go by (auto simp: searchOld_def)
  next
    case False
    then have "search_inv env l cur dest (se\<lparr>seOldTip := p, seVisited := insert (bid p) (seVisited se), seUndo := seUndo se @ [p]\<rparr>) (us @ [bid ?o]) ts"
      using I p(2,4) path go unfolding search_inv_def by auto
    then show ?thesis using False p(1,4) go by (auto simp: searchOld_def)
  qed
next
  case False
  then show ?thesis by (auto simp: searchOld_def)
qed

text \<open>The other side is the same with the ends exchanged.\<close>

definition swap_ends :: "Search \<Rightarrow> Search" where
  "swap_ends se = \<lparr>seOldTip = seNewTip se, seNewTip = seOldTip se, seUndo = seTodo se, seTodo = seUndo se, seVisited = seVisited se\<rparr>"

lemma swap_ends_simps [simp]:
  "seOldTip (swap_ends se) = seNewTip se" "seNewTip (swap_ends se) = seOldTip se" "seUndo (swap_ends se) = seTodo se"
  "seTodo (swap_ends se) = seUndo se" "swap_ends (swap_ends se) = se"
  by (simp_all add: swap_ends_def)

lemma searchNew_swap: "searchNew env db se = bind_result (searchOld env db (swap_ends se)) (\<lambda>(se1, s). Ok (swap_ends se1, s))"
  by (cases "queryBlock env db (contents (ibPreHash (seNewTip se))) True") (auto simp: searchNew_def searchOld_def swap_ends_def)

lemma search_inv_swap: "search_inv env l dest cur (swap_ends se) ts us \<longleftrightarrow> search_inv env l cur dest se us ts"
  by (auto simp: search_inv_def swap_ends_def)

lemma search_done_swap: "search_done env l dest cur todo undo \<longleftrightarrow> search_done env l cur dest undo todo"
  by (auto simp: search_done_def)

lemma searchNew_ok:
  assumes tree: "tree_ok rt (V env (l, []))" and bodies: "bodies_ok env l" and inv: "search_inv env l cur dest se us ts"
  shows "(searchNew env (ldDB l) se = Ok (se, None) \<and> \<not> (contents (ibPreHash (seNewTip se)) \<noteq> [] \<and> ibHeight (seOldTip se) \<le> ibHeight (seNewTip se)))
    \<or> (\<exists>se1 s. searchNew env (ldDB l) se = Ok (se1, Some s) \<and> search_done env l cur dest (dropSplit s (seUndo se1)) (dropSplit s (seTodo se1)))
    \<or> (\<exists>se1 ts1. searchNew env (ldDB l) se = Ok (se1, None) \<and> search_inv env l cur dest se1 us ts1
        \<and> ibHeight (seNewTip se1) = ibHeight (seNewTip se) - 1 \<and> seOldTip se1 = seOldTip se)"
proof -
  have i: "search_inv env l dest cur (swap_ends se) ts us" using inv by (simp add: search_inv_swap)
  from searchOld_ok [OF tree bodies i] show ?thesis
  proof (elim disjE exE conjE)
    fix se1 s assume "searchOld env (ldDB l) (swap_ends se) = Ok (se1, Some s)" "search_done env l dest cur (dropSplit s (seUndo se1)) (dropSplit s (seTodo se1))"
    then have "searchNew env (ldDB l) se = Ok (swap_ends se1, Some s) \<and> search_done env l cur dest (dropSplit s (seUndo (swap_ends se1))) (dropSplit s (seTodo (swap_ends se1)))"
      by (simp add: searchNew_swap search_done_swap)
    then show ?thesis by blast
  next
    fix se1 us1 assume *: "searchOld env (ldDB l) (swap_ends se) = Ok (se1, None)" "search_inv env l dest cur se1 us1 us"
        "ibHeight (seOldTip se1) = ibHeight (seOldTip (swap_ends se)) - 1" "seNewTip se1 = seNewTip (swap_ends se)"
    then have "searchNew env (ldDB l) se = Ok (swap_ends se1, None) \<and> search_inv env l cur dest (swap_ends se1) us us1
        \<and> ibHeight (seNewTip (swap_ends se1)) = ibHeight (seNewTip se) - 1 \<and> seOldTip (swap_ends se1) = seOldTip se"
      using search_inv_swap [of env l cur dest "se1" us us1] by (simp add: searchNew_swap)
    then show ?thesis by blast
  qed (simp add: searchNew_swap)
qed

definition ends_height :: "Search \<Rightarrow> nat" where
  "ends_height se = nat (ibHeight (seOldTip se) + ibHeight (seNewTip se))"

lemma search_inv_ends: "search_inv env l cur dest se us ts \<Longrightarrow> stored_block env l (seOldTip se) \<and> stored_block env l (seNewTip se) \<and> bid (seOldTip se) \<noteq> bid (seNewTip se)"
  unfolding search_inv_def by auto

lemma searchRound_ok:
  assumes tree: "tree_ok rt (V env (l, []))" and bodies: "bodies_ok env l" and inv: "search_inv env l cur dest se us ts"
  shows "(\<exists>se1 s. searchRound env (ldDB l) rb se = Ok (se1, Some s) \<and> search_done env l cur dest (dropSplit s (seUndo se1)) (dropSplit s (seTodo se1)))
    \<or> (\<exists>se1 us1 ts1. searchRound env (ldDB l) rb se = Ok (se1, None) \<and> search_inv env l cur dest se1 us1 ts1 \<and> ends_height se1 < ends_height se)"
proof -
  let ?o = "seOldTip se" and ?n = "seNewTip se"
  have st: "stored_block env l ?o" "stored_block env l ?n" "bid ?o \<noteq> bid ?n" using search_inv_ends [OF inv] by auto
  have hs: "0 \<le> ibHeight ?o" "0 \<le> ibHeight ?n" using stored_height [OF tree] st by auto
  have one: "\<not> (contents (ibPreHash ?o) = [] \<and> contents (ibPreHash ?n) = [])" using not_root_pre [OF tree] st by metis
  have roots: "contents (ibPreHash b) = [] \<Longrightarrow> ibHeight b = 0" if "stored_block env l b" for b using not_root_pre [OF tree that] by simp
  from searchOld_ok [OF tree bodies inv] show ?thesis
  proof (elim disjE exE conjE)
    assume o1: "searchOld env (ldDB l) se = Ok (se, None)" and stay: "\<not> (contents (ibPreHash ?o) \<noteq> [] \<and> ibHeight ?n \<le> ibHeight ?o)"
    have mv: "contents (ibPreHash ?n) \<noteq> [] \<and> ibHeight ?o \<le> ibHeight ?n"
      using stay one roots [OF st(1)] roots [OF st(2)] hs by auto
    from searchNew_ok [OF tree bodies inv] show ?thesis
    proof (elim disjE exE conjE)
      fix se1 ts1 assume *: "searchNew env (ldDB l) se = Ok (se1, None)" "search_inv env l cur dest se1 us ts1"
        "ibHeight (seNewTip se1) = ibHeight ?n - 1" "seOldTip se1 = ?o"
      moreover have "0 \<le> ibHeight (seNewTip se1)" using stored_height [OF tree] search_inv_ends [OF *(2)] by blast
      then have "ends_height se1 < ends_height se" using *(3,4) hs by (simp add: ends_height_def)
      ultimately show ?thesis using o1 one by (auto simp: searchRound_def)
    qed (use mv o1 in \<open>auto simp: searchRound_def\<close>)
  next
    fix se1 us1 assume *: "searchOld env (ldDB l) se = Ok (se1, None)" "search_inv env l cur dest se1 us1 ts"
      "ibHeight (seOldTip se1) = ibHeight ?o - 1" "seNewTip se1 = ?n"
    have h1: "0 \<le> ibHeight (seOldTip se1)" using stored_height [OF tree] search_inv_ends [OF *(2)] by blast
    have less: "ends_height se1 < ends_height se" using *(3,4) hs h1 by (simp add: ends_height_def)
    from searchNew_ok [OF tree bodies *(2)] show ?thesis
    proof (elim disjE exE conjE)
      fix se2 ts1 assume **: "searchNew env (ldDB l) se1 = Ok (se2, None)" "search_inv env l cur dest se2 us1 ts1"
        "ibHeight (seNewTip se2) = ibHeight (seNewTip se1) - 1" "seOldTip se2 = seOldTip se1"
      have "ends_height se2 \<le> ends_height se1" using **(3,4) by (simp add: ends_height_def)
      then show ?thesis using * ** one less by (auto simp: searchRound_def)
    qed (use * one less in \<open>auto simp: searchRound_def\<close>)
  qed (auto simp: searchRound_def)
qed

lemma searchLoop_ok:
  assumes tree: "tree_ok rt (V env (l, []))" and bodies: "bodies_ok env l"
  shows "search_inv env l cur dest se us ts \<Longrightarrow>
    \<exists>se1 s. searchLoop env (ldDB l) rb se = Some (Ok (se1, s)) \<and> search_done env l cur dest (dropSplit s (seUndo se1)) (dropSplit s (seTodo se1))"
proof (induction "ends_height se" arbitrary: se us ts rule: less_induct)
  case less
  from searchRound_ok [OF tree bodies less.prems, of rb] show ?case
  proof (elim disjE exE conjE)
    fix se1 us1 ts1 assume *: "searchRound env (ldDB l) rb se = Ok (se1, None)" "search_inv env l cur dest se1 us1 ts1" "ends_height se1 < ends_height se"
    show ?thesis using less.hyps [OF *(3,2)] *(1) by (simp add: searchLoop.simps [of env "ldDB l" rb se])
  qed (auto simp: searchLoop.simps [of env "ldDB l" rb se])
qed

text \<open>
  C37: When every stored block can be read with its transactions, the search for the blocks between two blocks
  of the ledger ends and gives exactly these: the blocks to undo lead from the current block back
  to a common ancestor, those to apply lead from the destination back to the same ancestor, no block is in both, and each
  is the stored block.
\<close>

theorem undo_and_todo_meet:
  assumes "ledger_inv env rt l" and "bodies_ok env l" and "ExistBlock cur l" and "ExistBlock dest l"
  shows "\<exists>undo todo. FindUndoAndTodoBlocks env cur dest l = Some (Ok (undo, todo)) \<and> search_done env l cur dest undo todo"
proof (cases "cur = dest")
  case True
  moreover have "V env (l, []) cur \<noteq> None" using assms(2,3) queryBlock_view unfolding bodies_ok_def by blast
  ultimately show ?thesis by (auto simp: FindUndoAndTodoBlocks_def search_done_def)
next
  case False
  have tree: "tree_ok rt (V env (l, []))" using assms(1) by (simp add: ledger_inv_def)
  obtain b where b: "queryBlock env (ldDB l) cur True = Ok b" "bid b = cur"
    using bodies_query [OF assms(2) tree] assms(2,3) queryBlock_view unfolding bodies_ok_def by metis
  obtain c where c: "queryBlock env (ldDB l) dest True = Ok c" "bid c = dest"
    using bodies_query [OF assms(2) tree] assms(2,4) queryBlock_view unfolding bodies_ok_def by metis
  let ?se = "\<lparr>seOldTip = b, seNewTip = c, seUndo = [b], seTodo = [c], seVisited = {bid b, bid c}\<rparr>"
  have "search_inv env l cur dest ?se [] []" using b c False by (auto simp: search_inv_def stored_block_def)
  from searchLoop_ok [OF tree assms(2) this] show ?thesis using b c False by (fastforce simp: FindUndoAndTodoBlocks_def)
qed

lemma demo_bodies: "bodies_ok demoEnv (ledgerOf demo3)"
proof -
  let ?l = "ledgerOf demo3"
  have k: "filter (\<lambda>k. take 1 k = ''B'') (map fst (ldDB ?l)) = [''Br'', ''Ba'', ''Bb'', ''Bc'']" by (simp add: demo3_db)
  have "i \<in> {''r'', ''a'', ''b'', ''c''}" if "ExistBlock i ?l" for i
  proof -
    have "''B'' @ i \<in> set (map fst (ldDB ?l))"
      using that by (auto simp: ExistBlock_def tableGet_def kvGet_def BlocksTablePrefix_def map_of_eq_None_iff)
    then have "''B'' @ i \<in> set (filter (\<lambda>k. take 1 k = ''B'') (map fst (ldDB ?l)))" by simp
    then show ?thesis unfolding k by simp
  qed
  moreover have "is_ok (queryBlock demoEnv (ldDB ?l) ''r'' True)" "is_ok (queryBlock demoEnv (ldDB ?l) ''a'' True)"
      "is_ok (queryBlock demoEnv (ldDB ?l) ''b'' True)" "is_ok (queryBlock demoEnv (ldDB ?l) ''c'' True)"
    unfolding demo3_db by code_simp+
  then have "\<exists>b. queryBlock demoEnv (ldDB ?l) i True = Ok b" if "i \<in> {''r'', ''a'', ''b'', ''c''}" for i
    using that by (auto elim!: is_ok.elims)
  ultimately show ?thesis unfolding bodies_ok_def by blast
qed

theorem undo_and_todo_meet_witness:
  "\<exists>undo todo. FindUndoAndTodoBlocks demoEnv ''a'' ''c'' (ledgerOf demo3) = Some (Ok (undo, todo)) \<and> search_done demoEnv (ledgerOf demo3) ''a'' ''c'' undo todo"
proof -
  have e: "ExistBlock ''a'' (ledgerOf demo3)" "ExistBlock ''c'' (ledgerOf demo3)" unfolding ExistBlock_def demo3_db by code_simp+
  show ?thesis by (rule undo_and_todo_meet [OF ledger_reach_inv [OF demo_reach demo_codec] demo_bodies e])
qed

end
