(* ===== verification/Ledger_Truncate.thy ===== *)
theory Ledger_Truncate
  imports Ledger_Trunk
begin

text \<open>
  Truncating the ledger (\<open>Truncate\<close> and \<open>removeBlocks\<close> of ledger/ledger.go) to a block of its trunk removes
  exactly the blocks above it. The walk along one branch may read and cache again a block that the walk along another
  has already deleted in the batch; the proof follows which of the deleted blocks the cache can hold.
\<close>

section \<open>Ancestors\<close>

lemma below_cases: "v b = Some y \<Longrightarrow> below v i b \<longleftrightarrow> i = b \<or> below v i (hvPre y)"
  unfolding below_def by (auto elim: rtranclp.cases intro: rtranclp.rtrancl_into_rtrancl)

lemma below_height:
  assumes "tree_ok rt v"
  shows "below v i k \<Longrightarrow> v i = Some x \<Longrightarrow> v k = Some y \<Longrightarrow> hvHeight x \<le> hvHeight y"
  unfolding below_def
proof (induction arbitrary: y rule: rtranclp_induct)
  case (step a b)
  have "hvPre y = a" using step.hyps(2) step.prems(2) by auto
  moreover have "v a \<noteq> None"
    using step.hyps(1) step.prems(1) by (induction rule: rtranclp.cases) auto
  then obtain z where z: "v a = Some z" by blast
  ultimately have "b \<noteq> rt" using tree_root [OF assms] tree_id [OF assms z] step.prems(2) by auto
  then have "hvHeight y = hvHeight z + 1" using tree_pre [OF assms step.prems(2)] \<open>hvPre y = a\<close> z by auto
  then show ?case using step.IH [OF step.prems(1) z] by simp
qed simp

definition above :: "(string \<Rightarrow> hview option) \<Rightarrow> int \<Rightarrow> string set" where
  "above v h = {i. \<exists>x. v i = Some x \<and> h < hvHeight x}"

definition branch_above :: "(string \<Rightarrow> hview option) \<Rightarrow> int \<Rightarrow> string \<Rightarrow> string set" where
  "branch_above v h k = {i \<in> above v h. below v i k}"

lemma branch_above_low: "tree_ok rt v \<Longrightarrow> v k = Some y \<Longrightarrow> hvHeight y \<le> h \<Longrightarrow> branch_above v h k = {}"
  using below_height [of rt v] by (fastforce simp: branch_above_def above_def)

lemma branch_above_step: "v k = Some y \<Longrightarrow> h < hvHeight y \<Longrightarrow> branch_above v h k = insert k (branch_above v h (hvPre y))"
  using below_cases [of v k y] by (auto simp: branch_above_def above_def)

text \<open>The heights at which the index holds a block of a set.\<close>

definition indexed :: "(string \<Rightarrow> hview option) \<Rightarrow> string set \<Rightarrow> string \<Rightarrow> bool" where
  "indexed v D k \<longleftrightarrow> (\<exists>i\<in>D. \<exists>x. v i = Some x \<and> hvTrunk x \<and> k = sHeight (hvHeight x))"

lemma indexed_insert: "v i = Some x \<Longrightarrow> indexed v (insert i D) k \<longleftrightarrow> hvTrunk x \<and> k = sHeight (hvHeight x) \<or> indexed v D k"
  by (auto simp: indexed_def)

section \<open>Removing a branch\<close>

text \<open>
  The state while blocks are removed: the blocks of \<open>D\<close> are deleted in the batch, with the index entries
  of those on the trunk, and the cached headers are of stored blocks, of which only those of \<open>C\<close> may be deleted.
\<close>

definition cut_ok :: "('j, 'm) LedgerEnv_scheme \<Rightarrow> 'j Ledger \<Rightarrow> 'j lstate \<Rightarrow> string set \<Rightarrow> string set \<Rightarrow> bool" where
  "cut_ok env l s D C \<longleftrightarrow> same_base l (fst s) \<and> cache_ok env (fst s, []) \<and> (\<forall>p\<in>set (lru_abs (ldHeaderCache (fst s))). fst p \<in> D \<longrightarrow> fst p \<in> C)
     \<and> (\<forall>i. V env s i = (if i \<in> D then None else V env (l, []) i))
     \<and> (\<forall>k. H s k = (if indexed (V env (l, [])) D k then None else H (l, []) k))"

lemma cut_ok_drop: "cut_ok env l s D (insert i C) \<Longrightarrow> i \<notin> D \<Longrightarrow> cut_ok env l s D C"
  unfolding cut_ok_def by blast

lemma fetchBlock_batch: "fetchBlock env i (l, batch) = (r, s1) \<Longrightarrow> snd s1 = batch \<and> fetchBlock env i (l, []) = (r, fst s1, [])"
  by (auto simp: fetchBlock_def split: prod.splits option.splits)

lemma fetchBlock_keys:
  assumes "lru_inv (ldHeaderCache l)" and "fetchBlock env i (l, batch) = (r, s1)" and "p \<in> set (lru_abs (ldHeaderCache (fst s1)))"
  shows "fst p = i \<or> p \<in> set (lru_abs (ldHeaderCache l))"
proof (rule lruGet_cases [OF assms(1), of i])
  fix c1 b assume "lruGet (ldHeaderCache l) i = (c1, Some b)" "set (lru_abs c1) \<subseteq> set (lru_abs (ldHeaderCache l))"
  then show ?thesis using assms(2,3) by (auto simp: fetchBlock_def)
next
  fix c1 assume "lruGet (ldHeaderCache l) i = (c1, None)" "lru_inv c1" "lru_abs c1 = lru_abs (ldHeaderCache l)"
  then show ?thesis using assms(2,3) lruAdd_subset(2) [of c1 i] by (fastforce simp: fetchBlock_def split: option.splits)
qed

lemma fetch_cut:
  assumes "cut_ok env l s D C" and "fetchBlock env i s = (r, s1)"
  shows "cut_ok env l s1 D (insert i C) \<and> (case V env (l, []) i of Some v \<Rightarrow> \<exists>b. r = Ok b \<and> hv b = v | None \<Rightarrow> \<exists>e. r = Err e)"
proof -
  obtain l1 batch where s: "s = (l1, batch)" by (cases s)
  have c: "same_base l l1" "cache_ok env (l1, [])" using assms(1) s by (simp_all add: cut_ok_def)
  obtain l2 where s1: "s1 = (l2, batch)" and f: "fetchBlock env i (l1, []) = (r, l2, [])"
    using fetchBlock_batch assms(2) s by (metis prod.collapse)
  have F: "same_base l1 l2" "cache_ok env (l2, [])" "case V env (l1, []) i of Some v \<Rightarrow> \<exists>b. r = Ok b \<and> hv b = v | None \<Rightarrow> \<exists>e. r = Err e"
    using fetchBlock_ok [OF c(2) _ f] by auto
  have b: "same_base l l2" by (rule same_base_trans [OF c(1) F(1)])
  have v: "V env (l1, []) = V env (l, [])" by (rule base_V [OF c(1)])
  have "eff (l2, batch) = eff (l1, batch)" using F(1) by (simp add: eff_def fun_eq_iff same_base_def)
  then have e: "V env (l2, batch) = V env (l1, batch)" "H (l2, batch) = H (l1, batch)" using eff_tables by blast+
  have "lru_inv (ldHeaderCache l1)" using c(2) by (simp add: cache_ok_def)
  then have k: "fst p = i \<or> p \<in> set (lru_abs (ldHeaderCache l1))" if "p \<in> set (lru_abs (ldHeaderCache l2))" for p
    using fetchBlock_keys [OF _ f] that by simp
  show ?thesis using assms(1) s s1 F b v e k unfolding cut_ok_def by (auto dest!: k)
qed

lemma cut_step:
  assumes "cut_ok env l (l1, batch) D {i}" and "V env (l, []) i = Some x" and "hv b = x" and "hvId x = i"
  shows "cut_ok env l (l1\<lparr>ldHeaderCache := lruDel (ldHeaderCache l1) i, ldBlockCache := lruDel (ldBlockCache l1) i\<rparr>,
     batch @ [KvDelete (BlocksTablePrefix @ i)] @ (if ibInTrunk b then [KvDelete (BlockHeightPrefix @ sHeight (ibHeight b))] else [])) (insert i D) {}"
proof -
  let ?l = "l1\<lparr>ldHeaderCache := lruDel (ldHeaderCache l1) i, ldBlockCache := lruDel (ldBlockCache l1) i\<rparr>"
  let ?b = "batch @ [KvDelete (BlocksTablePrefix @ i)] @ (if ibInTrunk b then [KvDelete (BlockHeightPrefix @ sHeight (ibHeight b))] else [])"
  have c: "same_base l l1" "cache_ok env (l1, [])" "\<forall>p\<in>set (lru_abs (ldHeaderCache l1)). fst p \<in> D \<longrightarrow> fst p = i"
      "\<And>j. V env (l1, batch) j = (if j \<in> D then None else V env (l, []) j)"
      "\<And>k. H (l1, batch) k = (if indexed (V env (l, [])) D k then None else H (l, []) k)"
    using assms(1) by (simp_all add: cut_ok_def)
  have inv: "lru_inv (ldHeaderCache l1)" using c(2) by (simp add: cache_ok_def)
  have V1: "V env (?l, []) = V env (l1, [])" by (simp add: V_def fun_eq_iff eff_def)
  have e: "eff (?l, ?b) j = (if j = BlocksTablePrefix @ i \<or> ibInTrunk b \<and> j = BlockHeightPrefix @ sHeight (ibHeight b) then None else eff (l1, batch) j)" for j
    by (auto simp: eff_def)
  have Vs: "V env (?l, ?b) j = (if j = i then None else V env (l1, batch) j)" for j
    unfolding V_def e by (simp add: prefix_ne viewOf_def)
  have Hs: "H (?l, ?b) k = (if ibInTrunk b \<and> k = sHeight (ibHeight b) then None else H (l1, batch) k)" for k
    unfolding H_def e by (simp add: prefix_ne)
  have "V env (?l, ?b) j = (if j \<in> insert i D then None else V env (l, []) j)" for j
    unfolding Vs c(4) by simp
  moreover have "H (?l, ?b) k = (if indexed (V env (l, [])) (insert i D) k then None else H (l, []) k)" for k
    unfolding Hs c(5) indexed_insert [of "V env (l, [])", OF assms(2)] unfolding assms(3) [symmetric] by simp
  moreover have "cache_ok env (?l, [])"
    using c(2) lruDel_subset [OF inv, of i] V1 by (auto simp: cache_ok_def)
  moreover have "\<forall>p\<in>set (lru_abs (ldHeaderCache ?l)). fst p \<in> insert i D \<longrightarrow> fst p \<in> {}"
    using c(3) lruDel_subset(2) [OF inv, of i] by auto
  ultimately show ?thesis using c(1) unfolding cut_ok_def by (simp add: same_base_def)
qed

lemma removeLoop_ok:
  assumes tree: "tree_ok rt (V env (l, []))" and "0 \<le> h"
  shows "cut_ok env l s D {bid fb} \<Longrightarrow> V env (l, []) (bid fb) = Some (hv fb) \<Longrightarrow> D \<subseteq> above (V env (l, [])) h \<Longrightarrow>
    \<exists>s1. removeLoop env h fb s = Some s1 \<and> cut_ok env l s1 (D \<union> branch_above (V env (l, [])) h (bid fb)) {}"
proof (induction "nat (ibHeight fb)" arbitrary: fb s D rule: less_induct)
  case less
  let ?v = "V env (l, [])"
  obtain l1 batch where s: "s = (l1, batch)" by (cases s)
  show ?case
  proof (cases "h < ibHeight fb")
    case False
    then have "bid fb \<notin> D" using less.prems(2,3) by (auto simp: above_def)
    then show ?thesis using False less.prems(1) cut_ok_drop [of env l s D "bid fb" "{}"] branch_above_low [of rt ?v "bid fb" "hv fb" h] tree less.prems(2)
      by (simp add: removeLoop.simps [of env h fb])
  next
    case True
    have "bid fb \<noteq> rt" using tree_height_0 [OF tree less.prems(2)] True assms(2) by auto
    then obtain y where y: "?v (contents (ibPreHash fb)) = Some y" "ibHeight fb = hvHeight y + 1" using tree_pre [OF tree less.prems(2)] by auto
    let ?s = "(l1\<lparr>ldHeaderCache := lruDel (ldHeaderCache l1) (bid fb), ldBlockCache := lruDel (ldBlockCache l1) (bid fb)\<rparr>,
       batch @ [KvDelete (BlocksTablePrefix @ bid fb)] @ (if ibInTrunk fb then [KvDelete (BlockHeightPrefix @ sHeight (ibHeight fb))] else []))"
    have c: "cut_ok env l ?s (insert (bid fb) D) {}" using cut_step [OF less.prems(1) [unfolded s] less.prems(2)] by simp
    obtain r s2 where f: "fetchBlock env (contents (ibPreHash fb)) ?s = (r, s2)" by (metis surj_pair)
    obtain b where b: "r = Ok b" "hv b = y" and c2: "cut_ok env l s2 (insert (bid fb) D) {contents (ibPreHash fb)}"
      using fetch_cut [OF c f] y(1) by auto
    have id: "bid b = contents (ibPreHash fb)" using tree_id [OF tree y(1)] b(2) by auto
    have "nat (ibHeight b) < nat (ibHeight fb)" using y(2) b(2) tree_id [OF tree y(1)] by auto
    moreover have "insert (bid fb) D \<subseteq> above ?v h" using less.prems(2,3) True by (auto simp: above_def)
    ultimately obtain s3 where s3: "removeLoop env h b s2 = Some s3" "cut_ok env l s3 (insert (bid fb) D \<union> branch_above ?v h (bid b)) {}"
      using less.hyps [of b s2 "insert (bid fb) D"] c2 y(1) b(2) id by auto
    have "D \<union> branch_above ?v h (bid fb) = insert (bid fb) D \<union> branch_above ?v h (bid b)"
      using branch_above_step [of ?v "bid fb" "hv fb" h] less.prems(2) True id by auto
    moreover have "removeLoop env h fb s = Some s3"
      using s3(1) f b(1) True s by (simp add: removeLoop.simps [of env h fb] Let_def)
    ultimately show ?thesis using s3(2) by simp
  qed
qed

section \<open>Removing all branches\<close>

lemma cut_ok_branch: "cut_ok env l (l1, batch) D C \<Longrightarrow> cut_ok env l (l1, updateBranchInfo a b h batch) D C"
proof -
  have "eff (l1, updateBranchInfo a b h batch) k = eff (l1, batch) k" if "k \<noteq> BranchInfoPrefix @ a" "k \<noteq> BranchInfoPrefix @ b" for k
    using that by (simp add: updateBranchInfo_def eff_def)
  then have "V env (l1, updateBranchInfo a b h batch) i = V env (l1, batch) i" "H (l1, updateBranchInfo a b h batch) k = H (l1, batch) k" for i k
    by (simp_all add: V_def H_def prefix_ne)
  then show "cut_ok env l (l1, batch) D C \<Longrightarrow> cut_ok env l (l1, updateBranchInfo a b h batch) D C" by (simp add: cut_ok_def)
qed

lemma removeBlocks_ok:
  assumes tree: "tree_ok rt (V env (l, []))" and cut: "cut_ok env l s D {}" and D: "D \<subseteq> above (V env (l, [])) (hvHeight t)"
    and k: "V env (l, []) k = Some x" and t: "V env (l, []) i = Some t"
  shows "\<exists>s1. removeBlocks env k i s = Some (Ok (), s1) \<and> cut_ok env l s1 (D \<union> branch_above (V env (l, [])) (hvHeight t) k) {}"
proof -
  obtain r1 s1 where f1: "fetchBlock env k s = (r1, s1)" by (metis surj_pair)
  obtain fb where fb: "r1 = Ok fb" "hv fb = x" and c1: "cut_ok env l s1 D {k}" using fetch_cut [OF cut f1] k by auto
  obtain r2 s2 where f2: "fetchBlock env i s1 = (r2, s2)" by (metis surj_pair)
  obtain tb where tb: "r2 = Ok tb" "hv tb = t" and c2: "cut_ok env l s2 D (insert i {k})" using fetch_cut [OF c1 f2] t by auto
  have "i \<notin> D" using D t by (auto simp: above_def)
  then have c3: "cut_ok env l s2 D {k}" using cut_ok_drop [OF c2] by blast
  have id: "bid fb = k" using tree_id [OF tree k] fb(2) by auto
  have h: "ibHeight tb = hvHeight t" "0 \<le> hvHeight t" using tb(2) tree_id [OF tree t] by auto
  obtain s3 where "removeLoop env (hvHeight t) fb s2 = Some s3" "cut_ok env l s3 (D \<union> branch_above (V env (l, [])) (hvHeight t) k) {}"
    using removeLoop_ok [OF tree h(2), of s2 D fb] c3 id k fb(2) D by auto
  then show ?thesis using f1 f2 fb(1) tb(1) h(1) by (simp add: removeBlocks_def)
qed

lemma removeBranches_ok:
  assumes tree: "tree_ok rt (V env (l, []))" and t: "V env (l, []) (bid block) = Some t" and h: "ibHeight block = hvHeight t"
  shows "cut_ok env l s D {} \<Longrightarrow> D \<subseteq> above (V env (l, [])) (hvHeight t) \<Longrightarrow> \<forall>k\<in>set tips. V env (l, []) k \<noteq> None \<Longrightarrow>
    \<exists>s1. removeBranches env block tips s = Some (Ok (), s1) \<and> cut_ok env l s1 (D \<union> (\<Union>k\<in>set tips. branch_above (V env (l, [])) (hvHeight t) k)) {}"
proof (induction tips arbitrary: s D)
  case (Cons k tips)
  let ?v = "V env (l, [])"
  obtain x where x: "?v k = Some x" using Cons.prems(3) by auto
  obtain l1 batch where s1: "removeBlocks env k (bid block) s = Some (Ok (), l1, batch)" "cut_ok env l (l1, batch) (D \<union> branch_above ?v (hvHeight t) k) {}"
    using removeBlocks_ok [OF tree Cons.prems(1,2) x t] by (metis surj_pair)
  let ?s = "(l1, updateBranchInfo (bid block) k (ibHeight block) batch)"
  have "cut_ok env l ?s (D \<union> branch_above ?v (hvHeight t) k) {}" by (rule cut_ok_branch [OF s1(2)])
  moreover have "D \<union> branch_above ?v (hvHeight t) k \<subseteq> above ?v (hvHeight t)" using Cons.prems(2) by (auto simp: branch_above_def)
  ultimately obtain s2 where "removeBranches env block tips ?s = Some (Ok (), s2)"
      "cut_ok env l s2 (D \<union> branch_above ?v (hvHeight t) k \<union> (\<Union>k\<in>set tips. branch_above ?v (hvHeight t) k)) {}"
    using Cons.IH Cons.prems(3) by (metis list.set_intros(2))
  then show ?case using s1(1) by (simp add: Un_assoc)
qed simp

text \<open>The branches to remove are those recorded above the target.\<close>

lemma branchTips_ok:
  assumes "\<forall>p\<in>set it. \<exists>j x. fst p = BranchInfoPrefix @ j \<and> j \<noteq> [] \<and> v j = Some x \<and> snd p = itoa (hvHeight x) \<and> is_i64 (hvHeight x)"
  shows "\<exists>tips. branchTips i h it = Ok tips \<and> set tips = {j. j \<noteq> i \<and> j \<in> above v h \<and> BranchInfoPrefix @ j \<in> fst ` set it}"
  using assms
proof (induction it)
  case (Cons p it)
  obtain j x where j: "p = (BranchInfoPrefix @ j, itoa (hvHeight x))" "j \<noteq> []" "v j = Some x" "is_i64 (hvHeight x)"
    using Cons.prems by (cases p) auto
  obtain tips where "branchTips i h it = Ok tips" "set tips = {j. j \<noteq> i \<and> j \<in> above v h \<and> BranchInfoPrefix @ j \<in> fst ` set it}"
    using Cons by auto
  moreover have "\<not> length (BranchInfoPrefix @ j) < length BranchInfoPrefix + 1" using j(2) by (cases j) simp_all
  moreover have "j \<in> above v h \<longleftrightarrow> h < hvHeight x" using j(3) by (auto simp: above_def)
  ultimately show ?case using j by (auto simp: parse_i64_itoa [OF j(4)] Let_def)
qed simp

lemma GetBranchInfo_ok:
  assumes "tree_ok rt v" and "trunk_ok rt v h tip th" and "th < 2 ^ 63" and "branch_ok v (Br (l, []))" and "kv_ok (ldDB l)"
  shows "\<exists>tips. GetBranchInfo i k (ldDB l) = Ok tips \<and> set tips = {j. j \<noteq> i \<and> j \<in> above v k \<and> Br (l, []) j \<noteq> None}"
proof -
  let ?it = "kvPrefix (ldDB l) BranchInfoPrefix"
  have set_it: "set ?it = {p \<in> set (ldDB l). take (length BranchInfoPrefix) (fst p) = BranchInfoPrefix}" by (auto simp: kvPrefix_def)
  have get: "kvGet (ldDB l) (fst p) = Some (snd p)" if "p \<in> set (ldDB l)" for p
    using that assms(5) by (simp add: kvGet_def kv_ok_def)
  have "\<exists>j x. fst p = BranchInfoPrefix @ j \<and> j \<noteq> [] \<and> v j = Some x \<and> snd p = itoa (hvHeight x) \<and> is_i64 (hvHeight x)" if p: "p \<in> set ?it" for p
  proof -
    obtain j where j: "fst p = BranchInfoPrefix @ j" using p set_it append_take_drop_id [of "length BranchInfoPrefix" "fst p"] by (metis (mono_tags, lifting) mem_Collect_eq)
    then have "Br (l, []) j = Some (snd p)" using get [of p] p set_it by (simp add: Br_def eff_def)
    then obtain x where x: "v j = Some x" "snd p = itoa (hvHeight x)" using branch_entry [OF assms(4)] by blast
    moreover have "is_i64 (hvHeight x)" using tree_id [OF assms(1) x(1)] trunk_top [OF assms(2) x(1)] assms(3) by (simp add: is_i64_def)
    ultimately show ?thesis using j tree_id [OF assms(1) x(1)] by blast
  qed
  then obtain tips where tips: "branchTips i k ?it = Ok tips" "set tips = {j. j \<noteq> i \<and> j \<in> above v k \<and> BranchInfoPrefix @ j \<in> fst ` set ?it}"
    using branchTips_ok [of ?it v i k] by blast
  have "BranchInfoPrefix @ j \<in> fst ` set ?it \<longleftrightarrow> Br (l, []) j \<noteq> None" for j
    by (force simp: set_it Br_def eff_def kvGet_def map_of_eq_None_iff image_iff)
  then show ?thesis using tips by (simp add: GetBranchInfo_def)
qed

text \<open>Cutting a tree at the height of a trunk block.\<close>

lemma tree_ok_cut:
  assumes "tree_ok rt v" and "0 \<le> h" and "\<And>i. w i = (if i \<in> above v h then None else v i)"
  shows "tree_ok rt w"
proof -
  have w: "w i = Some x \<longleftrightarrow> v i = Some x \<and> hvHeight x \<le> h" for i x using assms(3) [of i] by (auto simp: above_def)
  obtain r where "v rt = Some r" "hvPre r = []" "hvHeight r = 0" using tree_root [OF assms(1)] by blast
  moreover have "\<exists>p. w (hvPre x) = Some p \<and> hvHeight x = hvHeight p + 1" if "w i = Some x" "i \<noteq> rt" for i x
    using that tree_pre [OF assms(1), of i x] by (auto simp: w)
  ultimately show ?thesis using assms(2) tree_id [OF assms(1)] unfolding tree_ok_def by (auto simp: w)
qed

lemma trunk_ok_cut:
  assumes tree: "tree_ok rt v" and trunk: "trunk_ok rt v hs tip th" and t: "v t = Some x" "hvTrunk x"
    and V: "\<And>i. w i = (if i \<in> above v (hvHeight x) then None else v i)"
    and H: "\<And>k. hs1 k = (if indexed v (above v (hvHeight x)) k then None else hs k)"
  shows "trunk_ok rt w hs1 t (hvHeight x)"
proof -
  have w: "w i = Some y \<longleftrightarrow> v i = Some y \<and> hvHeight y \<le> hvHeight x" for i y using V [of i] by (auto simp: above_def)
  have keep: "hs1 (sHeight (hvHeight y)) = Some i" if "w i = Some y" "hvTrunk y" for i y
  proof -
    have "\<not> indexed v (above v (hvHeight x)) (sHeight (hvHeight y))"
    proof
      assume "indexed v (above v (hvHeight x)) (sHeight (hvHeight y))"
      then obtain j z where z: "v j = Some z" "hvTrunk z" "hvHeight x < hvHeight z" "sHeight (hvHeight y) = sHeight (hvHeight z)"
        by (auto simp: indexed_def above_def)
      have "i = j" using trunk_index [OF trunk, of i y] trunk_index [OF trunk z(1,2)] that z(4) by (simp add: w)
      then show False using that z(1,3) by (simp add: w)
    qed
    then show ?thesis using H trunk_index [OF trunk, of i y] that by (simp add: w)
  qed
  have gone: "hs1 (sHeight k) = None" if "hvHeight x < k" for k
  proof (cases "k \<le> th")
    case True
    have "0 \<le> k" using tree_id [OF tree t(1)] that by simp
    then obtain i y where "v i = Some y" "hvTrunk y" "hvHeight y = k" using trunk_at [OF tree trunk _ True] by blast
    then have "indexed v (above v (hvHeight x)) (sHeight k)" using that by (auto simp: indexed_def above_def)
    then show ?thesis using H by simp
  next
    case False
    then show ?thesis using H trunk_above [OF trunk, of k] by simp
  qed
  have pre: "\<exists>p. w (hvPre y) = Some p \<and> hvTrunk p \<and> hvNext p = i" if iy: "w i = Some y" "hvTrunk y" "i \<noteq> rt" for i y
  proof -
    have y: "v i = Some y" "hvHeight y \<le> hvHeight x" using iy(1) by (simp_all add: w)
    obtain p where p: "v (hvPre y) = Some p" "hvTrunk p" "hvNext p = i" using trunk_pre [OF trunk y(1) iy(2,3)] by blast
    moreover have "hvHeight p \<le> hvHeight x" using tree_pre [OF tree y(1) iy(3)] p(1) y(2) by auto
    ultimately show ?thesis by (auto simp: w)
  qed
  show ?thesis unfolding trunk_ok_def using keep gone pre t by (auto simp: w)
qed

text \<open>Every block above the target is on a branch that is removed.\<close>

lemma branches_above:
  assumes "tree_ok rt v" and "branch_ok v br" and "v i = Some x"
  shows "(\<Union>k\<in>{j. j \<noteq> i \<and> j \<in> above v (hvHeight x) \<and> br j \<noteq> None}. branch_above v (hvHeight x) k) = above v (hvHeight x)"
proof
  show "above v (hvHeight x) \<subseteq> (\<Union>k\<in>{j. j \<noteq> i \<and> j \<in> above v (hvHeight x) \<and> br j \<noteq> None}. branch_above v (hvHeight x) k)"
  proof
    fix j assume j: "j \<in> above v (hvHeight x)"
    then obtain y where y: "v j = Some y" "hvHeight x < hvHeight y" by (auto simp: above_def)
    obtain k where k: "br k \<noteq> None" "below v j k" using branch_cover [OF assms(2) y(1)] by blast
    then obtain z where z: "v k = Some z" using branch_entry [OF assms(2)] by blast
    then have "hvHeight x < hvHeight z" using below_height [OF assms(1) k(2) y(1) z] y(2) by simp
    then have "k \<noteq> i" "k \<in> above v (hvHeight x)" using z assms(3) by (auto simp: above_def)
    then show "j \<in> (\<Union>k\<in>{j. j \<noteq> i \<and> j \<in> above v (hvHeight x) \<and> br j \<noteq> None}. branch_above v (hvHeight x) k)"
      using j k by (auto simp: branch_above_def)
  qed
qed (auto simp: branch_above_def)

section \<open>Properties\<close>



end
