(* ===== verification/Block_Format.thy ===== *)
theory Block_Format
  imports Ledger_Chain
begin

text \<open>
  Blocks made by a miner (\<open>formatBlock\<close> of ledger/ledger.go) pass the verification of the receiver
  (\<open>VerifyBlock\<close>), and what that verification does not look at.
\<close>

lemma MakeMerkleTree_nonempty: "txs \<noteq> [] \<Longrightarrow> MakeMerkleTree sha256 txs \<noteq> []"
proof -
  assume "txs \<noteq> []"
  then have pos: "0 < length txs" by simp
  obtain k where "length txs \<le> 2 ^ k" "2 ^ k < 2 * length txs" using getLeafSize_power [OF pos] by metis
  then have "length (MakeMerkleTree sha256 txs) = 2 * 2 ^ k - 1" using merkle_root(2) \<open>txs \<noteq> []\<close> by blast
  moreover have "0 < (2::nat) * 2 ^ k - 1" by (simp add: Suc_lessI)
  ultimately show ?thesis by auto
qed

text \<open>The id of a block does not depend on the fields that are set with it and after it.\<close>

lemma MakeBlockID_fields:
  "MakeBlockID sha256 (b\<lparr>ibBlockid := i\<rparr>) = MakeBlockID sha256 b" "MakeBlockID sha256 (b\<lparr>ibSign := s\<rparr>) = MakeBlockID sha256 b"
  "MakeBlockID sha256 (b\<lparr>ibMerkleTree := t\<rparr>) = MakeBlockID sha256 b" "MakeBlockID sha256 (b\<lparr>ibHeight := h\<rparr>) = MakeBlockID sha256 b"
  "MakeBlockID sha256 (b\<lparr>ibInTrunk := n\<rparr>) = MakeBlockID sha256 b" "MakeBlockID sha256 (b\<lparr>ibNextHash := x\<rparr>) = MakeBlockID sha256 b"
  by (simp_all add: MakeBlockID_def blockBuffer_def encodeFailedTxs_def encodeJustify_def)

text \<open>
  The stored Merkle tree, the height, the trunk flag and the next block are neither in the id nor verified:
  the tree of a received block can be anything.
\<close>

lemma VerifyBlock_unchecked:
  "VerifyBlock bc (b\<lparr>ibMerkleTree := t\<rparr>) = VerifyBlock bc b" "VerifyBlock bc (b\<lparr>ibHeight := h\<rparr>) = VerifyBlock bc b"
  "VerifyBlock bc (b\<lparr>ibInTrunk := n\<rparr>) = VerifyBlock bc b" "VerifyBlock bc (b\<lparr>ibNextHash := x\<rparr>) = VerifyBlock bc b"
  by (simp_all add: VerifyBlock_def MakeBlockID_fields VerifyMerkle_def Let_def split: sum.split option.split)

text \<open>What the crypto client promises for a key and the address it belongs to.\<close>

definition key_ok :: "('pk, 'sk, 'm) BlockCrypto_scheme \<Rightarrow> 'sk \<Rightarrow> string \<Rightarrow> bool" where
  "key_ok bc sk address \<longleftrightarrow> (\<forall>js. bcPublicKeyJson bc sk = Some js \<longrightarrow>
     (\<exists>pk. bcPublicKeyFromJson bc js = Some pk \<and> bcVerifyAddress bc address pk
        \<and> (\<forall>m s. bcSign bc sk m = Some s \<longrightarrow> bcVerify bc pk (Some s) (Some m) = Some True)))"

text \<open>
  C39: A block that a miner makes from at least one transaction on a previous block verifies, whatever
  the other fields are, when the key's signatures verify and belong to the proposer's address.
\<close>

theorem formatted_block_verifies:
  assumes "formatBlock bc txs proposer sk timestamp curTerm curBlockNum preHash targetBits True qc failedTxs blockHeight = Ok b"
    and "contents preHash \<noteq> []" and "txs \<noteq> []" and "key_ok bc sk (contents proposer)"
  shows "VerifyBlock bc b \<and> ibTransactions b = txs \<and> ibPreHash b = preHash \<and> ibProposer b = proposer"
proof -
  obtain js where js: "bcPublicKeyJson bc sk = Some js" using assms(1) by (auto simp: formatBlock_def split: option.splits)
  define b0 where "b0 = withTree (MakeMerkleTree (bcSha256 bc) txs) (emptyBlock\<lparr>ibVersion := BlockVersion, ibTransactions := txs, ibTxCount := i32 (int (length txs)),
      ibTimestamp := timestamp, ibProposer := proposer, ibCurTerm := curTerm, ibCurBlockNum := curBlockNum, ibTargetBits := targetBits,
      ibJustify := qc, ibHeight := blockHeight, ibPubkey := Some js, ibPreHash := preHash, ibFailedTxs := failedTxs\<rparr>)"
  obtain s where s: "bcSign bc sk (MakeBlockID (bcSha256 bc) b0) = Some s"
      and b: "b = b0\<lparr>ibBlockid := Some (MakeBlockID (bcSha256 bc) b0), ibSign := Some s\<rparr>"
    using assms(1,2) js by (auto simp: formatBlock_def b0_def Let_def split: option.splits)
  have f: "ibTransactions b0 = txs" "ibPreHash b0 = preHash" "ibProposer b0 = proposer" "ibPubkey b0 = Some js"
      "ibMerkleRoot b0 = last (MakeMerkleTree (bcSha256 bc) txs)"
    using MakeMerkleTree_nonempty [OF assms(3)] by (simp_all add: b0_def withTree_def)
  have id: "MakeBlockID (bcSha256 bc) b = MakeBlockID (bcSha256 bc) b0" by (simp add: b MakeBlockID_fields)
  have "VerifyMerkle (bcSha256 bc) b = Inr ()"
    using MakeMerkleTree_nonempty [OF assms(3), of "bcSha256 bc"] f by (simp add: VerifyMerkle_def b Let_def last_conv_nth bytes_equal_def)
  moreover obtain pk where "bcPublicKeyFromJson bc js = Some pk" "bcVerifyAddress bc (contents proposer) pk"
      "bcVerify bc pk (Some s) (Some (MakeBlockID (bcSha256 bc) b0)) = Some True"
    using assms(4) js s unfolding key_ok_def by blast
  ultimately show ?thesis using f id by (simp add: VerifyBlock_def b)
qed

definition demoCrypto :: "(string, string) BlockCrypto" where
  "demoCrypto = \<lparr>bcSha256 = rev, bcPublicKeyJson = (\<lambda>sk. Some sk), bcSign = (\<lambda>sk m. Some (sk @ m)), bcPublicKeyFromJson = (\<lambda>js. Some js),
     bcVerifyAddress = (\<lambda>a pk. a = pk), bcVerify = (\<lambda>pk s m. Some (contents s = pk @ contents m))\<rparr>"

theorem formatted_block_verifies_witness:
  "\<exists>b. FormatMinerBlock demoCrypto [bare_tx ''x''] (Some ''k'') ''k'' 1 2 3 (Some ''p'') 0 None [] 4 = Ok b \<and> VerifyBlock demoCrypto b"
proof -
  have k: "key_ok demoCrypto ''k'' (contents (Some ''k''))" by (simp add: key_ok_def demoCrypto_def)
  have "\<exists>b. formatBlock demoCrypto [bare_tx ''x''] (Some ''k'') ''k'' 1 2 3 (Some ''p'') 0 True None [] 4 = Ok b"
    by (simp add: formatBlock_def demoCrypto_def Let_def)
  then show ?thesis using formatted_block_verifies [OF _ _ _ k] by (fastforce simp: FormatMinerBlock_def)
qed

end
