(* ===== verification/Ledger_Limits.thy ===== *)
theory Ledger_Limits
  imports Ledger_Demo
begin

text \<open>
  Behaviours of the ledger that its callers must know about, on the small ledger: what a refused block
  leaves behind, what the cache of blocks answers after a switch of the trunk, and what is accepted.
\<close>

text \<open>
  A transaction of a block that has left the trunk is still reported to be in the trunk, as
  the cached block has the flag it had when it was confirmed.
\<close>

lemma IsTxInTrunk_stale:
  "fst (IsTxInTrunk demoEnv ''x'' (ledgerOf demo3))
   \<and> map_option ibInTrunk (Option.bind (tableGet BlocksTablePrefix (ldDB (ledgerOf demo3)) ''a'') (leUnmarshalBlock demoEnv)) = Some False"
  by code_simp

text \<open>A block with two coinbase transactions is refused, and a block on top of it is then accepted on a branch.\<close>

definition twoCoinbase :: "InternalBlock" where
  "twoCoinbase = demoBlock ''d'' ''r'' [(bare_tx ''y'')\<lparr>txCoinbase := True\<rparr>, (bare_tx ''z'')\<lparr>txCoinbase := True\<rparr>]"

definition refused where "refused = ConfirmBlock demoEnv twoCoinbase False (ledgerOf demo3)"
definition afterRefused where "afterRefused = ConfirmBlock demoEnv (demoBlock ''e'' ''d'' []) False (ledgerOf refused)"

lemma child_of_refused_block: "\<not> confirmed_in refused \<and> confirmed_in afterRefused \<and> \<not> ExistBlock ''d'' (ledgerOf afterRefused)"
  by code_simp

text \<open>The same transaction twice in one block is accepted.\<close>

definition twice where "twice = ConfirmBlock demoEnv (demoBlock ''d'' ''r'' [bare_tx ''y'', bare_tx ''y'']) False (ledgerOf demo0)"

lemma transaction_twice_in_block: "confirmed_in twice"
  by code_simp

text \<open>A block whose stored tree is missing, which its id and its verification do not cover, is accepted, and reading it panics.\<close>

definition noTree where "noTree = ConfirmBlock demoEnv ((demoBlock ''d'' ''r'' [bare_tx ''y''])\<lparr>ibMerkleTree := []\<rparr>) False (ledgerOf demo0)"

lemma block_without_tree: "confirmed_in noTree \<and> queryBlock demoEnv (ldDB (ledgerOf noTree)) ''d'' True = Panic"
  by code_simp

text \<open>Truncating twice leaves a block above the new tip, as the first forgets the branch it shortened.\<close>

definition sideBranch where "sideBranch = ConfirmBlock demoEnv (demoBlock ''f'' ''a'' []) False (ledgerOf demo3)"

definition truncatedTo :: "string \<Rightarrow> unit Ledger \<Rightarrow> unit Ledger" where
  "truncatedTo i l = snd (the (Truncate demoEnv (Some i) l))"

lemma truncated_twice:
  "lmTrunkHeight (ldMeta (truncatedTo ''r'' (truncatedTo ''b'' (ledgerOf sideBranch)))) = 0
   \<and> ExistBlock ''a'' (truncatedTo ''r'' (truncatedTo ''b'' (ledgerOf sideBranch)))"
  by code_simp

end
