(* ===== verification/Spec2Isabelle.thy ===== *)
theory Spec2Isabelle
  imports Smr Lru_Cache Utxo_Cache Spin_Lock Merkle_Hash Tdpos_Schedule Acl_Tree Tx_Hash Tx_Verification Utxo_Vm Ledger_Truncate Block_Format Ledger_Limits
begin

text \<open>
  This library verifies parts of a blockchain node written in Go: the chained BFT consensus
  driver, the TDPoS consensus with its contract, the governance token, the ledger's hashes, the
  state with its unspent outputs and versioned contract data, access control, and the
  verification of transactions. Paths below are relative to \<open>src\<close>.

  \<^bold>\<open>How the parts interact.\<close> A transaction is posted to a node, verified
  (\<open>state/tx_verification.go\<close>), executed against the state and kept in the pool. The miner of a slot
  (TDPoS or another consensus) packs transactions into a block, whose id is a hash of its header
  and whose header contains the Merkle root of the transactions. With chained BFT the validators vote on
  blocks and collect certificates. The other nodes verify the transactions of the block and
  execute them; when the trunk changes they undo blocks and execute others.

  \<^bold>\<open>Conventions.\<close> A Go struct is a record, an enum a datatype, a map that is
  ranged over an association list in the order of the range, another map a function to option.
  A byte slice is \<open>slice\<close>, an optional string, because nil and empty slices differ in
  places; \<open>contents\<close> forgets the difference. Fixed-width integers are integers with the wrap-around
  written out (\<open>i64\<close>, \<open>i32\<close>), or words where bits matter. A function that can
  fail returns \<open>result\<close>: \<open>Ok\<close>, \<open>Err\<close> or \<open>Panic\<close>; an index out of range or a nil dereference is
  \<open>Panic\<close>. Code that is not in the repository (crypto clients, hashes, protocol buffer encoding, the
  network, virtual machines, the storage engine) is a parameter, a field of an environment record
  or an argument; what is assumed about it is a named hypothesis of the theorem.

  \<^bold>\<open>Theories.\<close>
    \<^item> \<open>Xuper_Base\<close> is the prelude. \<open>Go_List\<close>, \<open>Go_Bytes\<close>, \<open>Go_Json\<close> and \<open>Go_Float\<close> are what
      the code uses of the standard library; \<open>Kv_Store\<close> is the database with batches and tables;
      \<open>Xledger_Types\<close> holds the messages of the ledger.
    \<^item> \<open>Qc_Tree\<close>, \<open>Safety_Rules\<close>, \<open>Cbft_Crypto\<close>, \<open>P2p_Network\<close>, \<open>Smr\<close> model
      \<open>kernel/consensus/base/driver/chained-bft\<close> and \<open>kernel/network/p2p\<close>. The locale of the certificate
      store is interpreted on the pending tree; the state machine's entry points form a step relation.
      Shown are the invariant of all reachable states, that votes follow their checks, that
      certificates need quorums, quorum intersection, that
      resetting a proposer terminates, round trips of signatures and messages, and delivery.
    \<^item> \<open>Consensus_Common\<close>, \<open>Kernel_Contract\<close>, \<open>Govern_Token\<close>, \<open>Tdpos_Contract\<close>, \<open>Tdpos_Schedule\<close> model the
      token contract, the election contract and the timetable of TDPoS: conservation of the
      supply, locked tokens against ballots, that a vote can be taken back, slots, elections,
      and the search for the block before a term.
    \<^item> \<open>Merkle_Hash\<close> and \<open>Tx_Hash\<close> model the hashes of blocks and transactions: equivalence with
      the recursive definition, and that a hash determines what it covers up to a collision.
    \<^item> \<open>Lru_Cache\<close>, \<open>Utxo_Cache\<close>, \<open>Spin_Lock\<close> are the caches and key locks of the state: a refinement of
      the list ordered by use, bounded size, and mutual exclusion in every interleaving.
    \<^item> \<open>Acl_Tree\<close> evaluates access control lists: the breadth-first tree agrees with the
      recursive definition.
    \<^item> \<open>Xmodel\<close> is the versioned store of the contracts: undoing a block restores every version,
      and a snapshot returns past versions. \<open>snapWalk\<close> is a partial function; that it returns is part
      of the theorem.
    \<^item> \<open>Gas_Limits\<close>, \<open>Tx_Rwset\<close>, \<open>Tx_Verification\<close> verify transactions and blocks: what is spent and
      written was authorised, calls were re-executed and paid for, and a block passes exactly
      when its transactions do.
    \<^item> \<open>Utxo_Vm\<close> is the table of unspent outputs: the check of inputs against outputs, selection with
      temporary locks, cached balances, and the transfers of a running contract. What is selected can
      be spent, and transfers are reproduced from the inputs they used.
    \<^item> \<open>Genesis_Config\<close> is the genesis configuration with its derived values and the award of a
      height (ledger/genesis.go); the cache of awards does not change them.
    \<^item> \<open>Ledger_Chain\<close> is the ledger (ledger/ledger.go and ledger/branch_manage.go): a record of
      the database, the meta data and the caches of blocks, headers and transactions. \<open>ConfirmBlock\<close>
      places a block on the trunk or on a branch, switches the trunk when a branch becomes longer, and
      writes one batch; \<open>FindUndoAndTodoBlocks\<close>, \<open>Truncate\<close>, the queries, \<open>formatBlock\<close> and
      \<open>VerifyBlock\<close> follow. Loops along previous blocks are partial functions, since they need not end in an
      arbitrary database. \<open>Ledger_Demo\<close> instantiates the encodings and makes a small ledger for the
      witnesses.
    \<^item> \<open>Ledger_Trunk\<close> has the invariant of the tree of blocks, its trunk, index, branch records and
      header cache, and shows that every reachable ledger satisfies it, that confirming a block always
      returns, and that the search between two blocks ends with two paths to a common ancestor.
      \<open>Ledger_Truncate\<close> shows what truncation leaves, \<open>Block_Format\<close> that a block as made verifies, and
      \<open>Ledger_Limits\<close> what the ledger accepts or answers that its callers might not expect.
  \<^bold>\<open>Loops and bounds.\<close> Recursion is structural or has a measure, except for the walk
  of a snapshot and the reset of a proposer, which follow pointers of the ledger and are partial
  functions with a theorem that they return. Arithmetic theorems state the bounds under which no
  wrap-around occurs; the state machines have no bound on the number of steps.

  \<^bold>\<open>Defects.\<close> Where the code does not do what it means to, a lemma in the section at
  the end of the theory shows it, and the theorem next to it has the hypothesis that excludes it:
  for instance transfers to oneself, repeated signatures in a
  certificate, forged marks, addresses in the middle of a path.

  \<^bold>\<open>Not modelled.\<close>
    \<^item> Input and output: storage engines, network servers, logging, metrics, configuration files,
      the example programs; generated message code; the contract virtual machines, which run
      third-party engines. There is nothing in them for a functional model but calls into libraries.
    \<^item> The pool, the execution of blocks over the database, the sandbox of
      running contracts, the engine with its miner and synchronisation, and the other consensus
      instances are outside this library; what the modelled parts need from them is a parameter.
    \<^item> Mutexes are not modelled: an operation under a lock is one step. The key locks of the state,
      which have their own protocol, are modelled step by step.
    \<^item> Of the ledger, \<open>UpdateBlockChainData\<close> is left out: it changes a stored transaction through a
      pointer that the caches share. Errors of the database itself, as opposed to missing keys, and heights
      beyond 64 bits are left out as well.
\<close>

end
